(* ===== verification/Prelude.thy ===== *)
theory Prelude
  imports Main "HOL-Library.Word" "HOL-Library.Signed_Division" "HOL-Library.Monad_Syntax"
begin

text \<open>
  Shared vocabulary of the development: Go's integer types, byte strings, times and durations,
  errors as values, UTF-8 validity, and generic lemmas on lists and maps.

  \<^item> \<open>u32\<close>, \<open>u64\<close> are Go's unsigned integers; \<open>i32\<close> is a 32-bit word read through \<open>sint\<close>.
  \<^item> A Go \<open>string\<close> and a \<open>[]byte\<close> are both a HOL \<open>string\<close>: a list of 8-bit characters.
  \<^item> A \<open>time.Time\<close> is the number of nanoseconds since Go's zero time (1 January of year 1, UTC),
    so \<open>IsZero\<close> is equality with 0; a \<open>time.Duration\<close> is its number of nanoseconds.
  \<^item> A Go \<open>error\<close> is an \<open>err option\<close> (\<open>None\<close> is \<open>nil\<close>), and a pair of a value and an error is a
    sum with the error on the left. Message texts are kept without the values that \<open>Errorf\<close>
    formats into them.
\<close>

subsection \<open>Integers, bytes, times\<close>

type_synonym u8 = "8 word"
type_synonym u16 = "16 word"
type_synonym u32 = "32 word"
type_synonym u64 = "64 word"
type_synonym i32 = "32 word"
type_synonym bytes = string
type_synonym time = int
type_synonym duration = int

named_theorems go_time \<open>arithmetic of times and durations\<close>
named_theorems validate_defs \<open>definitions of the validation functions\<close>

definition Nanosecond :: duration where "Nanosecond = 1"
definition Millisecond :: duration where "Millisecond = 1000000"
definition Second :: duration where "Second = 1000000000"
definition Minute :: duration where "Minute = 60 * Second"
definition Hour :: duration where "Hour = 60 * Minute"

declare Nanosecond_def [go_time] Millisecond_def [go_time] Second_def [go_time]
  Minute_def [go_time] Hour_def [go_time]

definition minDuration :: duration where "minDuration = - (2 ^ 63)"
definition maxDuration :: duration where "maxDuration = 2 ^ 63 - 1"

text \<open>\<open>Time.Sub\<close> saturates at the largest and smallest duration.\<close>

definition time_Sub :: "time \<Rightarrow> time \<Rightarrow> duration" where
  "time_Sub t u = max minDuration (min maxDuration (t - u))"

definition time_Add :: "time \<Rightarrow> duration \<Rightarrow> time" where
  "time_Add t d = t + d"

definition time_IsZero :: "time \<Rightarrow> bool" where
  "time_IsZero t \<longleftrightarrow> t = 0"

definition time_Before :: "time \<Rightarrow> time \<Rightarrow> bool" where
  "time_Before t u \<longleftrightarrow> t < u"

definition time_After :: "time \<Rightarrow> time \<Rightarrow> bool" where
  "time_After t u \<longleftrightarrow> u < t"

declare time_Add_def [go_time] time_IsZero_def [go_time] time_Before_def [go_time]
  time_After_def [go_time]

text \<open>Signed 64-bit wrap-around, written out for the arithmetic on \<open>time.Duration\<close>.\<close>

definition wrap_i64 :: "int \<Rightarrow> int" where
  "wrap_i64 x = (x + 2 ^ 63) mod 2 ^ 64 - 2 ^ 63"

lemma wrap_i64_id: "- (2 ^ 63) \<le> x \<Longrightarrow> x < 2 ^ 63 \<Longrightarrow> wrap_i64 x = x"
  by (simp add: wrap_i64_def)

lemma max0_time_Sub: "max 0 (time_Sub t u) = max 0 (min maxDuration (t - u))"
  by (simp add: time_Sub_def minDuration_def maxDuration_def max_def min_def)

lemma max0_time_Sub_le: "t \<le> u + d \<Longrightarrow> 0 \<le> d \<Longrightarrow> max 0 (time_Sub t u) \<le> d"
  by (auto simp: max0_time_Sub)

lemma max0_time_Sub_add_le: "u + max 0 (time_Sub t u) \<le> max t u"
  by (auto simp: max0_time_Sub)

lemma unat_u32_less: "unat (n :: u32) < 4294967296"
  using unsigned_less [of n, where ?'a = nat] by simp

lemma unat_u64_less: "unat (n :: u64) < 18446744073709551616"
  using unsigned_less [of n, where ?'a = nat] by simp

lemma sint_i32_bounds: "- 2147483648 \<le> sint (n :: i32)" "sint (n :: i32) < 2147483648"
  using sint_greater_eq [of n] sint_less [of n] by simp_all

subsection \<open>Errors\<close>

datatype err =
    ErrNotFound
  | ErrStale
  | ErrContext
  | ErrNotExist
  | ErrExist
  | ErrTooLarge
  | Err string
  | Wrap string err
  | Joined "err list"

type_synonym error = "err option"

fun errors_Is :: "err \<Rightarrow> err \<Rightarrow> bool" where
  "errors_Is (Wrap m e) t = (Wrap m e = t \<or> errors_Is e t)"
| "errors_Is (Joined es) t = (Joined es = t \<or> (\<exists>e\<in>set es. errors_Is e t))"
| "errors_Is e t = (e = t)"

text \<open>\<open>errors.Join\<close> drops nil errors and is nil when all are.\<close>

definition errors_Join :: "error \<Rightarrow> error \<Rightarrow> error" where
  "errors_Join a b =
     (case (a, b) of
        (None, None) \<Rightarrow> None
      | (Some e, None) \<Rightarrow> Some (Joined [e])
      | (None, Some e) \<Rightarrow> Some (Joined [e])
      | (Some e, Some f) \<Rightarrow> Some (Joined [e, f]))"

lemma errors_Join_None [simp]: "errors_Join None None = None"
  by (simp add: errors_Join_def)

lemma errors_Join_eq_None_iff: "errors_Join a b = None \<longleftrightarrow> a = None \<and> b = None"
  by (auto simp: errors_Join_def split: option.splits)

text \<open>
  A validation routine is a list of checks, of which the first that fails is the result: Go's
  sequence of \<open>if ... { return err }\<close> statements over checks that change nothing.
\<close>

definition fail_if :: "bool \<Rightarrow> err \<Rightarrow> error" where
  "fail_if b e = (if b then Some e else None)"

fun first_error :: "error list \<Rightarrow> error" where
  "first_error [] = None"
| "first_error (Some e # es) = Some e"
| "first_error (None # es) = first_error es"

definition wrap_error :: "string \<Rightarrow> error \<Rightarrow> error" where
  "wrap_error m e = map_option (Wrap m) e"

text \<open>
  The loop that validates elements and records their keys in a \<open>seen\<close> map: an element's own
  error comes first, then the duplicate.
\<close>

fun validate_seen :: "('a \<Rightarrow> error) \<Rightarrow> ('a \<Rightarrow> 'k) \<Rightarrow> err \<Rightarrow> 'k list \<Rightarrow> 'a list \<Rightarrow> error" where
  "validate_seen check key dup seen [] = None"
| "validate_seen check key dup seen (x # xs) =
     (case check x of
        Some e \<Rightarrow> Some e
      | None \<Rightarrow> if key x \<in> set seen then Some dup
               else validate_seen check key dup (key x # seen) xs)"

lemma fail_if_None [simp]: "fail_if b e = None \<longleftrightarrow> \<not> b"
  by (simp add: fail_if_def)

lemma fail_if_simps [simp]: "fail_if True e = Some e" "fail_if False e = None"
  by (simp_all add: fail_if_def)

lemma wrap_error_None [simp]: "wrap_error m e = None \<longleftrightarrow> e = None"
  by (simp add: wrap_error_def)

lemma first_error_Nil_Cons [simp]:
  "first_error (e # es) = None \<longleftrightarrow> e = None \<and> first_error es = None"
  by (cases e) auto

lemma first_error_None_iff: "first_error es = None \<longleftrightarrow> (\<forall>e\<in>set es. e = None)"
  by (induction es) auto

lemma validate_seen_None_iff:
  "validate_seen check key dup seen xs = None \<longleftrightarrow>
     (\<forall>x\<in>set xs. check x = None) \<and> distinct (map key xs) \<and> key ` set xs \<inter> set seen = {}"
  by (induction xs arbitrary: seen) (auto split: option.splits)

lemma validate_seen_Nil_iff [simp]:
  "validate_seen check key dup [] xs = None \<longleftrightarrow>
     (\<forall>x\<in>set xs. check x = None) \<and> distinct (map key xs)"
  by (simp add: validate_seen_None_iff)

subsection \<open>Lists with distinct keys\<close>

lemma filter_key_notin_filter:
  assumes "distinct (map key xs)"
  shows "filter (\<lambda>x. key x \<notin> key ` set (filter G xs)) xs = filter (\<lambda>x. \<not> G x) xs"
proof (rule filter_cong [OF refl])
  fix x assume x: "x \<in> set xs"
  have "inj_on key (set xs)" using assms by (simp add: distinct_map)
  with x show "(key x \<notin> key ` set (filter G xs)) = (\<not> G x)"
    by (auto dest: inj_onD)
qed

lemma filter_key_notin_take:
  assumes "distinct (map key ys)"
  shows "filter (\<lambda>x. key x \<notin> key ` set (take k ys)) ys = drop k ys"
proof -
  have d: "distinct (map key (take k ys) @ map key (drop k ys))"
    using assms by (metis append_take_drop_id map_append)
  let ?P = "\<lambda>x. key x \<notin> key ` set (take k ys)"
  have "filter ?P ys = filter ?P (take k ys) @ filter ?P (drop k ys)"
    by (metis append_take_drop_id filter_append)
  moreover have "filter ?P (take k ys) = []" by (auto simp: filter_empty_conv)
  moreover have "filter ?P (drop k ys) = drop k ys" using d by (auto simp: filter_id_conv)
  ultimately show ?thesis by simp
qed

lemma filter_key_trimmed:
  assumes "distinct (map key xs)"
  shows "filter (\<lambda>x. key x \<notin> key ` set (filter G xs) \<union> key ` set (take k (filter (\<lambda>x. \<not> G x) xs))) xs =
     drop k (filter (\<lambda>x. \<not> G x) xs)"
proof -
  let ?ys = "filter (\<lambda>x. \<not> G x) xs"
  have "filter (\<lambda>x. key x \<notin> key ` set (filter G xs) \<union> key ` set (take k ?ys)) xs =
      filter (\<lambda>x. key x \<notin> key ` set (take k ?ys)) (filter (\<lambda>x. key x \<notin> key ` set (filter G xs)) xs)"
    by (simp add: conj_commute)
  also have "\<dots> = filter (\<lambda>x. key x \<notin> key ` set (take k ?ys)) ?ys"
    by (simp only: filter_key_notin_filter [OF assms])
  also have "\<dots> = drop k ?ys"
    by (rule filter_key_notin_take) (simp add: assms distinct_map_filter)
  finally show ?thesis .
qed

subsection \<open>UTF-8\<close>

text \<open>\<open>utf8.ValidString\<close>: the table of well-formed byte sequences (no surrogates, no overlong forms).\<close>

definition byte_in :: "nat \<Rightarrow> nat \<Rightarrow> char \<Rightarrow> bool" where
  "byte_in lo hi c \<longleftrightarrow> lo \<le> of_char c \<and> of_char c \<le> hi"

abbreviation utf8_cont :: "char \<Rightarrow> bool" where
  "utf8_cont \<equiv> byte_in 0x80 0xBF"

text \<open>The number of bytes of the well-formed sequence a string starts with, 0 if there is none.\<close>

fun utf8_len :: "string \<Rightarrow> nat" where
  "utf8_len [] = 0"
| "utf8_len [a] = (if byte_in 0 0x7F a then 1 else 0)"
| "utf8_len [a, b] =
     (if byte_in 0 0x7F a then 1
      else if byte_in 0xC2 0xDF a \<and> utf8_cont b then 2 else 0)"
| "utf8_len [a, b, c] =
     (if byte_in 0 0x7F a then 1
      else if byte_in 0xC2 0xDF a \<and> utf8_cont b then 2
      else if (byte_in 0xE0 0xE0 a \<and> byte_in 0xA0 0xBF b \<or>
               byte_in 0xE1 0xEC a \<and> utf8_cont b \<or>
               byte_in 0xED 0xED a \<and> byte_in 0x80 0x9F b \<or>
               byte_in 0xEE 0xEF a \<and> utf8_cont b) \<and> utf8_cont c then 3 else 0)"
| "utf8_len (a # b # c # d # _) =
     (if byte_in 0 0x7F a then 1
      else if byte_in 0xC2 0xDF a \<and> utf8_cont b then 2
      else if (byte_in 0xE0 0xE0 a \<and> byte_in 0xA0 0xBF b \<or>
               byte_in 0xE1 0xEC a \<and> utf8_cont b \<or>
               byte_in 0xED 0xED a \<and> byte_in 0x80 0x9F b \<or>
               byte_in 0xEE 0xEF a \<and> utf8_cont b) \<and> utf8_cont c then 3
      else if (byte_in 0xF0 0xF0 a \<and> byte_in 0x90 0xBF b \<or>
               byte_in 0xF1 0xF3 a \<and> utf8_cont b \<or>
               byte_in 0xF4 0xF4 a \<and> byte_in 0x80 0x8F b) \<and> utf8_cont c \<and> utf8_cont d then 4
      else 0)"

function utf8_ValidString :: "string \<Rightarrow> bool" where
  "utf8_ValidString s =
     (if s = [] then True
      else if utf8_len s = 0 then False
      else utf8_ValidString (drop (utf8_len s) s))"
  by pat_completeness auto
termination
  by (relation "measure length") auto

declare utf8_ValidString.simps [simp del]

lemma utf8_ValidString_Nil [simp]: "utf8_ValidString []"
  by (simp add: utf8_ValidString.simps [of "[]"])

lemma utf8_ascii:
  assumes "\<forall>c\<in>set s. of_char c < (128::nat)"
  shows "utf8_ValidString s"
  using assms
proof (induction s)
  case Nil
  show ?case by simp
next
  case (Cons a s)
  have "utf8_len (a # s) = 1"
    using Cons.prems by (cases "a # s" rule: utf8_len.cases) (auto simp: byte_in_def)
  with Cons show ?case by (subst utf8_ValidString.simps) simp
qed

end
