(* ===== verification/Contracts.thy ===== *)
theory Contracts
  imports Prelude
begin

text \<open>
  The contracts that components of the program satisfy, as locales: a machine that keeps an invariant
  in every state it reaches, a machine one part of which is another one, and a machine whose clients mirror it from the notices it publishes. Each
  is interpreted, in the theory of the component that provides it, on the model of that component.
\<close>

subsection \<open>Machines with an invariant\<close>

text \<open>A step relation, its initial states, and an invariant the steps keep.\<close>

locale guarded_machine =
  fixes initial :: "'s \<Rightarrow> bool" and step :: "'s \<Rightarrow> 's \<Rightarrow> bool" and inv :: "'s \<Rightarrow> bool"
  assumes initial_inv: "initial s \<Longrightarrow> inv s"
    and step_inv: "inv s \<Longrightarrow> step s t \<Longrightarrow> inv t"
begin

lemma steps_inv: "step\<^sup>*\<^sup>* s t \<Longrightarrow> inv s \<Longrightarrow> inv t"
  by (induction rule: rtranclp_induct) (auto intro: step_inv)

lemma reachable_inv: "initial s \<Longrightarrow> step\<^sup>*\<^sup>* s t \<Longrightarrow> inv t"
  using steps_inv initial_inv by blast

text \<open>A fact about the next state that the invariant gives holds of every step of a run.\<close>

lemma reachable_step:
  assumes "initial s" "step\<^sup>*\<^sup>* s t" "step t u" "\<And>t u. inv t \<Longrightarrow> step t u \<Longrightarrow> P t u"
  shows "P t u"
  using assms reachable_inv by blast

end

text \<open>A machine some measure of which never decreases along its steps.\<close>

locale monotone_machine = guarded_machine initial step inv
  for initial :: "'s \<Rightarrow> bool" and step and inv +
  fixes measure_of :: "'s \<Rightarrow> 'm :: preorder"
  assumes step_mono: "inv s \<Longrightarrow> step s t \<Longrightarrow> measure_of s \<le> measure_of t"
begin

lemma steps_mono: "step\<^sup>*\<^sup>* s t \<Longrightarrow> inv s \<Longrightarrow> measure_of s \<le> measure_of t"
proof (induction rule: rtranclp_induct)
  case base
  show ?case by simp
next
  case (step t u)
  then have "inv t" using steps_inv by blast
  with step step_mono order_trans show ?case by blast
qed

end

subsection \<open>Machines composed of others\<close>

text \<open>
  A machine one part of which is another machine: its own steps are steps of that part, or leave it alone. What holds in
  the reachable states of the part then holds of the part in the reachable states of the whole.
\<close>

locale composed_machine = guarded_machine initial step inv
  for initial :: "'s \<Rightarrow> bool" and step and inv +
  fixes part_initial :: "'p \<Rightarrow> bool" and part_step :: "'p \<Rightarrow> 'p \<Rightarrow> bool" and part :: "'s \<Rightarrow> 'p"
  assumes part_starts: "initial s \<Longrightarrow> part_initial (part s)"
    and part_moves: "inv s \<Longrightarrow> step s t \<Longrightarrow> part_step\<^sup>*\<^sup>* (part s) (part t)"
begin

lemma part_steps: "step\<^sup>*\<^sup>* s t \<Longrightarrow> inv s \<Longrightarrow> part_step\<^sup>*\<^sup>* (part s) (part t)"
proof (induction rule: rtranclp_induct)
  case base
  show ?case by simp
next
  case (step t u)
  then have "inv t" using steps_inv by blast
  with step part_moves show ?case by (meson rtranclp_trans)
qed

lemma part_reachable: "initial s \<Longrightarrow> step\<^sup>*\<^sup>* s t \<Longrightarrow> part_initial (part s) \<and> part_step\<^sup>*\<^sup>* (part s) (part t)"
  using part_starts part_steps initial_inv by blast

lemma part_property:
  assumes "\<And>p q. part_initial p \<Longrightarrow> part_step\<^sup>*\<^sup>* p q \<Longrightarrow> P q" "initial s" "step\<^sup>*\<^sup>* s t"
  shows "P (part t)"
  using assms part_reachable by blast

end

subsection \<open>Machines that clients mirror\<close>

text \<open>A session: the requests served one after the other, with everything that was published.\<close>

fun run_session :: "('q \<Rightarrow> 's \<Rightarrow> ('e list \<times> 's) option) \<Rightarrow> 'q list \<Rightarrow> 's \<Rightarrow> ('e list \<times> 's) option" where
  "run_session serves [] s = Some ([], s)"
| "run_session serves (q # qs) s =
     (case serves q s of
        None \<Rightarrow> None
      | Some (es, t) \<Rightarrow> map_option (\<lambda>(fs, u). (es @ fs, u)) (run_session serves qs t))"

text \<open>
  A machine answers requests and publishes notices. On every acceptable request in a good state it
  ends, in a good state, and its notices applied in order turn the client's view of the old state
  into the view of the new one.
\<close>

locale mirrored =
  fixes good :: "'s \<Rightarrow> bool" and acceptable :: "'q \<Rightarrow> bool"
    and serves :: "'q \<Rightarrow> 's \<Rightarrow> ('e list \<times> 's) option"
    and apply_notice :: "'e \<Rightarrow> 'v \<Rightarrow> 'v" and shown :: "'s \<Rightarrow> 'v"
  assumes total: "good s \<Longrightarrow> acceptable q \<Longrightarrow> \<exists>es t. serves q s = Some (es, t)"
    and keeps: "good s \<Longrightarrow> acceptable q \<Longrightarrow> serves q s = Some (es, t) \<Longrightarrow> good t"
    and mirrors: "good s \<Longrightarrow> acceptable q \<Longrightarrow> serves q s = Some (es, t) \<Longrightarrow>
      shown t = fold apply_notice es (shown s)"
begin

lemma session_total:
  assumes "good s" "\<forall>q\<in>set qs. acceptable q"
  shows "\<exists>es t. run_session serves qs s = Some (es, t) \<and> good t \<and> shown t = fold apply_notice es (shown s)"
  using assms
proof (induction qs arbitrary: s)
  case Nil
  then show ?case by simp
next
  case (Cons q qs)
  then obtain es t where q: "serves q s = Some (es, t)" using total by fastforce
  have t: "good t" "shown t = fold apply_notice es (shown s)" using Cons.prems q keeps mirrors by auto
  obtain fs u where "run_session serves qs t = Some (fs, u)" "good u" "shown u = fold apply_notice fs (shown t)"
    using Cons.IH [OF t(1)] Cons.prems(2) by auto
  with q t(2) show ?case by simp
qed

text \<open>A client that starts from the view of some good state and applies the notices stays a mirror.\<close>

lemma session_mirrors:
  assumes "good s" "\<forall>q\<in>set qs. acceptable q" "run_session serves qs s = Some (es, t)"
  shows "shown t = fold apply_notice es (shown s)" "good t"
  using session_total [OF assms(1,2)] assms(3) by auto

end

end
