(* ===== verification/Protocol.thy ===== *)
theory Protocol
  imports Prelude
begin

text \<open>
  The wire vocabulary of package \<open>protocol\<close>: the types of \<open>types.go\<close> and the validation
  methods of \<open>validate.go\<close>. A string-typed enumeration is a datatype with one constructor per
  declared constant and one for any other string a peer may send. A validation method returns an
  \<open>error\<close>; where the source ranges over a Go map of named strings (whose order is unspecified) the
  model checks them in the order they are written.
\<close>

subsection \<open>Limits (types.go)\<close>

definition ProtocolMajor :: u16 where "ProtocolMajor = 1"
definition ProtocolMinor :: u16 where "ProtocolMinor = 2"
definition RolePresenter :: string where "RolePresenter = ''presenter''"
definition CapabilityBatteryProducer :: string where
  "CapabilityBatteryProducer = ''battery-producer''"

definition MaxActiveNotifications :: nat where "MaxActiveNotifications = 128"
definition MaxBodyBytes :: nat where "MaxBodyBytes = 16 * 2 ^ 10"
definition MaxActionPairs :: nat where "MaxActionPairs = 6"
definition MaxHints :: nat where "MaxHints = 64"
definition MaxSourceImageDimension :: int where "MaxSourceImageDimension = 4096"
definition MaxSourceImageBytes :: int where "MaxSourceImageBytes = 16 * 2 ^ 20"
definition MaxWireImageLongEdge :: nat where "MaxWireImageLongEdge = 512"
definition MaxWireImageBytes :: nat where "MaxWireImageBytes = 2 ^ 20"
definition MaxLineageEntries :: nat where "MaxLineageEntries = 16"
definition MaxHistoryEntries :: nat where "MaxHistoryEntries = 100"
definition MaxPresenterQueueMessages :: nat where "MaxPresenterQueueMessages = 256"
definition MaxPresenterDecodedBytes :: nat where "MaxPresenterDecodedBytes = 32 * 2 ^ 20"
definition MaxProducerKeyBytes :: nat where "MaxProducerKeyBytes = 128"
definition HistoryRetention :: duration where "HistoryRetention = 7 * 24 * Hour"

lemmas limit_defs =
  MaxActiveNotifications_def MaxBodyBytes_def MaxActionPairs_def MaxHints_def
  MaxSourceImageDimension_def MaxSourceImageBytes_def MaxWireImageLongEdge_def
  MaxWireImageBytes_def MaxLineageEntries_def MaxHistoryEntries_def
  MaxPresenterQueueMessages_def MaxPresenterDecodedBytes_def MaxProducerKeyBytes_def

subsection \<open>Types (types.go)\<close>

type_synonym Urgency = u8
type_synonym CloseReason = u32

definition UrgencyLow :: Urgency where "UrgencyLow = 0"
definition UrgencyNormal :: Urgency where "UrgencyNormal = 1"
definition UrgencyCritical :: Urgency where "UrgencyCritical = 2"

definition CloseExpired :: CloseReason where "CloseExpired = 1"
definition CloseDismissed :: CloseReason where "CloseDismissed = 2"
definition CloseRequested :: CloseReason where "CloseRequested = 3"
definition CloseUndefined :: CloseReason where "CloseUndefined = 4"

lemmas close_reason_defs =
  CloseExpired_def CloseDismissed_def CloseRequested_def CloseUndefined_def

record Envelope =
  env_Kind :: string
  env_RequestID :: u64
  env_Sequence :: u64
  env_Payload :: bytes

record Hello =
  hello_Major :: u16
  hello_Minor :: u16
  hello_Role :: string
  hello_Capabilities :: "string list"

record Action =
  act_Key :: string
  act_Label :: string

record Process =
  proc_PID :: u32
  proc_StartTime :: u64

record Image =
  img_MediaType :: string
  img_Width :: u32
  img_Height :: u32
  img_Data :: bytes

record Notification =
  n_ID :: u32
  n_AppName :: string
  n_AppIcon :: string
  n_DesktopEntry :: string
  n_Summary :: string
  n_Body :: string
  n_Actions :: "Action list"
  n_Urgency :: Urgency
  n_Category :: string
  n_Timestamp :: time
  n_ExpireTimeoutMS :: i32
  n_Image :: "Image option"
  n_Value :: "i32 option"
  n_InlineReply :: bool
  n_ReplyPlaceholder :: string
  n_SenderLineage :: "Process list"

record HistoryEntry =
  h_ID :: u32
  h_Seen :: bool
  h_AppName :: string
  h_AppIcon :: string
  h_DesktopEntry :: string
  h_Summary :: string
  h_Body :: string
  h_Urgency :: Urgency
  h_Category :: string
  h_Timestamp :: time
  h_Image :: "Image option"

record Lifetime =
  l_ID :: u32
  l_DurationMS :: u32
  l_RemainingMS :: u32
  l_Running :: bool

record Snapshot =
  snap_Sequence :: u64
  snap_Active :: "Notification list"
  snap_Lifetimes :: "Lifetime list"
  snap_History :: "HistoryEntry list"

datatype DeltaKind =
    DeltaAdded | DeltaReplaced | DeltaClosed | DeltaHistoryAdded | DeltaHistoryRemoved
  | DeltaHistorySeen | DeltaHistoryCleared | OtherDelta string

record Delta =
  d_Kind :: DeltaKind
  d_Notification :: "Notification option"
  d_Lifetime :: "Lifetime option"
  d_History :: "HistoryEntry option"
  d_ID :: u32
  d_IDs :: "u32 list"
  d_CloseReason :: CloseReason

text \<open>The zero value of a struct, from which a composite literal sets the named fields.\<close>

definition zero_Delta :: Delta where
  "zero_Delta = \<lparr>d_Kind = OtherDelta [], d_Notification = None, d_Lifetime = None,
     d_History = None, d_ID = 0, d_IDs = [], d_CloseReason = 0\<rparr>"

datatype PresentationState =
    PresentationHovered | PresentationVisible | PresentationQueued | PresentationSuppressed
  | OtherPresentation string

record Presentation =
  p_ID :: u32
  p_State :: PresentationState

datatype CommandKind =
    CommandPresentationRenew | CommandAction | CommandDismiss | CommandReply
  | CommandHistoryClear | CommandHistoryRemove | CommandHistoryMarkSeen | CommandDismissAll
  | CommandProducerPublish | CommandProducerClose | OtherCommand string

record ProducerRequest =
  pr_Key :: string
  pr_AppName :: string
  pr_Summary :: string
  pr_Body :: string
  pr_Urgency :: Urgency
  pr_ExpireTimeoutMS :: i32
  pr_Value :: "i32 option"

record Command =
  c_Kind :: CommandKind
  c_ID :: u32
  c_IDs :: "u32 list"
  c_ActionKey :: string
  c_Text :: string
  c_Presentations :: "Presentation list"
  c_Producer :: "ProducerRequest option"

definition zero_Command :: Command where
  "zero_Command = \<lparr>c_Kind = OtherCommand [], c_ID = 0, c_IDs = [], c_ActionKey = [], c_Text = [],
     c_Presentations = [], c_Producer = None\<rparr>"

datatype ErrorCode =
    ErrorInvalid | ErrorNotFound | ErrorStale | ErrorBusy | ErrorUnavailable | OtherCode string

record ProtocolError =
  pe_Code :: ErrorCode
  pe_Message :: string

record Reply =
  r_OK :: bool
  r_Error :: "ProtocolError option"
  r_Lifetimes :: "Lifetime list"
  r_ID :: u32
  r_Replaced :: bool

subsection \<open>Validation (validate.go)\<close>

definition Urgency_valid :: "Urgency \<Rightarrow> bool" where
  "Urgency_valid u \<longleftrightarrow> u \<le> UrgencyCritical"

definition CloseReason_valid :: "CloseReason \<Rightarrow> bool" where
  "CloseReason_valid r \<longleftrightarrow> CloseExpired \<le> r \<and> r \<le> CloseUndefined"

fun PresentationState_valid :: "PresentationState \<Rightarrow> bool" where
  "PresentationState_valid (OtherPresentation _) = False"
| "PresentationState_valid _ = True"

fun ErrorCode_valid :: "ErrorCode \<Rightarrow> bool" where
  "ErrorCode_valid (OtherCode _) = False"
| "ErrorCode_valid _ = True"

definition validateText :: "string \<Rightarrow> string \<Rightarrow> nat \<Rightarrow> bool \<Rightarrow> error" where
  "validateText name value limit emptyOK = first_error
     [fail_if (\<not> utf8_ValidString value) (Err (''protocol: '' @ name @ '' is not valid UTF-8'')),
      fail_if ((\<not> emptyOK \<and> value = []) \<or> limit < length value)
        (Err (''protocol: invalid '' @ name @ '' length''))]"

definition validateIDs :: "u32 list \<Rightarrow> nat \<Rightarrow> error" where
  "validateIDs ids limit = first_error
     [fail_if (ids = [] \<or> limit < length ids) (Err ''protocol: invalid ID list length''),
      validate_seen (\<lambda>id. fail_if (id = 0) (Err ''protocol: zero ID'')) id
        (Err ''protocol: duplicate ID'') [] ids]"

definition Lifetime_Validate :: "Lifetime \<Rightarrow> error" where
  "Lifetime_Validate l = first_error
     [fail_if (l_ID l = 0) (Err ''protocol: lifetime ID is zero''),
      fail_if (l_DurationMS l < l_RemainingMS l)
        (Err ''protocol: lifetime remaining exceeds duration''),
      fail_if (l_DurationMS l = 0 \<and> l_Running l)
        (Err ''protocol: persistent lifetime is running'')]"

definition Action_Validate :: "Action \<Rightarrow> error" where
  "Action_Validate a = first_error
     [validateText ''action key'' (act_Key a) MaxBodyBytes False,
      validateText ''action label'' (act_Label a) MaxBodyBytes True]"

definition value_in_range :: "i32 option \<Rightarrow> bool" where
  "value_in_range v = (case v of None \<Rightarrow> True | Some x \<Rightarrow> 0 \<le> sint x \<and> sint x \<le> 100)"

definition ProducerRequest_Validate :: "ProducerRequest \<Rightarrow> error" where
  "ProducerRequest_Validate p = first_error
     [validateText ''producer key'' (pr_Key p) MaxProducerKeyBytes False,
      validateText ''producer app name'' (pr_AppName p) MaxBodyBytes True,
      validateText ''producer summary'' (pr_Summary p) MaxBodyBytes True,
      validateText ''producer body'' (pr_Body p) MaxBodyBytes True,
      fail_if (\<not> Urgency_valid (pr_Urgency p)) (Err ''protocol: invalid producer urgency''),
      fail_if (sint (pr_ExpireTimeoutMS p) < -1) (Err ''protocol: invalid producer expiry timeout''),
      fail_if (\<not> value_in_range (pr_Value p)) (Err ''protocol: producer value is outside 0..100'')]"

definition Image_Validate :: "Image \<Rightarrow> error" where
  "Image_Validate i = first_error
     [fail_if (img_MediaType i \<noteq> ''image/png'') (Err ''protocol: unsupported image media type''),
      fail_if (img_Width i = 0 \<or> img_Height i = 0 \<or> MaxWireImageLongEdge < unat (img_Width i) \<or>
               MaxWireImageLongEdge < unat (img_Height i))
        (Err ''protocol: invalid wire image dimensions''),
      fail_if (img_Data i = [] \<or> MaxWireImageBytes < length (img_Data i))
        (Err ''protocol: invalid wire image size'')]"

definition image_option_Validate :: "Image option \<Rightarrow> error" where
  "image_option_Validate i = (case i of None \<Rightarrow> None | Some img \<Rightarrow> Image_Validate img)"

definition Notification_Validate :: "Notification \<Rightarrow> error" where
  "Notification_Validate n = first_error
     [fail_if (n_ID n = 0) (Err ''protocol: notification ID is zero''),
      fail_if (\<not> Urgency_valid (n_Urgency n)) (Err ''protocol: invalid urgency''),
      fail_if (time_IsZero (n_Timestamp n)) (Err ''protocol: notification timestamp is zero''),
      validateText ''app name'' (n_AppName n) MaxBodyBytes True,
      validateText ''app icon'' (n_AppIcon n) MaxBodyBytes True,
      validateText ''desktop entry'' (n_DesktopEntry n) MaxBodyBytes True,
      validateText ''summary'' (n_Summary n) MaxBodyBytes True,
      validateText ''body'' (n_Body n) MaxBodyBytes True,
      validateText ''category'' (n_Category n) MaxBodyBytes True,
      validateText ''reply placeholder'' (n_ReplyPlaceholder n) MaxBodyBytes True,
      fail_if (MaxActionPairs < length (n_Actions n)) (Err ''protocol: too many actions''),
      validate_seen (\<lambda>a. wrap_error ''protocol: action'' (Action_Validate a)) act_Key
        (Err ''protocol: duplicate action key'') [] (n_Actions n),
      image_option_Validate (n_Image n),
      fail_if (\<not> value_in_range (n_Value n)) (Err ''protocol: value is outside 0..100''),
      fail_if (MaxLineageEntries < length (n_SenderLineage n))
        (Err ''protocol: sender lineage is too long''),
      fail_if (\<exists>p\<in>set (n_SenderLineage n). proc_PID p = 0 \<or> proc_StartTime p = 0)
        (Err ''protocol: invalid sender process'')]"

definition HistoryEntry_Validate :: "HistoryEntry \<Rightarrow> error" where
  "HistoryEntry_Validate h = first_error
     [fail_if (h_ID h = 0 \<or> time_IsZero (h_Timestamp h) \<or> \<not> Urgency_valid (h_Urgency h))
        (Err ''protocol: invalid history identity''),
      validateText ''app name'' (h_AppName h) MaxBodyBytes True,
      validateText ''app icon'' (h_AppIcon h) MaxBodyBytes True,
      validateText ''desktop entry'' (h_DesktopEntry h) MaxBodyBytes True,
      validateText ''summary'' (h_Summary h) MaxBodyBytes True,
      validateText ''body'' (h_Body h) MaxBodyBytes True,
      validateText ''category'' (h_Category h) MaxBodyBytes True,
      image_option_Validate (h_Image h)]"

text \<open>
  The lifetimes of a snapshot are matched against the set of active IDs, each of which is used up
  by its lifetime.
\<close>

fun validate_lifetimes :: "u32 list \<Rightarrow> Lifetime list \<Rightarrow> error" where
  "validate_lifetimes active [] =
     fail_if (active \<noteq> []) (Err ''protocol: active record has no lifetime'')"
| "validate_lifetimes active (l # ls) =
     (case Lifetime_Validate l of
        Some e \<Rightarrow> Some (Wrap ''protocol: lifetime'' e)
      | None \<Rightarrow> if l_ID l \<notin> set active then Some (Err ''protocol: lifetime for unknown active ID'')
               else validate_lifetimes (removeAll (l_ID l) active) ls)"

definition Snapshot_Validate :: "Snapshot \<Rightarrow> error" where
  "Snapshot_Validate s = first_error
     [fail_if (MaxActiveNotifications < length (snap_Active s) \<or>
               MaxHistoryEntries < length (snap_History s))
        (Err ''protocol: snapshot exceeds record limit''),
      fail_if (length (snap_Lifetimes s) \<noteq> length (snap_Active s))
        (Err ''protocol: active lifetime count does not match records''),
      validate_seen (\<lambda>n. wrap_error ''protocol: active'' (Notification_Validate n)) n_ID
        (Err ''protocol: duplicate active ID'') [] (snap_Active s),
      validate_lifetimes (map n_ID (snap_Active s)) (snap_Lifetimes s),
      validate_seen (\<lambda>h. wrap_error ''protocol: history'' (HistoryEntry_Validate h)) h_ID
        (Err ''protocol: duplicate history ID'') [] (snap_History s)]"

definition Delta_Validate :: "Delta \<Rightarrow> error" where
  "Delta_Validate d =
     (case d_Kind d of
        OtherDelta _ \<Rightarrow> Some (Err ''protocol: invalid delta kind'')
      | DeltaClosed \<Rightarrow>
          fail_if (d_ID d = 0 \<or> \<not> CloseReason_valid (d_CloseReason d))
            (Err ''protocol: invalid closed delta'')
      | DeltaHistoryAdded \<Rightarrow>
          (case d_History d of
             None \<Rightarrow> Some (Err ''protocol: history delta has no record'')
           | Some h \<Rightarrow> HistoryEntry_Validate h)
      | DeltaHistoryRemoved \<Rightarrow>
          fail_if (d_ID d = 0) (Err ''protocol: history removal ID is zero'')
      | DeltaHistorySeen \<Rightarrow> validateIDs (d_IDs d) MaxHistoryEntries
      | DeltaHistoryCleared \<Rightarrow> None
      | _ \<Rightarrow>
          (case (d_Notification d, d_Lifetime d) of
             (Some n, Some l) \<Rightarrow> first_error
               [Notification_Validate n, Lifetime_Validate l,
                fail_if (l_ID l \<noteq> n_ID n)
                  (Err ''protocol: notification delta lifetime ID does not match record'')]
           | _ \<Rightarrow> Some (Err ''protocol: notification delta has no record lifetime'')))"

definition Command_Validate :: "Command \<Rightarrow> error" where
  "Command_Validate c =
     (case c_Kind c of
        CommandPresentationRenew \<Rightarrow> first_error
          [fail_if (c_Presentations c = [] \<or> MaxActiveNotifications < length (c_Presentations c))
             (Err ''protocol: invalid presentation renewal''),
           validate_seen (\<lambda>p. fail_if (p_ID p = 0 \<or> \<not> PresentationState_valid (p_State p))
               (Err ''protocol: invalid presentation'')) p_ID
             (Err ''protocol: duplicate presentation ID'') [] (c_Presentations c)]
      | CommandAction \<Rightarrow> first_error
          [fail_if (c_ID c = 0) (Err ''protocol: action ID is zero''),
           validateText ''action key'' (c_ActionKey c) MaxBodyBytes False]
      | CommandDismiss \<Rightarrow> fail_if (c_ID c = 0) (Err ''protocol: dismiss ID is zero'')
      | CommandReply \<Rightarrow> first_error
          [fail_if (c_ID c = 0) (Err ''protocol: reply ID is zero''),
           validateText ''reply text'' (c_Text c) MaxBodyBytes True]
      | CommandHistoryClear \<Rightarrow> None
      | CommandDismissAll \<Rightarrow> None
      | CommandHistoryRemove \<Rightarrow> validateIDs (c_IDs c) MaxHistoryEntries
      | CommandHistoryMarkSeen \<Rightarrow> validateIDs (c_IDs c) MaxHistoryEntries
      | OtherCommand _ \<Rightarrow> Some (Err ''protocol: invalid command kind'')
      | _ \<Rightarrow>
          (case c_Producer c of
             None \<Rightarrow> Some (Err ''protocol: producer command has no payload'')
           | Some p \<Rightarrow> ProducerRequest_Validate p))"

definition Reply_Validate :: "Reply \<Rightarrow> error" where
  "Reply_Validate r =
     (if r_OK r = (r_Error r \<noteq> None) then Some (Err ''protocol: reply must contain one outcome'')
      else case r_Error r of
        Some e \<Rightarrow> first_error
          [fail_if (r_Lifetimes r \<noteq> []) (Err ''protocol: error reply has lifetimes''),
           fail_if (\<not> ErrorCode_valid (pe_Code e)) (Err ''protocol: invalid error code''),
           validateText ''error message'' (pe_Message e) MaxBodyBytes True]
      | None \<Rightarrow> validate_seen (\<lambda>l. wrap_error ''protocol: reply lifetime'' (Lifetime_Validate l)) l_ID
          (Err ''protocol: duplicate reply lifetime'') [] (r_Lifetimes r))"

definition Hello_Validate :: "Hello \<Rightarrow> string \<Rightarrow> error" where
  "Hello_Validate h role = first_error
     [fail_if (hello_Major h \<noteq> ProtocolMajor) (Err ''protocol: incompatible major''),
      fail_if (ProtocolMinor < hello_Minor h) (Err ''protocol: unsupported minor''),
      fail_if (hello_Role h \<noteq> role) (Err ''protocol: unexpected role''),
      validate_seen (\<lambda>c. validateText ''capability'' c MaxBodyBytes False) id
        (Err ''protocol: duplicate capability'') [] (hello_Capabilities h)]"

definition ValidateNextSequence :: "u64 \<Rightarrow> u64 \<Rightarrow> error" where
  "ValidateNextSequence previous next' =
     fail_if (previous = - 1 \<or> next' \<noteq> previous + 1) (Err ''protocol: sequence does not follow'')"

definition state_kinds :: "string list" where
  "state_kinds = [''added'', ''replaced'', ''closed'', ''history-added'', ''history-removed'',
     ''history-seen'', ''history-cleared'']"

text \<open>\<open>json_valid\<close> stands for \<open>encoding/json.Valid\<close> on the payload.\<close>

definition Envelope_Validate :: "(bytes \<Rightarrow> bool) \<Rightarrow> Envelope \<Rightarrow> error" where
  "Envelope_Validate json_valid e =
     (if env_Payload e = [] \<or> \<not> json_valid (env_Payload e)
      then Some (Err ''protocol: envelope has invalid payload'')
      else if env_Kind e = ''hello''
      then fail_if (env_RequestID e \<noteq> 0 \<or> env_Sequence e \<noteq> 0)
             (Err ''protocol: hello has correlation fields'')
      else if env_Kind e = ''snapshot''
      then fail_if (env_RequestID e \<noteq> 0) (Err ''protocol: snapshot has a request ID'')
      else if env_Kind e \<in> set state_kinds
      then fail_if (env_Sequence e = 0 \<or> env_RequestID e \<noteq> 0)
             (Err ''protocol: state message has invalid sequence'')
      else if env_Kind e = ''command'' \<or> env_Kind e = ''reply''
      then fail_if (env_RequestID e = 0 \<or> env_Sequence e \<noteq> 0)
             (Err ''protocol: request message has invalid request ID'')
      else Some (Err ''protocol: unknown message kind''))"

end
