(* ===== verification/Json.thy ===== *)
theory Json
  imports Prelude
begin

text \<open>
  What the program uses of Go's standard library to write JSON: \<open>encoding/json.Marshal\<close> on
  strings (with its HTML escaping), unsigned and signed integers, booleans, \<open>[]byte\<close> (base64),
  structs with \<open>omitempty\<close> fields, arrays, and \<open>time.Time\<close> (RFC 3339 with nanoseconds, an error
  outside the years 0 to 9999). The sizes the history store and the presenter budget with are
  lengths of these encodings, so the encoder is defined byte by byte.
\<close>

subsection \<open>Decimal numbers\<close>

definition digit :: "nat \<Rightarrow> char" where
  "digit d = char_of (48 + d)"

function dec :: "int \<Rightarrow> string" where
  "dec n = (if n < 10 then [digit (nat n)] else dec (n div 10) @ [digit (nat (n mod 10))])"
  by pat_completeness auto
termination
  by (relation "measure nat") auto

declare dec.simps [simp del]

definition dec_int :: "int \<Rightarrow> string" where
  "dec_int i = (if i < 0 then ''-'' @ dec (- i) else dec i)"

definition pad :: "nat \<Rightarrow> int \<Rightarrow> string" where
  "pad k n = replicate (k - length (dec n)) (CHR ''0'') @ dec n"

lemma length_dec_le: "n < 10 ^ k \<Longrightarrow> 0 < k \<Longrightarrow> length (dec n) \<le> k"
proof (induction n arbitrary: k rule: dec.induct)
  case (1 n)
  show ?case
  proof (cases "n < 10")
    case True
    with "1.prems" show ?thesis by (simp add: dec.simps [of n])
  next
    case False
    then obtain j where j: "k = Suc j" "0 < j"
      using "1.prems" by (cases k; cases "k - 1") auto
    with "1.prems" have "n div 10 < 10 ^ j" by simp
    with "1.IH" [OF False, of j] j False show ?thesis
      by (simp add: dec.simps [of n])
  qed
qed

lemma length_dec_pos [simp]: "0 < length (dec n)"
  by (subst dec.simps) simp

lemma length_pad_le: "n < 10 ^ k \<Longrightarrow> 0 < k \<Longrightarrow> length (pad j n) \<le> max j k"
  using length_dec_le [of n k] by (auto simp: pad_def)

subsection \<open>Strings\<close>

abbreviation backslash :: char where "backslash \<equiv> CHR 0x5C"
abbreviation quote :: char where "quote \<equiv> CHR 0x22"

definition hex_digit :: "nat \<Rightarrow> char" where
  "hex_digit d = (if d < 10 then char_of (48 + d) else char_of (87 + d))"

text \<open>\<open>appendString\<close> for one byte below 128, with \<open>escapeHTML\<close> on.\<close>

definition escape_ascii :: "char \<Rightarrow> string" where
  "escape_ascii c =
     (let b = (of_char c :: nat) in
      if c = backslash \<or> c = quote then [backslash, c]
      else if b = 8 then [backslash, CHR ''b'']
      else if b = 12 then [backslash, CHR ''f'']
      else if b = 10 then [backslash, CHR ''n'']
      else if b = 13 then [backslash, CHR ''r'']
      else if b = 9 then [backslash, CHR ''t'']
      else if b < 32 \<or> c = CHR ''<'' \<or> c = CHR ''>'' \<or> c = CHR ''&''
      then [backslash, CHR ''u'', CHR ''0'', CHR ''0'', hex_digit (b div 16), hex_digit (b mod 16)]
      else [c])"

function json_escape :: "string \<Rightarrow> string" where
  "json_escape s =
     (if s = [] then []
      else if of_char (hd s) < (128::nat) then escape_ascii (hd s) @ json_escape (tl s)
      else if utf8_len s = 0 then backslash # ''ufffd'' @ json_escape (tl s)
      else if take 3 s = [CHR 0xE2, CHR 0x80, CHR 0xA8] then backslash # ''u2028'' @ json_escape (drop 3 s)
      else if take 3 s = [CHR 0xE2, CHR 0x80, CHR 0xA9] then backslash # ''u2029'' @ json_escape (drop 3 s)
      else take (utf8_len s) s @ json_escape (drop (utf8_len s) s))"
  by pat_completeness auto
termination
  by (relation "measure length") auto

declare json_escape.simps [simp del]

lemma json_escape_Nil [simp]: "json_escape [] = []"
  by (subst json_escape.simps) simp

definition json_string :: "string \<Rightarrow> string" where
  "json_string s = quote # json_escape s @ [quote]"

lemma length_escape_ascii: "length (escape_ascii c) \<le> 6"
  by (simp add: escape_ascii_def Let_def)

text \<open>Escaping makes a string at most six times longer.\<close>

lemma length_take3: "take 3 s = [a, b, c] \<Longrightarrow> 3 \<le> length s"
  by (metis length_take length_Cons list.size(3) min.cobounded1 numeral_3_eq_3)

lemma length_json_escape: "length (json_escape s) \<le> 6 * length s"
proof (induction s rule: json_escape.induct)
  case (1 s)
  note unfold = json_escape.simps [of s]
  show ?case
  proof (cases "s = []")
    case True
    then show ?thesis by simp
  next
    case ne: False
    then obtain n where len: "length s = Suc n" by (cases s) auto
    consider (ascii) "of_char (hd s) < (128::nat)"
      | (bad) "\<not> of_char (hd s) < (128::nat)" "utf8_len s = 0"
      | (ls) "\<not> of_char (hd s) < (128::nat)" "utf8_len s \<noteq> 0" "take 3 s = [CHR 0xE2, CHR 0x80, CHR 0xA8]"
      | (ps) "\<not> of_char (hd s) < (128::nat)" "utf8_len s \<noteq> 0"
          "take 3 s \<noteq> [CHR 0xE2, CHR 0x80, CHR 0xA8]" "take 3 s = [CHR 0xE2, CHR 0x80, CHR 0xA9]"
      | (rune) "\<not> of_char (hd s) < (128::nat)" "utf8_len s \<noteq> 0"
          "take 3 s \<noteq> [CHR 0xE2, CHR 0x80, CHR 0xA8]" "take 3 s \<noteq> [CHR 0xE2, CHR 0x80, CHR 0xA9]"
      by blast
    then show ?thesis
    proof cases
      case ascii
      with "1.IH"(1) [OF ne ascii] ne len length_escape_ascii [of "hd s"] show ?thesis
        by (simp add: unfold)
    next
      case bad
      with "1.IH"(2) [OF ne bad] ne len show ?thesis by (simp add: unfold)
    next
      case ls
      with "1.IH"(3) [OF ne ls] ne len length_take3 [OF ls(3)] show ?thesis by (simp add: unfold)
    next
      case ps
      with "1.IH"(4) [OF ne ps] ne len length_take3 [OF ps(4)] show ?thesis by (simp add: unfold)
    next
      case rune
      have "length (json_escape s) = min (length s) (utf8_len s) + length (json_escape (drop (utf8_len s) s))"
        using rune ne by (simp add: unfold)
      moreover have "length (json_escape (drop (utf8_len s) s)) \<le> 6 * (length s - utf8_len s)"
        using "1.IH"(5) [OF ne rune] by simp
      ultimately show ?thesis by linarith
    qed
  qed
qed

lemma length_json_string: "length (json_string s) \<le> 6 * length s + 2"
  using length_json_escape [of s] by (simp add: json_string_def)

subsection \<open>Structs and arrays\<close>

fun join_comma :: "string list \<Rightarrow> string" where
  "join_comma [] = []"
| "join_comma [x] = x"
| "join_comma (x # y # xs) = x @ '','' @ join_comma (y # xs)"

definition json_field :: "string \<Rightarrow> string \<Rightarrow> string" where
  "json_field k v = quote # k @ quote # '':'' @ v"

definition json_object :: "string list \<Rightarrow> string" where
  "json_object fields = ''{'' @ join_comma fields @ ''}''"

definition json_array :: "string list \<Rightarrow> string" where
  "json_array elems = ''['' @ join_comma elems @ '']''"

definition json_bool :: "bool \<Rightarrow> string" where
  "json_bool b = (if b then ''true'' else ''false'')"

text \<open>A string field with \<open>omitempty\<close>, and one without.\<close>

definition string_field :: "string \<Rightarrow> string \<Rightarrow> string list" where
  "string_field k v = [json_field k (json_string v)]"

definition string_field_omit :: "string \<Rightarrow> string \<Rightarrow> string list" where
  "string_field_omit k v = (if v = [] then [] else [json_field k (json_string v)])"

lemma length_join_comma:
  "length (join_comma xs) = (\<Sum>x\<leftarrow>xs. length x) + (length xs - 1)"
  by (induction xs rule: join_comma.induct) auto

lemma length_join_comma_le: "length (join_comma xs) \<le> (\<Sum>x\<leftarrow>xs. length x + 1)"
  by (induction xs rule: join_comma.induct) auto

lemma length_json_array:
  "length (json_array xs) = 2 + (\<Sum>x\<leftarrow>xs. length x) + (length xs - 1)"
  by (simp add: json_array_def length_join_comma)

lemma length_json_field: "length (json_field k v) = length k + length v + 3"
  by (simp add: json_field_def)

lemma string_field_size:
  "(\<Sum>x\<leftarrow>string_field k v. length x + 1) \<le> length k + 6 * length v + 6"
  using length_json_string [of v] by (simp add: string_field_def length_json_field)

lemma string_field_omit_size:
  "(\<Sum>x\<leftarrow>string_field_omit k v. length x + 1) \<le> length k + 6 * length v + 6"
  using length_json_string [of v] by (simp add: string_field_omit_def length_json_field)

subsection \<open>Base64\<close>

definition base64_char :: "nat \<Rightarrow> char" where
  "base64_char n =
     (if n < 26 then char_of (65 + n) else if n < 52 then char_of (71 + n)
      else if n < 62 then char_of (n - 4) else if n = 62 then CHR ''+'' else CHR ''/'')"

fun base64 :: "bytes \<Rightarrow> string" where
  "base64 [] = []"
| "base64 [a] =
     (let n = of_char a * 65536 in
      [base64_char (n div 262144), base64_char (n div 4096 mod 64), CHR ''='', CHR ''=''])"
| "base64 [a, b] =
     (let n = of_char a * 65536 + of_char b * 256 in
      [base64_char (n div 262144), base64_char (n div 4096 mod 64),
       base64_char (n div 64 mod 64), CHR ''=''])"
| "base64 (a # b # c # r) =
     (let n = of_char a * 65536 + of_char b * 256 + of_char c in
      base64_char (n div 262144) # base64_char (n div 4096 mod 64) #
      base64_char (n div 64 mod 64) # base64_char (n mod 64) # base64 r)"

definition base64_EncodedLen :: "nat \<Rightarrow> nat" where
  "base64_EncodedLen n = (n + 2) div 3 * 4"

lemma length_base64: "length (base64 d) = base64_EncodedLen (length d)"
proof (induction d rule: base64.induct)
  case (4 a b c r)
  have "(length r + 5) div 3 = Suc ((length r + 2) div 3)" by presburger
  with 4 show ?case by (simp add: base64_EncodedLen_def Let_def add.commute)
qed (simp_all add: base64_EncodedLen_def Let_def)

subsection \<open>Times\<close>

fun split_month :: "int \<Rightarrow> int \<Rightarrow> int list \<Rightarrow> int \<times> int" where
  "split_month m d [] = (m, d)"
| "split_month m d (x # xs) = (if d < x then (m, d) else split_month (m + 1) (d - x) xs)"

definition leap_year :: "int \<Rightarrow> bool" where
  "leap_year y \<longleftrightarrow> y mod 4 = 0 \<and> (y mod 100 \<noteq> 0 \<or> y mod 400 = 0)"

text \<open>The civil date (year, month from 1, day from 1) of a day counted from 1 January of year 1.\<close>

definition year_day :: "int \<Rightarrow> int \<times> int" where
  "year_day days =
     (let r400 = days mod 146097; n100 = min 3 (r400 div 36524);
          r100 = r400 - 36524 * n100; r4 = r100 mod 1461; n1 = min 3 (r4 div 365)
      in (400 * (days div 146097) + 100 * n100 + 4 * (r100 div 1461) + n1 + 1, r4 - 365 * n1))"

definition month_lengths :: "int \<Rightarrow> int list" where
  "month_lengths year = [31, if leap_year year then 29 else 28, 31, 30, 31, 30, 31, 31, 30, 31, 30, 31]"

definition civil_date :: "int \<Rightarrow> int \<times> int \<times> int" where
  "civil_date days =
     (let (year, yday) = year_day days; (m, d) = split_month 1 yday (month_lengths year)
      in (year, m, d + 1))"

definition strip_zeros :: "string \<Rightarrow> string" where
  "strip_zeros s = rev (dropWhile (\<lambda>c. c = CHR ''0'') (rev s))"

text \<open>\<open>time.Time.MarshalJSON\<close> in UTC: \<open>None\<close> is its error for a year outside 0 to 9999.\<close>

definition time_json :: "time \<Rightarrow> string option" where
  "time_json t =
     (let (y, mo, d) = civil_date (t div 86400000000000);
          ns = t mod 86400000000000; s = ns div 1000000000; f = ns mod 1000000000
      in if y < 0 \<or> 9999 < y then None
         else Some (quote # pad 4 y @ ''-'' @ pad 2 mo @ ''-'' @ pad 2 d @ ''T'' @
                pad 2 (s div 3600) @ '':'' @ pad 2 (s div 60 mod 60) @ '':'' @ pad 2 (s mod 60) @
                (if f = 0 then [] else ''.'' @ strip_zeros (pad 9 f)) @ ''Z'' @ [quote]))"

lemma split_month_le:
  "split_month m d xs = (m', d') \<Longrightarrow> \<forall>x\<in>set xs. 0 \<le> x \<Longrightarrow> m' \<le> m + int (length xs) \<and> d' \<le> d"
  by (induction m d xs rule: split_month.induct) (fastforce split: if_splits)+

lemma length_strip_zeros: "length (strip_zeros s) \<le> length s"
  using length_dropWhile_le [of "\<lambda>c. c = CHR ''0''" "rev s"] by (simp add: strip_zeros_def)

lemma snd_year_day: "snd (year_day days) < 1461"
proof -
  define r4 where "r4 = (days mod 146097 - 36524 * min 3 (days mod 146097 div 36524)) mod 1461"
  have r4: "0 \<le> r4" "r4 < 1461" by (simp_all add: r4_def)
  then have "0 \<le> min 3 (r4 div 365)" by (simp add: pos_imp_zdiv_nonneg_iff)
  with r4 have "r4 - 365 * min 3 (r4 div 365) < 1461" by linarith
  then show ?thesis unfolding year_day_def Let_def r4_def [symmetric] by simp
qed

lemma civil_date_bounds:
  assumes "civil_date days = (y, m, d)"
  shows "m < 10 ^ 2" "d < 10 ^ 6"
proof -
  obtain e where e: "split_month 1 (snd (year_day days)) (month_lengths y) = (m, e)" "d = e + 1"
    using assms by (auto simp: civil_date_def Let_def split: prod.splits)
  have "\<forall>x\<in>set (month_lengths y). 0 \<le> x" "length (month_lengths y) = 12"
    by (simp_all add: month_lengths_def)
  with split_month_le [OF e(1)] e(2) snd_year_day [of days] show "m < 10 ^ 2" "d < 10 ^ 6"
    by auto
qed

lemma length_padded_fraction: "f < 10 ^ 9 \<Longrightarrow> length (strip_zeros (pad 9 f)) \<le> 9"
  using order_trans [OF length_strip_zeros length_pad_le [of f 9 9]] by simp

lemma time_json_size:
  assumes "time_json t = Some s"
  shows "length s \<le> 100"
proof -
  obtain y m d where c: "civil_date (t div 86400000000000) = (y, m, d)"
    by (cases "civil_date (t div 86400000000000)")
  define ns where "ns = t mod 86400000000000"
  define hour where "hour = ns div 1000000000 div 3600"
  define minute where "minute = ns div 1000000000 div 60 mod 60"
  define sec where "sec = ns div 1000000000 mod 60"
  define frac where "frac = ns mod 1000000000"
  have ns: "ns < 86400000000000" by (simp add: ns_def)
  have "ns div 1000000000 \<le> 86399"
    using zdiv_mono1 [of ns 86399999999999 1000000000] ns by simp
  then have hour: "hour < 10 ^ 6"
    using zdiv_mono1 [of "ns div 1000000000" 86399 3600] by (simp add: hour_def)
  have minute: "minute < 10 ^ 2" and sec: "sec < 10 ^ 2" and frac: "frac < 10 ^ 9"
    using pos_mod_bound [of 60 "ns div 1000000000 div 60"] pos_mod_bound [of 60 "ns div 1000000000"]
    by (simp_all add: minute_def sec_def frac_def)
  have s: "s = quote # pad 4 y @ ''-'' @ pad 2 m @ ''-'' @ pad 2 d @ ''T'' @ pad 2 hour @ '':'' @
      pad 2 minute @ '':'' @ pad 2 sec @ (if frac = 0 then [] else ''.'' @ strip_zeros (pad 9 frac)) @
      ''Z'' @ [quote]" and y: "y < 10 ^ 4"
    using assms c unfolding time_json_def Let_def ns_def [symmetric] hour_def minute_def sec_def frac_def
    by (simp_all split: if_splits)
  show ?thesis
    using length_pad_le [OF y, of 4] length_pad_le [OF civil_date_bounds(1) [OF c], of 2]
      length_pad_le [OF civil_date_bounds(2) [OF c], of 2] length_pad_le [OF hour, of 2]
      length_pad_le [OF minute, of 2] length_pad_le [OF sec, of 2] length_padded_fraction [OF frac]
    by (simp add: s)
qed

end
