(* ===== verification/HistoryImage.thy ===== *)
theory HistoryImage
  imports Protocol Json
begin

text \<open>
  The images of retained history (\<open>internal/history/image.go\<close>): \<open>PrepareImage\<close> validates an image,
  scales it to a long edge of 96 pixels and names it by its digest. The PNG codec and SHA-256 are
  parameters (\<open>codec\<close>): the model says what the program does with their results.
\<close>

type_synonym pixel = "u8 \<times> u8 \<times> u8 \<times> u8"
type_synonym nrgba = "pixel list list"

text \<open>
  A decoded image, as the program reads it: its bounds (a decoded PNG starts at the origin) and the
  colour at a point, converted to NRGBA as \<open>NRGBA.Set\<close> does.
\<close>

record picture =
  pic_Dx :: nat
  pic_Dy :: nat
  pic_At :: "nat \<Rightarrow> nat \<Rightarrow> pixel"

record codec =
  png_Decode :: "bytes \<Rightarrow> picture option"
  png_Encode :: "nrgba \<Rightarrow> bytes option"
  sha256_Sum256 :: "bytes \<Rightarrow> 256 word"

definition hex_EncodeToString :: "256 word \<Rightarrow> string" where
  "hex_EncodeToString w = map (\<lambda>i. hex_digit (unat (take_bit 4 (drop_bit (4 * (63 - i)) w)))) [0..<64]"

lemma length_hex_EncodeToString [simp]: "length (hex_EncodeToString w) = 64"
  by (simp add: hex_EncodeToString_def)

definition historyImageLongEdge :: nat where "historyImageLongEdge = 96"

record imageMeta =
  im_digest :: string
  im_width :: u32
  im_height :: u32

record PreparedImage =
  prep_image :: "Image option"
  prep_meta :: "imageMeta option"

definition newImageMeta :: "codec \<Rightarrow> Image \<Rightarrow> imageMeta" where
  "newImageMeta c source =
     \<lparr>im_digest = hex_EncodeToString (sha256_Sum256 c (img_Data source)),
      im_width = img_Width source, im_height = img_Height source\<rparr>"

text \<open>The scaling rule shared by the history and the wire: a long edge above the limit is brought to it.\<close>

definition scaled :: "nat \<Rightarrow> nat \<Rightarrow> nat \<Rightarrow> nat \<times> nat" where
  "scaled edge width height =
     (let longest = max width height in
      if edge < longest
      then (max 1 (width * edge div longest), max 1 (height * edge div longest))
      else (width, height))"

text \<open>Nearest-neighbour sampling, row by row.\<close>

definition sample :: "picture \<Rightarrow> nat \<Rightarrow> nat \<Rightarrow> nrgba" where
  "sample p width height =
     map (\<lambda>y. map (\<lambda>x. pic_At p (x * pic_Dx p div width) (y * pic_Dy p div height)) [0..<width])
       [0..<height]"

definition normalizeHistoryImage :: "codec \<Rightarrow> Image option \<Rightarrow> err + Image option" where
  "normalizeHistoryImage c source =
     (case source of
        None \<Rightarrow> Inr None
      | Some src \<Rightarrow>
          (case Image_Validate src of
             Some e \<Rightarrow> Inl e
           | None \<Rightarrow>
               (case png_Decode c (img_Data src) of
                  None \<Rightarrow> Inl (Err ''history: decode image'')
                | Some p \<Rightarrow>
                    if pic_Dx p \<noteq> unat (img_Width src) \<or> pic_Dy p \<noteq> unat (img_Height src)
                    then Inl (Err ''history: image dimensions do not match PNG'')
                    else
                      (let (w, h) = scaled historyImageLongEdge (pic_Dx p) (pic_Dy p) in
                       case png_Encode c (sample p w h) of
                         None \<Rightarrow> Inl (Err ''history: encode image'')
                       | Some d \<Rightarrow> Inr (Some \<lparr>img_MediaType = ''image/png'', img_Width = of_nat w,
                           img_Height = of_nat h, img_Data = d\<rparr>)))))"

definition PrepareImage :: "codec \<Rightarrow> Image option \<Rightarrow> err + PreparedImage" where
  "PrepareImage c source =
     (case normalizeHistoryImage c source of
        Inl e \<Rightarrow> Inl e
      | Inr None \<Rightarrow> Inr \<lparr>prep_image = None, prep_meta = None\<rparr>
      | Inr (Some img) \<Rightarrow> Inr \<lparr>prep_image = Some img, prep_meta = Some (newImageMeta c img)\<rparr>)"

text \<open>
  What \<open>PrepareImage\<close> guarantees of its result, and the store relies on: image and metadata come
  together, the digest is 64 characters, and the image is within the history edge.
\<close>

definition prepared_ok :: "PreparedImage \<Rightarrow> bool" where
  "prepared_ok p =
     (case (prep_image p, prep_meta p) of
        (None, None) \<Rightarrow> True
      | (Some i, Some m) \<Rightarrow> length (im_digest m) = 64 \<and> im_width m = img_Width i \<and>
          im_height m = img_Height i \<and> img_MediaType i = ''image/png'' \<and>
          1 \<le> unat (img_Width i) \<and> unat (img_Width i) \<le> historyImageLongEdge \<and>
          1 \<le> unat (img_Height i) \<and> unat (img_Height i) \<le> historyImageLongEdge
      | _ \<Rightarrow> False)"

lemma scaled_le_edge:
  assumes "scaled edge w h = (w', h')" "1 \<le> edge" "1 \<le> w" "1 \<le> h"
  shows "1 \<le> w'" "w' \<le> edge" "1 \<le> h'" "h' \<le> edge"
proof -
  have "x * edge div max w h \<le> edge" if "x \<le> max w h" for x
  proof -
    have "x * edge div max w h \<le> max w h * edge div max w h"
      using that by (intro div_le_mono mult_le_mono1)
    also have "\<dots> = edge" using assms(3) by simp
    finally show ?thesis .
  qed
  then show "1 \<le> w'" "w' \<le> edge" "1 \<le> h'" "h' \<le> edge"
    using assms by (auto simp: scaled_def Let_def split: if_splits)
qed

text \<open>Sampling reads inside the source image only.\<close>

lemma sample_in_bounds:
  assumes "0 < w" "x < w" "0 < dx"
  shows "x * dx div w < (dx :: nat)"
  using assms by (simp add: div_less_iff_less_mult mult.commute)

lemma normalizeHistoryImage_Some:
  assumes "normalizeHistoryImage c (Some src) = Inr r"
  obtains w h d where "r = Some \<lparr>img_MediaType = ''image/png'', img_Width = of_nat w, img_Height = of_nat h,
      img_Data = d\<rparr>" "1 \<le> w" "w \<le> historyImageLongEdge" "1 \<le> h" "h \<le> historyImageLongEdge"
proof -
  have v: "Image_Validate src = None"
    using assms by (cases "Image_Validate src") (simp_all add: normalizeHistoryImage_def)
  with assms obtain p where p: "png_Decode c (img_Data src) = Some p"
    by (cases "png_Decode c (img_Data src)") (simp_all add: normalizeHistoryImage_def)
  obtain w h where sc: "scaled historyImageLongEdge (pic_Dx p) (pic_Dy p) = (w, h)"
    by (cases "scaled historyImageLongEdge (pic_Dx p) (pic_Dy p)")
  from v p sc assms obtain d where
    dims: "pic_Dx p = unat (img_Width src)" "pic_Dy p = unat (img_Height src)" and
    r: "r = Some \<lparr>img_MediaType = ''image/png'', img_Width = of_nat w, img_Height = of_nat h, img_Data = d\<rparr>"
    by (cases "png_Encode c (sample p w h)") (auto simp: normalizeHistoryImage_def split: if_splits)
  have "1 \<le> unat (img_Width src)" "1 \<le> unat (img_Height src)"
    using v by (auto simp: Image_Validate_def Suc_le_eq unat_gt_0)
  with scaled_le_edge [OF sc] dims r that show ?thesis
    by (simp add: historyImageLongEdge_def)
qed

lemma PrepareImage_ok:
  assumes "PrepareImage c src = Inr p"
  shows "prepared_ok p"
proof (cases src)
  case None
  with assms show ?thesis
    by (auto simp: PrepareImage_def normalizeHistoryImage_def prepared_ok_def)
next
  case (Some i)
  then obtain r where n: "normalizeHistoryImage c (Some i) = Inr r"
    using assms by (cases "normalizeHistoryImage c (Some i)") (simp_all add: PrepareImage_def)
  then obtain w h d where r: "r = Some \<lparr>img_MediaType = ''image/png'', img_Width = of_nat w,
      img_Height = of_nat h, img_Data = d\<rparr>" and
    wh: "1 \<le> w" "w \<le> historyImageLongEdge" "1 \<le> h" "h \<le> historyImageLongEdge"
    by (rule normalizeHistoryImage_Some)
  from wh have "unat (of_nat w :: u32) = w" "unat (of_nat h :: u32) = h"
    by (simp_all add: historyImageLongEdge_def unat_of_nat)
  with wh assms Some n r show ?thesis
    by (auto simp: PrepareImage_def prepared_ok_def newImageMeta_def)
qed

end
