(* ===== verification/History.thy ===== *)
theory History
  imports HistoryImage
begin

text \<open>
  The retained history (\<open>internal/history/store.go\<close> and \<open>schema.go\<close>): the in-memory store that is
  the authoritative state, its mutations, the encoded size of the document it is written to, and
  the on-disk schema. The mutations run under the store's mutex, so each is one function on the
  store. The persistence worker is modelled in theory \<open>Persist\<close>.
\<close>

definition maxHistoryJSONBytes :: nat where "maxHistoryJSONBytes = 8 * 2 ^ 20"
definition maxHistoryWriteBytes :: nat where "maxHistoryWriteBytes = maxHistoryJSONBytes - 256"

record retained =
  rt_entry :: HistoryEntry
  rt_meta :: "imageMeta option"
  rt_size :: nat

record Store =
  st_codec :: codec
  st_entries :: "retained list"
  st_dirty :: bool
  st_writeGen :: nat
  st_workerGen :: nat
  st_closed :: bool
  st_lastErr :: error
  st_wake :: bool

abbreviation rt_ID :: "retained \<Rightarrow> u32" where
  "rt_ID r \<equiv> h_ID (rt_entry r)"

subsection \<open>The on-disk schema (schema.go)\<close>

record diskImage =
  di_SHA256 :: string
  di_Width :: u32
  di_Height :: u32

record diskEntry =
  de_ID :: u32
  de_Seen :: bool
  de_AppName :: string
  de_AppIcon :: string
  de_DesktopEntry :: string
  de_Summary :: string
  de_Body :: string
  de_Urgency :: u8
  de_Category :: string
  de_Timestamp :: time
  de_Image :: "diskImage option"

record document =
  doc_Version :: int
  doc_Entries :: "diskEntry list"

definition schemaVersion :: int where "schemaVersion = 1"

definition imageReference :: "imageMeta option \<Rightarrow> diskImage option" where
  "imageReference meta =
     map_option (\<lambda>m. \<lparr>di_SHA256 = im_digest m, di_Width = im_width m, di_Height = im_height m\<rparr>) meta"

definition diskEntryOf :: "retained \<Rightarrow> diskEntry" where
  "diskEntryOf r = (let e = rt_entry r in
     \<lparr>de_ID = h_ID e, de_Seen = h_Seen e, de_AppName = h_AppName e, de_AppIcon = h_AppIcon e,
      de_DesktopEntry = h_DesktopEntry e, de_Summary = h_Summary e, de_Body = h_Body e,
      de_Urgency = h_Urgency e, de_Category = h_Category e, de_Timestamp = h_Timestamp e,
      de_Image = imageReference (rt_meta r)\<rparr>)"

definition encodeDocument :: "retained list \<Rightarrow> document" where
  "encodeDocument entries =
     \<lparr>doc_Version = schemaVersion, doc_Entries = map diskEntryOf entries\<rparr>"

text \<open>\<open>json.Marshal\<close> of the schema's structs; \<open>None\<close> is its error on a time out of range.\<close>

definition marshal_diskImage :: "diskImage \<Rightarrow> string" where
  "marshal_diskImage i = json_object
     [json_field ''sha256'' (json_string (di_SHA256 i)),
      json_field ''width'' (dec (uint (di_Width i))),
      json_field ''height'' (dec (uint (di_Height i)))]"

definition diskEntry_fields :: "diskEntry \<Rightarrow> string \<Rightarrow> string list" where
  "diskEntry_fields e ts =
     json_field ''id'' (dec (uint (de_ID e))) # json_field ''seen'' (json_bool (de_Seen e)) #
     string_field_omit ''app_name'' (de_AppName e) @ string_field_omit ''app_icon'' (de_AppIcon e) @
     string_field_omit ''desktop_entry'' (de_DesktopEntry e) @ string_field ''summary'' (de_Summary e) @
     string_field_omit ''body'' (de_Body e) @ [json_field ''urgency'' (dec (uint (de_Urgency e)))] @
     string_field_omit ''category'' (de_Category e) @ [json_field ''timestamp'' ts] @
     (case de_Image e of None \<Rightarrow> [] | Some i \<Rightarrow> [json_field ''image'' (marshal_diskImage i)])"

definition marshal_diskEntry :: "diskEntry \<Rightarrow> string option" where
  "marshal_diskEntry e = map_option (\<lambda>ts. json_object (diskEntry_fields e ts)) (time_json (de_Timestamp e))"

definition marshal_document :: "document \<Rightarrow> string option" where
  "marshal_document d =
     map_option (\<lambda>es. json_object [json_field ''version'' (dec_int (doc_Version d)),
         json_field ''entries'' (json_array es)])
       (those (map marshal_diskEntry (doc_Entries d)))"

subsection \<open>Entry sizes and the write budget (store.go)\<close>

definition newRetained :: "HistoryEntry \<Rightarrow> imageMeta option \<Rightarrow> err + retained" where
  "newRetained entry meta =
     (case marshal_diskEntry (diskEntryOf \<lparr>rt_entry = entry, rt_meta = meta, rt_size = 0\<rparr>) of
        None \<Rightarrow> Inl (Err ''history: measure entry'')
      | Some encoded \<Rightarrow> Inr \<lparr>rt_entry = entry, rt_meta = meta, rt_size = length encoded\<rparr>)"

definition documentOverhead :: nat where
  "documentOverhead =
     (case marshal_document \<lparr>doc_Version = schemaVersion, doc_Entries = []\<rparr> of
        None \<Rightarrow> 0 | Some e \<Rightarrow> length e + 1)"

definition documentBytes :: "retained list \<Rightarrow> nat" where
  "documentBytes entries =
     (if entries = [] then documentOverhead
      else documentOverhead + length entries - 1 + (\<Sum>r\<leftarrow>entries. rt_size r))"

fun trimToBudget :: "retained list \<Rightarrow> retained list \<times> u32 list" where
  "trimToBudget [] = ([], [])"
| "trimToBudget (r # rs) =
     (if documentBytes (r # rs) \<le> maxHistoryWriteBytes then (r # rs, [])
      else let (kept, removed) = trimToBudget rs in (kept, rt_ID r # removed))"

fun trimToCount :: "retained list \<Rightarrow> retained list \<times> u32 list" where
  "trimToCount [] = ([], [])"
| "trimToCount (r # rs) =
     (if MaxHistoryEntries < length (r # rs)
      then let (kept, removed) = trimToCount rs in (kept, rt_ID r # removed)
      else (r # rs, []))"

subsection \<open>Mutations (store.go)\<close>

definition schedule :: "Store \<Rightarrow> Store" where
  "schedule s = s\<lparr>st_writeGen := Suc (st_writeGen s), st_dirty := True, st_wake := True\<rparr>"

definition Entries :: "Store \<Rightarrow> HistoryEntry list" where
  "Entries s = map rt_entry (st_entries s)"

definition IDs :: "Store \<Rightarrow> u32 list" where
  "IDs s = map rt_ID (st_entries s)"

definition zero_HistoryEntry :: HistoryEntry where
  "zero_HistoryEntry = \<lparr>h_ID = 0, h_Seen = False, h_AppName = [], h_AppIcon = [], h_DesktopEntry = [],
     h_Summary = [], h_Body = [], h_Urgency = 0, h_Category = [], h_Timestamp = 0, h_Image = None\<rparr>"

definition expired :: "time \<Rightarrow> retained \<Rightarrow> bool" where
  "expired now r \<longleftrightarrow> time_Before (h_Timestamp (rt_entry r)) (time_Add now (- HistoryRetention))"

definition AddPrepared ::
  "HistoryEntry \<Rightarrow> PreparedImage \<Rightarrow> time \<Rightarrow> Store \<Rightarrow> (err + HistoryEntry \<times> u32 list) \<times> Store" where
  "AddPrepared entry0 img now s =
     (let entry = entry0\<lparr>h_Image := prep_image img\<rparr> in
      case HistoryEntry_Validate entry of
        Some e \<Rightarrow> (Inl e, s)
      | None \<Rightarrow>
          if time_Before (h_Timestamp entry) (time_Add now (- HistoryRetention))
          then (Inr (zero_HistoryEntry, []), s)
          else
            let gone = (\<lambda>r. rt_ID r = h_ID entry \<or> expired now r);
                removed = map rt_ID (filter gone (st_entries s));
                kept = filter (\<lambda>r. \<not> gone r) (st_entries s)
            in (case newRetained entry (prep_meta img) of
                  Inl e \<Rightarrow> (Inl e, s)
                | Inr added \<Rightarrow>
                    let (counted, countRemoved) = trimToCount (kept @ [added]);
                        (fitted, budgetRemoved) = trimToBudget counted
                    in (Inr (entry, removed @ countRemoved @ budgetRemoved),
                        schedule (s\<lparr>st_entries := fitted\<rparr>))))"

definition Add :: "HistoryEntry \<Rightarrow> time \<Rightarrow> Store \<Rightarrow> (err + HistoryEntry \<times> u32 list) \<times> Store" where
  "Add entry now s =
     (case PrepareImage (st_codec s) (h_Image entry) of
        Inl e \<Rightarrow> (Inl e, s)
      | Inr img \<Rightarrow> AddPrepared entry img now s)"

definition Sweep :: "time \<Rightarrow> Store \<Rightarrow> u32 list \<times> Store" where
  "Sweep now s =
     (let removed = map rt_ID (filter (expired now) (st_entries s)) in
      if removed = [] then ([], s)
      else (removed, schedule (s\<lparr>st_entries := filter (\<lambda>r. \<not> expired now r) (st_entries s)\<rparr>)))"

definition Remove :: "u32 list \<Rightarrow> Store \<Rightarrow> u32 list \<times> Store" where
  "Remove ids s =
     (if ids = [] then ([], s)
      else let removed = map rt_ID (filter (\<lambda>r. rt_ID r \<in> set ids) (st_entries s)) in
        if removed = [] then ([], s)
        else (removed, schedule (s\<lparr>st_entries := filter (\<lambda>r. rt_ID r \<notin> set ids) (st_entries s)\<rparr>)))"

fun mark_loop :: "u32 list \<Rightarrow> retained list \<Rightarrow> err + retained list \<times> u32 list" where
  "mark_loop wanted [] = Inr ([], [])"
| "mark_loop wanted (r # rs) =
     (if rt_ID r \<in> set wanted \<and> \<not> h_Seen (rt_entry r)
      then case newRetained ((rt_entry r)\<lparr>h_Seen := True\<rparr>) (rt_meta r) of
             Inl e \<Rightarrow> Inl e
           | Inr measured \<Rightarrow>
               (case mark_loop wanted rs of
                  Inl e \<Rightarrow> Inl e
                | Inr (next', changed) \<Rightarrow> Inr (measured # next', rt_ID r # changed))
      else case mark_loop wanted rs of
             Inl e \<Rightarrow> Inl e
           | Inr (next', changed) \<Rightarrow> Inr (r # next', changed))"

definition MarkSeen :: "u32 list \<Rightarrow> Store \<Rightarrow> (err + u32 list) \<times> Store" where
  "MarkSeen ids s =
     (case mark_loop ids (st_entries s) of
        Inl e \<Rightarrow> (Inl e, s)
      | Inr (next', changed) \<Rightarrow>
          if changed = [] then (Inr [], s)
          else (Inr changed, schedule (s\<lparr>st_entries := next'\<rparr>)))"

definition Clear :: "Store \<Rightarrow> u32 list \<times> Store" where
  "Clear s =
     (if st_entries s = [] then ([], s)
      else (map rt_ID (st_entries s), schedule (s\<lparr>st_entries := []\<rparr>)))"

definition retain :: "retained list \<Rightarrow> time \<Rightarrow> retained list" where
  "retain entries now = filter (\<lambda>r. \<not> expired now r) entries"

subsection \<open>The store invariant\<close>

text \<open>
  A retained entry is well formed when it is valid, its image and metadata agree and its recorded
  size is the length of its encoding.
\<close>

definition retained_ok :: "retained \<Rightarrow> bool" where
  "retained_ok r \<longleftrightarrow>
     HistoryEntry_Validate (rt_entry r) = None \<and>
     prepared_ok \<lparr>prep_image = h_Image (rt_entry r), prep_meta = rt_meta r\<rparr> \<and>
     map_option length (marshal_diskEntry (diskEntryOf r)) = Some (rt_size r)"

definition entries_ok :: "retained list \<Rightarrow> bool" where
  "entries_ok rs \<longleftrightarrow>
     (\<forall>r\<in>set rs. retained_ok r) \<and> distinct (map rt_ID rs) \<and>
     length rs \<le> MaxHistoryEntries \<and> documentBytes rs \<le> maxHistoryWriteBytes"

definition store_ok :: "Store \<Rightarrow> bool" where
  "store_ok s \<longleftrightarrow> entries_ok (st_entries s)"

lemma schedule_simps [simp]:
  "st_entries (schedule s) = st_entries s" "st_codec (schedule s) = st_codec s"
  "st_writeGen (schedule s) = Suc (st_writeGen s)" "st_dirty (schedule s)" "st_wake (schedule s)"
  by (simp_all add: schedule_def)

subsection \<open>The size of the document\<close>

lemma documentOverhead_eq: "documentOverhead = 27"
  by code_simp

lemma documentBytes_alt: "documentBytes rs = 27 + (length rs - 1) + (\<Sum>r\<leftarrow>rs. rt_size r)"
  by (cases rs) (simp_all add: documentBytes_def documentOverhead_eq)

lemma those_map_Some: "(\<And>x. x \<in> set xs \<Longrightarrow> f x = Some (g x)) \<Longrightarrow> those (map f xs) = Some (map g xs)"
  by (induction xs) auto

lemma retained_ok_marshal:
  assumes "retained_ok r"
  obtains enc where "marshal_diskEntry (diskEntryOf r) = Some enc" "rt_size r = length enc"
  using assms by (auto simp: retained_ok_def)

text \<open>
  The size the store computes from the sizes of the entries is the length of the file it writes: the
  encoded document and a newline.
\<close>

lemma documentBytes_exact:
  assumes "\<forall>r\<in>set rs. retained_ok r"
  shows "\<exists>enc. marshal_document (encodeDocument rs) = Some enc \<and> documentBytes rs = length (enc @ [CHR 0x0A])"
proof -
  define f where "f r = the (marshal_diskEntry (diskEntryOf r))" for r
  have f: "marshal_diskEntry (diskEntryOf r) = Some (f r) \<and> rt_size r = length (f r)" if "r \<in> set rs" for r
    using assms that retained_ok_marshal [of r] by (metis f_def option.sel)
  then have t: "those (map (\<lambda>r. marshal_diskEntry (diskEntryOf r)) rs) = Some (map f rs)"
    by (intro those_map_Some) simp
  have sizes: "(\<Sum>r\<leftarrow>rs. rt_size r) = (\<Sum>r\<leftarrow>rs. length (f r))"
    using f by (intro arg_cong [where f = sum_list] map_cong) auto
  define enc where "enc = json_object [json_field ''version'' (dec_int schemaVersion),
      json_field ''entries'' (json_array (map f rs))]"
  have "marshal_document (encodeDocument rs) = Some enc"
    by (simp add: marshal_document_def encodeDocument_def comp_def t enc_def)
  moreover have "length (dec_int schemaVersion) = 1" by code_simp
  then have "documentBytes rs = length enc + 1"
    unfolding documentBytes_alt enc_def
    by (simp add: json_object_def length_json_field length_json_array comp_def sizes)
  ultimately show ?thesis by auto
qed

lemma documentBytes_filter: "documentBytes (filter P rs) \<le> documentBytes rs"
proof -
  have "(\<Sum>r\<leftarrow>filter P rs. rt_size r) \<le> (\<Sum>r\<leftarrow>rs. rt_size r)" by (induction rs) auto
  moreover have "length (filter P rs) \<le> length rs" by simp
  ultimately show ?thesis unfolding documentBytes_alt by linarith
qed

lemma validateText_length: "validateText name v limit e = None \<Longrightarrow> length v \<le> limit"
  by (auto simp: validateText_def)

lemma length_dec_u32: "length (dec (uint (n :: u32))) \<le> 10"
  using length_dec_le [of "uint n" 10] uint_lt2p [of n] by simp

lemma length_dec_u8: "length (dec (uint (n :: u8))) \<le> 3"
  using length_dec_le [of "uint n" 3] uint_lt2p [of n] by simp

text \<open>A valid entry takes less than a tenth of the write budget, even if every byte is escaped.\<close>

lemma retained_size_bound:
  assumes "retained_ok r"
  shows "rt_size r \<le> 600000"
proof -
  obtain enc where enc: "marshal_diskEntry (diskEntryOf r) = Some enc" "rt_size r = length enc"
    using assms by (rule retained_ok_marshal)
  then obtain ts where ts: "time_json (h_Timestamp (rt_entry r)) = Some ts"
    and encd: "enc = json_object (diskEntry_fields (diskEntryOf r) ts)"
    by (auto simp: marshal_diskEntry_def diskEntryOf_def Let_def)
  let ?e = "rt_entry r"
  have texts: "length (h_AppName ?e) \<le> 16384" "length (h_AppIcon ?e) \<le> 16384"
    "length (h_DesktopEntry ?e) \<le> 16384" "length (h_Summary ?e) \<le> 16384"
    "length (h_Body ?e) \<le> 16384" "length (h_Category ?e) \<le> 16384"
    using assms validateText_length
    by (fastforce simp: retained_ok_def HistoryEntry_Validate_def MaxBodyBytes_def)+
  have img: "(\<Sum>x\<leftarrow>(case imageReference (rt_meta r) of None \<Rightarrow> []
      | Some i \<Rightarrow> [json_field ''image'' (marshal_diskImage i)]). length x + 1) \<le> 500"
  proof (cases "rt_meta r")
    case None
    then show ?thesis by (simp add: imageReference_def)
  next
    case (Some m)
    with assms have "length (im_digest m) = 64"
      by (auto simp: retained_ok_def prepared_ok_def split: option.splits)
    with length_json_string [of "im_digest m"] length_dec_u32 [of "im_width m"]
      length_dec_u32 [of "im_height m"] Some show ?thesis
      by (simp add: imageReference_def marshal_diskImage_def json_object_def length_json_field)
  qed
  have "length enc \<le> 2 + (\<Sum>x\<leftarrow>diskEntry_fields (diskEntryOf r) ts. length x + 1)"
    using length_join_comma_le by (simp add: encd json_object_def)
  also have "\<dots> \<le> 600000"
    using texts img time_json_size [OF ts] length_dec_u32 [of "h_ID ?e"] length_dec_u8 [of "h_Urgency ?e"]
      string_field_omit_size [of "''app_name''" "h_AppName ?e"]
      string_field_omit_size [of "''app_icon''" "h_AppIcon ?e"]
      string_field_omit_size [of "''desktop_entry''" "h_DesktopEntry ?e"]
      string_field_size [of "''summary''" "h_Summary ?e"]
      string_field_omit_size [of "''body''" "h_Body ?e"]
      string_field_omit_size [of "''category''" "h_Category ?e"]
    by (simp add: diskEntry_fields_def diskEntryOf_def Let_def length_json_field json_bool_def)
  finally show ?thesis using enc by simp
qed

subsection \<open>Trimming\<close>

lemma trimToCount_eq:
  "trimToCount rs = (drop (length rs - MaxHistoryEntries) rs,
     map rt_ID (take (length rs - MaxHistoryEntries) rs))"
proof (induction rs)
  case (Cons r rs)
  then show ?case by (cases "MaxHistoryEntries \<le> length rs") (simp_all add: Suc_diff_le)
qed simp

text \<open>
  The budget loop drops a prefix, stops with a document that fits, and keeps the newest entry if that
  entry alone fits.
\<close>

lemma trimToBudget_eq:
  assumes "rs \<noteq> [] \<Longrightarrow> documentBytes [last rs] \<le> maxHistoryWriteBytes"
  shows "\<exists>k. trimToBudget rs = (drop k rs, map rt_ID (take k rs)) \<and>
     documentBytes (drop k rs) \<le> maxHistoryWriteBytes \<and> (rs \<noteq> [] \<longrightarrow> k < length rs)"
  using assms
proof (induction rs)
  case Nil
  show ?case
    by (intro exI [of _ 0])
      (simp add: documentBytes_def documentOverhead_eq maxHistoryWriteBytes_def maxHistoryJSONBytes_def)
next
  case (Cons r rs)
  show ?case
  proof (cases "documentBytes (r # rs) \<le> maxHistoryWriteBytes")
    case True
    then show ?thesis by (intro exI [of _ 0]) simp
  next
    case False
    with Cons.prems have ne: "rs \<noteq> []" by auto
    then have "documentBytes [last rs] \<le> maxHistoryWriteBytes" using Cons.prems by simp
    from Cons.IH [OF this] obtain k where k: "trimToBudget rs = (drop k rs, map rt_ID (take k rs))"
      "documentBytes (drop k rs) \<le> maxHistoryWriteBytes" "k < length rs" using ne by blast
    with False show ?thesis by (intro exI [of _ "Suc k"]) simp
  qed
qed

lemma single_fits: "retained_ok r \<Longrightarrow> documentBytes [r] \<le> maxHistoryWriteBytes"
  using retained_size_bound [of r]
  by (simp add: documentBytes_alt maxHistoryWriteBytes_def maxHistoryJSONBytes_def)

lemma entries_ok_filter: "entries_ok rs \<Longrightarrow> entries_ok (filter P rs)"
  using order_trans [OF documentBytes_filter [of P rs]] order_trans [OF length_filter_le [of P rs]]
  by (auto simp: entries_ok_def distinct_map_filter)

subsection \<open>Adding an entry\<close>

lemma newRetained_ok:
  assumes "newRetained e m = Inr r" "HistoryEntry_Validate e = None"
    "prepared_ok \<lparr>prep_image = h_Image e, prep_meta = m\<rparr>"
  shows "retained_ok r \<and> rt_entry r = e \<and> rt_meta r = m"
  using assms by (auto simp: newRetained_def retained_ok_def diskEntryOf_def split: option.splits)

text \<open>The two trimming loops together drop a prefix of the entries that were kept, never the new entry.\<close>

lemma trims_keep_new:
  assumes "entries_ok kept" "retained_ok r" "h_ID (rt_entry r) \<notin> set (map rt_ID kept)"
    and "trimToCount (kept @ [r]) = (counted, countRemoved)" "trimToBudget counted = (fitted, budgetRemoved)"
  shows "\<exists>k\<le>length kept. fitted = drop k kept @ [r] \<and> countRemoved @ budgetRemoved = map rt_ID (take k kept)
    \<and> entries_ok fitted"
proof -
  define c where "c = length (kept @ [r]) - MaxHistoryEntries"
  have c: "c \<le> length kept" using assms(1) by (simp add: c_def entries_ok_def limit_defs)
  have counted: "counted = drop c kept @ [r]" and cr: "countRemoved = map rt_ID (take c kept)"
    using assms(4) c by (simp_all add: trimToCount_eq c_def)
  have "documentBytes [last counted] \<le> maxHistoryWriteBytes"
    using single_fits [OF assms(2)] by (simp add: counted)
  with trimToBudget_eq [of counted] assms(5) obtain b where
    b: "fitted = drop b counted" "budgetRemoved = map rt_ID (take b counted)"
      "documentBytes fitted \<le> maxHistoryWriteBytes" "b < length counted"
    by (auto simp: counted)
  have bl: "c + b \<le> length kept" using b(4) c by (simp add: counted)
  then have f: "fitted = drop (c + b) kept @ [r]" using b(1) by (simp add: counted add.commute)
  moreover have "countRemoved @ budgetRemoved = map rt_ID (take (c + b) kept)"
    using bl by (simp add: cr b(2) counted take_add)
  moreover have "entries_ok fitted"
  proof -
    have "distinct (map rt_ID (drop (c + b) kept))"
      using assms(1) by (simp add: entries_ok_def drop_map [symmetric] distinct_drop)
    moreover have "length fitted \<le> MaxHistoryEntries"
      using assms(1) by (auto simp: f c_def entries_ok_def limit_defs)
    ultimately show ?thesis
      using assms(1-3) b(3) by (auto simp: f entries_ok_def dest: in_set_dropD)
  qed
  ultimately show ?thesis using bl by blast
qed

lemma AddPrepared_cases:
  assumes "store_ok s" "prepared_ok img" "AddPrepared e0 img now s = (res, s')"
  obtains (error) e where "res = Inl e" "s' = s"
    | (old) "res = Inr (zero_HistoryEntry, [])" "s' = s"
    | (added) entry removed r where "res = Inr (entry, removed)"
        "entry = e0\<lparr>h_Image := prep_image img\<rparr>" "HistoryEntry_Validate entry = None"
        "rt_entry r = entry" "retained_ok r" "store_ok s'" "st_codec s' = st_codec s"
        "st_entries s' = filter (\<lambda>x. rt_ID x \<notin> set removed) (st_entries s) @ [r]"
        "set removed \<subseteq> set (map rt_ID (st_entries s))"
        "st_writeGen s' = Suc (st_writeGen s)"
proof -
  define entry where "entry = e0\<lparr>h_Image := prep_image img\<rparr>"
  define gone where "gone = (\<lambda>r. rt_ID r = h_ID entry \<or> expired now r)"
  define kept where "kept = filter (\<lambda>r. \<not> gone r) (st_entries s)"
  have eq: "(res, s') = (case HistoryEntry_Validate entry of
        Some e \<Rightarrow> (Inl e, s)
      | None \<Rightarrow>
          if time_Before (h_Timestamp entry) (time_Add now (- HistoryRetention))
          then (Inr (zero_HistoryEntry, []), s)
          else case newRetained entry (prep_meta img) of
                 Inl e \<Rightarrow> (Inl e, s)
               | Inr r \<Rightarrow>
                   let (counted, countRemoved) = trimToCount (kept @ [r]);
                       (fitted, budgetRemoved) = trimToBudget counted
                   in (Inr (entry, map rt_ID (filter gone (st_entries s)) @ countRemoved @ budgetRemoved),
                       schedule (s\<lparr>st_entries := fitted\<rparr>)))"
    using assms(3) by (simp only: AddPrepared_def Let_def entry_def gone_def kept_def)
  have meta: "prepared_ok \<lparr>prep_image = h_Image entry, prep_meta = prep_meta img\<rparr>"
    using assms(2) by (simp add: entry_def prepared_ok_def)
  have dist: "distinct (map rt_ID (st_entries s))" using assms(1) by (simp add: store_ok_def entries_ok_def)
  show thesis
  proof (cases "HistoryEntry_Validate entry")
    case (Some e)
    with eq error show thesis by auto
  next
    case valid: None
    show thesis
    proof (cases "time_Before (h_Timestamp entry) (time_Add now (- HistoryRetention))")
      case True
      with eq valid old show thesis by auto
    next
      case False
      show thesis
      proof (cases "newRetained entry (prep_meta img)")
        case (Inl e)
        with eq valid False error show thesis by auto
      next
        case (Inr r)
        obtain counted countRemoved fitted budgetRemoved where
          t: "trimToCount (kept @ [r]) = (counted, countRemoved)" "trimToBudget counted = (fitted, budgetRemoved)"
          by (meson surj_pair)
        have r: "retained_ok r" "rt_entry r = entry" using newRetained_ok [OF Inr valid meta] by auto
        have "h_ID (rt_entry r) \<notin> set (map rt_ID kept)" by (auto simp: r(2) kept_def gone_def)
        moreover have "entries_ok kept" using assms(1) by (simp add: store_ok_def kept_def entries_ok_filter)
        ultimately obtain k where k: "k \<le> length kept" "fitted = drop k kept @ [r]"
          "countRemoved @ budgetRemoved = map rt_ID (take k kept)" "entries_ok fitted"
          using trims_keep_new [OF _ r(1) _ t] by blast
        define removed where "removed = map rt_ID (filter gone (st_entries s)) @ map rt_ID (take k kept)"
        have res: "res = Inr (entry, removed)" "s' = schedule (s\<lparr>st_entries := fitted\<rparr>)"
          using eq valid False Inr t k(3) by (auto simp: removed_def)
        have "filter (\<lambda>x. rt_ID x \<notin> set removed) (st_entries s) = drop k kept"
          using filter_key_trimmed [OF dist, of gone k] by (simp add: removed_def kept_def)
        moreover have "set removed \<subseteq> set (map rt_ID (st_entries s))"
          by (auto simp: removed_def kept_def dest!: in_set_takeD)
        ultimately show thesis
          using added [OF res(1) entry_def valid r(2,1)] k res(2) by (simp add: store_ok_def)
      qed
    qed
  qed
qed

lemma Add_cases:
  assumes "store_ok s" "Add e0 now s = (res, s')"
  obtains (error) e where "res = Inl e" "s' = s"
    | (old) "res = Inr (zero_HistoryEntry, [])" "s' = s"
    | (added) img entry removed r where "res = Inr (entry, removed)"
        "entry = e0\<lparr>h_Image := img\<rparr>" "HistoryEntry_Validate entry = None"
        "rt_entry r = entry" "retained_ok r" "store_ok s'" "st_codec s' = st_codec s"
        "st_entries s' = filter (\<lambda>x. rt_ID x \<notin> set removed) (st_entries s) @ [r]"
        "set removed \<subseteq> set (map rt_ID (st_entries s))"
        "st_writeGen s' = Suc (st_writeGen s)"
proof (cases "PrepareImage (st_codec s) (h_Image e0)")
  case (Inl e)
  with assms(2) error show thesis by (auto simp: Add_def)
next
  case (Inr img)
  then have "AddPrepared e0 img now s = (res, s')" using assms(2) by (simp add: Add_def)
  from AddPrepared_cases [OF assms(1) PrepareImage_ok [OF Inr] this] show thesis
    by cases (use error old added in blast)+
qed

subsection \<open>Removing, sweeping, clearing, marking\<close>

text \<open>The projection a client keeps of the history, and what a notice from the store does to it.\<close>

definition hist_remove :: "u32 list \<Rightarrow> HistoryEntry list \<Rightarrow> HistoryEntry list" where
  "hist_remove ids es = filter (\<lambda>e. h_ID e \<notin> set ids) es"

definition hist_seen :: "u32 list \<Rightarrow> HistoryEntry list \<Rightarrow> HistoryEntry list" where
  "hist_seen ids es = map (\<lambda>e. if h_ID e \<in> set ids then e\<lparr>h_Seen := True\<rparr> else e) es"

lemma Entries_filter:
  "map rt_entry (filter (\<lambda>r. rt_ID r \<notin> A) rs) = filter (\<lambda>e. h_ID e \<notin> A) (map rt_entry rs)"
  by (induction rs) auto

lemma Remove_spec:
  assumes "Remove ids s = (removed, s')" "store_ok s"
  shows "store_ok s'" "Entries s' = hist_remove removed (Entries s)" "hist_remove removed (Entries s) = hist_remove ids (Entries s)"
    "set removed = set ids \<inter> set (IDs s)" "distinct removed" "st_codec s' = st_codec s"
proof -
  have d: "distinct (map rt_ID (st_entries s))" using assms(2) by (simp add: store_ok_def entries_ok_def)
  have r: "removed = map rt_ID (filter (\<lambda>r. rt_ID r \<in> set ids) (st_entries s))"
    and e: "st_entries s' = filter (\<lambda>r. rt_ID r \<notin> set ids) (st_entries s)"
    and c: "st_codec s' = st_codec s"
    using assms(1) by (auto simp: Remove_def Let_def filter_empty_conv filter_id_conv split: if_splits)
  show "store_ok s'" using assms(2) by (simp add: store_ok_def e entries_ok_filter)
  show sets: "set removed = set ids \<inter> set (IDs s)" by (auto simp: r IDs_def)
  show "distinct removed" using d by (simp add: r distinct_map_filter)
  show "st_codec s' = st_codec s" by (rule c)
  show same: "hist_remove removed (Entries s) = hist_remove ids (Entries s)"
    using sets by (auto simp: hist_remove_def Entries_def IDs_def intro!: filter_cong)
  show "Entries s' = hist_remove removed (Entries s)"
    unfolding same by (simp add: Entries_def e hist_remove_def Entries_filter)
qed

lemma Sweep_spec:
  assumes "Sweep now s = (removed, s')" "store_ok s"
  shows "store_ok s'" "Entries s' = hist_remove removed (Entries s)"
    "removed = map rt_ID (filter (expired now) (st_entries s))" "st_codec s' = st_codec s"
    "\<forall>r\<in>set (st_entries s'). \<not> expired now r"
proof -
  have d: "distinct (map rt_ID (st_entries s))" using assms(2) by (simp add: store_ok_def entries_ok_def)
  show r: "removed = map rt_ID (filter (expired now) (st_entries s))"
    and c: "st_codec s' = st_codec s"
    using assms(1) by (auto simp: Sweep_def Let_def filter_empty_conv split: if_splits)
  have e: "st_entries s' = filter (\<lambda>r. \<not> expired now r) (st_entries s)"
    using assms(1) by (auto simp: Sweep_def Let_def filter_empty_conv filter_id_conv split: if_splits)
  show "store_ok s'" using assms(2) by (simp add: store_ok_def e entries_ok_filter)
  show "\<forall>r\<in>set (st_entries s'). \<not> expired now r" by (simp add: e)
  have "st_entries s' = filter (\<lambda>r. h_ID (rt_entry r) \<notin> set removed) (st_entries s)"
    using filter_key_notin_filter [OF d, of "expired now"] by (simp add: e r)
  then show "Entries s' = hist_remove removed (Entries s)"
    by (simp add: Entries_def hist_remove_def Entries_filter)
qed

lemma Clear_spec:
  assumes "Clear s = (removed, s')" "store_ok s"
  shows "store_ok s'" "Entries s' = []" "removed = IDs s" "st_codec s' = st_codec s"
  using assms
  by (auto simp: Clear_def Entries_def IDs_def store_ok_def entries_ok_def documentBytes_alt
      maxHistoryWriteBytes_def maxHistoryJSONBytes_def limit_defs split: if_splits)

text \<open>Marking an entry as seen makes its encoding one byte shorter.\<close>

lemma newRetained_seen:
  assumes "retained_ok r" "\<not> h_Seen (rt_entry r)"
  obtains m where "newRetained ((rt_entry r)\<lparr>h_Seen := True\<rparr>) (rt_meta r) = Inr m"
    "retained_ok m" "rt_entry m = (rt_entry r)\<lparr>h_Seen := True\<rparr>" "rt_size r = Suc (rt_size m)"
proof -
  let ?e = "(rt_entry r)\<lparr>h_Seen := True\<rparr>"
  obtain enc where enc: "marshal_diskEntry (diskEntryOf r) = Some enc" "rt_size r = length enc"
    using assms(1) by (rule retained_ok_marshal)
  then obtain ts where ts: "time_json (h_Timestamp (rt_entry r)) = Some ts"
    and encd: "enc = json_object (diskEntry_fields (diskEntryOf r) ts)"
    by (auto simp: marshal_diskEntry_def diskEntryOf_def Let_def)
  define d where "d = diskEntryOf \<lparr>rt_entry = ?e, rt_meta = rt_meta r, rt_size = 0\<rparr>"
  define m where "m = \<lparr>rt_entry = ?e, rt_meta = rt_meta r, rt_size = length (json_object (diskEntry_fields d ts))\<rparr>"
  have "marshal_diskEntry d = Some (json_object (diskEntry_fields d ts))"
    by (simp add: marshal_diskEntry_def d_def diskEntryOf_def Let_def ts)
  then have n: "newRetained ?e (rt_meta r) = Inr m"
    by (simp add: newRetained_def d_def m_def)
  have v: "HistoryEntry_Validate ?e = None" "prepared_ok \<lparr>prep_image = h_Image ?e, prep_meta = rt_meta r\<rparr>"
    using assms(1) by (simp_all add: retained_ok_def HistoryEntry_Validate_def)
  from newRetained_ok [OF n v] have "retained_ok m" "rt_entry m = ?e" by auto
  moreover have "length enc = Suc (length (json_object (diskEntry_fields d ts)))"
    using assms(2) by (simp add: encd json_object_def length_join_comma diskEntry_fields_def d_def
        diskEntryOf_def Let_def length_json_field json_bool_def)
  then have "rt_size r = Suc (rt_size m)" using enc(2) by (simp add: m_def)
  ultimately show thesis using that [of m] n by blast
qed

lemma mark_loop_spec:
  assumes "\<forall>r\<in>set rs. retained_ok r"
  shows "\<exists>next'. mark_loop w rs = Inr (next', map rt_ID (filter (\<lambda>r. rt_ID r \<in> set w \<and> \<not> h_Seen (rt_entry r)) rs)) \<and>
     (\<forall>r\<in>set next'. retained_ok r) \<and> map rt_ID next' = map rt_ID rs \<and>
     map rt_entry next' = hist_seen w (map rt_entry rs) \<and>
     (\<Sum>r\<leftarrow>next'. rt_size r) \<le> (\<Sum>r\<leftarrow>rs. rt_size r)"
  using assms
proof (induction rs)
  case Nil
  show ?case by (simp add: hist_seen_def)
next
  case (Cons r rs)
  then obtain next' where IH: "mark_loop w rs = Inr (next', map rt_ID (filter (\<lambda>r. rt_ID r \<in> set w \<and> \<not> h_Seen (rt_entry r)) rs))"
    "\<forall>r\<in>set next'. retained_ok r" "map rt_ID next' = map rt_ID rs"
    "map rt_entry next' = hist_seen w (map rt_entry rs)"
    "(\<Sum>r\<leftarrow>next'. rt_size r) \<le> (\<Sum>r\<leftarrow>rs. rt_size r)" by auto
  show ?case
  proof (cases "rt_ID r \<in> set w \<and> \<not> h_Seen (rt_entry r)")
    case True
    with Cons.prems obtain m where m: "newRetained ((rt_entry r)\<lparr>h_Seen := True\<rparr>) (rt_meta r) = Inr m"
      "retained_ok m" "rt_entry m = (rt_entry r)\<lparr>h_Seen := True\<rparr>" "rt_size r = Suc (rt_size m)"
      using newRetained_seen [of r] by auto
    with True IH show ?thesis by (intro exI [of _ "m # next'"]) (auto simp: hist_seen_def)
  next
    case False
    then have "(if rt_ID r \<in> set w then (rt_entry r)\<lparr>h_Seen := True\<rparr> else rt_entry r) = rt_entry r"
      by (cases "rt_entry r") auto
    with False IH Cons.prems show ?thesis by (intro exI [of _ "r # next'"]) (auto simp: hist_seen_def)
  qed
qed

lemma MarkSeen_spec:
  assumes "store_ok s" "MarkSeen ids s = (res, s')"
  obtains changed where "res = Inr changed" "store_ok s'" "st_codec s' = st_codec s"
    "Entries s' = hist_seen ids (Entries s)" "Entries s' = hist_seen changed (Entries s)"
    "distinct changed" "set changed \<subseteq> set (IDs s)" "changed = [] \<Longrightarrow> s' = s"
    "documentBytes (st_entries s') \<le> documentBytes (st_entries s)"
proof -
  let ?new = "\<lambda>r. rt_ID r \<in> set ids \<and> \<not> h_Seen (rt_entry r)"
  have all: "\<forall>r\<in>set (st_entries s). retained_ok r" and d: "distinct (map rt_ID (st_entries s))"
    using assms(1) by (auto simp: store_ok_def entries_ok_def)
  obtain next' where m: "mark_loop ids (st_entries s) = Inr (next', map rt_ID (filter ?new (st_entries s)))"
    "\<forall>r\<in>set next'. retained_ok r" "map rt_ID next' = map rt_ID (st_entries s)"
    "map rt_entry next' = hist_seen ids (map rt_entry (st_entries s))"
    "(\<Sum>r\<leftarrow>next'. rt_size r) \<le> (\<Sum>r\<leftarrow>st_entries s. rt_size r)"
    using mark_loop_spec [OF all, of ids] by blast
  define changed where "changed = map rt_ID (filter ?new (st_entries s))"
  have len: "length next' = length (st_entries s)" using m(3) by (metis length_map)
  have docs: "documentBytes next' \<le> documentBytes (st_entries s)"
    using m(5) len by (simp add: documentBytes_alt)
  have same: "hist_seen changed (Entries s) = hist_seen ids (Entries s)"
  proof -
    have "(if rt_ID r \<in> set changed then (rt_entry r)\<lparr>h_Seen := True\<rparr> else rt_entry r) =
        (if rt_ID r \<in> set ids then (rt_entry r)\<lparr>h_Seen := True\<rparr> else rt_entry r)"
      if "r \<in> set (st_entries s)" for r
    proof -
      have "inj_on rt_ID (set (st_entries s))" using d by (simp add: distinct_map)
      with that have "rt_ID r \<in> set changed \<longleftrightarrow> ?new r"
        by (auto simp: changed_def dest: inj_onD)
      then show ?thesis by (cases "rt_entry r") auto
    qed
    then show ?thesis by (simp add: hist_seen_def Entries_def)
  qed
  have ok: "entries_ok next'" using m len docs assms(1) by (auto simp: store_ok_def entries_ok_def)
  show thesis
  proof (cases "changed = []")
    case True
    then have "res = Inr changed" "s' = s" using assms(2) m(1) by (auto simp: MarkSeen_def changed_def)
    moreover have "hist_seen changed (Entries s) = Entries s" by (simp add: True hist_seen_def)
    ultimately show thesis using that [of changed] assms(1) same True by simp
  next
    case False
    then have "res = Inr changed" "s' = schedule (s\<lparr>st_entries := next'\<rparr>)"
      using assms(2) m(1) by (auto simp: MarkSeen_def changed_def)
    moreover have "distinct changed" "set changed \<subseteq> set (IDs s)"
      using d by (auto simp: changed_def distinct_map_filter IDs_def)
    ultimately show thesis
      using that [of changed] same ok m(4) docs False by (simp add: store_ok_def Entries_def)
  qed
qed

end
