(* ===== verification/HistoryMirror.thy ===== *)
theory HistoryMirror
  imports Contracts History
begin

text \<open>
  The history store as a machine that clients mirror. The owner turns what each store operation
  returns into notices for the presenter; here the notices of every operation are shown to account
  for exactly what the operation did to the entries, whatever mix of operations is served.
\<close>

subsection \<open>Requests and notices\<close>

datatype store_request =
    RAdd HistoryEntry time
  | RAddPrepared HistoryEntry PreparedImage time
  | RSweep time
  | RRemove "u32 list"
  | RMarkSeen "u32 list"
  | RClear

datatype notice = Removed u32 | Added HistoryEntry | Seen "u32 list" | Cleared

fun apply_history_notice :: "notice \<Rightarrow> HistoryEntry list \<Rightarrow> HistoryEntry list" where
  "apply_history_notice (Removed nid) es = hist_remove [nid] es"
| "apply_history_notice (Added e) es = es @ [e]"
| "apply_history_notice (Seen ids) es = hist_seen ids es"
| "apply_history_notice Cleared es = []"

text \<open>What an addition that returned is told as: the removed IDs, then the entry unless it was too old.\<close>

definition added_notices :: "err + HistoryEntry \<times> u32 list \<Rightarrow> notice list" where
  "added_notices res =
     (case res of
        Inl _ \<Rightarrow> []
      | Inr (e, removed) \<Rightarrow> map Removed removed @ (if h_ID e \<noteq> 0 then [Added e] else []))"

fun store_serves :: "store_request \<Rightarrow> Store \<Rightarrow> (notice list \<times> Store) option" where
  "store_serves (RAdd e now) s = (let (res, t) = Add e now s in Some (added_notices res, t))"
| "store_serves (RAddPrepared e p now) s = (let (res, t) = AddPrepared e p now s in Some (added_notices res, t))"
| "store_serves (RSweep now) s = (let (removed, t) = Sweep now s in Some (map Removed removed, t))"
| "store_serves (RRemove ids) s = (let (removed, t) = Remove ids s in Some (map Removed removed, t))"
| "store_serves (RMarkSeen ids) s =
     (case MarkSeen ids s of
        (Inl _, t) \<Rightarrow> Some ([], t)
      | (Inr changed, t) \<Rightarrow> Some (if changed = [] then [] else [Seen changed], t))"
| "store_serves RClear s = (let (removed, t) = Clear s in Some (if removed = [] then [] else [Cleared], t))"

fun store_request_ok :: "store_request \<Rightarrow> bool" where
  "store_request_ok (RAddPrepared e p now) = prepared_ok p"
| "store_request_ok _ = True"

subsection \<open>The store satisfies the contract\<close>

lemma hist_remove_Cons: "hist_remove ids (hist_remove [i] es) = hist_remove (i # ids) es"
  by (simp add: hist_remove_def conj_commute)

lemma fold_Removed: "fold apply_history_notice (map Removed ids) es = hist_remove ids es"
proof (induction ids arbitrary: es)
  case Nil
  show ?case by (simp add: hist_remove_def)
next
  case (Cons i ids)
  then show ?case by (simp add: hist_remove_Cons)
qed

lemma zero_entry_notices: "added_notices (Inr (zero_HistoryEntry, [])) = []"
  by (simp add: added_notices_def zero_HistoryEntry_def)

lemma added_entry_notices:
  assumes "HistoryEntry_Validate entry = None" "rt_entry r = entry"
    "st_entries t = filter (\<lambda>x. rt_ID x \<notin> set removed) (st_entries s) @ [r]"
  shows "Entries t = fold apply_history_notice (added_notices (Inr (entry, removed))) (Entries s)"
proof -
  have "h_ID entry \<noteq> 0" using assms(1) by (simp add: HistoryEntry_Validate_def)
  with assms(2,3) show ?thesis
    by (simp add: added_notices_def fold_Removed Entries_def hist_remove_def Entries_filter)
qed

lemma AddPrepared_mirrors:
  assumes "store_ok s" "prepared_ok p" "AddPrepared e p now s = (res, t)"
  shows "store_ok t \<and> Entries t = fold apply_history_notice (added_notices res) (Entries s)"
  using assms
proof (cases rule: AddPrepared_cases)
  case (error e)
  with assms(1) show ?thesis by (simp add: added_notices_def)
next
  case old
  with assms(1) show ?thesis by (simp add: zero_entry_notices)
next
  case (added entry removed r)
  with added_entry_notices [OF added(3,4,8)] show ?thesis by simp
qed

lemma Add_mirrors:
  assumes "store_ok s" "Add e now s = (res, t)"
  shows "store_ok t \<and> Entries t = fold apply_history_notice (added_notices res) (Entries s)"
  using assms
proof (cases rule: Add_cases)
  case (error e)
  with assms(1) show ?thesis by (simp add: added_notices_def)
next
  case old
  with assms(1) show ?thesis by (simp add: zero_entry_notices)
next
  case (added img entry removed r)
  with added_entry_notices [OF added(3,4,8)] show ?thesis by simp
qed

lemma MarkSeen_mirrors:
  assumes "store_ok s" "store_serves (RMarkSeen ids) s = Some (es, t)"
  shows "store_ok t \<and> Entries t = fold apply_history_notice es (Entries s)"
proof -
  obtain res u where m: "MarkSeen ids s = (res, u)" by fastforce
  show ?thesis using assms(1) m
  proof (cases rule: MarkSeen_spec)
    case (1 changed)
    with assms m show ?thesis by (auto split: if_splits)
  qed
qed

lemma store_serves_mirrors:
  assumes "store_ok s" "store_request_ok q" "store_serves q s = Some (es, t)"
  shows "store_ok t \<and> Entries t = fold apply_history_notice es (Entries s)"
proof (cases q)
  case (RAdd e now)
  with assms Add_mirrors show ?thesis by (auto split: prod.splits)
next
  case (RAddPrepared e p now)
  with assms AddPrepared_mirrors show ?thesis by (auto split: prod.splits)
next
  case (RSweep now)
  then obtain removed where "Sweep now s = (removed, t)" "es = map Removed removed"
    using assms(3) by (auto split: prod.splits)
  with Sweep_spec(1,2) assms(1) show ?thesis by (simp add: fold_Removed)
next
  case (RRemove ids)
  then obtain removed where "Remove ids s = (removed, t)" "es = map Removed removed"
    using assms(3) by (auto split: prod.splits)
  with Remove_spec(1,2) assms(1) show ?thesis by (simp add: fold_Removed)
next
  case (RMarkSeen ids)
  with assms MarkSeen_mirrors show ?thesis by blast
next
  case RClear
  then obtain removed where c: "Clear s = (removed, t)" "es = (if removed = [] then [] else [Cleared])"
    using assms(3) by (auto split: prod.splits)
  note spec = Clear_spec [OF c(1) assms(1)]
  have "removed = [] \<Longrightarrow> Entries s = []" using spec(3) by (simp add: IDs_def Entries_def)
  with spec(1,2) c(2) show ?thesis by auto
qed

lemma store_serves_total: "\<exists>es t. store_serves q s = Some (es, t)"
  by (cases q) (auto simp: case_prod_beta split: sum.splits)

interpretation history_mirror: mirrored store_ok store_request_ok store_serves apply_history_notice Entries
proof
  show "\<exists>es t. store_serves q s = Some (es, t)" for s q by (rule store_serves_total)
qed (use store_serves_mirrors in blast)+

end
