(* ===== verification/Notify.thy ===== *)
theory Notify
  imports Protocol
begin

text \<open>
  \<open>internal/notify/model.go\<close>: the request and candidate records and the allocation of notification
  IDs. The map of IDs that are taken is its membership test \<open>live\<close>.
\<close>

record Sender =
  sender_Name :: string
  sender_PID :: u32
  sender_Lineage :: "Process list"

record Candidate =
  cand_AppName :: string
  cand_AppIcon :: string
  cand_Summary :: string
  cand_Body :: string
  cand_ReplacesID :: u32
  cand_Actions :: "Action list"
  cand_Urgency :: Urgency
  cand_ExpireTimeout :: i32
  cand_Transient :: bool
  cand_Private :: bool
  cand_Resident :: bool
  cand_DesktopEntry :: string
  cand_Category :: string
  cand_Value :: "i32 option"
  cand_InlineReply :: bool
  cand_ReplyPlaceholder :: string
  cand_Image :: "Image option"
  cand_ImageRejected :: bool
  cand_Sender :: Sender

text \<open>The zero values, from which composite literals set the named fields.\<close>

definition zero_Sender :: Sender where
  "zero_Sender = \<lparr>sender_Name = [], sender_PID = 0, sender_Lineage = []\<rparr>"

definition zero_Candidate :: Candidate where
  "zero_Candidate = \<lparr>cand_AppName = [], cand_AppIcon = [], cand_Summary = [], cand_Body = [],
     cand_ReplacesID = 0, cand_Actions = [], cand_Urgency = 0, cand_ExpireTimeout = 0,
     cand_Transient = False, cand_Private = False, cand_Resident = False, cand_DesktopEntry = [],
     cand_Category = [], cand_Value = None, cand_InlineReply = False, cand_ReplyPlaceholder = [],
     cand_Image = None, cand_ImageRejected = False, cand_Sender = zero_Sender\<rparr>"

subsection \<open>ResolveID\<close>

text \<open>The increment of the ID counter: it wraps from the largest ID to 1.\<close>

definition next_id :: "u32 \<Rightarrow> u32" where
  "next_id n = (if n + 1 = 0 then 1 else n + 1)"

text \<open>The search loop ends only if some ID is free; \<open>None\<close> is a loop that never ends.\<close>

partial_function (option) resolve_loop :: "(u32 \<Rightarrow> bool) \<Rightarrow> u32 \<Rightarrow> (u32 \<times> u32) option" where
  "resolve_loop live n =
     (if \<not> live n then Some (n, next_id n) else resolve_loop live (next_id n))"

definition ResolveID :: "u32 \<Rightarrow> u32 \<Rightarrow> (u32 \<Rightarrow> bool) \<Rightarrow> (u32 \<times> u32) option" where
  "ResolveID replacesID nxt live =
     (if replacesID \<noteq> 0 \<and> live replacesID then Some (replacesID, nxt)
      else resolve_loop live (if nxt = 0 then 1 else nxt))"

lemma next_id_nonzero [simp]: "next_id n \<noteq> 0"
  by (simp add: next_id_def)

lemma next_id_pow_nonzero: "n \<noteq> 0 \<Longrightarrow> (next_id ^^ k) n \<noteq> 0"
  by (cases k) simp_all

lemma unat_next_id:
  assumes "n \<noteq> 0"
  shows "unat (next_id n) - 1 = (unat n - 1 + 1) mod (2 ^ 32 - 1)"
proof -
  have pos: "0 < unat n" using assms by (simp add: unat_gt_0)
  show ?thesis
  proof (cases "n + 1 = 0")
    case True
    then have "n = - 1" by (simp add: add_eq_0_iff2)
    then have "unat n = 2 ^ 32 - 1" by (simp add: unsigned_minus_1_eq_mask mask_eq_exp_minus_1)
    with True show ?thesis by (simp add: next_id_def)
  next
    case False
    then have s: "unat (n + 1) = Suc (unat n)" by (metis add.commute unatSuc)
    then have "Suc (unat n) < 2 ^ 32" using unat_u32_less [of "n + 1"] by simp
    with False s pos show ?thesis by (simp add: next_id_def)
  qed
qed

lemma unat_next_id_pow:
  assumes "n \<noteq> 0"
  shows "unat ((next_id ^^ k) n) - 1 = (unat n - 1 + k) mod (2 ^ 32 - 1)"
proof (induction k)
  case 0
  have "unat n - 1 < 2 ^ 32 - 1"
    using unat_u32_less [of n] assms by (cases "unat n") (auto simp: unat_eq_zero)
  then show ?case by simp
next
  case (Suc k)
  have "unat ((next_id ^^ Suc k) n) - 1 = (unat ((next_id ^^ k) n) - 1 + 1) mod (2 ^ 32 - 1)"
    using unat_next_id [OF next_id_pow_nonzero [OF assms]] by simp
  also have "\<dots> = (unat n - 1 + Suc k) mod (2 ^ 32 - 1)"
    unfolding Suc.IH by (simp add: mod_simps)
  finally show ?case .
qed

text \<open>The counter runs through every ID but 0.\<close>

lemma next_id_pow_surj:
  assumes "n \<noteq> 0" "f \<noteq> 0"
  shows "\<exists>k. (next_id ^^ k) n = f"
proof -
  define M :: nat where "M = 2 ^ 32 - 1"
  define k where "k = unat f - 1 + (M - (unat n - 1))"
  have n: "0 < unat n" "unat n - 1 < M" and f: "0 < unat f" "unat f - 1 < M"
    using assms unat_u32_less [of n] unat_u32_less [of f]
    by (cases "unat n"; cases "unat f"; auto simp: M_def unat_gt_0 unat_eq_zero)+
  have "unat n - 1 + k = unat f - 1 + M" using n by (simp add: k_def)
  moreover have "(unat f - 1 + M) mod M = unat f - 1"
    using f(2) by (simp only: mod_add_self2 mod_less)
  ultimately have "(unat n - 1 + k) mod M = unat f - 1" by simp
  then have "unat ((next_id ^^ k) n) - 1 = unat f - 1"
    using unat_next_id_pow [OF assms(1), of k] by (simp add: M_def)
  moreover have "0 < unat ((next_id ^^ k) n)"
    using next_id_pow_nonzero [OF assms(1)] by (simp add: unat_gt_0)
  ultimately have "unat ((next_id ^^ k) n) = unat f" using f by simp
  then show ?thesis using word_unat_eq_iff by blast
qed

lemma resolve_loop_first:
  "\<not> live ((next_id ^^ k) n) \<Longrightarrow>
   \<exists>j\<le>k. resolve_loop live n = Some ((next_id ^^ j) n, (next_id ^^ Suc j) n) \<and>
     \<not> live ((next_id ^^ j) n) \<and> (\<forall>i<j. live ((next_id ^^ i) n))"
proof (induction k arbitrary: n)
  case 0
  then show ?case by (subst resolve_loop.simps) simp
next
  case (Suc k)
  show ?case
  proof (cases "live n")
    case True
    from Suc.prems have "\<not> live ((next_id ^^ k) (next_id n))" by (simp add: funpow_swap1)
    from Suc.IH [OF this] obtain j where j: "j \<le> k"
      "resolve_loop live (next_id n) = Some ((next_id ^^ j) (next_id n), (next_id ^^ Suc j) (next_id n))"
      "\<not> live ((next_id ^^ j) (next_id n))" "\<forall>i<j. live ((next_id ^^ i) (next_id n))" by auto
    have "\<forall>i<Suc j. live ((next_id ^^ i) n)"
      using j(4) True by (auto simp: less_Suc_eq_0_disj funpow_swap1)
    with j True show ?thesis
      by (intro exI [of _ "Suc j"]) (auto simp: resolve_loop.simps [of live n] funpow_swap1)
  next
    case False
    then show ?thesis by (intro exI [of _ 0]) (simp add: resolve_loop.simps [of live n])
  qed
qed

lemma ResolveID_total:
  assumes "f \<noteq> 0" "\<not> live f"
  shows "\<exists>id nxt'. ResolveID 0 nxt live = Some (id, nxt') \<and> id \<noteq> 0 \<and> \<not> live id \<and> nxt' = next_id id"
proof -
  define n where "n = (if nxt = 0 then 1 else nxt)"
  have n: "n \<noteq> 0" by (simp add: n_def)
  obtain k where "(next_id ^^ k) n = f" using next_id_pow_surj [OF n assms(1)] by blast
  with assms(2) have "\<not> live ((next_id ^^ k) n)" by simp
  from resolve_loop_first [of live k n, OF this] obtain j where
    "resolve_loop live n = Some ((next_id ^^ j) n, (next_id ^^ Suc j) n)" "\<not> live ((next_id ^^ j) n)"
    by blast
  then show ?thesis using next_id_pow_nonzero [OF n, of j]
    by (simp add: ResolveID_def n_def)
qed

lemma free_id_exists:
  fixes T :: "u32 set"
  assumes "card T < 2 ^ 32 - 1"
  shows "\<exists>f. f \<noteq> 0 \<and> f \<notin> T"
proof (rule ccontr)
  assume "\<not> ?thesis"
  then have "UNIV \<subseteq> insert 0 T" by auto
  then have "card (UNIV :: u32 set) \<le> card (insert 0 T)"
    by (meson card_mono finite_code)
  also have "\<dots> \<le> Suc (card T)" by (rule card_insert_le_m1) simp_all
  finally show False using assms by (simp add: card_word)
qed

end
