(* ===== verification/Owner.thy ===== *)
theory Owner
  imports Notify History
begin

text \<open>
  The state owner (\<open>internal/state/owner.go\<close> and \<open>expiry.go\<close>): one goroutine that holds every active
  notification, allocates IDs, runs expiry and presentation leases, and publishes what changed. This
  theory holds the state and the operations; the invariant is in \<open>OwnerInv\<close>, the proofs
  that the operations keep it in \<open>OwnerSteps\<close>, \<open>OwnerServe\<close> and \<open>OwnerLoop\<close>, and the properties in
  \<open>OwnerProps\<close> and \<open>OwnerOps\<close>.

  \<^item> The clock is the function \<open>os_clock\<close> of its \<open>n\<close>-th reading and \<open>os_reads\<close> counts the readings, so
    that each call of \<open>clock.Now()\<close> is a new reading.
  \<^item> The sink is a function of the events it was given before and the event at hand; \<open>os_events\<close> is
    the list of the events that were published, oldest first.
  \<^item> An operation that dereferences a record through \<open>s.records[id]\<close>, or may search for an ID for
    ever, returns an option: \<open>None\<close> is a nil dereference or a loop that does not end. Theory
    \<open>OwnerLoop\<close> proves that no reachable state has this outcome.
\<close>

subsection \<open>Types (owner.go)\<close>

definition DefaultTimeout :: duration where "DefaultTimeout = 5 * Second"
definition PresentationLease :: duration where "PresentationLease = 6 * Second"
definition HistorySweep :: duration where "HistorySweep = Minute"
definition notificationBurstWindow :: duration where "notificationBurstWindow = 5 * Second"

record ActionEvent =
  ae_ID :: u32
  ae_Key :: string

record ReplyEvent =
  re_ID :: u32
  re_Text :: string

record Event =
  ev_Sequence :: u64
  ev_Delta :: "Delta option"
  ev_Action :: "ActionEvent option"
  ev_Reply :: "ReplyEvent option"
  ev_Snapshot :: "Snapshot option"
  ev_Generation :: u64

definition zero_Event :: Event where
  "zero_Event = \<lparr>ev_Sequence = 0, ev_Delta = None, ev_Action = None, ev_Reply = None,
     ev_Snapshot = None, ev_Generation = 0\<rparr>"

datatype StateKind =
    KAdd | KCloseRequested | KDismiss | KInvokeAction | KSubmitReply | KPresentationRenew
  | KPresenterLost | KDismissAll | KHistoryClear | KHistoryRemove | KHistoryMarkSeen
  | KProducerPublish | KProducerClose | KPresenterResync | KUnknown u8

record StateCommand =
  sc_Kind :: StateKind
  sc_Candidate :: Candidate
  sc_PreparedHistoryImage :: "PreparedImage option"
  sc_Producer :: "ProducerRequest option"
  sc_ID :: u32
  sc_ActionKey :: string
  sc_ReplyText :: string
  sc_Generation :: u64
  sc_NextGeneration :: u64
  sc_IDs :: "u32 list"
  sc_Presentations :: "Presentation list"

definition zero_StateCommand :: StateCommand where
  "zero_StateCommand = \<lparr>sc_Kind = KUnknown 0, sc_Candidate = zero_Candidate,
     sc_PreparedHistoryImage = None, sc_Producer = None, sc_ID = 0, sc_ActionKey = [],
     sc_ReplyText = [], sc_Generation = 0, sc_NextGeneration = 0, sc_IDs = [], sc_Presentations = []\<rparr>"

record Result =
  res_ID :: u32
  res_Replaced :: bool
  res_Lifetimes :: "Lifetime list"

definition zero_Result :: Result where
  "zero_Result = \<lparr>res_ID = 0, res_Replaced = False, res_Lifetimes = []\<rparr>"

record notifRecord =
  rec_notification :: Notification
  rec_candidate :: Candidate
  rec_historyImage :: "PreparedImage option"
  rec_producerKey :: string
  rec_duration :: duration
  rec_state :: PresentationState
  rec_displayed :: bool
  rec_remaining :: duration
  rec_deadline :: time
  rec_hasDeadline :: bool
  rec_lastReceived :: time

record ownerState =
  os_clock :: "nat \<Rightarrow> time"
  os_reads :: nat
  os_sink :: "(Event list \<Rightarrow> Event \<Rightarrow> bool) option"
  os_events :: "Event list"
  os_history :: "Store option"
  os_records :: "u32 \<rightharpoonup> notifRecord"
  os_producerIDs :: "string \<rightharpoonup> u32"
  os_order :: "u32 list"
  os_nextID :: u32
  os_sequence :: u64
  os_presenterGeneration :: u64
  os_acceptedGeneration :: u64
  os_presenterRetired :: bool
  os_leaseDeadline :: time
  os_timer :: "duration option"
  os_nextHistorySweep :: time

definition clock_Now :: "ownerState \<Rightarrow> time \<times> ownerState" where
  "clock_Now s = (os_clock s (os_reads s), s\<lparr>os_reads := Suc (os_reads s)\<rparr>)"

subsection \<open>Publishing (owner.go)\<close>

definition publish :: "Event \<Rightarrow> ownerState \<Rightarrow> bool \<times> ownerState" where
  "publish ev s =
     (case os_sink s of None \<Rightarrow> True | Some sink \<Rightarrow> sink (os_events s) ev,
      s\<lparr>os_events := os_events s @ [ev]\<rparr>)"

definition publishDelta :: "Delta \<Rightarrow> ownerState \<Rightarrow> ownerState" where
  "publishDelta d s =
     (let s1 = s\<lparr>os_sequence := os_sequence s + 1\<rparr>
      in snd (publish (zero_Event\<lparr>ev_Sequence := os_sequence s1, ev_Delta := Some d\<rparr>) s1))"

definition publishRemoved :: "u32 list \<Rightarrow> ownerState \<Rightarrow> ownerState" where
  "publishRemoved ids = fold (\<lambda>nid. publishDelta (zero_Delta\<lparr>d_Kind := DeltaHistoryRemoved, d_ID := nid\<rparr>)) ids"

subsection \<open>Lifetimes and snapshots (owner.go)\<close>

definition durationMilliseconds :: "duration \<Rightarrow> u32" where
  "durationMilliseconds d =
     (if d \<le> 0 then 0
      else word_of_int (wrap_i64 (d + Millisecond - 1) sdiv Millisecond))"

definition lifetime :: "notifRecord \<Rightarrow> time \<Rightarrow> Lifetime" where
  "lifetime r now =
     (let remaining = (if rec_hasDeadline r then max 0 (time_Sub (rec_deadline r) now) else rec_remaining r)
      in \<lparr>l_ID = n_ID (rec_notification r), l_DurationMS = durationMilliseconds (rec_duration r),
          l_RemainingMS = durationMilliseconds remaining,
          l_Running = rec_hasDeadline r \<and> 0 < rec_duration r\<rparr>)"

text \<open>The records of the ordered IDs; \<open>None\<close> when one of them is missing from the map.\<close>

definition ordered_records :: "ownerState \<Rightarrow> notifRecord list option" where
  "ordered_records s = those (map (os_records s) (os_order s))"

definition lifetimes :: "time \<Rightarrow> ownerState \<Rightarrow> Lifetime list option" where
  "lifetimes now s = map_option (map (\<lambda>r. lifetime r now)) (ordered_records s)"

definition snapshot :: "ownerState \<Rightarrow> (Snapshot \<times> ownerState) option" where
  "snapshot s =
     (let (now, s1) = clock_Now s in
      do {
        ls \<leftarrow> lifetimes now s1;
        rs \<leftarrow> ordered_records s1;
        Some (\<lparr>snap_Sequence = os_sequence s1, snap_Active = map rec_notification rs,
               snap_Lifetimes = ls,
               snap_History = (case os_history s1 of None \<Rightarrow> [] | Some h \<Rightarrow> Entries h)\<rparr>, s1)
      })"

subsection \<open>Closing (owner.go)\<close>

text \<open>Reading a missing key of a Go map gives the zero value.\<close>

definition producerID :: "ownerState \<Rightarrow> string \<Rightarrow> u32" where
  "producerID s key = (case os_producerIDs s key of None \<Rightarrow> 0 | Some nid \<Rightarrow> nid)"

definition historyEntry :: "Notification \<Rightarrow> time \<Rightarrow> Image option \<Rightarrow> HistoryEntry" where
  "historyEntry n closedAt img =
     \<lparr>h_ID = n_ID n, h_Seen = False, h_AppName = n_AppName n, h_AppIcon = n_AppIcon n,
      h_DesktopEntry = n_DesktopEntry n, h_Summary = n_Summary n, h_Body = n_Body n,
      h_Urgency = n_Urgency n, h_Category = n_Category n, h_Timestamp = closedAt, h_Image = img\<rparr>"

definition forget :: "u32 \<Rightarrow> notifRecord \<Rightarrow> ownerState \<Rightarrow> ownerState" where
  "forget nid r s =
     s\<lparr>os_records := (os_records s)(nid := None),
       os_producerIDs :=
         (if rec_producerKey r \<noteq> [] \<and> producerID s (rec_producerKey r) = nid
          then (os_producerIDs s)(rec_producerKey r := None) else os_producerIDs s),
       os_order := remove1 nid (os_order s)\<rparr>"

text \<open>The part of \<open>close\<close> that hands the closed notification to the history.\<close>

definition remember :: "notifRecord \<Rightarrow> Store \<Rightarrow> ownerState \<Rightarrow> ownerState" where
  "remember r h s =
     (let (now, s1) = clock_Now s;
          img = (if rec_historyImage r \<noteq> None then None else n_Image (rec_notification r));
          entry = historyEntry (rec_notification r) now img;
          (res, h') = (case rec_historyImage r of
                         Some p \<Rightarrow> AddPrepared entry p now h
                       | None \<Rightarrow> Add entry now h);
          s2 = s1\<lparr>os_history := Some h'\<rparr>
      in case res of
           Inl _ \<Rightarrow> s2
         | Inr (e, removed) \<Rightarrow>
             (let s3 = publishRemoved removed s2 in
              if h_ID e \<noteq> 0
              then publishDelta (zero_Delta\<lparr>d_Kind := DeltaHistoryAdded, d_History := Some e\<rparr>) s3
              else s3))"

definition close :: "u32 \<Rightarrow> CloseReason \<Rightarrow> ownerState \<Rightarrow> error \<times> ownerState" where
  "close nid reason s =
     (case os_records s nid of
        None \<Rightarrow> (Some ErrNotFound, s)
      | Some r \<Rightarrow>
          (let s1 = publishDelta (zero_Delta\<lparr>d_Kind := DeltaClosed, d_ID := nid, d_CloseReason := reason\<rparr>)
                 (forget nid r s)
           in case os_history s1 of
                None \<Rightarrow> (None, s1)
              | Some h \<Rightarrow>
                  if \<not> cand_Transient (rec_candidate r) \<and> \<not> cand_Private (rec_candidate r)
                  then (None, remember r h s1) else (None, s1)))"

subsection \<open>Adding (owner.go)\<close>

definition notificationFromCandidate :: "u32 \<Rightarrow> Candidate \<Rightarrow> time \<Rightarrow> Notification" where
  "notificationFromCandidate nid c now =
     \<lparr>n_ID = nid, n_AppName = cand_AppName c, n_AppIcon = cand_AppIcon c,
      n_DesktopEntry = cand_DesktopEntry c, n_Summary = cand_Summary c, n_Body = cand_Body c,
      n_Actions = cand_Actions c, n_Urgency = cand_Urgency c, n_Category = cand_Category c,
      n_Timestamp = now, n_ExpireTimeoutMS = cand_ExpireTimeout c, n_Image = cand_Image c,
      n_Value = cand_Value c, n_InlineReply = cand_InlineReply c,
      n_ReplyPlaceholder = cand_ReplyPlaceholder c,
      n_SenderLineage = sender_Lineage (cand_Sender c)\<rparr>"

definition validateCandidate :: "Candidate \<Rightarrow> time \<Rightarrow> error" where
  "validateCandidate c now =
     (if sint (cand_ExpireTimeout c) < -1 then Some (Err ''state: invalid expiry timeout'')
      else Notification_Validate (notificationFromCandidate 1 c now))"

definition candidateDuration :: "Candidate \<Rightarrow> duration" where
  "candidateDuration c =
     (if sint (cand_ExpireTimeout c) = -1
      then if cand_Urgency c = UrgencyCritical then 0 else DefaultTimeout
      else if sint (cand_ExpireTimeout c) = 0 then 0
      else wrap_i64 (sint (cand_ExpireTimeout c) * Millisecond))"

definition sameBurstKey :: "Candidate \<Rightarrow> Candidate \<Rightarrow> bool" where
  "sameBurstKey a b \<longleftrightarrow> cand_AppName a = cand_AppName b \<and> cand_Summary a = cand_Summary b \<and>
     cand_Body a = cand_Body b \<and> cand_Urgency a = cand_Urgency b"

text \<open>The loop of \<open>burstDuplicate\<close> over the IDs from the newest to the oldest.\<close>

fun burst_loop :: "Candidate \<Rightarrow> time \<Rightarrow> (u32 \<rightharpoonup> notifRecord) \<Rightarrow> notifRecord option \<Rightarrow> u32 list \<Rightarrow> notifRecord option" where
  "burst_loop c now m dup [] = dup"
| "burst_loop c now m dup (nid # ids) =
     burst_loop c now m
       (case m nid of
          None \<Rightarrow> dup
        | Some r \<Rightarrow>
            if rec_producerKey r \<noteq> [] \<or> \<not> sameBurstKey (rec_candidate r) c then dup
            else (let age = time_Sub now (rec_lastReceived r) in
                  if age < 0 \<or> notificationBurstWindow < age then dup
                  else case dup of
                         None \<Rightarrow> Some r
                       | Some d \<Rightarrow> if time_After (rec_lastReceived r) (rec_lastReceived d) then Some r else dup))
       ids"

definition burstDuplicate :: "Candidate \<Rightarrow> time \<Rightarrow> ownerState \<Rightarrow> u32" where
  "burstDuplicate c now s =
     (case burst_loop c now (os_records s) None (rev (os_order s)) of
        None \<Rightarrow> 0
      | Some r \<Rightarrow> n_ID (rec_notification r))"

fun choose_victim :: "(notifRecord \<Rightarrow> bool) \<Rightarrow> (u32 \<rightharpoonup> notifRecord) \<Rightarrow> u32 list \<Rightarrow> u32 option" where
  "choose_victim P m [] = Some 0"
| "choose_victim P m (nid # ids) =
     (case m nid of None \<Rightarrow> None | Some r \<Rightarrow> if P r then Some nid else choose_victim P m ids)"

definition capacityVictim :: "ownerState \<Rightarrow> u32 option" where
  "capacityVictim s =
     do {
       v1 \<leftarrow> choose_victim (\<lambda>r. n_Urgency (rec_notification r) \<noteq> UrgencyCritical \<and> 0 < rec_duration r)
               (os_records s) (os_order s);
       v2 \<leftarrow> (if v1 = 0
              then choose_victim (\<lambda>r. n_Urgency (rec_notification r) \<noteq> UrgencyCritical) (os_records s) (os_order s)
              else Some v1);
       Some (if v2 = 0 \<and> os_order s \<noteq> [] then hd (os_order s) else v2)
     }"

definition evictCapacityVictim :: "ownerState \<Rightarrow> ownerState option" where
  "evictCapacityVictim s =
     map_option (\<lambda>victim. if victim \<noteq> 0 then snd (close victim CloseUndefined s) else s) (capacityVictim s)"

definition takenIDs :: "ownerState \<Rightarrow> u32 \<Rightarrow> bool" where
  "takenIDs s nid \<longleftrightarrow> os_records s nid \<noteq> None \<or>
     (case os_history s of None \<Rightarrow> False | Some h \<Rightarrow> nid \<in> set (IDs h))"

definition newRecord :: "Candidate \<Rightarrow> string \<Rightarrow> PreparedImage option \<Rightarrow> time \<Rightarrow> u32 \<Rightarrow> notifRecord" where
  "newRecord c key prepared now nid =
     \<lparr>rec_notification = notificationFromCandidate nid c now, rec_candidate = c,
      rec_historyImage = prepared, rec_producerKey = key, rec_duration = candidateDuration c,
      rec_state = PresentationSuppressed, rec_displayed = False, rec_remaining = candidateDuration c,
      rec_deadline = 0, rec_hasDeadline = False, rec_lastReceived = now\<rparr>"

definition startDeadline :: "time \<Rightarrow> notifRecord \<Rightarrow> notifRecord" where
  "startDeadline now r = r\<lparr>rec_deadline := time_Add now (rec_duration r), rec_hasDeadline := True\<rparr>"

definition notificationDelta :: "DeltaKind \<Rightarrow> notifRecord \<Rightarrow> time \<Rightarrow> Delta" where
  "notificationDelta k r now =
     zero_Delta\<lparr>d_Kind := k, d_Notification := Some (rec_notification r), d_Lifetime := Some (lifetime r now)\<rparr>"

text \<open>The branch of \<open>addWithProducerKey\<close> for an ID that is active, and the one for a new ID.\<close>

definition replaceRecord :: "u32 \<Rightarrow> notifRecord \<Rightarrow> notifRecord \<Rightarrow> string \<Rightarrow> time \<Rightarrow> ownerState \<Rightarrow> ownerState" where
  "replaceRecord nid existing fresh key now s =
     (let s1 = (if rec_producerKey existing \<noteq> [] \<and> rec_producerKey existing \<noteq> key \<and>
                   producerID s (rec_producerKey existing) = nid
                then s\<lparr>os_producerIDs := (os_producerIDs s)(rec_producerKey existing := None)\<rparr> else s);
          r1 = fresh\<lparr>rec_state := rec_state existing, rec_displayed := rec_displayed existing,
                 rec_producerKey := key\<rparr>;
          r2 = (if 0 < rec_duration r1 \<and> rec_state r1 \<noteq> PresentationQueued \<and> rec_state r1 \<noteq> PresentationHovered
                then startDeadline now r1 else r1)
      in publishDelta (notificationDelta DeltaReplaced r2 now)
           (s1\<lparr>os_records := (os_records s1)(nid \<mapsto> r2)\<rparr>))"

definition insertRecord :: "u32 \<Rightarrow> notifRecord \<Rightarrow> time \<Rightarrow> ownerState \<Rightarrow> ownerState" where
  "insertRecord nid fresh now s =
     (let r = (if 0 < rec_duration fresh then startDeadline now fresh else fresh)
      in publishDelta (notificationDelta DeltaAdded r now)
           (s\<lparr>os_records := (os_records s)(nid \<mapsto> r), os_order := os_order s @ [nid]\<rparr>))"

definition addWithProducerKey ::
  "Candidate \<Rightarrow> string \<Rightarrow> PreparedImage option \<Rightarrow> time \<Rightarrow> ownerState \<Rightarrow> ((err + Result) \<times> ownerState) option" where
  "addWithProducerKey c key prepared now s =
     (case validateCandidate c now of
        Some e \<Rightarrow> Some (Inl e, s)
      | None \<Rightarrow>
          (case os_records s (cand_ReplacesID c) of
             Some existing \<Rightarrow>
               (let nid = cand_ReplacesID c in
                Some (Inr (zero_Result\<lparr>res_ID := nid, res_Replaced := True\<rparr>),
                      replaceRecord nid existing (newRecord c key prepared now nid) key now s))
           | None \<Rightarrow>
               do {
                 s1 \<leftarrow> (if card (dom (os_records s)) = MaxActiveNotifications
                        then evictCapacityVictim s else Some s);
                 (nid, nextID) \<leftarrow> ResolveID 0 (os_nextID s1) (takenIDs s1);
                 Some (Inr (zero_Result\<lparr>res_ID := nid\<rparr>),
                       insertRecord nid (newRecord c key prepared now nid) now (s1\<lparr>os_nextID := nextID\<rparr>))
               }))"

definition add :: "Candidate \<Rightarrow> PreparedImage option \<Rightarrow> time \<Rightarrow> ownerState \<Rightarrow> ((err + Result) \<times> ownerState) option" where
  "add c prepared now s =
     addWithProducerKey
       (if cand_ReplacesID c = 0 then c\<lparr>cand_ReplacesID := burstDuplicate c now s\<rparr> else c)
       [] prepared now s"

definition publishProducer :: "ProducerRequest option \<Rightarrow> time \<Rightarrow> ownerState \<Rightarrow> ((err + Result) \<times> ownerState) option" where
  "publishProducer request now s =
     (case request of
        None \<Rightarrow> Some (Inl (Err ''state: missing producer request''), s)
      | Some p \<Rightarrow>
          (case ProducerRequest_Validate p of
             Some e \<Rightarrow> Some (Inl e, s)
           | None \<Rightarrow>
               (let replacesID0 = producerID s (pr_Key p);
                    gone = (replacesID0 \<noteq> 0 \<and> os_records s replacesID0 = None);
                    s1 = (if gone then s\<lparr>os_producerIDs := (os_producerIDs s)(pr_Key p := None)\<rparr> else s);
                    replacesID = (if gone then 0 else replacesID0);
                    c = zero_Candidate\<lparr>cand_AppName := pr_AppName p, cand_Summary := pr_Summary p,
                      cand_Body := pr_Body p, cand_ReplacesID := replacesID, cand_Urgency := pr_Urgency p,
                      cand_ExpireTimeout := pr_ExpireTimeoutMS p, cand_Transient := True,
                      cand_Value := pr_Value p\<rparr>
                in do {
                     (res, s2) \<leftarrow> addWithProducerKey c (pr_Key p) None now s1;
                     Some (case res of
                             Inl e \<Rightarrow> (Inl e, s2)
                           | Inr r \<Rightarrow> (Inr r, s2\<lparr>os_producerIDs := (os_producerIDs s2)(pr_Key p \<mapsto> res_ID r)\<rparr>))
                   })))"

definition closeProducer :: "ProducerRequest option \<Rightarrow> ownerState \<Rightarrow> (err + Result) \<times> ownerState" where
  "closeProducer request s =
     (case request of
        None \<Rightarrow> (Inl (Err ''state: missing producer request''), s)
      | Some p \<Rightarrow>
          (case ProducerRequest_Validate p of
             Some e \<Rightarrow> (Inl e, s)
           | None \<Rightarrow>
               (let nid = producerID s (pr_Key p) in
                if nid = 0 then (Inr zero_Result, s)
                else if os_records s nid = None
                then (Inr zero_Result, s\<lparr>os_producerIDs := (os_producerIDs s)(pr_Key p := None)\<rparr>)
                else case close nid CloseRequested s of
                       (Some e, s1) \<Rightarrow> (Inl e, s1)
                     | (None, s1) \<Rightarrow> (Inr (zero_Result\<lparr>res_ID := nid\<rparr>), s1))))"

subsection \<open>History commands (owner.go)\<close>

definition historyUnavailable :: err where
  "historyUnavailable = Err ''state: history unavailable''"

definition clearHistory :: "ownerState \<Rightarrow> error \<times> ownerState" where
  "clearHistory s =
     (case os_history s of
        None \<Rightarrow> (Some historyUnavailable, s)
      | Some h \<Rightarrow>
          (let (removed, h') = Clear h; s1 = s\<lparr>os_history := Some h'\<rparr>
           in (None, if removed \<noteq> [] then publishDelta (zero_Delta\<lparr>d_Kind := DeltaHistoryCleared\<rparr>) s1 else s1)))"

definition removeHistory :: "u32 list \<Rightarrow> ownerState \<Rightarrow> error \<times> ownerState" where
  "removeHistory ids s =
     (case os_history s of
        None \<Rightarrow> (Some historyUnavailable, s)
      | Some h \<Rightarrow>
          (let (removed, h') = Remove ids h in (None, publishRemoved removed (s\<lparr>os_history := Some h'\<rparr>))))"

definition markHistorySeen :: "u32 list \<Rightarrow> ownerState \<Rightarrow> error \<times> ownerState" where
  "markHistorySeen ids s =
     (case os_history s of
        None \<Rightarrow> (Some historyUnavailable, s)
      | Some h \<Rightarrow>
          (case MarkSeen ids h of
             (Inl e, h') \<Rightarrow> (Some e, s\<lparr>os_history := Some h'\<rparr>)
           | (Inr changed, h') \<Rightarrow>
               (let s1 = s\<lparr>os_history := Some h'\<rparr>
                in (None, if changed \<noteq> []
                          then publishDelta (zero_Delta\<lparr>d_Kind := DeltaHistorySeen, d_IDs := changed\<rparr>) s1
                          else s1))))"

subsection \<open>Actions and replies (owner.go)\<close>

definition invokeAction :: "u32 \<Rightarrow> string \<Rightarrow> ownerState \<Rightarrow> error \<times> ownerState" where
  "invokeAction nid key s =
     (case os_records s nid of
        None \<Rightarrow> (Some ErrNotFound, s)
      | Some r \<Rightarrow>
          if \<not> (\<exists>a\<in>set (n_Actions (rec_notification r)). act_Key a = key)
          then (Some (Err ''state: unknown action''), s)
          else
            (let s1 = snd (publish (zero_Event\<lparr>ev_Action := Some \<lparr>ae_ID = nid, ae_Key = key\<rparr>\<rparr>) s)
             in if \<not> cand_Resident (rec_candidate r) then close nid CloseDismissed s1 else (None, s1)))"

definition submitReply :: "u32 \<Rightarrow> string \<Rightarrow> ownerState \<Rightarrow> error \<times> ownerState" where
  "submitReply nid text s =
     (case Command_Validate (zero_Command\<lparr>c_Kind := CommandReply, c_ID := nid, c_Text := text\<rparr>) of
        Some e \<Rightarrow> (Some e, s)
      | None \<Rightarrow>
          (case os_records s nid of
             None \<Rightarrow> (Some ErrNotFound, s)
           | Some r \<Rightarrow>
               if \<not> cand_InlineReply (rec_candidate r)
               then (Some (Err ''state: notification has no inline reply''), s)
               else
                 (let s1 = snd (publish (zero_Event\<lparr>ev_Reply := Some \<lparr>re_ID = nid, re_Text = text\<rparr>\<rparr>) s)
                  in if \<not> cand_Resident (rec_candidate r) then close nid CloseDismissed s1 else (None, s1))))"

fun dismissLoop :: "u32 list \<Rightarrow> error \<Rightarrow> ownerState \<Rightarrow> error \<times> ownerState" where
  "dismissLoop [] e s = (e, s)"
| "dismissLoop (nid # ids) e s =
     (let (e', s') = close nid CloseDismissed s in dismissLoop ids (errors_Join e e') s')"

subsection \<open>Presentation and expiry (expiry.go)\<close>

definition setPresentation :: "PresentationState \<Rightarrow> time \<Rightarrow> notifRecord \<Rightarrow> notifRecord" where
  "setPresentation nxt now r =
     (if rec_state r = nxt then r
      else
        (let r1 = (if rec_hasDeadline r
                   then r\<lparr>rec_remaining := max 0 (time_Sub (rec_deadline r) now), rec_hasDeadline := False\<rparr>
                   else r);
             previous = rec_state r1;
             r2 = r1\<lparr>rec_state := nxt\<rparr>
         in if rec_duration r2 = 0 then r2
            else case nxt of
              PresentationQueued \<Rightarrow>
                if \<not> rec_displayed r2 then r2\<lparr>rec_remaining := rec_duration r2\<rparr> else r2
            | PresentationHovered \<Rightarrow> r2\<lparr>rec_displayed := True\<rparr>
            | PresentationVisible \<Rightarrow>
                (let r3 = (if \<not> rec_displayed r2
                           then (let r' = r2\<lparr>rec_displayed := True\<rparr> in
                                 if previous = PresentationQueued
                                 then r'\<lparr>rec_remaining := rec_duration r'\<rparr> else r')
                           else r2)
                 in r3\<lparr>rec_deadline := time_Add now (rec_remaining r3), rec_hasDeadline := True\<rparr>)
            | PresentationSuppressed \<Rightarrow>
                r2\<lparr>rec_deadline := time_Add now (rec_remaining r2), rec_hasDeadline := True\<rparr>
            | OtherPresentation _ \<Rightarrow> r2))"

text \<open>The loops over \<open>s.order\<close> that set the presentation of each record.\<close>

fun setAll :: "(u32 \<Rightarrow> PresentationState) \<Rightarrow> time \<Rightarrow> u32 list \<Rightarrow> (u32 \<rightharpoonup> notifRecord) \<Rightarrow> (u32 \<rightharpoonup> notifRecord) option" where
  "setAll f now [] m = Some m"
| "setAll f now (nid # ids) m =
     (case m nid of
        None \<Rightarrow> None
      | Some r \<Rightarrow> setAll f now ids (m(nid \<mapsto> setPresentation (f nid) now r)))"

definition clearPresentation :: "time \<Rightarrow> ownerState \<Rightarrow> ownerState option" where
  "clearPresentation now s =
     map_option (\<lambda>m. s\<lparr>os_records := m, os_presenterGeneration := 0, os_leaseDeadline := 0\<rparr>)
       (setAll (\<lambda>_. PresentationSuppressed) now (os_order s) (os_records s))"

text \<open>The map built from the reported presentations: a later report of an ID wins.\<close>

definition reportedState :: "Presentation list \<Rightarrow> u32 \<Rightarrow> PresentationState" where
  "reportedState ps nid =
     (case map_of (rev (map (\<lambda>p. (p_ID p, p_State p)) ps)) nid of
        None \<Rightarrow> PresentationSuppressed
      | Some st \<Rightarrow> st)"

definition renew :: "u64 \<Rightarrow> Presentation list \<Rightarrow> time \<Rightarrow> ownerState \<Rightarrow> (error \<times> ownerState) option" where
  "renew generation ps now s =
     (if generation = 0 then Some (Some (Err ''state: presenter generation is zero''), s)
      else case Command_Validate (zero_Command\<lparr>c_Kind := CommandPresentationRenew, c_Presentations := ps\<rparr>) of
        Some e \<Rightarrow> Some (Some e, s)
      | None \<Rightarrow>
          if os_acceptedGeneration s \<noteq> 0 \<and> generation < os_acceptedGeneration s then Some (Some ErrStale, s)
          else if os_presenterRetired s \<and> generation = os_acceptedGeneration s then Some (Some ErrStale, s)
          else
            do {
              s1 \<leftarrow> (if os_presenterGeneration s \<noteq> 0 \<and> generation \<noteq> os_presenterGeneration s
                     then clearPresentation now s else Some s);
              m \<leftarrow> setAll (reportedState ps) now (os_order s1) (os_records s1);
              Some (None, s1\<lparr>os_acceptedGeneration := generation, os_presenterRetired := False,
                             os_presenterGeneration := generation,
                             os_leaseDeadline := time_Add now PresentationLease, os_records := m\<rparr>)
            })"

fun expireLoop :: "time \<Rightarrow> u32 list \<Rightarrow> ownerState \<Rightarrow> ownerState" where
  "expireLoop now [] s = s"
| "expireLoop now (nid # ids) s =
     expireLoop now ids
       (case os_records s nid of
          Some r \<Rightarrow> if rec_hasDeadline r \<and> \<not> time_After (rec_deadline r) now
                    then snd (close nid CloseExpired s) else s
        | None \<Rightarrow> s)"

definition sweepHistory :: "time \<Rightarrow> ownerState \<Rightarrow> ownerState option" where
  "sweepHistory now s =
     (if \<not> time_IsZero (os_nextHistorySweep s) \<and> \<not> time_After (os_nextHistorySweep s) now
      then case os_history s of
             None \<Rightarrow> None
           | Some h \<Rightarrow>
               (let (removed, h') = Sweep now h
                in Some ((publishRemoved removed (s\<lparr>os_history := Some h'\<rparr>))
                     \<lparr>os_nextHistorySweep := time_Add now HistorySweep\<rparr>))
      else Some s)"

definition expireLease :: "time \<Rightarrow> ownerState \<Rightarrow> ownerState option" where
  "expireLease now s =
     (if \<not> time_IsZero (os_leaseDeadline s) \<and> \<not> time_After (os_leaseDeadline s) now
      then clearPresentation (os_leaseDeadline s) s else Some s)"

definition handleTimer :: "ownerState \<Rightarrow> ownerState option" where
  "handleTimer s =
     (let (now, s0) = clock_Now s in
      do {
        s1 \<leftarrow> sweepHistory now s0;
        s2 \<leftarrow> expireLease now s1;
        Some (expireLoop now (os_order s2) s2)
      })"

fun nextDeadline :: "time \<Rightarrow> notifRecord list \<Rightarrow> time" where
  "nextDeadline nxt [] = nxt"
| "nextDeadline nxt (r # rs) =
     nextDeadline
       (if rec_hasDeadline r \<and> (time_IsZero nxt \<or> time_Before (rec_deadline r) nxt)
        then rec_deadline r else nxt) rs"

definition resetTimer :: "ownerState \<Rightarrow> ownerState option" where
  "resetTimer s =
     (let next0 = os_nextHistorySweep s;
          next1 = (if \<not> time_IsZero (os_leaseDeadline s) \<and>
                      (time_IsZero next0 \<or> time_Before (os_leaseDeadline s) next0)
                   then os_leaseDeadline s else next0)
      in do {
           rs \<leftarrow> ordered_records s;
           let next2 = nextDeadline next1 rs in
             if time_IsZero next2 then Some (s\<lparr>os_timer := None\<rparr>)
             else let (now, s1) = clock_Now s; d = time_Sub next2 now
                  in Some (s1\<lparr>os_timer := Some (if d < 0 then 0 else d)\<rparr>)
         })"

subsection \<open>Commands (owner.go)\<close>

definition requirePresenter :: "u64 \<Rightarrow> ownerState \<Rightarrow> error" where
  "requirePresenter generation s =
     (if generation = 0 then None
      else fail_if (os_presenterRetired s \<or> generation \<noteq> os_acceptedGeneration s) ErrStale)"

definition gatePresenter :: "StateCommand \<Rightarrow> ownerState \<Rightarrow> error" where
  "gatePresenter c s =
     (if sc_Kind c \<in> {KDismiss, KInvokeAction, KSubmitReply, KDismissAll, KHistoryClear, KHistoryRemove,
                     KHistoryMarkSeen, KProducerPublish, KProducerClose}
      then requirePresenter (sc_Generation c) s else None)"

text \<open>A handler that returns only an error gives the zero result beside it.\<close>

definition result_of :: "error \<times> ownerState \<Rightarrow> (err + Result) \<times> ownerState" where
  "result_of p = (case fst p of None \<Rightarrow> Inr zero_Result | Some e \<Rightarrow> Inl e, snd p)"

definition presenterLost :: "StateCommand \<Rightarrow> time \<Rightarrow> ownerState \<Rightarrow> ownerState option" where
  "presenterLost c now s =
     do {
       s1 \<leftarrow> (if sc_Generation c \<noteq> 0 \<and> sc_Generation c = os_presenterGeneration s
              then clearPresentation now s else Some s);
       Some (if os_acceptedGeneration s1 < sc_NextGeneration c
             then s1\<lparr>os_acceptedGeneration := sc_NextGeneration c, os_presenterRetired := False\<rparr>
             else if sc_Generation c \<noteq> 0 \<and> sc_Generation c = os_acceptedGeneration s1 \<and> sc_NextGeneration c = 0
             then s1\<lparr>os_presenterRetired := True\<rparr> else s1)
     }"

definition presenterResync :: "StateCommand \<Rightarrow> ownerState \<Rightarrow> ((err + Result) \<times> ownerState) option" where
  "presenterResync c s =
     do {
       (snap, s1) \<leftarrow> snapshot s;
       let (ok, s2) = publish (zero_Event\<lparr>ev_Generation := sc_Generation c,
                         ev_Sequence := snap_Sequence snap, ev_Snapshot := Some snap\<rparr>) s1
       in Some (if ok then Inr zero_Result
                else Inl (Err ''state: presenter resync snapshot was not published''), s2)
     }"

definition renewCommand :: "StateCommand \<Rightarrow> time \<Rightarrow> ownerState \<Rightarrow> ((err + Result) \<times> ownerState) option" where
  "renewCommand c now s =
     do {
       (e, s1) \<leftarrow> renew (sc_Generation c) (sc_Presentations c) now s;
       (case e of
          Some e' \<Rightarrow> Some (Inl e', s1)
        | None \<Rightarrow> do { ls \<leftarrow> lifetimes now s1; Some (Inr (zero_Result\<lparr>res_Lifetimes := ls\<rparr>), s1) })
     }"

definition dispatch :: "StateCommand \<Rightarrow> time \<Rightarrow> ownerState \<Rightarrow> ((err + Result) \<times> ownerState) option" where
  "dispatch c now s =
     (case sc_Kind c of
        KAdd \<Rightarrow> add (sc_Candidate c) (sc_PreparedHistoryImage c) now s
      | KProducerPublish \<Rightarrow> publishProducer (sc_Producer c) now s
      | KProducerClose \<Rightarrow> Some (closeProducer (sc_Producer c) s)
      | KCloseRequested \<Rightarrow> Some (result_of (close (sc_ID c) CloseRequested s))
      | KDismiss \<Rightarrow> Some (result_of (close (sc_ID c) CloseDismissed s))
      | KInvokeAction \<Rightarrow> Some (result_of (invokeAction (sc_ID c) (sc_ActionKey c) s))
      | KSubmitReply \<Rightarrow> Some (result_of (submitReply (sc_ID c) (sc_ReplyText c) s))
      | KPresentationRenew \<Rightarrow> renewCommand c now s
      | KPresenterLost \<Rightarrow> map_option (\<lambda>s1. (Inr zero_Result, s1)) (presenterLost c now s)
      | KDismissAll \<Rightarrow> Some (result_of (dismissLoop (os_order s) None s))
      | KHistoryClear \<Rightarrow> Some (result_of (clearHistory s))
      | KHistoryRemove \<Rightarrow> Some (result_of (removeHistory (sc_IDs c) s))
      | KHistoryMarkSeen \<Rightarrow> Some (result_of (markHistorySeen (sc_IDs c) s))
      | KPresenterResync \<Rightarrow> presenterResync c s
      | KUnknown _ \<Rightarrow> Some (Inl (Err ''state: unknown command''), s))"

definition do_command :: "StateCommand \<Rightarrow> ownerState \<Rightarrow> ((err + Result) \<times> ownerState) option" where
  "do_command c s =
     (case gatePresenter c s of
        Some e \<Rightarrow> Some (Inl e, s)
      | None \<Rightarrow> (let (now, s1) = clock_Now s in dispatch c now s1))"

subsection \<open>The owner goroutine (owner.go, run)\<close>

definition initial_nextID :: "Store option \<Rightarrow> u32" where
  "initial_nextID h = (case h of None \<Rightarrow> 1 | Some st \<Rightarrow> fold (\<lambda>nid nxt. max nxt (nid + 1)) (IDs st) 1)"

definition initial_state :: "(nat \<Rightarrow> time) \<Rightarrow> (Event list \<Rightarrow> Event \<Rightarrow> bool) option \<Rightarrow> Store option \<Rightarrow> ownerState" where
  "initial_state clk sink store =
     (let s = \<lparr>os_clock = clk, os_reads = 0, os_sink = sink, os_events = [], os_history = store,
                os_records = Map.empty, os_producerIDs = Map.empty, os_order = [],
                os_nextID = initial_nextID store, os_sequence = 0, os_presenterGeneration = 0,
                os_acceptedGeneration = 0, os_presenterRetired = False, os_leaseDeadline = 0,
                os_timer = None, os_nextHistorySweep = 0\<rparr>
      in case store of
           None \<Rightarrow> s
         | Some _ \<Rightarrow> (let (now, s1) = clock_Now s in s1\<lparr>os_nextHistorySweep := time_Add now HistorySweep\<rparr>))"

text \<open>The state in which the loop starts: the timer is armed once before it.\<close>

definition owner_start :: "(nat \<Rightarrow> time) \<Rightarrow> (Event list \<Rightarrow> Event \<Rightarrow> bool) option \<Rightarrow> Store option \<Rightarrow> ownerState option" where
  "owner_start clk sink store = resetTimer (initial_state clk sink store)"

text \<open>What one turn of the \<open>select\<close> loop serves, and its effect.\<close>

datatype request = SnapshotRequest | CommandRequest StateCommand | TimerFired

text \<open>The timer case of the \<open>select\<close> is ready only while a timer is set: a nil channel never is.\<close>

definition ready :: "request \<Rightarrow> ownerState \<Rightarrow> bool" where
  "ready q s \<longleftrightarrow> (q = TimerFired \<longrightarrow> os_timer s \<noteq> None)"

definition serve :: "request \<Rightarrow> ownerState \<Rightarrow> ownerState option" where
  "serve q s =
     (case q of
        SnapshotRequest \<Rightarrow> map_option snd (snapshot s)
      | CommandRequest c \<Rightarrow> do { (_, s1) \<leftarrow> do_command c s; resetTimer s1 }
      | TimerFired \<Rightarrow> do { s1 \<leftarrow> handleTimer s; resetTimer s1 })"

end
