(* ===== verification/OwnerInv.thy ===== *)
theory OwnerInv
  imports Owner
begin

text \<open>
  The invariant of the state owner, what a client can rebuild from the published events, and the
  relation \<open>advances\<close>: a state is followed by one that satisfies the invariant and whose new events
  account for every change of the client's view.
\<close>

subsection \<open>Publishing a list of deltas\<close>

fun delta_events :: "u64 \<Rightarrow> Delta list \<Rightarrow> Event list" where
  "delta_events q [] = []"
| "delta_events q (d # ds) = zero_Event\<lparr>ev_Sequence := q + 1, ev_Delta := Some d\<rparr> # delta_events (q + 1) ds"

definition emit :: "Delta list \<Rightarrow> ownerState \<Rightarrow> ownerState" where
  "emit ds s = s\<lparr>os_sequence := os_sequence s + of_nat (length ds),
     os_events := os_events s @ delta_events (os_sequence s) ds\<rparr>"

definition removedDelta :: "u32 \<Rightarrow> Delta" where
  "removedDelta nid = zero_Delta\<lparr>d_Kind := DeltaHistoryRemoved, d_ID := nid\<rparr>"

lemma delta_events_append: "delta_events q (ds @ es) = delta_events q ds @ delta_events (q + of_nat (length ds)) es"
  by (induction ds arbitrary: q) (simp_all add: add.assoc)

lemma publishDelta_emit: "publishDelta d s = emit [d] s"
  by (simp add: publishDelta_def publish_def emit_def Let_def)

lemma emit_emit: "emit es (emit ds s) = emit (ds @ es) s"
  by (simp add: emit_def delta_events_append add.assoc)

lemma emit_Nil [simp]: "emit [] s = s"
  by (simp add: emit_def)

lemma publishRemoved_emit: "publishRemoved ids s = emit (map removedDelta ids) s"
  unfolding publishRemoved_def
  by (induction ids arbitrary: s) (simp_all add: publishDelta_emit emit_emit removedDelta_def)

lemma emit_fields [simp]:
  "os_clock (emit ds s) = os_clock s" "os_reads (emit ds s) = os_reads s"
  "os_sink (emit ds s) = os_sink s" "os_history (emit ds s) = os_history s"
  "os_records (emit ds s) = os_records s" "os_producerIDs (emit ds s) = os_producerIDs s"
  "os_order (emit ds s) = os_order s" "os_nextID (emit ds s) = os_nextID s"
  "os_presenterGeneration (emit ds s) = os_presenterGeneration s"
  "os_acceptedGeneration (emit ds s) = os_acceptedGeneration s"
  "os_presenterRetired (emit ds s) = os_presenterRetired s"
  "os_leaseDeadline (emit ds s) = os_leaseDeadline s" "os_timer (emit ds s) = os_timer s"
  "os_nextHistorySweep (emit ds s) = os_nextHistorySweep s"
  by (simp_all add: emit_def)

subsection \<open>The invariant\<close>

text \<open>
  The clock never goes back and is past Go's zero time: what \<open>time.Now\<close> promises within one process
  through its monotonic reading.
\<close>

definition clock_ok :: "(nat \<Rightarrow> time) \<Rightarrow> bool" where
  "clock_ok clk \<longleftrightarrow> (\<forall>n. 0 < clk n) \<and> mono clk"

text \<open>
  A record holds a valid notification under its own ID. Its timer runs exactly while the notification
  expires at all and is visible or suppressed; while it is paused the remaining time is within the
  duration, and while it runs no later reading of the clock sees more than the duration left.
\<close>

definition rec_ok :: "(nat \<Rightarrow> time) \<Rightarrow> nat \<Rightarrow> u32 \<Rightarrow> notifRecord \<Rightarrow> bool" where
  "rec_ok clk k nid r \<longleftrightarrow>
     n_ID (rec_notification r) = nid \<and> Notification_Validate (rec_notification r) = None \<and>
     PresentationState_valid (rec_state r) \<and>
     0 \<le> rec_duration r \<and> rec_duration r \<le> 2147483647 * Millisecond \<and>
     (rec_hasDeadline r \<longleftrightarrow> 0 < rec_duration r \<and>
        (rec_state r = PresentationVisible \<or> rec_state r = PresentationSuppressed)) \<and>
     (\<not> rec_hasDeadline r \<longrightarrow> 0 \<le> rec_remaining r \<and> rec_remaining r \<le> rec_duration r) \<and>
     (rec_hasDeadline r \<longrightarrow> 0 < rec_deadline r \<and> (\<forall>n\<ge>k. rec_deadline r \<le> clk n + rec_duration r)) \<and>
     (\<forall>p. rec_historyImage r = Some p \<longrightarrow> prepared_ok p)"

definition active_ok :: "ownerState \<Rightarrow> bool" where
  "active_ok s \<longleftrightarrow> distinct (os_order s) \<and> dom (os_records s) = set (os_order s) \<and>
     length (os_order s) \<le> MaxActiveNotifications \<and> 0 \<notin> set (os_order s) \<and>
     (\<forall>nid r. os_records s nid = Some r \<longrightarrow> rec_ok (os_clock s) (os_reads s) nid r)"

text \<open>The producer table is exactly the index of the active records by their producer key.\<close>

definition producers_ok :: "ownerState \<Rightarrow> bool" where
  "producers_ok s \<longleftrightarrow> (\<forall>key nid. os_producerIDs s key = Some nid \<longleftrightarrow>
     key \<noteq> [] \<and> (\<exists>r. os_records s nid = Some r \<and> rec_producerKey r = key))"

text \<open>History holds valid entries, none under the ID of an active notification.\<close>

definition history_ok :: "ownerState \<Rightarrow> bool" where
  "history_ok s \<longleftrightarrow> (os_history s = None \<longrightarrow> os_nextHistorySweep s = 0) \<and>
     (\<forall>h. os_history s = Some h \<longrightarrow> store_ok h \<and> set (IDs h) \<inter> set (os_order s) = {})"

text \<open>Without a lease every record is suppressed, so that every timer that can run does.\<close>

definition lease_ok :: "ownerState \<Rightarrow> bool" where
  "lease_ok s \<longleftrightarrow> 0 \<le> os_leaseDeadline s \<and> (os_presenterGeneration s = 0 \<longleftrightarrow> os_leaseDeadline s = 0) \<and>
     (os_leaseDeadline s = 0 \<longrightarrow> (\<forall>nid r. os_records s nid = Some r \<longrightarrow> rec_state r = PresentationSuppressed))"

definition owner_ok :: "ownerState \<Rightarrow> bool" where
  "owner_ok s \<longleftrightarrow> clock_ok (os_clock s) \<and> active_ok s \<and> producers_ok s \<and> history_ok s \<and> lease_ok s"

lemmas owner_ok_defs = owner_ok_def active_ok_def producers_ok_def history_ok_def lease_ok_def

lemma owner_ok_emit [simp]: "owner_ok (emit ds s) = owner_ok s"
  by (simp add: owner_ok_defs)

lemma owner_okD:
  assumes "owner_ok s"
  shows "distinct (os_order s)" "dom (os_records s) = set (os_order s)"
    "length (os_order s) \<le> MaxActiveNotifications" "0 \<notin> set (os_order s)"
    "os_records s nid = Some r \<Longrightarrow> rec_ok (os_clock s) (os_reads s) nid r"
    "clock_ok (os_clock s)" "active_ok s" "producers_ok s" "history_ok s" "lease_ok s"
  using assms by (auto simp: owner_ok_def active_ok_def)

lemma rec_ok_later: "rec_ok clk k nid r \<Longrightarrow> k \<le> k' \<Longrightarrow> rec_ok clk k' nid r"
  by (simp add: rec_ok_def)

subsection \<open>Readings of the clock\<close>

text \<open>\<open>now\<close> is a reading already taken in this state.\<close>

definition reading :: "ownerState \<Rightarrow> time \<Rightarrow> bool" where
  "reading s now \<longleftrightarrow> 0 < now \<and> (\<forall>n\<ge>os_reads s. now \<le> os_clock s n) \<and>
     (\<forall>nid r. os_records s nid = Some r \<and> rec_hasDeadline r \<longrightarrow> rec_deadline r \<le> now + rec_duration r)"

lemma clock_Now_fields [simp]: "snd (clock_Now s) = s\<lparr>os_reads := Suc (os_reads s)\<rparr>"
  "fst (clock_Now s) = os_clock s (os_reads s)"
  by (simp_all add: clock_Now_def)

lemma owner_ok_read:
  assumes "owner_ok s"
  shows "owner_ok (s\<lparr>os_reads := Suc (os_reads s)\<rparr>)"
  using assms rec_ok_later [OF _ le_SucI [OF order_refl]] by (simp add: owner_ok_defs)

lemma reading_now:
  assumes "owner_ok s"
  shows "reading (s\<lparr>os_reads := Suc (os_reads s)\<rparr>) (os_clock s (os_reads s))"
  using assms
  by (auto simp: reading_def owner_ok_def active_ok_def clock_ok_def rec_ok_def intro: monoD)

lemma reading_emit [simp]: "reading (emit ds s) now = reading s now"
  by (simp add: reading_def)

subsection \<open>Lifetimes\<close>

lemma durationMilliseconds_eq:
  assumes "0 \<le> d" "d \<le> 2147483647 * Millisecond"
  shows "uint (durationMilliseconds d) = (d + 999999) div 1000000"
proof (cases "d = 0")
  case True
  then show ?thesis by (simp add: durationMilliseconds_def)
next
  case False
  with assms have d: "0 < d" "d \<le> 2147483647000000" by (simp_all add: Millisecond_def)
  have w: "wrap_i64 (d + 1000000 - 1) = d + 999999" using d by (simp add: wrap_i64_id)
  have q: "0 \<le> (d + 999999) div 1000000" "(d + 999999) div 1000000 < 2147483648"
    using d zdiv_mono1 [of "d + 999999" 2147483647999999 1000000] by (simp_all add: pos_imp_zdiv_nonneg_iff)
  have "(d + 999999) sdiv 1000000 = (d + 999999) div 1000000"
    using d by (simp add: signed_divide_int_def)
  with d w q show ?thesis
    by (simp add: durationMilliseconds_def Millisecond_def uint_word_of_int mod_pos_pos_trivial)
qed

lemma durationMilliseconds_mono:
  assumes "0 \<le> d" "d \<le> e" "e \<le> 2147483647 * Millisecond"
  shows "durationMilliseconds d \<le> durationMilliseconds e"
  using assms durationMilliseconds_eq [of d] durationMilliseconds_eq [of e]
  by (simp add: word_le_def zdiv_mono1)

lemma durationMilliseconds_pos:
  assumes "0 < d" "d \<le> 2147483647 * Millisecond"
  shows "durationMilliseconds d \<noteq> 0"
proof -
  have "1000000 div 1000000 \<le> (d + 999999) div 1000000" using assms by (intro zdiv_mono1) simp_all
  then have "uint (durationMilliseconds d) \<noteq> 0" using durationMilliseconds_eq [of d] assms by simp
  then show ?thesis by auto
qed

lemma l_ID_lifetime [simp]: "l_ID (lifetime r now) = n_ID (rec_notification r)"
  by (simp add: lifetime_def Let_def)

lemma lifetime_valid:
  assumes "rec_ok clk k nid r" "nid \<noteq> 0" "rec_hasDeadline r \<Longrightarrow> rec_deadline r \<le> now + rec_duration r"
  shows "Lifetime_Validate (lifetime r now) = None"
proof -
  define rem where "rem = (if rec_hasDeadline r then max 0 (time_Sub (rec_deadline r) now) else rec_remaining r)"
  have dur: "0 \<le> rec_duration r" "rec_duration r \<le> 2147483647 * Millisecond"
    using assms(1) by (simp_all add: rec_ok_def)
  have "0 \<le> rem \<and> rem \<le> rec_duration r"
    using assms dur max0_time_Sub_le by (auto simp: rem_def rec_ok_def)
  with durationMilliseconds_mono dur
  have "\<not> durationMilliseconds (rec_duration r) < durationMilliseconds rem"
    by (simp add: not_less)
  moreover have "durationMilliseconds (rec_duration r) \<noteq> 0" if "0 < rec_duration r"
    using durationMilliseconds_pos [OF that dur(2)] .
  ultimately show ?thesis
    using assms(1,2) by (auto simp: Lifetime_Validate_def lifetime_def Let_def rem_def rec_ok_def)
qed

subsection \<open>Presentation states\<close>

lemma setPresentation_frame [simp]:
  "rec_notification (setPresentation p t r) = rec_notification r"
  "rec_candidate (setPresentation p t r) = rec_candidate r"
  "rec_historyImage (setPresentation p t r) = rec_historyImage r"
  "rec_producerKey (setPresentation p t r) = rec_producerKey r"
  "rec_duration (setPresentation p t r) = rec_duration r"
  "rec_state (setPresentation p t r) = p"
  "rec_lastReceived (setPresentation p t r) = rec_lastReceived r"
  by (auto simp: setPresentation_def Let_def split: PresentationState.splits)

text \<open>
  Setting a presentation keeps a record well formed if the time it is set at is not ahead of the
  clock, and is either a reading of the clock or only suppresses (as an expired lease does).
\<close>

lemma setPresentation_ok:
  assumes ok: "rec_ok clk k nid r" and valid: "PresentationState_valid p"
    and at: "0 < t" "\<And>n. k \<le> n \<Longrightarrow> t \<le> clk n"
    and real: "p \<noteq> PresentationSuppressed \<Longrightarrow> rec_hasDeadline r \<Longrightarrow> rec_deadline r \<le> t + rec_duration r"
  shows "rec_ok clk k nid (setPresentation p t r)"
proof (cases "rec_state r = p")
  case True
  with ok show ?thesis by (simp add: setPresentation_def)
next
  case False
  define rem where "rem = (if rec_hasDeadline r then max 0 (time_Sub (rec_deadline r) t) else rec_remaining r)"
  have dur: "0 \<le> rec_duration r" using ok by (simp add: rec_ok_def)
  have rem0: "0 \<le> rem" using ok by (auto simp: rem_def rec_ok_def)
  have rem1: "rem \<le> rec_duration r" if "p \<noteq> PresentationSuppressed"
    using ok real [OF that] max0_time_Sub_le dur by (auto simp: rem_def rec_ok_def)
  have dl: "t + rem \<le> clk n + rec_duration r" if "k \<le> n" for n
    using at(2) [OF that] ok that dur max0_time_Sub_add_le [of t "rec_deadline r"]
    by (fastforce simp: rem_def rec_ok_def)
  have zero: "rec_duration r = 0 \<Longrightarrow> rem = 0" using ok by (auto simp: rem_def rec_ok_def)
  have full: "t + rec_duration r \<le> clk n + rec_duration r" if "k \<le> n" for n using at(2) [OF that] by simp
  show ?thesis
    using False ok valid at(1) dur rem0 rem1 dl zero full
    by (cases p) (auto simp: rec_ok_def setPresentation_def Let_def time_Add_def rem_def [symmetric] rem_def)
qed

lemma setAll_eq:
  assumes "distinct ids" "set ids \<subseteq> dom m"
  shows "setAll f now ids m =
    Some (\<lambda>nid. if nid \<in> set ids then map_option (setPresentation (f nid) now) (m nid) else m nid)"
  using assms
proof (induction ids arbitrary: m)
  case Nil
  then show ?case by simp
next
  case (Cons i ids)
  then obtain r where r: "m i = Some r" by auto
  have "setAll f now ids (m(i \<mapsto> setPresentation (f i) now r)) =
      Some (\<lambda>nid. if nid \<in> set ids then map_option (setPresentation (f nid) now) ((m(i \<mapsto> setPresentation (f i) now r)) nid)
         else (m(i \<mapsto> setPresentation (f i) now r)) nid)"
    using Cons by (intro Cons.IH) auto
  also have "\<dots> = Some (\<lambda>nid. if nid \<in> set (i # ids) then map_option (setPresentation (f nid) now) (m nid) else m nid)"
    using Cons.prems(1) r by (auto simp: fun_eq_iff)
  finally show ?case using r by simp
qed

subsection \<open>The client's view\<close>

text \<open>
  What a presenter keeps: the active notifications in order and the history. \<open>apply_delta\<close> is the
  abstract meaning of a delta.
\<close>

record view =
  v_active :: "Notification list"
  v_history :: "HistoryEntry list"

fun apply_delta :: "Delta \<Rightarrow> view \<Rightarrow> view" where
  "apply_delta d v =
     (case d_Kind d of
        DeltaAdded \<Rightarrow> v\<lparr>v_active := v_active v @ [the (d_Notification d)]\<rparr>
      | DeltaReplaced \<Rightarrow> v\<lparr>v_active := map (\<lambda>n. if n_ID n = n_ID (the (d_Notification d))
            then the (d_Notification d) else n) (v_active v)\<rparr>
      | DeltaClosed \<Rightarrow> v\<lparr>v_active := filter (\<lambda>n. n_ID n \<noteq> d_ID d) (v_active v)\<rparr>
      | DeltaHistoryAdded \<Rightarrow> v\<lparr>v_history := v_history v @ [the (d_History d)]\<rparr>
      | DeltaHistoryRemoved \<Rightarrow> v\<lparr>v_history := hist_remove [d_ID d] (v_history v)\<rparr>
      | DeltaHistorySeen \<Rightarrow> v\<lparr>v_history := hist_seen (d_IDs d) (v_history v)\<rparr>
      | DeltaHistoryCleared \<Rightarrow> v\<lparr>v_history := []\<rparr>
      | OtherDelta _ \<Rightarrow> v)"

declare apply_delta.simps [simp del]

definition history_of :: "ownerState \<Rightarrow> HistoryEntry list" where
  "history_of s = (case os_history s of None \<Rightarrow> [] | Some h \<Rightarrow> Entries h)"

definition notification_of :: "ownerState \<Rightarrow> u32 \<Rightarrow> Notification" where
  "notification_of s nid = rec_notification (the (os_records s nid))"

definition view_of :: "ownerState \<Rightarrow> view" where
  "view_of s = \<lparr>v_active = map (notification_of s) (os_order s), v_history = history_of s\<rparr>"

definition deltas_of :: "Event list \<Rightarrow> Delta list" where
  "deltas_of evs = List.map_filter ev_Delta evs"

abbreviation snapshot_view :: "Snapshot \<Rightarrow> view" where
  "snapshot_view sn \<equiv> \<lparr>v_active = snap_Active sn, v_history = snap_History sn\<rparr>"

text \<open>
  The events that follow a state with sequence \<open>q\<close> and view \<open>v\<close>: deltas are valid and numbered consecutively, a
  snapshot is valid, carries the sequence of the last delta and shows the view after it.
\<close>

fun wf_events :: "u64 \<Rightarrow> view \<Rightarrow> Event list \<Rightarrow> bool" where
  "wf_events q v [] = True"
| "wf_events q v (e # es) =
     (case ev_Delta e of
        Some d \<Rightarrow> ev_Sequence e = q + 1 \<and> ev_Snapshot e = None \<and> Delta_Validate d = None \<and> wf_events (q + 1) (apply_delta d v) es
      | None \<Rightarrow> (\<forall>sn. ev_Snapshot e = Some sn \<longrightarrow>
                   ev_Sequence e = q \<and> snap_Sequence sn = q \<and> Snapshot_Validate sn = None \<and> snapshot_view sn = v) \<and> wf_events q v es)"

definition tracks :: "ownerState \<Rightarrow> ownerState \<Rightarrow> bool" where
  "tracks s s' \<longleftrightarrow> (\<exists>evs. os_events s' = os_events s @ evs \<and> wf_events (os_sequence s) (view_of s) evs \<and>
     os_sequence s' = os_sequence s + of_nat (length (deltas_of evs)) \<and>
     view_of s' = fold apply_delta (deltas_of evs) (view_of s))"

definition advances :: "ownerState \<Rightarrow> ownerState \<Rightarrow> bool" where
  "advances s s' \<longleftrightarrow> owner_ok s' \<and> tracks s s' \<and> os_clock s' = os_clock s \<and> os_reads s \<le> os_reads s'"

lemma deltas_of_simps [simp]:
  "deltas_of [] = []"
  "deltas_of (e # es) = (case ev_Delta e of None \<Rightarrow> deltas_of es | Some d \<Rightarrow> d # deltas_of es)"
  "deltas_of (es @ fs) = deltas_of es @ deltas_of fs"
  by (simp_all add: deltas_of_def List.map_filter_def split: option.splits)

lemma deltas_of_delta_events [simp]: "deltas_of (delta_events q ds) = ds"
  by (induction ds arbitrary: q) simp_all

lemma wf_delta_events: "\<forall>d\<in>set ds. Delta_Validate d = None \<Longrightarrow> wf_events q v (delta_events q ds)"
  by (induction ds arbitrary: q v) (simp_all add: zero_Event_def)

lemma wf_events_append:
  "wf_events q v (es @ fs) \<longleftrightarrow>
     wf_events q v es \<and> wf_events (q + of_nat (length (deltas_of es))) (fold apply_delta (deltas_of es) v) fs"
  by (induction es arbitrary: q v) (auto split: option.splits simp: add.assoc)

lemma tracks_refl: "tracks s s"
  unfolding tracks_def by (intro exI [of _ "[]"]) simp

lemma tracks_trans:
  assumes "tracks s t" "tracks t u"
  shows "tracks s u"
proof -
  from assms obtain es fs where
    "os_events t = os_events s @ es" "wf_events (os_sequence s) (view_of s) es"
    "os_sequence t = os_sequence s + of_nat (length (deltas_of es))"
    "view_of t = fold apply_delta (deltas_of es) (view_of s)"
    "os_events u = os_events t @ fs" "wf_events (os_sequence t) (view_of t) fs"
    "os_sequence u = os_sequence t + of_nat (length (deltas_of fs))"
    "view_of u = fold apply_delta (deltas_of fs) (view_of t)"
    by (auto simp: tracks_def)
  then show ?thesis
    unfolding tracks_def by (intro exI [of _ "es @ fs"]) (simp add: wf_events_append add.assoc)
qed

lemma advances_refl: "owner_ok s \<Longrightarrow> advances s s"
  by (simp add: advances_def tracks_refl)

lemma advances_trans: "advances s t \<Longrightarrow> advances t u \<Longrightarrow> advances s u"
  by (auto simp: advances_def intro: tracks_trans)

text \<open>
  The way every operation is shown to advance: it changes the state quietly, then emits the deltas
  that turn the old view into the new one.
\<close>

lemma advances_emit:
  assumes "owner_ok t" "os_events t = os_events s" "os_sequence t = os_sequence s"
    "os_clock t = os_clock s" "os_reads s \<le> os_reads t"
    "view_of t = fold apply_delta ds (view_of s)" "\<forall>d\<in>set ds. Delta_Validate d = None"
  shows "advances s (emit ds t)"
proof -
  have "view_of (emit ds t) = view_of t"
    by (simp add: view_of_def notification_of_def history_of_def)
  moreover have "os_events (emit ds t) = os_events s @ delta_events (os_sequence s) ds"
    "os_sequence (emit ds t) = os_sequence s + of_nat (length ds)"
    using assms by (simp_all add: emit_def)
  ultimately show ?thesis
    using assms wf_delta_events [of ds "os_sequence s" "view_of s"] unfolding advances_def tracks_def
    by (auto intro!: exI [of _ "delta_events (os_sequence s) ds"])
qed

lemma advances_quiet:
  assumes "owner_ok t" "os_events t = os_events s" "os_sequence t = os_sequence s"
    "os_clock t = os_clock s" "os_reads s \<le> os_reads t" "view_of t = view_of s"
  shows "advances s t"
  using advances_emit [of t s "[]"] assms by simp

lemma advances_read: "owner_ok s \<Longrightarrow> advances s (s\<lparr>os_reads := Suc (os_reads s)\<rparr>)"
  by (rule advances_quiet) (simp_all add: owner_ok_read view_of_def notification_of_def history_of_def)

lemma advances_ok: "advances s t \<Longrightarrow> owner_ok t"
  by (simp add: advances_def)

end
