(* ===== verification/OwnerSteps.thy ===== *)
theory OwnerSteps
  imports OwnerInv
begin

text \<open>
  Every operation of the owner keeps the invariant and publishes what it changes: one lemma per
  operation, ending in the command dispatcher, the timer handler and a whole turn of the owner loop.
\<close>

subsection \<open>Views under the deltas of the history\<close>

lemma view_of_emit [simp]: "view_of (emit ds s) = view_of s"
  by (simp add: view_of_def notification_of_def history_of_def)

lemma view_of_reads [simp]: "view_of (s\<lparr>os_reads := n\<rparr>) = view_of s"
  by (simp add: view_of_def notification_of_def history_of_def)

lemma hist_remove_hist_remove: "hist_remove ids (hist_remove [i] es) = hist_remove (i # ids) es"
  by (simp add: hist_remove_def conj_commute)

lemma fold_removedDelta:
  "fold apply_delta (map removedDelta ids) v = v\<lparr>v_history := hist_remove ids (v_history v)\<rparr>"
proof (induction ids arbitrary: v)
  case Nil
  show ?case by (simp add: hist_remove_def)
next
  case (Cons i ids)
  then show ?case
    by (simp add: apply_delta.simps removedDelta_def zero_Delta_def hist_remove_hist_remove)
qed

lemma removedDelta_valid: "i \<noteq> 0 \<Longrightarrow> Delta_Validate (removedDelta i) = None"
  by (simp add: Delta_Validate_def removedDelta_def zero_Delta_def)

lemma view_of_history:
  "view_of (s\<lparr>os_history := Some h\<rparr>) = (view_of s)\<lparr>v_history := Entries h\<rparr>"
  by (simp add: view_of_def notification_of_def history_of_def)

lemma history_of_view [simp]: "v_history (view_of s) = history_of s"
  by (simp add: view_of_def)

lemma store_ids_nonzero: "store_ok h \<Longrightarrow> i \<in> set (IDs h) \<Longrightarrow> i \<noteq> 0"
  by (auto simp: store_ok_def entries_ok_def IDs_def retained_ok_def HistoryEntry_Validate_def)

text \<open>Replacing the history by a valid one that does not use an active ID keeps the invariant.\<close>

lemma owner_ok_history:
  assumes "owner_ok s" "os_history s = Some h" "store_ok h'" "set (IDs h') \<inter> set (os_order s) = {}"
  shows "owner_ok (s\<lparr>os_history := Some h'\<rparr>)"
  using assms by (simp add: owner_ok_defs)

subsection \<open>Closing\<close>

lemma remember_result:
  assumes "store_ok h" "\<forall>p. rec_historyImage r = Some p \<longrightarrow> prepared_ok p"
    and "(case rec_historyImage r of
            Some p \<Rightarrow> AddPrepared (historyEntry (rec_notification r) now img) p now h
          | None \<Rightarrow> Add (historyEntry (rec_notification r) now img) now h) = (res, h')"
  obtains (same) e where "res = Inl e" "h' = h" | (old) "res = Inr (zero_HistoryEntry, [])" "h' = h"
    | (added) e removed where "res = Inr (e, removed)" "HistoryEntry_Validate e = None"
        "h_ID e = n_ID (rec_notification r)" "store_ok h'" "Entries h' = hist_remove removed (Entries h) @ [e]"
        "set removed \<subseteq> set (IDs h)"
proof (cases "rec_historyImage r")
  case None
  with assms(3) have a: "Add (historyEntry (rec_notification r) now img) now h = (res, h')" by simp
  show thesis using assms(1) a
  proof (cases rule: Add_cases)
    case (added img' entry removed r')
    with that(3) [of entry removed] show thesis
      by (simp add: historyEntry_def Entries_def hist_remove_def Entries_filter IDs_def)
  qed (use that in blast)+
next
  case (Some p)
  with assms(2,3) have a: "prepared_ok p"
    "AddPrepared (historyEntry (rec_notification r) now img) p now h = (res, h')" by auto
  show thesis using assms(1) a
  proof (cases rule: AddPrepared_cases)
    case (added entry removed r')
    with that(3) [of entry removed] show thesis
      by (simp add: historyEntry_def Entries_def hist_remove_def Entries_filter IDs_def)
  qed (use that in blast)+
qed

definition historyAddedDelta :: "HistoryEntry \<Rightarrow> Delta" where
  "historyAddedDelta e = zero_Delta\<lparr>d_Kind := DeltaHistoryAdded, d_History := Some e\<rparr>"

lemma apply_historyAdded:
  "apply_delta (historyAddedDelta e) v = v\<lparr>v_history := v_history v @ [e]\<rparr>"
  by (simp add: apply_delta.simps historyAddedDelta_def zero_Delta_def)

lemma historyAddedDelta_valid: "HistoryEntry_Validate e = None \<Longrightarrow> Delta_Validate (historyAddedDelta e) = None"
  by (simp add: Delta_Validate_def historyAddedDelta_def zero_Delta_def)

lemma remember_advances:
  assumes ok: "owner_ok s" and h: "os_history s = Some h"
    and new: "n_ID (rec_notification r) \<notin> set (os_order s)"
    and img: "\<forall>p. rec_historyImage r = Some p \<longrightarrow> prepared_ok p"
  shows "advances s (remember r h s)" "os_records (remember r h s) = os_records s"
    "os_order (remember r h s) = os_order s" "os_producerIDs (remember r h s) = os_producerIDs s"
    "os_nextID (remember r h s) = os_nextID s" "os_leaseDeadline (remember r h s) = os_leaseDeadline s"
proof -
  define now where "now = os_clock s (os_reads s)"
  define im where "im = (if rec_historyImage r \<noteq> None then None else n_Image (rec_notification r))"
  define s1 where "s1 = s\<lparr>os_reads := Suc (os_reads s)\<rparr>"
  obtain res h' where res: "(case rec_historyImage r of
      Some p \<Rightarrow> AddPrepared (historyEntry (rec_notification r) now im) p now h
    | None \<Rightarrow> Add (historyEntry (rec_notification r) now im) now h) = (res, h')" by fastforce
  have st: "store_ok h" and disj: "set (IDs h) \<inter> set (os_order s) = {}"
    using ok h by (auto simp: owner_ok_def history_ok_def)
  have ok1: "owner_ok s1" and h1: "os_history s1 = Some h" unfolding s1_def using owner_ok_read [OF ok] h by auto
  note eq = remember_def [of r h s, unfolded clock_Now_def prod.case Let_def, folded now_def im_def s1_def, unfolded res prod.case]
  have "advances s (remember r h s) \<and> (\<exists>ds. remember r h s = emit ds (s1\<lparr>os_history := Some h'\<rparr>))"
    using st img res
  proof (cases rule: remember_result)
    case (same e)
    have "s1\<lparr>os_history := Some h\<rparr> = s1" using h1 by simp
    with same eq advances_read [OF ok] show ?thesis by (auto simp: s1_def intro!: exI [of _ "[]"])
  next
    case old
    have "s1\<lparr>os_history := Some h\<rparr> = s1" using h1 by simp
    with old eq advances_read [OF ok] show ?thesis
      by (auto simp: s1_def publishRemoved_emit zero_HistoryEntry_def intro!: exI [of _ "[]"])
  next
    case (added e removed)
    define ds where "ds = map removedDelta removed @ [historyAddedDelta e]"
    have nz: "h_ID e \<noteq> 0" using added(2) by (simp add: HistoryEntry_Validate_def)
    have rem: "remember r h s = emit ds (s1\<lparr>os_history := Some h'\<rparr>)"
      using eq added(1) nz
      by (simp add: publishRemoved_emit publishDelta_emit emit_emit ds_def historyAddedDelta_def)
    have "set (IDs h') \<inter> set (os_order s1) = {}"
      using arg_cong [OF added(5), of "map h_ID"] added(3) disj new
      by (auto simp: Entries_def IDs_def s1_def hist_remove_def comp_def dest!: arg_cong [where f = set])
    then have "owner_ok (s1\<lparr>os_history := Some h'\<rparr>)"
      by (rule owner_ok_history [OF ok1 h1 added(4)])
    moreover have "view_of (s1\<lparr>os_history := Some h'\<rparr>) = fold apply_delta ds (view_of s)"
      using h by (simp add: s1_def view_of_history ds_def fold_removedDelta apply_historyAdded added(5) history_of_def)
    moreover have "\<forall>d\<in>set ds. Delta_Validate d = None"
      using added(2,6) store_ids_nonzero [OF st]
      by (auto simp: ds_def historyAddedDelta_valid intro!: removedDelta_valid)
    ultimately have "advances s (emit ds (s1\<lparr>os_history := Some h'\<rparr>))"
      by (intro advances_emit) (simp_all add: s1_def)
    with rem show ?thesis by auto
  qed
  then show "advances s (remember r h s)" "os_records (remember r h s) = os_records s"
    "os_order (remember r h s) = os_order s" "os_producerIDs (remember r h s) = os_producerIDs s"
    "os_nextID (remember r h s) = os_nextID s" "os_leaseDeadline (remember r h s) = os_leaseDeadline s"
    by (auto simp: s1_def)
qed

definition closedDelta :: "u32 \<Rightarrow> CloseReason \<Rightarrow> Delta" where
  "closedDelta nid reason = zero_Delta\<lparr>d_Kind := DeltaClosed, d_ID := nid, d_CloseReason := reason\<rparr>"

lemma closedDelta_valid: "nid \<noteq> 0 \<Longrightarrow> CloseReason_valid reason \<Longrightarrow> Delta_Validate (closedDelta nid reason) = None"
  by (simp add: Delta_Validate_def closedDelta_def zero_Delta_def)

lemma close_reasons_valid [simp]:
  "CloseReason_valid CloseExpired" "CloseReason_valid CloseDismissed"
  "CloseReason_valid CloseRequested" "CloseReason_valid CloseUndefined"
  by (simp_all add: CloseReason_valid_def close_reason_defs)

lemma forget_ok:
  assumes ok: "owner_ok s" and r: "os_records s nid = Some r"
  shows "owner_ok (forget nid r s)"
proof -
  let ?m = "(os_records s)(nid := None)"
  have P: "os_producerIDs s k = Some i \<longleftrightarrow> k \<noteq> [] \<and> (\<exists>r. os_records s i = Some r \<and> rec_producerKey r = k)" for k i
    using ok by (simp add: owner_ok_def producers_ok_def)
  have key: "producerID s (rec_producerKey r) = nid" if "rec_producerKey r \<noteq> []"
  proof -
    have "os_producerIDs s (rec_producerKey r) = Some nid" using P r that by blast
    then show ?thesis by (simp add: producerID_def)
  qed
  have prod: "producers_ok (forget nid r s)"
  proof -
    have none: "os_producerIDs s [] = None" using P [of "[]"] by (cases "os_producerIDs s []") auto
    have tab: "os_producerIDs (forget nid r s) = (os_producerIDs s)(rec_producerKey r := None)"
      using key none by (cases "rec_producerKey r = []") (auto simp: forget_def)
    have recs: "os_records (forget nid r s) = ?m" by (simp add: forget_def)
    show ?thesis
      unfolding producers_ok_def tab recs
    proof (intro allI)
      fix k i
      show "((os_producerIDs s)(rec_producerKey r := None)) k = Some i \<longleftrightarrow>
          k \<noteq> [] \<and> (\<exists>r'. ?m i = Some r' \<and> rec_producerKey r' = k)"
      proof (cases "k = rec_producerKey r")
        case True
        have "i = nid" if "k \<noteq> []" "os_records s i = Some r'" "rec_producerKey r' = k" for r'
          using P [of k i] P [of k nid] that r True by auto
        with True show ?thesis by auto
      next
        case False
        with P [of k i] r show ?thesis by auto
      qed
    qed
  qed
  have "set (remove1 nid (os_order s)) = set (os_order s) - {nid}"
    using ok by (simp add: owner_ok_def active_ok_def)
  moreover have "length (remove1 nid (os_order s)) \<le> MaxActiveNotifications"
    using ok by (auto simp: owner_ok_def active_ok_def length_remove1)
  ultimately have "active_ok (forget nid r s)"
    using ok by (auto simp: owner_ok_def active_ok_def forget_def split: if_splits)
  moreover have "history_ok (forget nid r s)"
    using owner_okD(9) [OF ok] set_remove1_subset [of nid "os_order s"]
    unfolding history_ok_def forget_def by (simp add: disjoint_iff subset_iff)
  moreover have "lease_ok (forget nid r s)"
    using owner_okD(10) [OF ok] by (simp add: lease_ok_def forget_def)
  ultimately show ?thesis using ok prod by (simp add: owner_ok_def forget_def)
qed

text \<open>In a good state the notification at a position of the view has the ID of that position.\<close>

lemma notification_of_ID: "owner_ok s \<Longrightarrow> i \<in> set (os_order s) \<Longrightarrow> n_ID (notification_of s i) = i"
proof -
  assume ok: "owner_ok s" and "i \<in> set (os_order s)"
  then obtain r where "os_records s i = Some r" using owner_okD(2) [OF ok] by auto
  with owner_okD(5) [OF ok this] show ?thesis by (simp add: notification_of_def rec_ok_def)
qed

lemma forget_view:
  assumes ok: "owner_ok s"
  shows "view_of (forget nid r s) = apply_delta (closedDelta nid reason) (view_of s)"
proof -
  have "map (notification_of (forget nid r s)) (remove1 nid (os_order s)) =
      map (notification_of s) (filter (\<lambda>i. i \<noteq> nid) (os_order s))"
    using ok by (auto simp: owner_ok_def active_ok_def distinct_remove1_removeAll removeAll_filter_not_eq
        notification_of_def forget_def intro!: map_cong filter_cong)
  also have "\<dots> = filter (\<lambda>n. n_ID n \<noteq> nid) (map (notification_of s) (os_order s))"
    using notification_of_ID [OF ok] by (auto simp: filter_map comp_def intro!: arg_cong [where f = "map _"] filter_cong)
  finally have "map (notification_of (forget nid r s)) (os_order (forget nid r s)) =
      filter (\<lambda>n. n_ID n \<noteq> nid) (map (notification_of s) (os_order s))"
    by (simp add: forget_def)
  moreover have "history_of (forget nid r s) = history_of s" by (simp add: history_of_def forget_def)
  ultimately show ?thesis
    by (simp add: apply_delta.simps closedDelta_def zero_Delta_def view_of_def)
qed

lemma close_advances:
  assumes ok: "owner_ok s" and reason: "CloseReason_valid reason" and r: "os_records s nid = Some r"
  shows "fst (close nid reason s) = None" (is ?err)
    and "advances s (snd (close nid reason s))" (is ?adv)
    and "os_records (snd (close nid reason s)) = (os_records s)(nid := None)"
    and "os_order (snd (close nid reason s)) = remove1 nid (os_order s)"
    and "os_nextID (snd (close nid reason s)) = os_nextID s"
    and "os_leaseDeadline (snd (close nid reason s)) = os_leaseDeadline s"
    and "os_producerIDs (snd (close nid reason s)) = os_producerIDs (forget nid r s)"
proof -
  define s1 where "s1 = emit [closedDelta nid reason] (forget nid r s)"
  have nz: "nid \<noteq> 0" using owner_okD(2,4) [OF ok] r by (auto simp: dom_def)
  have ok1: "owner_ok s1" using forget_ok [OF ok r] by (simp add: s1_def)
  have adv1: "advances s s1"
    unfolding s1_def using closedDelta_valid [OF nz reason] forget_view [OF ok]
    by (intro advances_emit forget_ok [OF ok r]) (simp_all add: forget_def)
  have h1: "os_history s1 = os_history s" by (simp add: s1_def forget_def)
  have eq: "close nid reason s =
      (None, case os_history s of None \<Rightarrow> s1 | Some h \<Rightarrow>
         if \<not> cand_Transient (rec_candidate r) \<and> \<not> cand_Private (rec_candidate r) then remember r h s1 else s1)"
    using r by (simp add: close_def Let_def publishDelta_emit s1_def closedDelta_def forget_def split: option.splits)
  have id: "n_ID (rec_notification r) \<notin> set (os_order s1)"
    using ok r by (simp add: s1_def forget_def owner_ok_def active_ok_def rec_ok_def)
  have img: "\<forall>p. rec_historyImage r = Some p \<longrightarrow> prepared_ok p" using owner_okD(5) [OF ok r] by (simp add: rec_ok_def)
  show ?err by (simp add: eq)
  have fields: "os_records s1 = (os_records s)(nid := None)" "os_order s1 = remove1 nid (os_order s)"
    "os_nextID s1 = os_nextID s" "os_leaseDeadline s1 = os_leaseDeadline s"
    "os_producerIDs s1 = os_producerIDs (forget nid r s)"
    by (simp_all add: s1_def) (simp_all add: forget_def)
  show ?adv
    using adv1 advances_trans [OF adv1 remember_advances(1) [OF ok1 _ id img]] h1
    by (simp add: eq split: option.splits)
  show "os_records (snd (close nid reason s)) = (os_records s)(nid := None)"
    "os_order (snd (close nid reason s)) = remove1 nid (os_order s)"
    "os_nextID (snd (close nid reason s)) = os_nextID s"
    "os_leaseDeadline (snd (close nid reason s)) = os_leaseDeadline s"
    "os_producerIDs (snd (close nid reason s)) = os_producerIDs (forget nid r s)"
    using fields remember_advances(2-) [OF ok1 _ id img] h1 by (simp_all add: eq split: option.splits)
qed

lemma close_missing: "os_records s nid = None \<Longrightarrow> close nid reason s = (Some ErrNotFound, s)"
  by (simp add: close_def)

text \<open>Whatever the ID, a close advances the state.\<close>

lemma close_advances_any:
  assumes "owner_ok s" "CloseReason_valid reason"
  shows "advances s (snd (close nid reason s))"
  using assms close_advances(2) [OF assms] close_missing advances_refl by (cases "os_records s nid") auto

subsection \<open>Adding and replacing\<close>

lemma candidateDuration_bounds:
  assumes "-1 \<le> sint (cand_ExpireTimeout c)"
  shows "0 \<le> candidateDuration c" "candidateDuration c \<le> 2147483647 * Millisecond"
proof -
  have "sint (cand_ExpireTimeout c) \<le> 2147483647" using sint_i32_bounds [of "cand_ExpireTimeout c"] by simp
  then have "wrap_i64 (sint (cand_ExpireTimeout c) * Millisecond) = sint (cand_ExpireTimeout c) * Millisecond"
    using assms by (intro wrap_i64_id) (simp_all add: Millisecond_def)
  then show "0 \<le> candidateDuration c" "candidateDuration c \<le> 2147483647 * Millisecond"
    using assms \<open>sint (cand_ExpireTimeout c) \<le> 2147483647\<close>
    by (auto simp: candidateDuration_def DefaultTimeout_def Second_def Millisecond_def)
qed

lemma validateCandidate_None:
  assumes "validateCandidate c now = None"
  shows "-1 \<le> sint (cand_ExpireTimeout c)"
    "nid \<noteq> 0 \<Longrightarrow> Notification_Validate (notificationFromCandidate nid c now) = None"
  using assms
  by (auto simp: validateCandidate_def Notification_Validate_def notificationFromCandidate_def split: if_splits)

text \<open>The record an add installs: the new record, in the presentation state it takes over.\<close>

definition addedRecord :: "notifRecord \<Rightarrow> PresentationState \<Rightarrow> bool \<Rightarrow> string \<Rightarrow> time \<Rightarrow> notifRecord" where
  "addedRecord fresh st disp key now =
     (let r = fresh\<lparr>rec_state := st, rec_displayed := disp, rec_producerKey := key\<rparr>
      in if 0 < rec_duration r \<and> st \<noteq> PresentationQueued \<and> st \<noteq> PresentationHovered
         then startDeadline now r else r)"

lemma addedRecord_fields [simp]:
  "rec_notification (addedRecord fresh st disp key now) = rec_notification fresh"
  "rec_producerKey (addedRecord fresh st disp key now) = key"
  "rec_state (addedRecord fresh st disp key now) = st"
  "rec_candidate (addedRecord fresh st disp key now) = rec_candidate fresh"
  "rec_lastReceived (addedRecord fresh st disp key now) = rec_lastReceived fresh"
  "rec_duration (addedRecord fresh st disp key now) = rec_duration fresh"
  by (simp_all add: addedRecord_def startDeadline_def Let_def)

lemma n_ID_notificationFromCandidate [simp]: "n_ID (notificationFromCandidate nid c now) = nid"
  by (simp add: notificationFromCandidate_def)

lemma addedRecord_ok:
  assumes "validateCandidate c now = None" "nid \<noteq> 0" "PresentationState_valid st"
    "\<forall>p. prepared = Some p \<longrightarrow> prepared_ok p" "0 < now" "\<forall>n\<ge>k. now \<le> clk n"
  shows "rec_ok clk k nid (addedRecord (newRecord c key0 prepared now nid) st disp key now)"
    and "Lifetime_Validate (lifetime (addedRecord (newRecord c key0 prepared now nid) st disp key now) now) = None"
proof -
  let ?r = "addedRecord (newRecord c key0 prepared now nid) st disp key now"
  have d: "0 \<le> candidateDuration c" "candidateDuration c \<le> 2147483647 * Millisecond"
    using candidateDuration_bounds validateCandidate_None(1) [OF assms(1)] by auto
  have "st = PresentationHovered \<or> st = PresentationVisible \<or> st = PresentationQueued \<or> st = PresentationSuppressed"
    using assms(3) by (cases st) auto
  with d assms validateCandidate_None(2) [OF assms(1,2)]
  show ok: "rec_ok clk k nid ?r"
    by (auto simp: rec_ok_def addedRecord_def newRecord_def startDeadline_def Let_def time_Add_def)
  have "rec_hasDeadline ?r \<Longrightarrow> rec_deadline ?r \<le> now + rec_duration ?r"
    by (auto simp: addedRecord_def newRecord_def startDeadline_def Let_def time_Add_def split: if_splits)
  with ok assms(2) show "Lifetime_Validate (lifetime ?r now) = None" by (rule lifetime_valid)
qed

definition bindKey :: "string \<Rightarrow> u32 \<Rightarrow> ownerState \<Rightarrow> ownerState" where
  "bindKey key nid s = (if key = [] then s else s\<lparr>os_producerIDs := (os_producerIDs s)(key \<mapsto> nid)\<rparr>)"

lemma bindKey_emit: "bindKey key nid (emit ds s) = emit ds (bindKey key nid s)"
  by (simp add: bindKey_def emit_def)

lemma notificationDelta_valid:
  assumes "rec_ok clk k nid r" "Lifetime_Validate (lifetime r now) = None" "kind = DeltaAdded \<or> kind = DeltaReplaced"
  shows "Delta_Validate (notificationDelta kind r now) = None"
proof -
  have "Notification_Validate (rec_notification r) = None" using assms(1) by (simp add: rec_ok_def)
  with assms(2,3) show ?thesis
    by (elim disjE) (simp_all add: Delta_Validate_def notificationDelta_def zero_Delta_def)
qed

lemma insertRecord_eq:
  "insertRecord nid (newRecord c key prepared now nid) now s =
   (let r = addedRecord (newRecord c key prepared now nid) PresentationSuppressed False key now
    in emit [notificationDelta DeltaAdded r now]
         (s\<lparr>os_records := (os_records s)(nid \<mapsto> r), os_order := os_order s @ [nid]\<rparr>))"
proof -
  have "(newRecord c key prepared now nid)\<lparr>rec_state := PresentationSuppressed, rec_displayed := False,
      rec_producerKey := key\<rparr> = newRecord c key prepared now nid"
    by (simp add: newRecord_def)
  then show ?thesis
    by (simp add: insertRecord_def addedRecord_def publishDelta_emit Let_def)
qed

lemma insertRecord_advances:
  assumes ok: "owner_ok s" and rd: "0 < now" "\<forall>n\<ge>os_reads s. now \<le> os_clock s n"
    and valid: "validateCandidate c now = None" and nid: "nid \<noteq> 0" "\<not> takenIDs s nid"
    and room: "length (os_order s) < MaxActiveNotifications"
    and img: "\<forall>p. prepared = Some p \<longrightarrow> prepared_ok p"
    and key: "key \<noteq> [] \<Longrightarrow> os_producerIDs s key = None"
  shows "advances s (bindKey key nid (insertRecord nid (newRecord c key prepared now nid) now s))"
proof -
  define r where "r = addedRecord (newRecord c key prepared now nid) PresentationSuppressed False key now"
  define t where "t = bindKey key nid (s\<lparr>os_records := (os_records s)(nid \<mapsto> r), os_order := os_order s @ [nid]\<rparr>)"
  have r: "rec_ok (os_clock s) (os_reads s) nid r" "Lifetime_Validate (lifetime r now) = None"
    using addedRecord_ok [OF valid nid(1) _ img rd] by (simp_all add: r_def)
  have fresh: "os_records s nid = None" "nid \<notin> set (os_order s)"
    using nid(2) owner_okD(2) [OF ok] by (auto simp: takenIDs_def)
  have act: "active_ok t"
    using owner_okD(1-4) [OF ok] owner_okD(5) [OF ok] fresh room r nid(1)
    by (auto simp: active_ok_def t_def bindKey_def)
  have P: "os_producerIDs s k = Some i \<longleftrightarrow> k \<noteq> [] \<and> (\<exists>r. os_records s i = Some r \<and> rec_producerKey r = k)" for k i
    using owner_okD(8) [OF ok] by (simp add: producers_ok_def)
  have prod: "producers_ok t"
    unfolding producers_ok_def
  proof (intro allI)
    fix k i
    show "os_producerIDs t k = Some i \<longleftrightarrow> k \<noteq> [] \<and> (\<exists>r'. os_records t i = Some r' \<and> rec_producerKey r' = k)"
      using P [of k i] key fresh by (auto simp: t_def bindKey_def r_def)
  qed
  have "history_ok t"
    using owner_okD(9) [OF ok] nid(2) by (auto simp: history_ok_def t_def bindKey_def takenIDs_def)
  moreover have "lease_ok t"
    using owner_okD(10) [OF ok] by (auto simp: lease_ok_def t_def bindKey_def r_def)
  ultimately have okt: "owner_ok t"
    using act prod owner_okD(6) [OF ok] by (simp add: owner_ok_def t_def bindKey_def)
  have "map (notification_of t) (os_order s) = map (notification_of s) (os_order s)"
    using fresh(2) by (auto simp: notification_of_def t_def bindKey_def)
  moreover have "os_order t = os_order s @ [nid]" "history_of t = history_of s"
    "notification_of t nid = rec_notification r"
    by (simp_all add: t_def bindKey_def history_of_def notification_of_def)
  ultimately have "view_of t = fold apply_delta [notificationDelta DeltaAdded r now] (view_of s)"
    by (simp add: view_of_def apply_delta.simps notificationDelta_def zero_Delta_def)
  then have "advances s (emit [notificationDelta DeltaAdded r now] t)"
    using okt notificationDelta_valid [OF r] by (intro advances_emit) (simp_all add: t_def bindKey_def)
  then show ?thesis
    by (simp add: insertRecord_eq Let_def r_def [symmetric] bindKey_emit t_def [symmetric])
qed

lemma replaceRecord_eq:
  "replaceRecord nid existing (newRecord c key0 prepared now nid) key now s =
   (let r = addedRecord (newRecord c key0 prepared now nid) (rec_state existing) (rec_displayed existing) key now;
        s1 = (if rec_producerKey existing \<noteq> [] \<and> rec_producerKey existing \<noteq> key \<and>
                producerID s (rec_producerKey existing) = nid
              then s\<lparr>os_producerIDs := (os_producerIDs s)(rec_producerKey existing := None)\<rparr> else s)
    in emit [notificationDelta DeltaReplaced r now] (s1\<lparr>os_records := (os_records s)(nid \<mapsto> r)\<rparr>))"
  by (simp add: replaceRecord_def addedRecord_def publishDelta_emit Let_def)

lemma replaceRecord_advances:
  assumes ok: "owner_ok s" and rd: "0 < now" "\<forall>n\<ge>os_reads s. now \<le> os_clock s n"
    and valid: "validateCandidate c now = None" and ex: "os_records s nid = Some existing"
    and img: "\<forall>p. prepared = Some p \<longrightarrow> prepared_ok p"
    and key: "key \<noteq> [] \<Longrightarrow> os_producerIDs s key = Some nid"
  shows "advances s (bindKey key nid (replaceRecord nid existing (newRecord c key prepared now nid) key now s))"
proof -
  define r where "r = addedRecord (newRecord c key prepared now nid) (rec_state existing) (rec_displayed existing) key now"
  define s1 where "s1 = (if rec_producerKey existing \<noteq> [] \<and> rec_producerKey existing \<noteq> key \<and>
      producerID s (rec_producerKey existing) = nid
    then s\<lparr>os_producerIDs := (os_producerIDs s)(rec_producerKey existing := None)\<rparr> else s)"
  define t where "t = bindKey key nid (s1\<lparr>os_records := (os_records s)(nid \<mapsto> r)\<rparr>)"
  have nid: "nid \<noteq> 0" "nid \<in> set (os_order s)" using owner_okD(2,4) [OF ok] ex by (auto simp: dom_def)
  have st: "PresentationState_valid (rec_state existing)" using owner_okD(5) [OF ok ex] by (simp add: rec_ok_def)
  have r: "rec_ok (os_clock s) (os_reads s) nid r" "Lifetime_Validate (lifetime r now) = None"
    using addedRecord_ok [OF valid nid(1) st img rd] by (simp_all add: r_def)
  have P: "os_producerIDs s k = Some i \<longleftrightarrow> k \<noteq> [] \<and> (\<exists>r. os_records s i = Some r \<and> rec_producerKey r = k)" for k i
    using owner_okD(8) [OF ok] by (simp add: producers_ok_def)
  have old: "os_producerIDs s (rec_producerKey existing) = Some nid" if "rec_producerKey existing \<noteq> []"
    using P ex that by blast
  have exkey: "rec_producerKey existing = key" if "key \<noteq> []"
    using P [of key nid] key [OF that] ex by auto
  have t: "os_records t = (os_records s)(nid \<mapsto> r)" "os_order t = os_order s" "os_clock t = os_clock s"
    "os_reads t = os_reads s" "os_history t = os_history s" "os_nextHistorySweep t = os_nextHistorySweep s"
    "os_presenterGeneration t = os_presenterGeneration s" "os_leaseDeadline t = os_leaseDeadline s"
    "os_events t = os_events s" "os_sequence t = os_sequence s"
    by (simp_all add: t_def s1_def bindKey_def)
  have tab: "os_producerIDs t =
      (if key = [] then (os_producerIDs s)(rec_producerKey existing := None) else os_producerIDs s)"
  proof (cases "key = []")
    case True
    have "os_producerIDs s [] = None" using P [of "[]"] by (cases "os_producerIDs s []") auto
    with True old show ?thesis
      by (cases "rec_producerKey existing = []") (auto simp: t_def s1_def bindKey_def producerID_def)
  next
    case False
    with key exkey show ?thesis by (auto simp: t_def s1_def bindKey_def)
  qed
  have prod: "producers_ok t"
    unfolding producers_ok_def
  proof (intro allI)
    fix k i
    show "os_producerIDs t k = Some i \<longleftrightarrow> k \<noteq> [] \<and> (\<exists>r'. os_records t i = Some r' \<and> rec_producerKey r' = k)"
    proof (cases "i = nid")
      case True
      have "os_producerIDs s k = Some nid \<longleftrightarrow> k \<noteq> [] \<and> rec_producerKey existing = k"
        using P [of k nid] ex by simp
      with True exkey show ?thesis by (auto simp: t(1) tab r_def)
    next
      case False
      have "os_producerIDs s k = Some i \<Longrightarrow> k \<noteq> rec_producerKey existing"
        using old P [of k i] False by auto
      with P [of k i] False show ?thesis by (auto simp: t(1) tab)
    qed
  qed
  have "active_ok t"
    using owner_okD(1-4) [OF ok] owner_okD(5) [OF ok] r(1) nid(2) by (auto simp: active_ok_def t)
  moreover have "history_ok t" using owner_okD(9) [OF ok] by (simp add: history_ok_def t)
  moreover have "lease_ok t" using owner_okD(10) [OF ok] ex by (auto simp: lease_ok_def t r_def)
  ultimately have okt: "owner_ok t" using prod owner_okD(6) [OF ok] by (simp add: owner_ok_def t)
  have "notification_of t i = (if n_ID (notification_of s i) = nid then rec_notification r else notification_of s i)"
    if "i \<in> set (os_order s)" for i
    using notification_of_ID [OF ok that] by (simp add: notification_of_def t)
  moreover have "n_ID (rec_notification r) = nid" using r(1) by (simp add: rec_ok_def)
  ultimately have "view_of t = fold apply_delta [notificationDelta DeltaReplaced r now] (view_of s)"
    by (simp add: view_of_def apply_delta.simps notificationDelta_def zero_Delta_def t history_of_def)
  then have "advances s (emit [notificationDelta DeltaReplaced r now] t)"
    using okt notificationDelta_valid [OF r] by (intro advances_emit) (simp_all add: t)
  then show ?thesis
    by (simp add: replaceRecord_eq Let_def r_def [symmetric] s1_def [symmetric] bindKey_emit t_def [symmetric])
qed

subsection \<open>Eviction\<close>

lemma choose_victim_total:
  assumes "set ids \<subseteq> dom m"
  shows "\<exists>v. choose_victim P m ids = Some v \<and> (v = 0 \<or> v \<in> set ids)"
  using assms by (induction ids) (auto split: option.splits)

lemma capacityVictim_in_order:
  assumes ok: "owner_ok s" and ne: "os_order s \<noteq> []"
  shows "\<exists>v. capacityVictim s = Some v \<and> v \<in> set (os_order s)"
proof -
  have sub: "set (os_order s) \<subseteq> dom (os_records s)" using owner_okD(2) [OF ok] by simp
  obtain v1 where v1: "choose_victim (\<lambda>r. n_Urgency (rec_notification r) \<noteq> UrgencyCritical \<and> 0 < rec_duration r)
      (os_records s) (os_order s) = Some v1" "v1 = 0 \<or> v1 \<in> set (os_order s)"
    using choose_victim_total [OF sub] by blast
  obtain v2 where v2: "choose_victim (\<lambda>r. n_Urgency (rec_notification r) \<noteq> UrgencyCritical)
      (os_records s) (os_order s) = Some v2" "v2 = 0 \<or> v2 \<in> set (os_order s)"
    using choose_victim_total [OF sub] by blast
  show ?thesis
    using v1 v2 ne hd_in_set [OF ne] by (cases "v1 = 0"; cases "v2 = 0") (auto simp: capacityVictim_def)
qed

lemma evict_advances:
  assumes ok: "owner_ok s" and full: "length (os_order s) = MaxActiveNotifications"
  shows "\<exists>s'. evictCapacityVictim s = Some s' \<and> advances s s' \<and> length (os_order s') < MaxActiveNotifications \<and>
     (\<forall>k. os_producerIDs s k = None \<longrightarrow> os_producerIDs s' k = None)"
proof -
  have ne: "os_order s \<noteq> []" using full by (auto simp: MaxActiveNotifications_def)
  then obtain v where v: "capacityVictim s = Some v" "v \<in> set (os_order s)" using capacityVictim_in_order [OF ok] by blast
  then obtain r where r: "os_records s v = Some r" using owner_okD(2) [OF ok] by auto
  have "v \<noteq> 0" using v(2) owner_okD(4) [OF ok] by auto
  note c = close_advances [OF ok close_reasons_valid(4) r]
  have "length (remove1 v (os_order s)) < MaxActiveNotifications"
    using v(2) full ne by (simp add: length_remove1 MaxActiveNotifications_def)
  with c v \<open>v \<noteq> 0\<close> show ?thesis
    by (auto simp: evictCapacityVictim_def forget_def)
qed

text \<open>At most 228 IDs are taken, so the search for a new one ends.\<close>

lemma ResolveID_owner:
  assumes ok: "owner_ok s"
  shows "\<exists>nid nxt. ResolveID 0 (os_nextID s) (takenIDs s) = Some (nid, nxt) \<and> nid \<noteq> 0 \<and> \<not> takenIDs s nid"
proof -
  define T where "T = set (os_order s) \<union> (case os_history s of None \<Rightarrow> {} | Some h \<Rightarrow> set (IDs h))"
  have T: "takenIDs s = (\<lambda>nid. nid \<in> T)"
    using owner_okD(2) [OF ok] by (auto simp: takenIDs_def T_def fun_eq_iff split: option.splits)
  have "card (set (os_order s)) \<le> 128"
    using owner_okD(3) [OF ok] card_length [of "os_order s"] by (simp add: MaxActiveNotifications_def)
  moreover have "card (case os_history s of None \<Rightarrow> {} | Some h \<Rightarrow> set (IDs h)) \<le> 100"
  proof (cases "os_history s")
    case (Some h)
    then have "length (IDs h) \<le> 100"
      using owner_okD(9) [OF ok] by (simp add: history_ok_def store_ok_def entries_ok_def IDs_def MaxHistoryEntries_def)
    with card_length [of "IDs h"] Some show ?thesis by simp
  qed simp
  ultimately have "card T < 2 ^ 32 - 1"
    using card_Un_le [of "set (os_order s)" "case os_history s of None \<Rightarrow> {} | Some h \<Rightarrow> set (IDs h)"]
    by (simp add: T_def)
  then obtain f where "f \<noteq> 0" "f \<notin> T" using free_id_exists by blast
  then have "\<not> takenIDs s f" by (simp add: T)
  with ResolveID_total [OF \<open>f \<noteq> 0\<close>, of "takenIDs s" "os_nextID s"] show ?thesis by blast
qed

lemma bindKey_Nil [simp]: "bindKey [] nid s = s"
  by (simp add: bindKey_def)

lemma addWithProducerKey_advances:
  assumes ok: "owner_ok s" and rd: "0 < now" "\<forall>n\<ge>os_reads s. now \<le> os_clock s n"
    and img: "\<forall>p. prepared = Some p \<longrightarrow> prepared_ok p"
    and key: "key \<noteq> [] \<Longrightarrow> cand_ReplacesID c = producerID s key"
  obtains (rejected) e where "addWithProducerKey c key prepared now s = Some (Inl e, s)"
      "validateCandidate c now = Some e"
    | (stored) res s' where "addWithProducerKey c key prepared now s = Some (Inr res, s')"
      "advances s (bindKey key (res_ID res) s')" "res_ID res \<noteq> 0"
      "res_Replaced res \<longleftrightarrow> os_records s (cand_ReplacesID c) \<noteq> None"
      "res_Replaced res \<Longrightarrow> res_ID res = cand_ReplacesID c"
      "validateCandidate c now = None"
proof (cases "validateCandidate c now")
  case (Some e)
  then show thesis by (intro rejected) (simp_all add: addWithProducerKey_def)
next
  case valid: None
  have P: "os_producerIDs s k = Some i \<Longrightarrow> os_records s i \<noteq> None" for k i
    using owner_okD(8) [OF ok] by (auto simp: producers_ok_def)
  have zero: "os_records s 0 = None" using owner_okD(2,4) [OF ok] by (auto simp: dom_def)
  show thesis
  proof (cases "os_records s (cand_ReplacesID c)")
    case (Some existing)
    let ?id = "cand_ReplacesID c"
    have k: "os_producerIDs s key = Some ?id" if "key \<noteq> []"
      using key [OF that] Some zero by (cases "os_producerIDs s key") (auto simp: producerID_def)
    have "?id \<noteq> 0" using Some zero by auto
    then show thesis
      using stored [of "zero_Result\<lparr>res_ID := ?id, res_Replaced := True\<rparr>"] valid Some
        replaceRecord_advances [OF ok rd valid Some img k]
      by (simp add: addWithProducerKey_def Let_def)
  next
    case None
    have k0: "os_producerIDs s key = None" if "key \<noteq> []"
      using key [OF that] None P [of key] by (cases "os_producerIDs s key") (auto simp: producerID_def)
    have full: "card (dom (os_records s)) = length (os_order s)"
      using owner_okD(1,2) [OF ok] by (simp add: distinct_card)
    obtain s1 where s1: "(if card (dom (os_records s)) = MaxActiveNotifications then evictCapacityVictim s else Some s) = Some s1"
      "advances s s1" "length (os_order s1) < MaxActiveNotifications"
      "\<forall>k. os_producerIDs s k = None \<longrightarrow> os_producerIDs s1 k = None"
      using evict_advances [OF ok] advances_refl [OF ok] owner_okD(3) [OF ok] full
      by (cases "length (os_order s) = MaxActiveNotifications") auto
    have ok1: "owner_ok s1" using s1(2) by (rule advances_ok)
    obtain nid nxt where id: "ResolveID 0 (os_nextID s1) (takenIDs s1) = Some (nid, nxt)" "nid \<noteq> 0" "\<not> takenIDs s1 nid"
      using ResolveID_owner [OF ok1] by blast
    define s2 where "s2 = s1\<lparr>os_nextID := nxt\<rparr>"
    have ok2: "owner_ok s2" using ok1 by (simp add: s2_def owner_ok_defs)
    have adv2: "advances s s2"
      using s1(2) advances_quiet [OF ok2, of s1] advances_trans
      by (force simp: s2_def view_of_def notification_of_def history_of_def)
    have "advances s2 (bindKey key nid (insertRecord nid (newRecord c key prepared now nid) now s2))"
    proof (rule insertRecord_advances [OF ok2 rd(1) _ valid id(2) _ _ img])
      show "\<forall>n\<ge>os_reads s2. now \<le> os_clock s2 n" using rd(2) adv2 by (auto simp: advances_def)
      show "\<not> takenIDs s2 nid" using id(3) by (simp add: s2_def takenIDs_def)
      show "length (os_order s2) < MaxActiveNotifications" using s1(3) by (simp add: s2_def)
      show "os_producerIDs s2 key = None" if "key \<noteq> []" using k0 [OF that] s1(4) by (simp add: s2_def)
    qed
    with adv2 have "advances s (bindKey key nid (insertRecord nid (newRecord c key prepared now nid) now s2))"
      by (rule advances_trans)
    moreover have "addWithProducerKey c key prepared now s =
        Some (Inr (zero_Result\<lparr>res_ID := nid\<rparr>), insertRecord nid (newRecord c key prepared now nid) now s2)"
      using valid None s1(1) id(1) by (simp add: addWithProducerKey_def s2_def)
    ultimately show thesis
      using stored [of "zero_Result\<lparr>res_ID := nid\<rparr>"] id(2) None valid by (simp add: zero_Result_def)
  qed
qed

lemma add_advances:
  assumes "owner_ok s" "0 < now" "\<forall>n\<ge>os_reads s. now \<le> os_clock s n"
    and "\<forall>p. prepared = Some p \<longrightarrow> prepared_ok p"
  shows "\<exists>res s'. add c prepared now s = Some (res, s') \<and> advances s s'"
proof -
  define c' where "c' = (if cand_ReplacesID c = 0 then c\<lparr>cand_ReplacesID := burstDuplicate c now s\<rparr> else c)"
  have eq: "add c prepared now s = addWithProducerKey c' [] prepared now s" by (simp add: add_def c'_def)
  show ?thesis
    by (rule addWithProducerKey_advances [OF assms, of "[]" c'])
      (use advances_refl [OF assms(1)] in \<open>auto simp: eq\<close>)
qed

lemma producer_candidate_stale:
  assumes ok: "owner_ok s"
  shows "\<not> (producerID s key \<noteq> 0 \<and> os_records s (producerID s key) = None)"
  using owner_okD(8) [OF ok] by (auto simp: producers_ok_def producerID_def split: option.splits)

text \<open>The stale branch of \<open>publishProducer\<close> is never taken, so a valid request is an add under its key.\<close>

definition producer_candidate :: "ProducerRequest \<Rightarrow> u32 \<Rightarrow> Candidate" where
  "producer_candidate q i = zero_Candidate\<lparr>cand_AppName := pr_AppName q, cand_Summary := pr_Summary q,
     cand_Body := pr_Body q, cand_ReplacesID := i, cand_Urgency := pr_Urgency q,
     cand_ExpireTimeout := pr_ExpireTimeoutMS q, cand_Transient := True, cand_Value := pr_Value q\<rparr>"

lemma producer_candidate_ReplacesID [simp]: "cand_ReplacesID (producer_candidate q i) = i"
  by (simp add: producer_candidate_def)

lemma publishProducer_eq:
  assumes ok: "owner_ok s" and q: "ProducerRequest_Validate q = None"
  shows "publishProducer (Some q) now s = do {
         (res, s2) \<leftarrow> addWithProducerKey (producer_candidate q (producerID s (pr_Key q))) (pr_Key q) None now s;
         Some (case res of Inl e \<Rightarrow> (Inl e, s2) | Inr r \<Rightarrow> (Inr r, bindKey (pr_Key q) (res_ID r) s2)) }"
proof -
  have ne: "pr_Key q \<noteq> []" using q by (auto simp: ProducerRequest_Validate_def validateText_def)
  have gone: "(producerID s (pr_Key q) \<noteq> 0 \<and> os_records s (producerID s (pr_Key q)) = None) = False"
    using producer_candidate_stale [OF ok, of "pr_Key q"] by blast
  have bind: "bindKey (pr_Key q) i t = t\<lparr>os_producerIDs := (os_producerIDs t)(pr_Key q \<mapsto> i)\<rparr>" for i t
    using ne by (simp add: bindKey_def)
  show ?thesis
    unfolding publishProducer_def option.case q Let_def gone if_False bind producer_candidate_def ..
qed

lemma publishProducer_advances:
  assumes ok: "owner_ok s" and rd: "0 < now" "\<forall>n\<ge>os_reads s. now \<le> os_clock s n"
  shows "\<exists>res s'. publishProducer p now s = Some (res, s') \<and> advances s s'"
proof (cases p)
  case None
  then show ?thesis using advances_refl [OF ok] by (simp add: publishProducer_def)
next
  case (Some q)
  show ?thesis
  proof (cases "ProducerRequest_Validate q")
    case (Some e)
    with \<open>p = Some q\<close> show ?thesis using advances_refl [OF ok] by (simp add: publishProducer_def)
  next
    case None
    show ?thesis unfolding \<open>p = Some q\<close> publishProducer_eq [OF ok None]
      by (rule addWithProducerKey_advances [OF ok rd, of None "pr_Key q" "producer_candidate q (producerID s (pr_Key q))"])
        (use advances_refl [OF ok] in auto)
  qed
qed

lemma closeProducer_advances:
  assumes ok: "owner_ok s"
  shows "advances s (snd (closeProducer p s))"
proof -
  have "os_records s (producerID s k) = None \<Longrightarrow> producerID s k = 0" for k
    using producer_candidate_stale [OF ok, of k] by auto
  then show ?thesis
    using advances_refl [OF ok] close_advances_any [OF ok close_reasons_valid(3)]
    by (auto simp: closeProducer_def Let_def split: option.splits prod.splits) (metis snd_conv)+
qed

end
