(* ===== verification/OwnerServe.thy ===== *)
theory OwnerServe
  imports OwnerSteps
begin

text \<open>
  The history commands, actions and replies, presentation renewals, snapshots and the timer: each
  keeps the invariant and publishes what it changes. The theory ends with a whole turn of the owner
  loop and the states that turns can reach.
\<close>

subsection \<open>History commands\<close>

definition clearedDelta :: Delta where
  "clearedDelta = zero_Delta\<lparr>d_Kind := DeltaHistoryCleared\<rparr>"

definition seenDelta :: "u32 list \<Rightarrow> Delta" where
  "seenDelta ids = zero_Delta\<lparr>d_Kind := DeltaHistorySeen, d_IDs := ids\<rparr>"

lemma Entries_IDs: "map h_ID (Entries h) = IDs h"
  by (simp add: Entries_def IDs_def)

lemma owner_history:
  assumes "owner_ok s" "os_history s = Some h"
  shows "store_ok h" "set (IDs h) \<inter> set (os_order s) = {}" "length (IDs h) \<le> MaxHistoryEntries"
    "0 \<notin> set (IDs h)" "history_of s = Entries h"
  using owner_okD(9) [OF assms(1)] assms(2) store_ids_nonzero [of h 0]
  by (auto simp: history_ok_def store_ok_def entries_ok_def IDs_def history_of_def)

text \<open>Replacing the history by one whose entries the deltas account for.\<close>

lemma history_advances:
  assumes ok: "owner_ok s" and h: "os_history s = Some h" and h': "store_ok h'" "set (IDs h') \<subseteq> set (IDs h)"
    and ds: "fold apply_delta ds (view_of s) = (view_of s)\<lparr>v_history := Entries h'\<rparr>"
      "\<forall>d\<in>set ds. Delta_Validate d = None"
  shows "advances s (emit ds (s\<lparr>os_history := Some h'\<rparr>))"
proof (rule advances_emit)
  show "owner_ok (s\<lparr>os_history := Some h'\<rparr>)"
    using owner_history(2) [OF ok h] h'(2) by (intro owner_ok_history [OF ok h h'(1)]) blast
qed (use ds in \<open>simp_all add: view_of_history\<close>)

lemma IDs_hist_remove: "Entries h' = hist_remove ids (Entries h) \<Longrightarrow> set (IDs h') \<subseteq> set (IDs h)"
  by (auto simp: Entries_IDs [symmetric] hist_remove_def)

lemma removed_advances:
  assumes ok: "owner_ok s" and h: "os_history s = Some h" and h': "store_ok h'"
    "Entries h' = hist_remove removed (Entries h)" "set removed \<subseteq> set (IDs h)"
  shows "advances s (publishRemoved removed (s\<lparr>os_history := Some h'\<rparr>))"
  unfolding publishRemoved_emit
  using owner_history(4,5) [OF ok h] h'(2,3)
  by (intro history_advances [OF ok h h'(1) IDs_hist_remove [OF h'(2)]])
    (auto simp: fold_removedDelta intro!: removedDelta_valid)

lemma clearHistory_advances:
  assumes ok: "owner_ok s"
  shows "advances s (snd (clearHistory s))"
proof (cases "os_history s")
  case None
  then show ?thesis using advances_refl [OF ok] by (simp add: clearHistory_def)
next
  case (Some h)
  obtain removed h' where c: "Clear h = (removed, h')" by fastforce
  note spec = Clear_spec [OF c owner_history(1) [OF ok Some]]
  define ds where "ds = (if removed \<noteq> [] then [clearedDelta] else [])"
  have "fold apply_delta ds (view_of s) = (view_of s)\<lparr>v_history := Entries h'\<rparr>"
    using spec owner_history(5) [OF ok Some]
    by (auto simp: ds_def view_of_def clearedDelta_def zero_Delta_def apply_delta.simps Entries_def IDs_def)
  moreover have "\<forall>d\<in>set ds. Delta_Validate d = None"
    by (simp add: ds_def clearedDelta_def zero_Delta_def Delta_Validate_def)
  ultimately have "advances s (emit ds (s\<lparr>os_history := Some h'\<rparr>))"
    using spec by (intro history_advances [OF ok Some]) (simp_all add: Entries_IDs [symmetric])
  with Some c show ?thesis
    by (auto simp: clearHistory_def publishDelta_emit ds_def clearedDelta_def split: if_splits)
qed

lemma removeHistory_advances:
  assumes ok: "owner_ok s"
  shows "advances s (snd (removeHistory ids s))"
proof (cases "os_history s")
  case None
  then show ?thesis using advances_refl [OF ok] by (simp add: removeHistory_def)
next
  case (Some h)
  obtain removed h' where c: "Remove ids h = (removed, h')" by fastforce
  note spec = Remove_spec [OF c owner_history(1) [OF ok Some]]
  have "advances s (publishRemoved removed (s\<lparr>os_history := Some h'\<rparr>))"
    using spec(4) by (intro removed_advances [OF ok Some spec(1,2)]) simp
  with Some c show ?thesis by (simp add: removeHistory_def)
qed

lemma seenDelta_valid:
  assumes "ids \<noteq> []" "distinct ids" "set ids \<subseteq> set xs" "length xs \<le> MaxHistoryEntries" "0 \<notin> set xs"
  shows "Delta_Validate (seenDelta ids) = None"
proof -
  have "card (set ids) \<le> card (set xs)" using assms(3) by (simp add: card_mono)
  also have "\<dots> \<le> length xs" by (rule card_length)
  finally have "length ids \<le> MaxHistoryEntries" using assms(2,4) by (simp add: distinct_card)
  then show ?thesis
    using assms by (auto simp: Delta_Validate_def seenDelta_def zero_Delta_def validateIDs_def)
qed

lemma markHistorySeen_advances:
  assumes ok: "owner_ok s"
  shows "advances s (snd (markHistorySeen ids s))"
proof (cases "os_history s")
  case None
  then show ?thesis using advances_refl [OF ok] by (simp add: markHistorySeen_def)
next
  case (Some h)
  obtain res h' where c: "MarkSeen ids h = (res, h')" by fastforce
  show ?thesis using owner_history(1) [OF ok Some] c
  proof (cases rule: MarkSeen_spec)
    case (1 changed)
    define ds where "ds = (if changed \<noteq> [] then [seenDelta changed] else [])"
    have ids: "IDs h' = IDs h"
      unfolding Entries_IDs [symmetric] 1(4) by (simp add: hist_seen_def comp_def if_distrib [of h_ID] cong: if_cong)
    have "fold apply_delta ds (view_of s) = (view_of s)\<lparr>v_history := Entries h'\<rparr>"
      using 1 owner_history(5) [OF ok Some]
      by (auto simp: ds_def view_of_def seenDelta_def zero_Delta_def apply_delta.simps)
    moreover have "\<forall>d\<in>set ds. Delta_Validate d = None"
      using 1(6,7) owner_history(3,4) [OF ok Some] by (auto simp: ds_def intro: seenDelta_valid)
    ultimately have "advances s (emit ds (s\<lparr>os_history := Some h'\<rparr>))"
      using 1(2) ids by (intro history_advances [OF ok Some]) simp_all
    with Some c 1(1) show ?thesis
      by (auto simp: markHistorySeen_def publishDelta_emit ds_def seenDelta_def split: if_splits)
  qed
qed

subsection \<open>Actions, replies and dismissing all\<close>

lemma owner_ok_events [simp]: "owner_ok (s\<lparr>os_events := evs\<rparr>) = owner_ok s"
  by (simp add: owner_ok_defs)

lemma view_of_events [simp]: "view_of (s\<lparr>os_events := evs\<rparr>) = view_of s"
  by (simp add: view_of_def notification_of_def history_of_def)

lemma publish_fields [simp]:
  "os_records (snd (publish ev s)) = os_records s" "os_order (snd (publish ev s)) = os_order s"
  "os_leaseDeadline (snd (publish ev s)) = os_leaseDeadline s"
  by (simp_all add: publish_def)

lemma publish_advances:
  assumes "owner_ok s" "ev_Delta ev = None"
    "\<And>sn. ev_Snapshot ev = Some sn \<Longrightarrow> ev_Sequence ev = os_sequence s \<and> snap_Sequence sn = os_sequence s \<and>
       Snapshot_Validate sn = None \<and> snapshot_view sn = view_of s"
  shows "advances s (snd (publish ev s))"
  using assms by (auto simp: advances_def tracks_def publish_def intro!: exI [of _ "[ev]"])

lemma invokeAction_advances:
  assumes ok: "owner_ok s"
  shows "advances s (snd (invokeAction nid key s))"
proof -
  let ?s1 = "snd (publish (zero_Event\<lparr>ev_Action := Some \<lparr>ae_ID = nid, ae_Key = key\<rparr>\<rparr>) s)"
  have adv: "advances s ?s1" using ok by (intro publish_advances) (simp_all add: zero_Event_def)
  show ?thesis
    using advances_refl [OF ok] adv
      advances_trans [OF adv close_advances_any [OF advances_ok [OF adv] close_reasons_valid(2)]]
    by (auto simp: invokeAction_def Let_def split: option.splits)
qed

lemma submitReply_advances:
  assumes ok: "owner_ok s"
  shows "advances s (snd (submitReply nid reply s))"
proof -
  let ?s1 = "snd (publish (zero_Event\<lparr>ev_Reply := Some \<lparr>re_ID = nid, re_Text = reply\<rparr>\<rparr>) s)"
  have adv: "advances s ?s1" using ok by (intro publish_advances) (simp_all add: zero_Event_def)
  show ?thesis
    using advances_refl [OF ok] adv
      advances_trans [OF adv close_advances_any [OF advances_ok [OF adv] close_reasons_valid(2)]]
    by (auto simp: submitReply_def Let_def split: option.splits)
qed

lemma dismissLoop_advances:
  assumes "owner_ok s"
  shows "advances s (snd (dismissLoop ids e s))"
  using assms
proof (induction ids arbitrary: e s)
  case Nil
  then show ?case by (simp add: advances_refl)
next
  case (Cons nid ids)
  have adv: "advances s (snd (close nid CloseDismissed s))"
    using Cons.prems by (simp add: close_advances_any)
  from advances_trans [OF adv Cons.IH [OF advances_ok [OF adv]]] show ?case
    by (simp add: case_prod_beta Let_def)
qed

text \<open>Dismissing the IDs of the active notifications closes all of them, without an error.\<close>

lemma dismissLoop_all:
  assumes "owner_ok s" "os_order s = ids"
  shows "fst (dismissLoop ids None s) = None \<and> os_order (snd (dismissLoop ids None s)) = []"
  using assms
proof (induction ids arbitrary: s)
  case Nil
  then show ?case by simp
next
  case (Cons nid ids)
  then obtain r where r: "os_records s nid = Some r" using owner_okD(2) [of s] by fastforce
  note c = close_advances [OF Cons.prems(1) close_reasons_valid(2) r]
  have "os_order (snd (close nid CloseDismissed s)) = ids" using c(4) Cons.prems(2) by simp
  from Cons.IH [OF advances_ok [OF c(2)] this] show ?case
    using c(1) by (simp add: case_prod_beta Let_def)
qed

subsection \<open>Presentation\<close>

text \<open>
  Setting the presentation of every record at time \<open>t\<close>: either \<open>t\<close> is the reading at hand, or every
  record is suppressed.
\<close>

definition presented :: "(u32 \<Rightarrow> PresentationState) \<Rightarrow> time \<Rightarrow> ownerState \<Rightarrow> u32 \<rightharpoonup> notifRecord" where
  "presented f t s nid = map_option (setPresentation (f nid) t) (os_records s nid)"

lemma setAll_presented:
  assumes "owner_ok s"
  shows "setAll f t (os_order s) (os_records s) = Some (presented f t s)"
proof -
  have "os_records s nid = None" if "nid \<notin> set (os_order s)" for nid
    using owner_okD(2) [OF assms] that by auto
  then show ?thesis
    using setAll_eq [of "os_order s" "os_records s" f t] owner_okD(1,2) [OF assms]
    by (auto simp: presented_def fun_eq_iff)
qed

lemma presented_ok:
  assumes ok: "owner_ok s" and valid: "\<And>i. PresentationState_valid (f i)"
    and at: "0 < t" "\<forall>n\<ge>os_reads s. t \<le> os_clock s n"
    and real: "(\<forall>i. f i = PresentationSuppressed) \<or> reading s t"
    and lease: "0 \<le> l" "(g = 0) = (l = 0)" "l = 0 \<Longrightarrow> \<forall>i. f i = PresentationSuppressed"
  shows "owner_ok (s\<lparr>os_records := presented f t s, os_presenterGeneration := g, os_leaseDeadline := l\<rparr>)"
    (is "owner_ok ?t")
proof -
  have "dom (presented f t s) = dom (os_records s)" by (auto simp: presented_def)
  moreover have "rec_ok (os_clock s) (os_reads s) nid (setPresentation (f nid) t r)"
    if "os_records s nid = Some r" for nid r
    using owner_okD(5) [OF ok that] valid at real that
    by (intro setPresentation_ok) (auto simp: reading_def)
  ultimately have "active_ok ?t"
    using owner_okD(7) [OF ok] by (auto simp: active_ok_def presented_def)
  moreover have "producers_ok ?t"
    using owner_okD(8) [OF ok] by (fastforce simp: producers_ok_def presented_def)
  ultimately show ?thesis
    using ok lease by (auto simp: owner_ok_def history_ok_def lease_ok_def presented_def)
qed

lemma presented_view:
  assumes "owner_ok s"
  shows "view_of (s\<lparr>os_records := presented f t s, os_presenterGeneration := g, os_leaseDeadline := l\<rparr>) = view_of s"
proof -
  have "the (presented f t s i) = setPresentation (f i) t (the (os_records s i))" if i: "i \<in> set (os_order s)" for i
  proof -
    obtain r where "os_records s i = Some r" using owner_okD(2) [OF assms] i by auto
    then show ?thesis by (simp add: presented_def)
  qed
  then show ?thesis by (auto simp: view_of_def notification_of_def history_of_def)
qed

lemma presented_advances:
  assumes "owner_ok s" "\<And>i. PresentationState_valid (f i)" "0 < t" "\<forall>n\<ge>os_reads s. t \<le> os_clock s n"
    "(\<forall>i. f i = PresentationSuppressed) \<or> reading s t"
    "0 \<le> l" "(g = 0) = (l = 0)" "l = 0 \<Longrightarrow> \<forall>i. f i = PresentationSuppressed"
  shows "advances s (s\<lparr>os_records := presented f t s, os_presenterGeneration := g, os_leaseDeadline := l\<rparr>)"
  by (rule advances_quiet) (simp_all add: presented_ok [OF assms] presented_view assms)

lemma owner_ok_generation [simp]:
  "owner_ok (s\<lparr>os_acceptedGeneration := g\<rparr>) = owner_ok s"
  "owner_ok (s\<lparr>os_presenterRetired := b\<rparr>) = owner_ok s"
  by (simp_all add: owner_ok_defs)

lemma view_of_generation [simp]:
  "view_of (s\<lparr>os_acceptedGeneration := g\<rparr>) = view_of s"
  "view_of (s\<lparr>os_presenterRetired := b\<rparr>) = view_of s"
  by (simp_all add: view_of_def notification_of_def history_of_def)

definition cleared :: "time \<Rightarrow> ownerState \<Rightarrow> ownerState" where
  "cleared t s = s\<lparr>os_records := presented (\<lambda>_. PresentationSuppressed) t s,
     os_presenterGeneration := 0, os_leaseDeadline := 0\<rparr>"

lemma clearPresentation_eq: "owner_ok s \<Longrightarrow> clearPresentation t s = Some (cleared t s)"
  by (simp add: clearPresentation_def setAll_presented cleared_def)

lemma cleared_advances:
  assumes "owner_ok s" "0 < t" "\<forall>n\<ge>os_reads s. t \<le> os_clock s n"
  shows "advances s (cleared t s)"
  unfolding cleared_def using assms by (intro presented_advances) simp_all

lemma setPresentation_deadline:
  assumes "rec_ok clk k nid r" "rec_hasDeadline r \<Longrightarrow> rec_deadline r \<le> t + rec_duration r"
    "rec_hasDeadline (setPresentation p t r)"
  shows "rec_deadline (setPresentation p t r) \<le> t + rec_duration r"
proof -
  have "max 0 (time_Sub (rec_deadline r) t) \<le> rec_duration r" if "rec_hasDeadline r"
    using assms(1) assms(2) [OF that] by (intro max0_time_Sub_le) (simp_all add: rec_ok_def)
  then show ?thesis
    using assms by (cases p) (auto simp: setPresentation_def Let_def time_Add_def rec_ok_def split: if_splits)
qed

lemma cleared_reading:
  assumes ok: "owner_ok s" and rd: "reading s now"
  shows "reading (cleared now s) now"
proof -
  have "rec_deadline (setPresentation PresentationSuppressed now r) \<le> now + rec_duration r"
    if "os_records s nid = Some r" "rec_hasDeadline (setPresentation PresentationSuppressed now r)" for nid r
    using setPresentation_deadline [OF owner_okD(5) [OF ok that(1)] _ that(2)] rd that(1)
    by (auto simp: reading_def)
  then show ?thesis using rd by (auto simp: reading_def cleared_def presented_def)
qed

lemma reportedState_valid:
  assumes "Command_Validate (zero_Command\<lparr>c_Kind := CommandPresentationRenew, c_Presentations := ps\<rparr>) = None"
  shows "PresentationState_valid (reportedState ps nid)"
proof (cases "map_of (rev (map (\<lambda>p. (p_ID p, p_State p)) ps)) nid")
  case None
  then show ?thesis by (simp add: reportedState_def)
next
  case (Some st)
  then have "(nid, st) \<in> set (rev (map (\<lambda>p. (p_ID p, p_State p)) ps))" by (rule map_of_SomeD)
  with assms Some show ?thesis by (auto simp: Command_Validate_def reportedState_def)
qed

text \<open>The state a renewal that is accepted leads to.\<close>

definition renewed :: "u64 \<Rightarrow> Presentation list \<Rightarrow> time \<Rightarrow> ownerState \<Rightarrow> ownerState" where
  "renewed generation ps now s =
     (let s1 = (if os_presenterGeneration s \<noteq> 0 \<and> generation \<noteq> os_presenterGeneration s then cleared now s else s)
      in s1\<lparr>os_records := presented (reportedState ps) now s1, os_presenterGeneration := generation,
            os_leaseDeadline := time_Add now PresentationLease, os_acceptedGeneration := generation,
            os_presenterRetired := False\<rparr>)"

lemma reading_le:
  assumes "reading s now"
  shows "0 < now" "\<forall>n\<ge>os_reads s. now \<le> os_clock s n"
  using assms by (simp_all add: reading_def)

lemma renewed_advances:
  assumes ok: "owner_ok s" and rd: "reading s now" and g: "generation \<noteq> 0"
    and valid: "Command_Validate (zero_Command\<lparr>c_Kind := CommandPresentationRenew, c_Presentations := ps\<rparr>) = None"
  shows "advances s (renewed generation ps now s)"
proof -
  define s1 where "s1 = (if os_presenterGeneration s \<noteq> 0 \<and> generation \<noteq> os_presenterGeneration s then cleared now s else s)"
  have adv: "advances s s1" and rd1: "reading s1 now"
    using cleared_advances [OF ok reading_le [OF rd]] cleared_reading [OF ok rd] advances_refl [OF ok] rd by (auto simp: s1_def)
  have ok1: "owner_ok s1" using adv by (rule advances_ok)
  define s2 where "s2 = s1\<lparr>os_records := presented (reportedState ps) now s1,
      os_presenterGeneration := generation, os_leaseDeadline := time_Add now PresentationLease\<rparr>"
  have "0 < time_Add now PresentationLease"
    using rd by (simp add: reading_def time_Add_def PresentationLease_def Second_def)
  then have "advances s1 s2"
    unfolding s2_def using rd1 reading_le [OF rd1] reportedState_valid [OF valid] g
    by (intro presented_advances ok1) simp_all
  moreover have "advances s2 (s2\<lparr>os_acceptedGeneration := generation, os_presenterRetired := False\<rparr>)"
    using advances_ok [OF \<open>advances s1 s2\<close>] by (intro advances_quiet) simp_all
  moreover have "renewed generation ps now s = s2\<lparr>os_acceptedGeneration := generation, os_presenterRetired := False\<rparr>"
    unfolding renewed_def Let_def s1_def [symmetric] by (simp add: s2_def)
  ultimately show ?thesis using advances_trans [OF adv] advances_trans by metis
qed

lemma renewed_reading:
  assumes ok: "owner_ok s" and rd: "reading s now"
  shows "reading (renewed generation ps now s) now"
proof -
  define s1 where "s1 = (if os_presenterGeneration s \<noteq> 0 \<and> generation \<noteq> os_presenterGeneration s then cleared now s else s)"
  have rd1: "reading s1 now" and ok1: "owner_ok s1"
    using cleared_reading [OF ok rd] rd advances_ok [OF cleared_advances [OF ok reading_le [OF rd]]] ok
    by (auto simp: s1_def)
  have "rec_deadline (setPresentation (reportedState ps nid) now r) \<le> now + rec_duration r"
    if "os_records s1 nid = Some r" "rec_hasDeadline (setPresentation (reportedState ps nid) now r)" for nid r
    using setPresentation_deadline [OF owner_okD(5) [OF ok1 that(1)] _ that(2)] rd1 that(1)
    by (auto simp: reading_def)
  then show ?thesis
    using rd1 unfolding renewed_def Let_def s1_def [symmetric] by (auto simp: reading_def presented_def)
qed

lemma renew_cases:
  assumes ok: "owner_ok s" and rd: "reading s now"
  obtains (refused) e where "renew generation ps now s = Some (Some e, s)"
    | (accepted) "renew generation ps now s = Some (None, renewed generation ps now s)"
      "advances s (renewed generation ps now s)"
proof -
  let ?v = "Command_Validate (zero_Command\<lparr>c_Kind := CommandPresentationRenew, c_Presentations := ps\<rparr>)"
  define s1 where "s1 = (if os_presenterGeneration s \<noteq> 0 \<and> generation \<noteq> os_presenterGeneration s then cleared now s else s)"
  have ok1: "owner_ok s1"
    using advances_ok [OF cleared_advances [OF ok reading_le [OF rd]]] ok by (simp add: s1_def)
  have s1: "(if os_presenterGeneration s \<noteq> 0 \<and> generation \<noteq> os_presenterGeneration s
      then clearPresentation now s else Some s) = Some s1"
    by (simp add: s1_def clearPresentation_eq [OF ok])
  consider (zero) "generation = 0" | (invalid) e where "generation \<noteq> 0" "?v = Some e"
    | (stale) "generation \<noteq> 0" "?v = None" "os_acceptedGeneration s \<noteq> 0 \<and> generation < os_acceptedGeneration s \<or>
         os_presenterRetired s \<and> generation = os_acceptedGeneration s"
    | (fresh) "generation \<noteq> 0" "?v = None" "\<not> (os_acceptedGeneration s \<noteq> 0 \<and> generation < os_acceptedGeneration s)"
        "\<not> (os_presenterRetired s \<and> generation = os_acceptedGeneration s)"
    by blast
  then show thesis
  proof cases
    case fresh
    then have "renew generation ps now s = Some (None, renewed generation ps now s)"
      unfolding renew_def s1 using setAll_presented [OF ok1]
      by (simp add: renewed_def Let_def s1_def [symmetric])
    with fresh renewed_advances [OF ok rd] show thesis by (intro accepted) simp_all
  next
    case stale
    then have "renew generation ps now s = Some (Some ErrStale, s)" by (auto simp: renew_def)
    then show thesis by (rule refused)
  qed (use refused in \<open>simp_all add: renew_def\<close>)
qed

end
