(* ===== verification/OwnerLoop.thy ===== *)
theory OwnerLoop
  imports OwnerServe
begin

text \<open>
  Snapshots, the command dispatcher, the timer, and a whole turn of the owner loop: no turn panics or
  hangs, each keeps the invariant and accounts for its changes. The reachable states are an inductive
  set, over which the properties of the owner are stated.
\<close>

subsection \<open>Snapshots\<close>

lemma ordered_records_eq:
  assumes "owner_ok s"
  shows "ordered_records s = Some (map (\<lambda>i. the (os_records s i)) (os_order s))"
  unfolding ordered_records_def
proof (rule those_map_Some)
  fix i assume "i \<in> set (os_order s)"
  then have "i \<in> dom (os_records s)" using owner_okD(2) [OF assms] by simp
  then show "os_records s i = Some (the (os_records s i))" by auto
qed

lemma ordered_record_ok:
  assumes "owner_ok s" "i \<in> set (os_order s)"
  shows "rec_ok (os_clock s) (os_reads s) i (the (os_records s i))" "os_records s i = Some (the (os_records s i))"
proof -
  have "i \<in> dom (os_records s)" using owner_okD(2) [OF assms(1)] assms(2) by simp
  then show "os_records s i = Some (the (os_records s i))" by auto
  with owner_okD(5) [OF assms(1)] show "rec_ok (os_clock s) (os_reads s) i (the (os_records s i))" by blast
qed

lemma validate_lifetimes_ok:
  assumes "\<forall>l\<in>set ls. Lifetime_Validate l = None" "map l_ID ls = active" "distinct active"
  shows "validate_lifetimes active ls = None"
  using assms
proof (induction ls arbitrary: active)
  case Nil
  then show ?case by simp
next
  case (Cons l ls)
  then have "removeAll (l_ID l) active = map l_ID ls" by auto
  with Cons show ?case by auto
qed

definition lifetimes_of :: "time \<Rightarrow> ownerState \<Rightarrow> Lifetime list" where
  "lifetimes_of now s = map (\<lambda>i. lifetime (the (os_records s i)) now) (os_order s)"

lemma lifetimes_eq: "owner_ok s \<Longrightarrow> lifetimes now s = Some (lifetimes_of now s)"
  by (simp add: lifetimes_def ordered_records_eq lifetimes_of_def)

lemma lifetimes_of_valid:
  assumes ok: "owner_ok s" and rd: "reading s now"
  shows "\<forall>l\<in>set (lifetimes_of now s). Lifetime_Validate l = None"
    "map l_ID (lifetimes_of now s) = os_order s"
proof -
  have "Lifetime_Validate (lifetime (the (os_records s i)) now) = None" if "i \<in> set (os_order s)" for i
  proof (rule lifetime_valid [OF ordered_record_ok(1) [OF ok that]])
    show "i \<noteq> 0" using owner_okD(4) [OF ok] that by auto
    show "rec_deadline (the (os_records s i)) \<le> now + rec_duration (the (os_records s i))"
      if "rec_hasDeadline (the (os_records s i))"
      using rd ordered_record_ok(2) [OF ok \<open>i \<in> set (os_order s)\<close>] that by (auto simp: reading_def)
  qed
  then show "\<forall>l\<in>set (lifetimes_of now s). Lifetime_Validate l = None" by (auto simp: lifetimes_of_def)
  show "map l_ID (lifetimes_of now s) = os_order s"
    using ordered_record_ok(1) [OF ok] by (auto simp: lifetimes_of_def rec_ok_def intro!: map_idI)
qed

lemma snapshot_valid:
  assumes ok: "owner_ok s"
  obtains sn where "snapshot s = Some (sn, s\<lparr>os_reads := Suc (os_reads s)\<rparr>)"
    "Snapshot_Validate sn = None" "snap_Sequence sn = os_sequence s"
    "\<lparr>v_active = snap_Active sn, v_history = snap_History sn\<rparr> = view_of s"
proof -
  define s1 where "s1 = s\<lparr>os_reads := Suc (os_reads s)\<rparr>"
  define now where "now = os_clock s (os_reads s)"
  have ok1: "owner_ok s1" and rd: "reading s1 now"
    using owner_ok_read [OF ok] reading_now [OF ok] by (simp_all add: s1_def now_def)
  define sn where "sn = \<lparr>snap_Sequence = os_sequence s, snap_Active = map (notification_of s) (os_order s),
    snap_Lifetimes = lifetimes_of now s1, snap_History = history_of s\<rparr>"
  have "snapshot s = Some (sn, s1)"
    using lifetimes_eq [OF ok1] ordered_records_eq [OF ok1]
    by (simp add: snapshot_def clock_Now_def s1_def [symmetric] now_def [symmetric])
      (simp add: sn_def s1_def history_of_def notification_of_def comp_def)
  moreover have "Snapshot_Validate sn = None"
  proof -
    have ids: "map n_ID (snap_Active sn) = os_order s"
      using notification_of_ID [OF ok] by (simp add: sn_def map_idI)
    have "Notification_Validate n = None" if "n \<in> set (snap_Active sn)" for n
      using that ordered_record_ok(1) [OF ok] by (auto simp: sn_def notification_of_def rec_ok_def)
    moreover have "validate_lifetimes (map n_ID (snap_Active sn)) (snap_Lifetimes sn) = None"
      unfolding ids using lifetimes_of_valid [OF ok1 rd] owner_okD(1) [OF ok]
      by (intro validate_lifetimes_ok) (simp_all add: sn_def s1_def)
    moreover have "length (snap_History sn) \<le> MaxHistoryEntries \<and> distinct (map h_ID (snap_History sn)) \<and>
        (\<forall>e\<in>set (snap_History sn). HistoryEntry_Validate e = None)"
    proof (cases "os_history s")
      case (Some h)
      with owner_history(1) [OF ok Some] show ?thesis
        by (auto simp: sn_def history_of_def store_ok_def entries_ok_def Entries_def comp_def retained_ok_def)
    qed (simp add: sn_def history_of_def)
    ultimately show ?thesis
      using owner_okD(1,3) [OF ok] ids
      by (auto simp: Snapshot_Validate_def sn_def lifetimes_of_def s1_def)
  qed
  ultimately show thesis using that [of sn] by (simp add: s1_def sn_def view_of_def)
qed

lemma presenterResync_advances:
  assumes ok: "owner_ok s"
  shows "\<exists>res s'. presenterResync c s = Some (res, s') \<and> advances s s'"
proof -
  obtain sn where sn: "snapshot s = Some (sn, s\<lparr>os_reads := Suc (os_reads s)\<rparr>)"
    "Snapshot_Validate sn = None" "snap_Sequence sn = os_sequence s" "snapshot_view sn = view_of s" using snapshot_valid [OF ok] .
  let ?ev = "zero_Event\<lparr>ev_Generation := sc_Generation c, ev_Sequence := snap_Sequence sn, ev_Snapshot := Some sn\<rparr>"
  let ?s1 = "s\<lparr>os_reads := Suc (os_reads s)\<rparr>"
  have "advances ?s1 (snd (publish ?ev ?s1))"
    using owner_ok_read [OF ok] sn(2-4) by (intro publish_advances) (simp_all add: zero_Event_def)
  from advances_trans [OF advances_read [OF ok] this] sn(1) show ?thesis
    by (simp add: presenterResync_def case_prod_beta)
qed

subsection \<open>Commands\<close>

text \<open>What the caller of the owner promises: a prepared image comes from \<open>PrepareImage\<close>.\<close>

definition command_ok :: "StateCommand \<Rightarrow> bool" where
  "command_ok c \<longleftrightarrow> (case sc_PreparedHistoryImage c of None \<Rightarrow> True | Some p \<Rightarrow> prepared_ok p)"

lemma presenterLost_advances:
  assumes ok: "owner_ok s" and rd: "reading s now"
  shows "\<exists>s'. presenterLost c now s = Some s' \<and> advances s s'"
proof -
  define s1 where "s1 = (if sc_Generation c \<noteq> 0 \<and> sc_Generation c = os_presenterGeneration s then cleared now s else s)"
  have adv: "advances s s1"
    using cleared_advances [OF ok reading_le [OF rd]] advances_refl [OF ok] by (simp add: s1_def)
  define s2 where "s2 = (if os_acceptedGeneration s1 < sc_NextGeneration c
      then s1\<lparr>os_acceptedGeneration := sc_NextGeneration c, os_presenterRetired := False\<rparr>
      else if sc_Generation c \<noteq> 0 \<and> sc_Generation c = os_acceptedGeneration s1 \<and> sc_NextGeneration c = 0
      then s1\<lparr>os_presenterRetired := True\<rparr> else s1)"
  have "advances s1 s2"
    using advances_ok [OF adv] unfolding s2_def by (intro advances_quiet) simp_all
  with adv have "advances s s2" by (rule advances_trans)
  moreover have "(if sc_Generation c \<noteq> 0 \<and> sc_Generation c = os_presenterGeneration s
      then clearPresentation now s else Some s) = Some s1"
    by (simp add: s1_def clearPresentation_eq [OF ok])
  then have "presenterLost c now s = Some s2"
    unfolding presenterLost_def s2_def by (simp only: Option.bind.simps)
  ultimately show ?thesis by blast
qed

lemma renewCommand_advances:
  assumes ok: "owner_ok s" and rd: "reading s now"
  shows "\<exists>res s'. renewCommand c now s = Some (res, s') \<and> advances s s'"
  using ok rd
proof (cases rule: renew_cases [where generation = "sc_Generation c" and ps = "sc_Presentations c"])
  case (refused e)
  then show ?thesis using advances_refl [OF ok] by (simp add: renewCommand_def)
next
  case accepted
  then show ?thesis using lifetimes_eq [OF advances_ok [OF accepted(2)]] by (simp add: renewCommand_def)
qed

lemma dispatch_advances:
  assumes ok: "owner_ok s" and rd: "reading s now" and c: "command_ok c"
  shows "\<exists>res s'. dispatch c now s = Some (res, s') \<and> advances s s'"
proof -
  have img: "\<forall>p. sc_PreparedHistoryImage c = Some p \<longrightarrow> prepared_ok p" using c by (auto simp: command_ok_def)
  note direct = close_advances_any [OF ok] invokeAction_advances [OF ok] submitReply_advances [OF ok]
    dismissLoop_advances [OF ok] clearHistory_advances [OF ok] removeHistory_advances [OF ok]
    markHistorySeen_advances [OF ok] closeProducer_advances [OF ok] advances_refl [OF ok]
  show ?thesis
  proof (cases "sc_Kind c")
    case KAdd
    then show ?thesis using add_advances [OF ok reading_le [OF rd] img] by (simp add: dispatch_def)
  next
    case KProducerPublish
    then show ?thesis using publishProducer_advances [OF ok reading_le [OF rd]] by (simp add: dispatch_def)
  next
    case KPresentationRenew
    then show ?thesis using renewCommand_advances [OF ok rd] by (simp add: dispatch_def)
  next
    case KPresenterLost
    then show ?thesis using presenterLost_advances [OF ok rd, of c] by (auto simp: dispatch_def)
  next
    case KPresenterResync
    then show ?thesis using presenterResync_advances [OF ok] by (simp add: dispatch_def)
  next
    case KProducerClose
    then show ?thesis using direct(8) [of "sc_Producer c"]
      by (intro exI [of _ "fst (closeProducer (sc_Producer c) s)"] exI [of _ "snd (closeProducer (sc_Producer c) s)"])
        (simp add: dispatch_def)
  qed (use direct in \<open>simp_all add: dispatch_def result_of_def\<close>)
qed

lemma do_command_advances:
  assumes ok: "owner_ok s" and c: "command_ok c"
  shows "\<exists>res s'. do_command c s = Some (res, s') \<and> advances s s'"
proof (cases "gatePresenter c s")
  case (Some e)
  then show ?thesis using advances_refl [OF ok] by (simp add: do_command_def)
next
  case None
  obtain res s' where "dispatch c (os_clock s (os_reads s)) (s\<lparr>os_reads := Suc (os_reads s)\<rparr>) = Some (res, s')"
    "advances (s\<lparr>os_reads := Suc (os_reads s)\<rparr>) s'"
    using dispatch_advances [OF owner_ok_read [OF ok] reading_now [OF ok] c] by blast
  with None advances_trans [OF advances_read [OF ok]] show ?thesis
    by (auto simp: do_command_def clock_Now_def)
qed

subsection \<open>The timer\<close>

lemma sweepHistory_advances:
  assumes ok: "owner_ok s"
  shows "\<exists>s'. sweepHistory now s = Some s' \<and> advances s s' \<and> os_reads s' = os_reads s \<and>
     os_records s' = os_records s \<and> os_order s' = os_order s \<and> os_leaseDeadline s' = os_leaseDeadline s"
proof (cases "\<not> time_IsZero (os_nextHistorySweep s) \<and> \<not> time_After (os_nextHistorySweep s) now")
  case False
  then show ?thesis unfolding sweepHistory_def using advances_refl [OF ok] by auto
next
  case True
  then obtain h where h: "os_history s = Some h"
    using owner_okD(9) [OF ok] by (cases "os_history s") (auto simp: history_ok_def time_IsZero_def)
  obtain removed h' where sw: "Sweep now h = (removed, h')" by fastforce
  note spec = Sweep_spec [OF sw owner_history(1) [OF ok h]]
  define t where "t = publishRemoved removed (s\<lparr>os_history := Some h'\<rparr>)"
  have adv: "advances s t"
    unfolding t_def using spec(3) by (intro removed_advances [OF ok h spec(1,2)]) (auto simp: IDs_def)
  have "os_history t = Some h'" by (simp add: t_def publishRemoved_emit)
  then have "owner_ok (t\<lparr>os_nextHistorySweep := u\<rparr>)" for u
    using advances_ok [OF adv] by (simp add: owner_ok_defs)
  then have "advances t (t\<lparr>os_nextHistorySweep := time_Add now HistorySweep\<rparr>)"
    by (intro advances_quiet) (simp_all add: view_of_def notification_of_def history_of_def)
  with adv have "advances s (t\<lparr>os_nextHistorySweep := time_Add now HistorySweep\<rparr>)" by (rule advances_trans)
  moreover have "os_records t = os_records s" "os_order t = os_order s" "os_leaseDeadline t = os_leaseDeadline s"
    "os_reads t = os_reads s"
    by (simp_all add: t_def publishRemoved_emit)
  ultimately show ?thesis using True h sw by (simp add: sweepHistory_def t_def)
qed

text \<open>An expired lease is cleared at its own deadline, which is not ahead of the clock.\<close>

lemma expireLease_advances:
  assumes ok: "owner_ok s" and rd: "\<forall>n\<ge>os_reads s. now \<le> os_clock s n"
  shows "\<exists>s'. expireLease now s = Some s' \<and> advances s s'"
proof (cases "\<not> time_IsZero (os_leaseDeadline s) \<and> \<not> time_After (os_leaseDeadline s) now")
  case False
  then show ?thesis unfolding expireLease_def using advances_refl [OF ok] by auto
next
  case True
  have "0 < os_leaseDeadline s"
    using True owner_okD(10) [OF ok] by (simp add: lease_ok_def time_IsZero_def)
  moreover have "\<forall>n\<ge>os_reads s. os_leaseDeadline s \<le> os_clock s n"
    using True rd by (force simp: time_After_def)
  ultimately show ?thesis
    using cleared_advances [OF ok] clearPresentation_eq [OF ok] True by (simp add: expireLease_def)
qed

definition due :: "time \<Rightarrow> notifRecord \<Rightarrow> bool" where
  "due now r \<longleftrightarrow> rec_hasDeadline r \<and> rec_deadline r \<le> now"

text \<open>The expiry loop closes exactly the records that are due.\<close>

lemma expireLoop_spec:
  assumes "owner_ok s" "distinct ids"
  shows "advances s (expireLoop now ids s) \<and>
     os_records (expireLoop now ids s) =
       (\<lambda>nid. if nid \<in> set ids \<and> (\<exists>r. os_records s nid = Some r \<and> due now r) then None else os_records s nid)"
  using assms
proof (induction ids arbitrary: s)
  case Nil
  then show ?case by (simp add: advances_refl)
next
  case (Cons nid ids)
  show ?case
  proof (cases "\<exists>r. os_records s nid = Some r \<and> due now r")
    case True
    then obtain r where r: "os_records s nid = Some r" "due now r" by blast
    define t where "t = snd (close nid CloseExpired s)"
    have t: "advances s t" "os_records t = (os_records s)(nid := None)"
      using close_advances(2,3) [OF Cons.prems(1) close_reasons_valid(1) r(1)] by (simp_all add: t_def)
    have "expireLoop now (nid # ids) s = expireLoop now ids t"
      using r by (simp add: t_def due_def time_After_def not_less)
    with Cons.IH [OF advances_ok [OF t(1)]] Cons.prems(2) t r advances_trans [OF t(1)] show ?thesis
      by (auto simp: fun_eq_iff)
  next
    case False
    then have "expireLoop now (nid # ids) s = expireLoop now ids s"
      by (auto simp: due_def time_After_def not_less split: option.splits)
    with Cons.IH [OF Cons.prems(1)] Cons.prems(2) False show ?thesis by (auto simp: fun_eq_iff)
  qed
qed

lemma handleTimer_advances:
  assumes ok: "owner_ok s"
  shows "\<exists>s'. handleTimer s = Some s' \<and> advances s s' \<and>
     (\<forall>nid r. os_records s' nid = Some r \<longrightarrow> \<not> due (os_clock s (os_reads s)) r)"
proof -
  define now where "now = os_clock s (os_reads s)"
  define s0 where "s0 = s\<lparr>os_reads := Suc (os_reads s)\<rparr>"
  have adv0: "advances s s0" using advances_read [OF ok] by (simp add: s0_def)
  have rd: "\<forall>n\<ge>os_reads s0. now \<le> os_clock s0 n"
    using reading_le(2) [OF reading_now [OF ok]] by (simp add: s0_def now_def)
  obtain s1 where s1: "sweepHistory now s0 = Some s1" "advances s0 s1" "os_reads s1 = os_reads s0"
    using sweepHistory_advances [OF advances_ok [OF adv0]] by blast
  have "os_clock s1 = os_clock s0" using s1(2) by (simp add: advances_def)
  with rd s1(3) obtain s2 where s2: "expireLease now s1 = Some s2" "advances s1 s2"
    using expireLease_advances [OF advances_ok [OF s1(2)]] by metis
  have ok2: "owner_ok s2" using s2(2) by (rule advances_ok)
  note e = expireLoop_spec [OF ok2 owner_okD(1) [OF ok2], of now]
  have "advances s (expireLoop now (os_order s2) s2)"
    using advances_trans [OF adv0 advances_trans [OF s1(2) advances_trans [OF s2(2)]]] e by blast
  moreover have "\<not> due now r" if "os_records (expireLoop now (os_order s2) s2) nid = Some r" for nid r
    using that e owner_okD(2) [OF ok2] by (auto split: if_splits)
  moreover have "handleTimer s = Some (expireLoop now (os_order s2) s2)"
    using s1(1) s2(1) by (simp add: handleTimer_def clock_Now_def now_def [symmetric] s0_def [symmetric])
  ultimately show ?thesis by (auto simp: now_def)
qed

text \<open>
  A record that expires at all is closed when the timer fires late enough: past its deadline and the
  lease, or past the lease and the time it had left.
\<close>

lemma suppressed_due:
  assumes ok: "rec_ok clk k nid r" and dur: "0 < rec_duration r" and lease: "0 < l"
    and late: "(if rec_hasDeadline r then max (rec_deadline r) l else l + rec_remaining r) \<le> now"
  shows "due now (setPresentation PresentationSuppressed l r)"
proof (cases "rec_hasDeadline r")
  case True
  have "l + max 0 (time_Sub (rec_deadline r) l) \<le> max (rec_deadline r) l" by (rule max0_time_Sub_add_le)
  with True late dur show ?thesis
    by (auto simp: due_def setPresentation_def Let_def time_Add_def)
next
  case False
  then have "rec_state r \<noteq> PresentationSuppressed" using ok dur by (auto simp: rec_ok_def)
  with False late dur show ?thesis by (auto simp: due_def setPresentation_def Let_def time_Add_def)
qed

lemma handleTimer_expires:
  assumes ok: "owner_ok s" and r: "os_records s nid = Some r" and dur: "0 < rec_duration r"
    and late: "(if rec_hasDeadline r then max (rec_deadline r) (os_leaseDeadline s)
      else os_leaseDeadline s + rec_remaining r) \<le> os_clock s (os_reads s)"
  shows "\<exists>s'. handleTimer s = Some s' \<and> advances s s' \<and> os_records s' nid = None"
proof -
  define now where "now = os_clock s (os_reads s)"
  define s0 where "s0 = s\<lparr>os_reads := Suc (os_reads s)\<rparr>"
  obtain s1 where s1: "sweepHistory now s0 = Some s1" "advances s0 s1"
    "os_records s1 = os_records s" "os_leaseDeadline s1 = os_leaseDeadline s"
    using sweepHistory_advances [OF owner_ok_read [OF ok], of now] by (auto simp: s0_def)
  have ok1: "owner_ok s1" using s1(2) by (rule advances_ok)
  have rok: "rec_ok (os_clock s) (os_reads s) nid r" using owner_okD(5) [OF ok r] .
  have l0: "0 \<le> os_leaseDeadline s" using owner_okD(10) [OF ok] by (simp add: lease_ok_def)
  have "rec_hasDeadline r" if "os_leaseDeadline s = 0"
    using owner_okD(10) [OF ok] r dur that rok by (auto simp: lease_ok_def rec_ok_def)
  then have now: "os_leaseDeadline s \<le> now" and due0: "os_leaseDeadline s = 0 \<Longrightarrow> due now r"
    using late rok by (auto simp: now_def due_def rec_ok_def split: if_splits)
  obtain s2 where s2: "expireLease now s1 = Some s2" "os_order s2 = os_order s1" "owner_ok s2"
    "\<exists>r'. os_records s2 nid = Some r' \<and> due now r'"
  proof (cases "os_leaseDeadline s = 0")
    case True
    with that [of s1] ok1 due0 r s1 show thesis by (simp add: expireLease_def time_IsZero_def)
  next
    case False
    let ?l = "os_leaseDeadline s"
    have "due now (setPresentation PresentationSuppressed ?l r)"
      using False l0 late by (intro suppressed_due [OF rok dur]) (auto simp: now_def)
    moreover have "expireLease now s1 = Some (cleared ?l s1)"
      using False now s1(4) clearPresentation_eq [OF ok1] by (simp add: expireLease_def go_time)
    moreover have "owner_ok (cleared ?l s1)"
    proof -
      have "now \<le> os_clock s0 n" if "os_reads s0 \<le> n" for n
        using reading_le(2) [OF reading_now [OF ok]] that by (simp add: s0_def now_def)
      moreover have "os_clock s1 = os_clock s0" "os_reads s0 \<le> os_reads s1" using s1(2) by (simp_all add: advances_def)
      ultimately have "?l \<le> os_clock s1 n" if "os_reads s1 \<le> n" for n
        using now that by (metis order_trans)
      then show ?thesis using cleared_advances [OF ok1] False l0 advances_ok by force
    qed
    ultimately show thesis
      using that [of "cleared ?l s1"] r s1(3) by (simp add: cleared_def presented_def)
  qed
  note e = expireLoop_spec [OF s2(3) owner_okD(1) [OF s2(3)], of now]
  have "handleTimer s = Some (expireLoop now (os_order s2) s2)"
    using s1(1) s2(1) by (simp add: handleTimer_def clock_Now_def now_def [symmetric] s0_def [symmetric])
  moreover have "nid \<in> set (os_order s2)" using s2(4) owner_okD(2) [OF s2(3)] by blast
  moreover have "\<exists>t. handleTimer s = Some t \<and> advances s t" using handleTimer_advances [OF ok] by blast
  ultimately show ?thesis using e s2(4) by auto
qed

subsection \<open>Arming the timer\<close>

text \<open>The instants at which the owner has something to do.\<close>

definition pending :: "ownerState \<Rightarrow> time set" where
  "pending s = {t. t = os_nextHistorySweep s \<and> t \<noteq> 0} \<union> {t. t = os_leaseDeadline s \<and> t \<noteq> 0} \<union>
     {rec_deadline r | r. r \<in> ran (os_records s) \<and> rec_hasDeadline r}"

text \<open>\<open>n\<close> is the earliest of the instants \<open>A\<close>, or the zero time if there is none.\<close>

definition earliest :: "time \<Rightarrow> time set \<Rightarrow> bool" where
  "earliest n A \<longleftrightarrow> 0 \<notin> A \<and> (if A = {} then n = 0 else n \<in> A \<and> (\<forall>t\<in>A. n \<le> t))"

lemma earliest_insert:
  assumes "earliest n A" "d \<noteq> 0"
  shows "earliest (if time_IsZero n \<or> time_Before d n then d else n) (insert d A)"
  using assms by (force simp: earliest_def go_time split: if_splits)

lemma nextDeadline_earliest:
  assumes "earliest n A" "\<forall>r\<in>set rs. rec_hasDeadline r \<longrightarrow> rec_deadline r \<noteq> 0"
  shows "earliest (nextDeadline n rs) (A \<union> rec_deadline ` {r \<in> set rs. rec_hasDeadline r})"
  using assms
proof (induction rs arbitrary: n A)
  case Nil
  then show ?case by simp
next
  case (Cons r rs)
  define n' where "n' = (if rec_hasDeadline r \<and> (time_IsZero n \<or> time_Before (rec_deadline r) n)
      then rec_deadline r else n)"
  define B where "B = (if rec_hasDeadline r then insert (rec_deadline r) A else A)"
  have "earliest n' B" using Cons.prems earliest_insert [OF Cons.prems(1)] by (simp add: n'_def B_def)
  then have "earliest (nextDeadline n' rs) (B \<union> rec_deadline ` {r \<in> set rs. rec_hasDeadline r})"
    using Cons.prems(2) by (intro Cons.IH) simp_all
  moreover have "B \<union> rec_deadline ` {r \<in> set rs. rec_hasDeadline r} =
      A \<union> rec_deadline ` {x \<in> set (r # rs). rec_hasDeadline x}"
    by (auto simp: B_def)
  moreover have "nextDeadline n (r # rs) = nextDeadline n' rs" by (simp add: n'_def)
  ultimately show ?case by simp
qed

lemma resetTimer_spec:
  assumes ok: "owner_ok s"
  shows "\<exists>s'. resetTimer s = Some s' \<and> advances s s' \<and> os_records s' = os_records s \<and>
     os_leaseDeadline s' = os_leaseDeadline s \<and> os_nextHistorySweep s' = os_nextHistorySweep s \<and>
     (os_timer s' = None \<longleftrightarrow> pending s = {}) \<and> (os_timer s' \<noteq> None \<longrightarrow> os_reads s' = Suc (os_reads s)) \<and>
     (\<forall>d. os_timer s' = Some d \<longrightarrow>
        0 \<le> d \<and> (\<exists>t\<in>pending s. d = max 0 (time_Sub t (os_clock s (os_reads s))) \<and> (\<forall>u\<in>pending s. t \<le> u)))"
proof -
  let ?rs = "map (\<lambda>i. the (os_records s i)) (os_order s)"
  define n1 where "n1 = (if \<not> time_IsZero (os_leaseDeadline s) \<and>
      (time_IsZero (os_nextHistorySweep s) \<or> time_Before (os_leaseDeadline s) (os_nextHistorySweep s))
    then os_leaseDeadline s else os_nextHistorySweep s)"
  define n2 where "n2 = nextDeadline n1 ?rs"
  have ran: "ran (os_records s) = set ?rs"
    using owner_okD(2) [OF ok] by (force simp: ran_def dom_def image_def)
  define A where "A = {t. t = os_nextHistorySweep s \<and> t \<noteq> 0}"
  have A: "earliest (os_nextHistorySweep s) A" by (auto simp: earliest_def A_def)
  have "earliest n1 (A \<union> {t. t = os_leaseDeadline s \<and> t \<noteq> 0})"
  proof (cases "os_leaseDeadline s = 0")
    case True
    then have "A \<union> {t. t = os_leaseDeadline s \<and> t \<noteq> 0} = A" by auto
    with True A show ?thesis by (simp add: n1_def time_IsZero_def)
  next
    case False
    then have "A \<union> {t. t = os_leaseDeadline s \<and> t \<noteq> 0} = insert (os_leaseDeadline s) A" by auto
    with False earliest_insert [OF A False] show ?thesis by (simp add: n1_def time_IsZero_def)
  qed
  then have "earliest n2 ((A \<union> {t. t = os_leaseDeadline s \<and> t \<noteq> 0}) \<union>
      rec_deadline ` {r \<in> set ?rs. rec_hasDeadline r})"
    unfolding n2_def using ordered_record_ok(1) [OF ok]
    by (intro nextDeadline_earliest) (fastforce simp: rec_ok_def)+
  moreover have "(A \<union> {t. t = os_leaseDeadline s \<and> t \<noteq> 0}) \<union>
      rec_deadline ` {r \<in> set ?rs. rec_hasDeadline r} = pending s"
    by (auto simp: pending_def A_def ran)
  ultimately have n2: "earliest n2 (pending s)" by simp
  have first: "n2 = 0 \<longleftrightarrow> pending s = {}" "pending s \<noteq> {} \<Longrightarrow> n2 \<in> pending s \<and> (\<forall>u\<in>pending s. n2 \<le> u)"
    using n2 by (auto simp: earliest_def split: if_splits)
  have eq: "resetTimer s = Some (if n2 = 0 then s\<lparr>os_timer := None\<rparr>
      else s\<lparr>os_reads := Suc (os_reads s), os_timer := Some (max 0 (time_Sub n2 (os_clock s (os_reads s))))\<rparr>)"
    unfolding resetTimer_def Let_def ordered_records_eq [OF ok] Option.bind.simps n1_def [symmetric] n2_def [symmetric]
    by (simp add: time_IsZero_def clock_Now_def max_def)
  have "owner_ok (s\<lparr>os_timer := x\<rparr>)" "owner_ok (s\<lparr>os_reads := Suc (os_reads s), os_timer := x\<rparr>)" for x
    using ok owner_ok_read [OF ok] by (simp_all add: owner_ok_defs)
  then have "advances s (s\<lparr>os_timer := x\<rparr>)" "advances s (s\<lparr>os_reads := Suc (os_reads s), os_timer := x\<rparr>)" for x
    by (auto intro!: advances_quiet simp: view_of_def notification_of_def history_of_def)
  with eq first show ?thesis by (cases "n2 = 0") auto
qed

lemma resetTimer_events: "resetTimer s = Some t \<Longrightarrow> os_events t = os_events s"
  by (auto simp: resetTimer_def Let_def clock_Now_def bind_eq_Some_conv split: if_splits)

subsection \<open>A turn of the loop, and the reachable states\<close>

definition request_ok :: "request \<Rightarrow> bool" where
  "request_ok q \<longleftrightarrow> (case q of CommandRequest c \<Rightarrow> command_ok c | _ \<Rightarrow> True)"

lemma serve_advances:
  assumes ok: "owner_ok s" and q: "request_ok q"
  shows "\<exists>s'. serve q s = Some s' \<and> advances s s'"
proof (cases q)
  case SnapshotRequest
  then show ?thesis
    using snapshot_valid [OF ok] advances_read [OF ok] by (metis (no_types, lifting) option.simps(9) request.simps(8) serve_def snd_conv)
next
  case (CommandRequest c)
  then obtain res s1 where s1: "do_command c s = Some (res, s1)" "advances s s1"
    using do_command_advances [OF ok, of c] q by (auto simp: request_ok_def)
  obtain s2 where "resetTimer s1 = Some s2" "advances s1 s2"
    using resetTimer_spec [OF advances_ok [OF s1(2)]] by blast
  with s1 CommandRequest advances_trans show ?thesis by (auto simp: serve_def)
next
  case TimerFired
  obtain s1 where s1: "handleTimer s = Some s1" "advances s s1" using handleTimer_advances [OF ok] by blast
  obtain s2 where "resetTimer s1 = Some s2" "advances s1 s2"
    using resetTimer_spec [OF advances_ok [OF s1(2)]] by blast
  with s1 TimerFired advances_trans show ?thesis by (auto simp: serve_def)
qed

inductive owner_reachable :: "(nat \<Rightarrow> time) \<Rightarrow> (Event list \<Rightarrow> Event \<Rightarrow> bool) option \<Rightarrow> Store option \<Rightarrow> ownerState \<Rightarrow> bool"
  for clk sink store where
  start: "owner_start clk sink store = Some s \<Longrightarrow> owner_reachable clk sink store s"
| turn: "owner_reachable clk sink store s \<Longrightarrow> request_ok q \<Longrightarrow> ready q s \<Longrightarrow> serve q s = Some s' \<Longrightarrow>
    owner_reachable clk sink store s'"

lemma initial_state_ok:
  assumes "clock_ok clk" "\<And>h. store = Some h \<Longrightarrow> store_ok h"
  shows "owner_ok (initial_state clk sink store)"
  using assms by (cases store) (auto simp: initial_state_def owner_ok_defs clock_Now_def)

lemma owner_start_advances:
  assumes "clock_ok clk" "\<And>h. store = Some h \<Longrightarrow> store_ok h"
  shows "\<exists>s. owner_start clk sink store = Some s \<and> advances (initial_state clk sink store) s"
proof -
  have "owner_ok (initial_state clk sink store)" using assms by (rule initial_state_ok)
  from resetTimer_spec [OF this] show ?thesis unfolding owner_start_def by blast
qed

lemma reachable_advances:
  assumes "owner_reachable clk sink store s" "clock_ok clk" "\<And>h. store = Some h \<Longrightarrow> store_ok h"
  shows "advances (initial_state clk sink store) s"
  using assms(1)
proof induction
  case (start s)
  obtain t where "owner_start clk sink store = Some t" "advances (initial_state clk sink store) t"
    using owner_start_advances [OF assms(2,3)] by blast
  with start show ?case by simp
next
  case (turn s q s')
  obtain t where "serve q s = Some t" "advances s t" using serve_advances [OF advances_ok [OF turn.IH] turn.hyps(2)] by blast
  with turn advances_trans show ?case by auto
qed

lemmas reachable_ok = advances_ok [OF reachable_advances]

end
