(* ===== verification/OwnerGenerations.thy ===== *)
theory OwnerGenerations
  imports Contracts HistoryMirror OwnerLoop
begin

text \<open>
  Presenter generations and the contracts of the owner. The accepted generation never goes back, so
  a presenter that was replaced or retired is refused for good; the owner loop satisfies the contracts
  of \<open>Contracts\<close>.
\<close>

subsection \<open>Who changes the generations\<close>

text \<open>The generations: the accepted one, and whether it is retired.\<close>

definition gens :: "ownerState \<Rightarrow> u64 \<times> bool" where
  "gens s = (os_acceptedGeneration s, os_presenterRetired s)"

named_theorems gens_simps \<open>operations that leave the generations alone\<close>

lemma gens_emit [gens_simps]: "gens (emit ds s) = gens s"
  by (simp add: gens_def)

lemma gens_publish [gens_simps]: "gens (snd (publish ev s)) = gens s"
  by (simp add: gens_def publish_def)

lemma gens_remember [gens_simps]: "gens (remember r h s) = gens s"
  by (simp add: remember_def gens_def clock_Now_def publishRemoved_emit publishDelta_emit Let_def
      split: prod.splits sum.splits)

lemma gens_close [gens_simps]: "gens (snd (close nid reason s)) = gens s"
proof -
  have "gens (forget nid r s) = gens s" for r by (simp add: gens_def forget_def)
  then show ?thesis
    by (simp add: close_def Let_def publishDelta_emit gens_simps split: option.splits)
qed

lemma gens_dismissLoop [gens_simps]: "gens (snd (dismissLoop ids e s)) = gens s"
  by (induction ids arbitrary: e s) (simp_all add: case_prod_beta Let_def gens_simps)

lemma gens_expireLoop [gens_simps]: "gens (expireLoop now ids s) = gens s"
  by (induction ids arbitrary: s) (simp_all add: gens_simps split: option.splits)

lemma gens_evict: "evictCapacityVictim s = Some t \<Longrightarrow> gens t = gens s"
  by (auto simp: evictCapacityVictim_def gens_simps)

lemma gens_insertRecord [gens_simps]: "gens (insertRecord nid fresh now s) = gens s"
  by (simp add: insertRecord_def Let_def publishDelta_emit gens_simps) (simp add: gens_def)

lemma gens_replaceRecord [gens_simps]: "gens (replaceRecord nid ex fresh key now s) = gens s"
  by (simp add: replaceRecord_def Let_def publishDelta_emit gens_simps) (simp add: gens_def)

lemma gens_nextID [gens_simps]: "gens (s\<lparr>os_nextID := n\<rparr>) = gens s"
  by (simp add: gens_def)

lemma gens_producerIDs [gens_simps]: "gens (s\<lparr>os_producerIDs := m\<rparr>) = gens s"
  by (simp add: gens_def)

lemma gens_history [gens_simps]: "gens (s\<lparr>os_history := h\<rparr>) = gens s"
  by (simp add: gens_def)

lemma gens_reads [gens_simps]: "gens (s\<lparr>os_reads := n\<rparr>) = gens s"
  by (simp add: gens_def)

lemma gens_sweep [gens_simps]: "gens (s\<lparr>os_nextHistorySweep := n\<rparr>) = gens s"
  by (simp add: gens_def)

lemma gens_addWithProducerKey:
  assumes "addWithProducerKey c key prepared now s = Some (res, t)"
  shows "gens t = gens s"
  using assms gens_evict
  by (auto simp: addWithProducerKey_def gens_simps Let_def bind_eq_Some_conv split: option.splits if_splits)

lemma gens_publishProducer:
  assumes "publishProducer p now s = Some (res, t)"
  shows "gens t = gens s"
proof (cases "case p of None \<Rightarrow> Some (Err []) | Some q \<Rightarrow> ProducerRequest_Validate q")
  case (Some e)
  with assms show ?thesis by (auto simp: publishProducer_def split: option.splits)
next
  case None
  then obtain q where q: "p = Some q" "ProducerRequest_Validate q = None" by (auto split: option.splits)
  let ?gone = "producerID s (pr_Key q) \<noteq> 0 \<and> os_records s (producerID s (pr_Key q)) = None"
  define s1 where "s1 = (if ?gone then s\<lparr>os_producerIDs := (os_producerIDs s)(pr_Key q := None)\<rparr> else s)"
  define i where "i = (if ?gone then 0 else producerID s (pr_Key q))"
  obtain c r u where "addWithProducerKey c (pr_Key q) None now s1 = Some (r, u)"
    "(res, t) = (case r of Inl e \<Rightarrow> (Inl e, u)
       | Inr r \<Rightarrow> (Inr r, u\<lparr>os_producerIDs := (os_producerIDs u)(pr_Key q \<mapsto> res_ID r)\<rparr>))"
    using assms unfolding publishProducer_def q option.case Let_def s1_def [symmetric] i_def [symmetric]
    by (auto simp: bind_eq_Some_conv)
  then have "gens t = gens u" "gens u = gens s1"
    by (auto simp: gens_simps dest: gens_addWithProducerKey split: sum.splits)
  then show ?thesis by (simp add: s1_def gens_simps)
qed

lemma gens_cleared: "owner_ok s \<Longrightarrow> clearPresentation t s = Some u \<Longrightarrow> gens u = gens s"
  by (auto simp: clearPresentation_def gens_def)

text \<open>Every command but a renewal and a lost presenter leaves the generations alone.\<close>

lemma gens_dispatch:
  assumes "dispatch c now s = Some (res, t)" "sc_Kind c \<noteq> KPresentationRenew" "sc_Kind c \<noteq> KPresenterLost"
  shows "gens t = gens s"
proof (cases "sc_Kind c")
  case KAdd
  with assms(1) show ?thesis by (auto simp: dispatch_def add_def dest: gens_addWithProducerKey)
next
  case KProducerPublish
  with assms(1) show ?thesis by (auto simp: dispatch_def dest: gens_publishProducer)
next
  case KPresenterResync
  with assms(1) show ?thesis
    by (auto simp: dispatch_def presenterResync_def snapshot_def clock_Now_def bind_eq_Some_conv case_prod_beta gens_simps)
next
  case KProducerClose
  have "gens (snd (closeProducer p s)) = gens s" for p
    by (auto simp: closeProducer_def Let_def gens_simps case_prod_beta split: option.splits)
  with KProducerClose assms(1) show ?thesis by (simp add: dispatch_def) (metis snd_conv)
next
  case KInvokeAction
  with assms(1) show ?thesis
    by (auto simp: dispatch_def result_of_def invokeAction_def Let_def gens_simps split: option.splits if_splits)
next
  case KSubmitReply
  with assms(1) show ?thesis
    by (auto simp: dispatch_def result_of_def submitReply_def Let_def gens_simps split: option.splits if_splits)
next
  case KHistoryClear
  with assms(1) show ?thesis
    by (auto simp: dispatch_def result_of_def clearHistory_def publishDelta_emit gens_simps Let_def
        split: option.splits if_splits prod.splits)
next
  case KHistoryRemove
  with assms(1) show ?thesis
    by (auto simp: dispatch_def result_of_def removeHistory_def publishRemoved_emit gens_simps Let_def
        split: option.splits prod.splits)
next
  case KHistoryMarkSeen
  with assms(1) show ?thesis
    by (auto simp: dispatch_def result_of_def markHistorySeen_def publishDelta_emit gens_simps Let_def
        split: option.splits if_splits prod.splits sum.splits)
qed (use assms in \<open>auto simp: dispatch_def result_of_def gens_simps\<close>)

text \<open>The generations after a renewal and after a lost presenter.\<close>

lemma gens_renew:
  assumes "owner_ok s" "renew generation ps now s = Some (e, t)"
  shows "gens t = gens s \<and> e \<noteq> None \<or>
    gens t = (generation, False) \<and> (os_acceptedGeneration s = 0 \<or> os_acceptedGeneration s \<le> generation) \<and>
    generation \<noteq> 0 \<and> \<not> (os_presenterRetired s \<and> generation = os_acceptedGeneration s)"
  using assms(2)
  by (cases "Command_Validate (zero_Command\<lparr>c_Kind := CommandPresentationRenew, c_Presentations := ps\<rparr>)")
    (auto simp: renew_def gens_def bind_eq_Some_conv not_less split: if_splits)

lemma gens_presenterLost:
  assumes "owner_ok s" "presenterLost c now s = Some t"
  shows "gens t =
    (if os_acceptedGeneration s < sc_NextGeneration c then (sc_NextGeneration c, False)
     else if sc_Generation c \<noteq> 0 \<and> sc_Generation c = os_acceptedGeneration s \<and> sc_NextGeneration c = 0
     then (os_acceptedGeneration s, True) else gens s)"
proof -
  from assms(2) obtain u where u: "(if sc_Generation c \<noteq> 0 \<and> sc_Generation c = os_presenterGeneration s
      then clearPresentation now s else Some s) = Some u"
    and t: "t = (if os_acceptedGeneration u < sc_NextGeneration c
             then u\<lparr>os_acceptedGeneration := sc_NextGeneration c, os_presenterRetired := False\<rparr>
             else if sc_Generation c \<noteq> 0 \<and> sc_Generation c = os_acceptedGeneration u \<and> sc_NextGeneration c = 0
             then u\<lparr>os_presenterRetired := True\<rparr> else u)"
    by (auto simp: presenterLost_def bind_eq_Some_conv)
  have "gens u = gens s" using u gens_cleared [OF assms(1)] by (auto split: if_splits)
  then have "os_acceptedGeneration u = os_acceptedGeneration s" "os_presenterRetired u = os_presenterRetired s"
    by (simp_all add: gens_def)
  then show ?thesis unfolding t by (auto simp: gens_def)
qed

subsection \<open>The order of generations\<close>

text \<open>
  Generations are compared with retirement: a later generation is above an earlier one, and a
  generation that is retired is above the same generation in use.
\<close>

definition gen_rank :: "ownerState \<Rightarrow> nat" where
  "gen_rank s = 2 * unat (os_acceptedGeneration s) + (if os_presenterRetired s then 1 else 0)"

lemma gen_rank_gens: "gens t = gens s \<Longrightarrow> gen_rank s \<le> gen_rank t"
  by (simp add: gens_def gen_rank_def)

lemma gen_rank_dispatch:
  assumes ok: "owner_ok s" and d: "dispatch c now s = Some (res, t)"
  shows "gen_rank s \<le> gen_rank t"
proof (cases "sc_Kind c = KPresentationRenew \<or> sc_Kind c = KPresenterLost")
  case False
  with gens_dispatch [OF d] show ?thesis by (intro gen_rank_gens) simp
next
  case True
  then show ?thesis
  proof
    assume k: "sc_Kind c = KPresentationRenew"
    then have "renewCommand c now s = Some (res, t)" using d by (simp add: dispatch_def)
    then obtain e where e: "renew (sc_Generation c) (sc_Presentations c) now s = Some (e, t)"
      by (auto simp: renewCommand_def bind_eq_Some_conv split: option.splits)
    from gens_renew [OF ok e] show ?thesis
    proof
      assume "gens t = gens s \<and> e \<noteq> None"
      then show ?thesis by (intro gen_rank_gens) simp
    next
      assume new: "gens t = (sc_Generation c, False) \<and>
        (os_acceptedGeneration s = 0 \<or> os_acceptedGeneration s \<le> sc_Generation c) \<and> sc_Generation c \<noteq> 0 \<and>
        \<not> (os_presenterRetired s \<and> sc_Generation c = os_acceptedGeneration s)"
      then have "unat (os_acceptedGeneration s) \<le> unat (sc_Generation c)" by (auto simp: word_le_nat_alt)
      moreover have "os_presenterRetired s \<Longrightarrow> unat (os_acceptedGeneration s) \<noteq> unat (sc_Generation c)"
        using new by (auto simp: word_unat_eq_iff)
      ultimately have "gen_rank s \<le> 2 * unat (sc_Generation c)"
        by (cases "os_presenterRetired s") (auto simp: gen_rank_def)
      moreover have "gen_rank t = 2 * unat (sc_Generation c)" using new by (simp add: gens_def gen_rank_def)
      ultimately show ?thesis by simp
    qed
  next
    assume k: "sc_Kind c = KPresenterLost"
    then have "presenterLost c now s = Some t" using d by (simp add: dispatch_def)
    note g = gens_presenterLost [OF ok this]
    show ?thesis
    proof (cases "os_acceptedGeneration s < sc_NextGeneration c")
      case True
      then have "gen_rank t = 2 * unat (sc_NextGeneration c)" using g by (simp add: gens_def gen_rank_def)
      moreover have "unat (os_acceptedGeneration s) < unat (sc_NextGeneration c)"
        using True by (simp add: word_less_nat_alt)
      ultimately show ?thesis by (simp add: gen_rank_def)
    qed (use g in \<open>auto simp: gens_def gen_rank_def split: if_splits\<close>)
  qed
qed

lemma gens_resetTimer: "resetTimer s = Some t \<Longrightarrow> gens t = gens s"
  by (auto simp: resetTimer_def Let_def bind_eq_Some_conv gens_def clock_Now_def split: if_splits)

lemma gens_handleTimer:
  assumes ok: "owner_ok s" and t: "handleTimer s = Some t"
  shows "gens t = gens s"
proof -
  obtain s1 s2 where 1: "sweepHistory (os_clock s (os_reads s)) (s\<lparr>os_reads := Suc (os_reads s)\<rparr>) = Some s1"
    and 2: "expireLease (os_clock s (os_reads s)) s1 = Some s2"
    and 3: "t = expireLoop (os_clock s (os_reads s)) (os_order s2) s2"
    using t by (auto simp: handleTimer_def clock_Now_def bind_eq_Some_conv)
  have "owner_ok s1" using sweepHistory_advances [OF owner_ok_read [OF ok], of "os_clock s (os_reads s)"] 1 advances_ok by auto
  then have "gens s2 = gens s1" using 2 gens_cleared by (auto simp: expireLease_def split: if_splits)
  moreover have "gens s1 = gens s"
    using 1 by (auto simp: sweepHistory_def publishRemoved_emit gens_simps Let_def split: if_splits option.splits prod.splits)
  ultimately show ?thesis using 3 by (simp add: gens_simps)
qed

lemma gen_rank_serve:
  assumes ok: "owner_ok s" and q: "request_ok q" and t: "serve q s = Some t"
  shows "gen_rank s \<le> gen_rank t"
proof (cases q)
  case SnapshotRequest
  with t have "gens t = gens s"
    by (auto simp: serve_def snapshot_def clock_Now_def bind_eq_Some_conv gens_simps)
  then show ?thesis by (rule gen_rank_gens)
next
  case (CommandRequest c)
  then obtain res u where u: "do_command c s = Some (res, u)" "resetTimer u = Some t"
    using t by (auto simp: serve_def bind_eq_Some_conv)
  have "gen_rank s \<le> gen_rank u"
  proof (cases "gatePresenter c s")
    case None
    with u(1) have "dispatch c (os_clock s (os_reads s)) (s\<lparr>os_reads := Suc (os_reads s)\<rparr>) = Some (res, u)"
      by (simp add: do_command_def clock_Now_def)
    from gen_rank_dispatch [OF owner_ok_read [OF ok] this] show ?thesis by (simp add: gen_rank_def)
  qed (use u(1) in \<open>simp add: do_command_def\<close>)
  with gen_rank_gens [OF gens_resetTimer [OF u(2)]] show ?thesis by simp
next
  case TimerFired
  then obtain u where "handleTimer s = Some u" "resetTimer u = Some t"
    using t by (auto simp: serve_def bind_eq_Some_conv)
  then have "gens t = gens s" using gens_handleTimer [OF ok] gens_resetTimer by simp
  then show ?thesis by (rule gen_rank_gens)
qed

subsection \<open>The owner satisfies the contracts\<close>

definition owner_initial :: "ownerState \<Rightarrow> bool" where
  "owner_initial s \<longleftrightarrow> (\<exists>clk sink store. clock_ok clk \<and> (\<forall>h. store = Some h \<longrightarrow> store_ok h) \<and>
     owner_start clk sink store = Some s)"

definition owner_turn :: "ownerState \<Rightarrow> ownerState \<Rightarrow> bool" where
  "owner_turn s t \<longleftrightarrow> (\<exists>q. request_ok q \<and> ready q s \<and> serve q s = Some t)"

lemma owner_turn_advances: "owner_ok s \<Longrightarrow> owner_turn s t \<Longrightarrow> advances s t"
  using serve_advances by (fastforce simp: owner_turn_def)

interpretation owner_machine: monotone_machine owner_initial owner_turn owner_ok gen_rank
proof
  show "owner_ok s" if init: "owner_initial s" for s
  proof -
    obtain clk sink store where "clock_ok clk" "\<And>h. store = Some h \<Longrightarrow> store_ok h" and s: "owner_start clk sink store = Some s"
      using init unfolding owner_initial_def by blast
    then obtain t where "owner_start clk sink store = Some t" "advances (initial_state clk sink store) t"
      using owner_start_advances by blast
    with s show ?thesis using advances_ok by simp
  qed
  show "owner_ok t" if "owner_ok s" "owner_turn s t" for s t
    using owner_turn_advances [OF that] by (rule advances_ok)
  show "gen_rank s \<le> gen_rank t" if "owner_ok s" "owner_turn s t" for s t
    using that gen_rank_serve by (auto simp: owner_turn_def)
qed

text \<open>What a turn published, for a client that mirrors the owner.\<close>

definition owner_serves :: "request \<Rightarrow> ownerState \<Rightarrow> (Delta list \<times> ownerState) option" where
  "owner_serves q s = map_option (\<lambda>t. (deltas_of (drop (length (os_events s)) (os_events t)), t)) (serve q s)"

interpretation owner_mirror: mirrored owner_ok request_ok owner_serves apply_delta view_of
proof
  fix s q es t
  assume ok: "owner_ok s" and q: "request_ok q"
  from serve_advances [OF ok q] show "\<exists>es t. owner_serves q s = Some (es, t)"
    by (auto simp: owner_serves_def)
  assume "owner_serves q s = Some (es, t)"
  then have t: "serve q s = Some t" "es = deltas_of (drop (length (os_events s)) (os_events t))"
    by (auto simp: owner_serves_def)
  then have adv: "advances s t" using serve_advances [OF ok q] by auto
  show "owner_ok t" using adv by (rule advances_ok)
  show "view_of t = fold apply_delta es (view_of s)"
    using adv t(2) by (auto simp: advances_def tracks_def)
qed

end
