(* ===== verification/OwnerProps.thy ===== *)
theory OwnerProps
  imports OwnerGenerations
begin

text \<open>
  What the owner guarantees, over the states that any sequence of requests can reach from a start
  with a good clock and a good history store, and the behaviour of single operations.
\<close>

subsection \<open>Example states\<close>

text \<open>A clock that moves three seconds per reading, a notification, and the states it leads to.\<close>

definition ex_clock :: "nat \<Rightarrow> time" where
  "ex_clock n = 1000000000 + int n * (3 * Second)"

definition ex_candidate :: Candidate where
  "ex_candidate = zero_Candidate\<lparr>cand_AppName := ''mail'', cand_Summary := ''hello'',
     cand_Urgency := UrgencyNormal, cand_ExpireTimeout := -1\<rparr>"

definition ex_start :: ownerState where
  "ex_start = initial_state ex_clock None None"

definition ex_add :: request where
  "ex_add = CommandRequest (zero_StateCommand\<lparr>sc_Kind := KAdd, sc_Candidate := ex_candidate\<rparr>)"

definition ex_now :: time where "ex_now = 1000000000"

definition ex_record :: notifRecord where
  "ex_record = startDeadline ex_now (newRecord ex_candidate [] None ex_now 1)"

definition ex_one :: ownerState where
  "ex_one = ex_start\<lparr>os_reads := 2, os_events := delta_events 0 [notificationDelta DeltaAdded ex_record ex_now],
     os_records := [1 \<mapsto> ex_record], os_order := [1], os_nextID := 2, os_sequence := 1,
     os_timer := Some 2000000000\<rparr>"

lemma ex_clock_ok [simp]: "clock_ok ex_clock"
  by (auto simp: clock_ok_def ex_clock_def Second_def intro!: monoI)

lemma ex_start_fields [simp]:
  "os_records ex_start = Map.empty" "os_order ex_start = []" "os_history ex_start = None"
  "os_reads ex_start = 0" "os_clock ex_start = ex_clock" "os_nextID ex_start = 1" "os_events ex_start = []"
  "os_sequence ex_start = 0" "os_sink ex_start = None" "os_leaseDeadline ex_start = 0"
  "os_nextHistorySweep ex_start = 0" "os_timer ex_start = None" "os_producerIDs ex_start = Map.empty"
  "os_acceptedGeneration ex_start = 0" "os_presenterGeneration ex_start = 0" "os_presenterRetired ex_start = False"
  by (simp_all add: ex_start_def initial_state_def initial_nextID_def)

lemma ex_valid: "validateCandidate ex_candidate ex_now = None"
proof -
  have "utf8_ValidString ''mail''" "utf8_ValidString ''hello''" by (rule utf8_ascii, simp)+
  then show ?thesis
    by (simp add: validateCandidate_def Notification_Validate_def notificationFromCandidate_def ex_candidate_def
        zero_Candidate_def zero_Sender_def ex_now_def validateText_def Urgency_valid_def UrgencyNormal_def
        UrgencyCritical_def time_IsZero_def limit_defs image_option_Validate_def value_in_range_def)
qed

lemma ex_duration: "candidateDuration ex_candidate = 5000000000"
  by (simp add: candidateDuration_def ex_candidate_def zero_Candidate_def UrgencyNormal_def UrgencyCritical_def
      DefaultTimeout_def Second_def)

lemma ex_resolve: "ResolveID 0 1 (\<lambda>_. False) = Some (1, 2)"
  by (simp add: ResolveID_def resolve_loop.simps next_id_def)

lemma ex_added:
  "add ex_candidate None ex_now (ex_start\<lparr>os_reads := Suc 0\<rparr>) =
     Some (Inr (zero_Result\<lparr>res_ID := 1\<rparr>), ex_one\<lparr>os_reads := Suc 0, os_timer := None\<rparr>)"
proof -
  have c: "cand_ReplacesID ex_candidate = 0" by (simp add: ex_candidate_def zero_Candidate_def)
  have b: "burstDuplicate ex_candidate ex_now (ex_start\<lparr>os_reads := Suc 0\<rparr>) = 0" by (simp add: burstDuplicate_def)
  have t: "takenIDs (ex_start\<lparr>os_reads := Suc 0\<rparr>) = (\<lambda>_. False)" by (simp add: takenIDs_def fun_eq_iff)
  have r: "ex_candidate\<lparr>cand_ReplacesID := 0\<rparr> = ex_candidate" using c by simp
  have d: "0 < rec_duration (newRecord ex_candidate [] None ex_now 1)"
    by (simp add: newRecord_def ex_duration)
  show ?thesis
    unfolding add_def addWithProducerKey_def
    using d by (simp add: c b t r ex_valid ex_resolve MaxActiveNotifications_def insertRecord_def
        ex_record_def [symmetric] publishDelta_emit emit_def ex_one_def)
qed

lemma ex_served: "serve ex_add ex_start = Some ex_one"
proof -
  have now: "ex_clock 0 = ex_now" "ex_clock (Suc 0) = ex_now + 3000000000"
    by (simp_all add: ex_clock_def ex_now_def Second_def)
  have add: "do_command (zero_StateCommand\<lparr>sc_Kind := KAdd, sc_Candidate := ex_candidate\<rparr>) ex_start =
      Some (Inr (zero_Result\<lparr>res_ID := 1\<rparr>), ex_one\<lparr>os_reads := Suc 0, os_timer := None\<rparr>)"
    using ex_added now
    by (simp add: do_command_def gatePresenter_def dispatch_def clock_Now_def zero_StateCommand_def)
  have dl: "rec_hasDeadline ex_record" "rec_deadline ex_record = ex_now + 5000000000"
    by (simp_all add: ex_record_def startDeadline_def newRecord_def ex_duration time_Add_def)
  have "resetTimer (ex_one\<lparr>os_reads := Suc 0, os_timer := None\<rparr>) = Some ex_one"
    using dl now
    by (simp add: resetTimer_def ordered_records_def ex_one_def go_time clock_Now_def ex_now_def
        time_Sub_def minDuration_def maxDuration_def)
  with add show ?thesis by (simp add: serve_def ex_add_def)
qed

lemma ex_start_reachable: "owner_reachable ex_clock None None ex_start"
  by (rule owner_reachable.start)
    (simp add: owner_start_def ex_start_def [symmetric] resetTimer_def ordered_records_def time_IsZero_def)

lemma ex_reachable: "owner_reachable ex_clock None None ex_one"
proof (rule owner_reachable.turn [OF ex_start_reachable])
  show "ready ex_add ex_start" by (simp add: ready_def ex_add_def)
  show "request_ok ex_add" by (simp add: request_ok_def ex_add_def command_ok_def zero_StateCommand_def)
  show "serve ex_add ex_start = Some ex_one" by (rule ex_served)
qed

subsection \<open>Every reachable state\<close>

text \<open>
  C1: the owner goroutine never panics and never hangs. In every state that requests can reach, each
  further request (a command, a snapshot, the timer) is served: no record is missing from the map when
  it is dereferenced, the history is there when it is swept, and the search for a free ID ends.
\<close>

theorem owner_never_stuck:
  assumes "owner_reachable clk sink store s" "clock_ok clk" "\<forall>h. store = Some h \<longrightarrow> store_ok h" "request_ok q"
  shows "\<exists>s'. serve q s = Some s'"
  using serve_advances [OF reachable_ok [OF assms(1,2)] assms(4)] assms(3) by blast

theorem owner_never_stuck_witness:
  "owner_reachable ex_clock None None ex_one \<and> clock_ok ex_clock \<and> request_ok TimerFired \<and>
     (\<exists>s'. serve TimerFired ex_one = Some s')"
  using owner_never_stuck [OF ex_reachable, of TimerFired] ex_reachable by (simp add: request_ok_def)

text \<open>
  C4: the tables of the owner agree in every reachable state: the order lists exactly the IDs of the
  records, once each and never zero, at most 128 of them; each record carries its own ID and a
  notification that validates; the producer table is the index of the records by producer key; and no
  history entry has the ID of an active notification.
\<close>

theorem owner_tables_agree:
  assumes "owner_reachable clk sink store s" "clock_ok clk" "\<forall>h. store = Some h \<longrightarrow> store_ok h"
  shows "distinct (os_order s) \<and> dom (os_records s) = set (os_order s) \<and> 0 \<notin> set (os_order s) \<and>
    length (os_order s) \<le> MaxActiveNotifications \<and>
    (\<forall>nid r. os_records s nid = Some r \<longrightarrow>
       n_ID (rec_notification r) = nid \<and> Notification_Validate (rec_notification r) = None) \<and>
    (\<forall>key nid. os_producerIDs s key = Some nid \<longleftrightarrow>
       key \<noteq> [] \<and> (\<exists>r. os_records s nid = Some r \<and> rec_producerKey r = key)) \<and>
    (\<forall>h. os_history s = Some h \<longrightarrow> set (IDs h) \<inter> set (os_order s) = {})"
proof -
  have ok: "owner_ok s" using reachable_ok [OF assms(1,2)] assms(3) by blast
  show ?thesis
    using owner_okD(1-4) [OF ok] owner_okD(5) [OF ok] owner_okD(8,9) [OF ok]
    by (auto simp: rec_ok_def producers_ok_def history_ok_def)
qed

theorem owner_tables_agree_witness:
  "owner_reachable ex_clock None None ex_one \<and> clock_ok ex_clock \<and> dom (os_records ex_one) = set (os_order ex_one) \<and>
     os_order ex_one = [1]"
  using owner_tables_agree [OF ex_reachable] ex_reachable by (simp add: ex_one_def)

text \<open>
  C7: a snapshot taken in any reachable state passes the protocol's own validation, so a presenter
  that validates what it receives never rejects one: the limits hold, every notification has exactly
  one lifetime, and no lifetime has more time left than its duration.
\<close>

theorem snapshots_validate:
  assumes "owner_reachable clk sink store s" "clock_ok clk" "\<forall>h. store = Some h \<longrightarrow> store_ok h"
  shows "\<exists>sn s'. snapshot s = Some (sn, s') \<and> Snapshot_Validate sn = None \<and> snap_Sequence sn = os_sequence s \<and>
     \<lparr>v_active = snap_Active sn, v_history = snap_History sn\<rparr> = view_of s"
proof -
  have "owner_ok s" using reachable_ok [OF assms(1,2)] assms(3) by blast
  then show ?thesis by (rule snapshot_valid) blast
qed

theorem snapshots_validate_witness:
  "owner_reachable ex_clock None None ex_one \<and> clock_ok ex_clock \<and>
     (\<exists>sn s'. snapshot ex_one = Some (sn, s') \<and> Snapshot_Validate sn = None \<and> snap_Sequence sn = 1)"
  using snapshots_validate [OF ex_reachable] ex_reachable by (auto simp: ex_one_def)

text \<open>
  C2: the deltas are the whole truth. A client that holds the view of some reachable state (from a
  snapshot, say) and applies the deltas of any further run of requests, in order, has exactly the
  active notifications, in order, and the history of the state at the end of the run.
\<close>

theorem deltas_rebuild_state:
  assumes "owner_reachable clk sink store s" "clock_ok clk" "\<forall>h. store = Some h \<longrightarrow> store_ok h"
    "\<forall>q\<in>set qs. request_ok q"
  shows "\<exists>ds t. run_session owner_serves qs s = Some (ds, t) \<and> view_of t = fold apply_delta ds (view_of s)"
proof -
  have "owner_ok s" using reachable_ok [OF assms(1,2)] assms(3) by blast
  from owner_mirror.session_total [OF this assms(4)] show ?thesis by blast
qed

theorem deltas_rebuild_state_witness:
  "owner_reachable ex_clock None None ex_start \<and>
   (\<exists>ds t. run_session owner_serves [ex_add, TimerFired, ex_add] ex_start = Some (ds, t) \<and>
      view_of t = fold apply_delta ds \<lparr>v_active = [], v_history = []\<rparr>)"
proof -
  note r = ex_start_reachable
  have v: "view_of ex_start = \<lparr>v_active = [], v_history = []\<rparr>" by (simp add: view_of_def history_of_def)
  have q: "\<forall>q\<in>set [ex_add, TimerFired, ex_add]. request_ok q"
    by (simp add: request_ok_def ex_add_def command_ok_def zero_StateCommand_def)
  show ?thesis using deltas_rebuild_state [OF r _ _ q] r v by simp
qed

lemma wf_events_numbered:
  assumes "wf_events (of_nat n) v evs"
  shows "(\<forall>d\<in>set (deltas_of evs). Delta_Validate d = None) \<and>
    map ev_Sequence (filter (\<lambda>e. ev_Delta e \<noteq> None) evs) = map of_nat [Suc n..<Suc (n + length (deltas_of evs))]"
  using assms
proof (induction evs arbitrary: n v)
  case (Cons e evs)
  show ?case
  proof (cases "ev_Delta e")
    case None
    with Cons.prems have "wf_events (of_nat n) v evs" by simp
    from Cons.IH [OF this] None show ?thesis by simp
  next
    case (Some d)
    have up: "[Suc n..<Suc (Suc (n + k))] = Suc n # [Suc (Suc n)..<Suc (Suc (n + k))]" for k
      by (simp add: upt_conv_Cons del: upt_Suc)
    from Some Cons.prems have e: "ev_Sequence e = of_nat (Suc n)" "Delta_Validate d = None"
      "wf_events (of_nat (Suc n)) (apply_delta d v) evs" by (simp_all add: add.commute)
    with Cons.IH [OF e(3)] Some show ?thesis by (simp add: up del: upt_Suc of_nat_Suc)
  qed
qed simp

text \<open>
  C8: every delta ever published validates, and the deltas are numbered 1, 2, 3, ... without a gap
  (modulo \<open>2 ^ 64\<close>), up to the owner's sequence number.
\<close>

theorem deltas_valid_and_numbered:
  assumes "owner_reachable clk sink store s" "clock_ok clk" "\<forall>h. store = Some h \<longrightarrow> store_ok h"
  shows "(\<forall>d\<in>set (deltas_of (os_events s)). Delta_Validate d = None) \<and>
    map ev_Sequence (filter (\<lambda>e. ev_Delta e \<noteq> None) (os_events s)) =
      map of_nat [1..<Suc (length (deltas_of (os_events s)))] \<and>
    os_sequence s = of_nat (length (deltas_of (os_events s)))"
proof -
  have adv: "advances (initial_state clk sink store) s" using reachable_advances [OF assms(1,2)] assms(3) by blast
  have "os_events (initial_state clk sink store) = []" "os_sequence (initial_state clk sink store) = 0"
    by (simp_all add: initial_state_def clock_Now_def Let_def split: option.splits)
  then have wf: "wf_events 0 (view_of (initial_state clk sink store)) (os_events s)" and seq: "os_sequence s = of_nat (length (deltas_of (os_events s)))"
    using adv by (auto simp: advances_def tracks_def)
  from wf_events_numbered [of 0 _ "os_events s"] wf seq show ?thesis by simp
qed

theorem deltas_valid_and_numbered_witness:
  "owner_reachable ex_clock None None ex_one \<and> clock_ok ex_clock \<and>
     map ev_Sequence (filter (\<lambda>e. ev_Delta e \<noteq> None) (os_events ex_one)) = [1] \<and>
     list_all (\<lambda>d. Delta_Validate d = None) (deltas_of (os_events ex_one))"
  using deltas_valid_and_numbered [OF ex_reachable] ex_reachable by (simp add: ex_one_def)

subsection \<open>Expiry\<close>

text \<open>
  when the timer fires nothing that is due survives: after the turn no active notification has a
  deadline at or before the instant the handler read from the clock.
\<close>

theorem timer_leaves_nothing_due:
  assumes "owner_reachable clk sink store s" "clock_ok clk" "\<forall>h. store = Some h \<longrightarrow> store_ok h"
  shows "\<exists>s'. serve TimerFired s = Some s' \<and>
    (\<forall>nid r. os_records s' nid = Some r \<longrightarrow> \<not> (rec_hasDeadline r \<and> rec_deadline r \<le> os_clock s (os_reads s)))"
proof -
  have ok: "owner_ok s" using reachable_ok [OF assms(1,2)] assms(3) by blast
  obtain s1 where s1: "handleTimer s = Some s1" "advances s s1"
    "\<forall>nid r. os_records s1 nid = Some r \<longrightarrow> \<not> due (os_clock s (os_reads s)) r"
    using handleTimer_advances [OF ok] by blast
  obtain s2 where "resetTimer s1 = Some s2" "os_records s2 = os_records s1"
    using resetTimer_spec [OF advances_ok [OF s1(2)]] by blast
  with s1 show ?thesis by (simp add: serve_def due_def)
qed

theorem timer_leaves_nothing_due_witness:
  "owner_reachable ex_clock None None ex_one \<and> clock_ok ex_clock \<and>
    (\<exists>s'. serve TimerFired ex_one = Some s' \<and>
       \<not> (\<exists>nid r. os_records s' nid = Some r \<and> rec_hasDeadline r \<and> rec_deadline r \<le> 7000000000))"
proof -
  have "os_clock ex_one (os_reads ex_one) = 7000000000" by (simp add: ex_one_def ex_clock_def Second_def)
  then show ?thesis using timer_leaves_nothing_due [OF ex_reachable] ex_reachable by auto
qed

text \<open>
  C10: the timer is never forgotten and never late: after every command and every firing it is stopped
  exactly when there is nothing to wait for, and otherwise set to the time that was left, at the last
  reading of the clock, until the earliest of all pending instants (the deadline of a record, the end
  of the lease, the next sweep of the history).
\<close>

theorem timer_set_to_earliest:
  assumes "owner_reachable clk sink store s" "clock_ok clk" "\<forall>h. store = Some h \<longrightarrow> store_ok h"
    "request_ok q" "q \<noteq> SnapshotRequest" "serve q s = Some s'"
  shows "(os_timer s' = None \<longleftrightarrow> pending s' = {}) \<and>
    (\<forall>d. os_timer s' = Some d \<longrightarrow> (\<exists>t\<in>pending s'. (\<forall>u\<in>pending s'. t \<le> u) \<and>
       d = max 0 (time_Sub t (os_clock s' (os_reads s' - 1)))))"
proof -
  have ok: "owner_ok s" using reachable_ok [OF assms(1,2)] assms(3) by blast
  obtain s1 where s1: "owner_ok s1" "resetTimer s1 = Some s'"
  proof (cases q)
    case (CommandRequest c)
    then obtain res s1 where "do_command c s = Some (res, s1)" "advances s s1"
      using do_command_advances [OF ok, of c] assms(4) by (auto simp: request_ok_def)
    with that [of s1] assms(6) CommandRequest show thesis by (auto simp: serve_def dest: advances_ok)
  next
    case TimerFired
    then obtain s1 where "handleTimer s = Some s1" "advances s s1" using handleTimer_advances [OF ok] by blast
    with that [of s1] assms(6) TimerFired show thesis by (auto simp: serve_def dest: advances_ok)
  qed (use assms(5) in simp)
  from resetTimer_spec [OF s1(1)] s1(2) have r: "advances s1 s'" "pending s' = pending s1"
    "os_timer s' = None \<longleftrightarrow> pending s1 = {}" "os_timer s' \<noteq> None \<longrightarrow> os_reads s' = Suc (os_reads s1)"
    "\<And>d. os_timer s' = Some d \<Longrightarrow> \<exists>t\<in>pending s1. d = max 0 (time_Sub t (os_clock s1 (os_reads s1))) \<and> (\<forall>u\<in>pending s1. t \<le> u)"
    by (auto simp: pending_def)
  then show ?thesis by (fastforce simp: advances_def)
qed

theorem timer_set_to_earliest_witness:
  "owner_reachable ex_clock None None ex_start \<and> serve ex_add ex_start = Some ex_one \<and>
   os_timer ex_one = Some 2000000000 \<and>
   (\<exists>t\<in>pending ex_one. 2000000000 = max 0 (time_Sub t (os_clock ex_one (os_reads ex_one - 1))))"
proof -
  note r = ex_start_reachable
  have q: "request_ok ex_add" "ex_add \<noteq> SnapshotRequest"
    by (simp_all add: request_ok_def ex_add_def command_ok_def zero_StateCommand_def)
  have t: "os_timer ex_one = Some 2000000000" by (simp add: ex_one_def)
  from timer_set_to_earliest [OF r ex_clock_ok _ q ex_served] r ex_served t show ?thesis by auto
qed

text \<open>
  C9: no presenter can keep a notification alive. A record that expires at all is closed by the first
  firing of the timer at an instant that is past its deadline and the end of the lease, or, if its
  countdown is paused (queued, hovered), past the end of the lease plus the time it had left; no
  further renewal is needed for this and a crashed presenter cannot prevent it.
\<close>

theorem paused_records_expire:
  assumes "owner_reachable clk sink store s" "clock_ok clk" "\<forall>h. store = Some h \<longrightarrow> store_ok h"
    "os_records s nid = Some r" "0 < rec_duration r"
    "(if rec_hasDeadline r then max (rec_deadline r) (os_leaseDeadline s)
      else os_leaseDeadline s + rec_remaining r) \<le> os_clock s (os_reads s)"
  shows "\<exists>s'. serve TimerFired s = Some s' \<and> os_records s' nid = None"
proof -
  have ok: "owner_ok s" using reachable_ok [OF assms(1,2)] assms(3) by blast
  obtain s1 where s1: "handleTimer s = Some s1" "advances s s1" "os_records s1 nid = None"
    using handleTimer_expires [OF ok assms(4,5,6)] by blast
  obtain s2 where "resetTimer s1 = Some s2" "os_records s2 = os_records s1"
    using resetTimer_spec [OF advances_ok [OF s1(2)]] by blast
  with s1 show ?thesis by (simp add: serve_def)
qed

theorem paused_records_expire_witness:
  "owner_reachable ex_clock None None ex_one \<and> clock_ok ex_clock \<and> os_records ex_one 1 = Some ex_record \<and>
   (\<exists>s'. serve TimerFired ex_one = Some s' \<and> os_records s' 1 = None)"
proof -
  have r: "os_records ex_one 1 = Some ex_record" by (simp add: ex_one_def)
  have d: "0 < rec_duration ex_record"
    by (simp add: ex_record_def startDeadline_def newRecord_def ex_duration)
  have "(if rec_hasDeadline ex_record then max (rec_deadline ex_record) (os_leaseDeadline ex_one)
      else os_leaseDeadline ex_one + rec_remaining ex_record) \<le> os_clock ex_one (os_reads ex_one)"
    by (simp add: ex_record_def startDeadline_def newRecord_def ex_duration time_Add_def ex_one_def ex_clock_def
        ex_now_def Second_def)
  from paused_records_expire [OF ex_reachable ex_clock_ok _ r d this] ex_reachable r show ?thesis by simp
qed

text \<open>
  the countdown of a record runs exactly while the notification expires at all and is visible or
  suppressed; with no lease in force every record is suppressed, so without a presenter every
  notification that expires is counting down.
\<close>

theorem countdown_runs:
  assumes "owner_reachable clk sink store s" "clock_ok clk" "\<forall>h. store = Some h \<longrightarrow> store_ok h"
    "os_records s nid = Some r"
  shows "(rec_hasDeadline r \<longleftrightarrow> 0 < rec_duration r \<and> rec_state r \<in> {PresentationVisible, PresentationSuppressed}) \<and>
    (os_leaseDeadline s = 0 \<longrightarrow> rec_state r = PresentationSuppressed) \<and>
    (\<not> rec_hasDeadline r \<longrightarrow> 0 \<le> rec_remaining r \<and> rec_remaining r \<le> rec_duration r)"
proof -
  have ok: "owner_ok s" using reachable_ok [OF assms(1,2)] assms(3) by blast
  show ?thesis using owner_okD(5) [OF ok assms(4)] owner_okD(10) [OF ok] assms(4)
    by (auto simp: rec_ok_def lease_ok_def)
qed

theorem countdown_runs_witness:
  "owner_reachable ex_clock None None ex_one \<and> clock_ok ex_clock \<and> os_records ex_one 1 = Some ex_record \<and>
   os_leaseDeadline ex_one = 0 \<and> rec_state ex_record = PresentationSuppressed \<and> rec_hasDeadline ex_record"
proof -
  have r: "os_records ex_one 1 = Some ex_record" and l: "os_leaseDeadline ex_one = 0" by (simp_all add: ex_one_def)
  have d: "0 < rec_duration ex_record"
    by (simp add: ex_record_def startDeadline_def newRecord_def ex_duration)
  from countdown_runs [OF ex_reachable ex_clock_ok _ r] ex_reachable r l d show ?thesis by simp
qed

text \<open>
  hovering stops the clock without losing or gaining time. When a visible notification with a
  running countdown is hovered at \<open>t1\<close> its deadline is taken down and what was left is kept; shown
  again at \<open>t2\<close>, it runs for exactly that long from \<open>t2\<close>.
\<close>

theorem hover_pauses:
  assumes "rec_state r = PresentationVisible" "rec_hasDeadline r" "0 < rec_duration r"
  shows "let r1 = setPresentation PresentationHovered t1 r; r2 = setPresentation PresentationVisible t2 r1
    in \<not> rec_hasDeadline r1 \<and> rec_remaining r1 = max 0 (time_Sub (rec_deadline r) t1) \<and>
       rec_hasDeadline r2 \<and> rec_deadline r2 = t2 + max 0 (time_Sub (rec_deadline r) t1)"
  using assms by (simp add: setPresentation_def Let_def time_Add_def)

theorem hover_pauses_witness:
  "let r = ex_record\<lparr>rec_state := PresentationVisible\<rparr>;
       r2 = setPresentation PresentationVisible 9000000000 (setPresentation PresentationHovered 4000000000 r)
   in rec_deadline r = 6000000000 \<and> rec_deadline r2 = 11000000000"
proof -
  let ?r = "ex_record\<lparr>rec_state := PresentationVisible\<rparr>"
  have "rec_deadline ex_record = 6000000000" "rec_hasDeadline ex_record" "0 < rec_duration ex_record"
    by (simp_all add: ex_record_def startDeadline_def newRecord_def ex_duration time_Add_def ex_now_def)
  with hover_pauses [of ?r 4000000000 9000000000] show ?thesis
    by (simp add: Let_def time_Sub_def minDuration_def maxDuration_def)
qed

subsection \<open>Presenters\<close>


definition ex_gen2 :: ownerState where
  "ex_gen2 = ex_start\<lparr>os_reads := Suc 0, os_acceptedGeneration := 2\<rparr>"

lemma ex_gen2_reachable: "owner_reachable ex_clock None None ex_gen2"
proof (rule owner_reachable.turn [OF ex_start_reachable])
  let ?c = "zero_StateCommand\<lparr>sc_Kind := KPresenterLost, sc_Generation := 1, sc_NextGeneration := 2\<rparr>"
  show "ready (CommandRequest ?c) ex_start" by (simp add: ready_def)
  show "request_ok (CommandRequest ?c)" by (simp add: request_ok_def command_ok_def zero_StateCommand_def)
  have "do_command ?c ex_start = Some (Inr zero_Result, ex_gen2)"
    by (simp add: do_command_def gatePresenter_def dispatch_def presenterLost_def clock_Now_def zero_StateCommand_def ex_gen2_def)
  moreover have "resetTimer ex_gen2 = Some ex_gen2"
    by (simp add: resetTimer_def ordered_records_def ex_gen2_def time_IsZero_def)
  ultimately show "serve (CommandRequest ?c) ex_start = Some ex_gen2" by (simp add: serve_def)
qed


text \<open>
  an accepted renewal does what the presenter reported. The lease runs for six seconds from the
  reading at hand, the generation is the accepted one, the set of active notifications is unchanged,
  each is in the state reported for it (suppressed if it was not mentioned), and the result holds one
  valid lifetime per active notification, in order.
\<close>

theorem renewal_takes_effect:
  assumes "owner_reachable clk sink store s" "clock_ok clk" "\<forall>h. store = Some h \<longrightarrow> store_ok h"
    "sc_Kind c = KPresentationRenew" "do_command c s = Some (Inr res, t)"
  shows "os_leaseDeadline t = os_clock s (os_reads s) + PresentationLease \<and>
    os_presenterGeneration t = sc_Generation c \<and> os_acceptedGeneration t = sc_Generation c \<and>
    os_order t = os_order s \<and> dom (os_records t) = dom (os_records s) \<and>
    (\<forall>nid r. os_records t nid = Some r \<longrightarrow> rec_state r = reportedState (sc_Presentations c) nid) \<and>
    map l_ID (res_Lifetimes res) = os_order t \<and> (\<forall>l\<in>set (res_Lifetimes res). Lifetime_Validate l = None)"
proof -
  have ok: "owner_ok s" using reachable_ok [OF assms(1,2)] assms(3) by blast
  let ?s1 = "s\<lparr>os_reads := Suc (os_reads s)\<rparr>" and ?now = "os_clock s (os_reads s)"
  let ?t = "renewed (sc_Generation c) (sc_Presentations c) ?now ?s1"
  have ok1: "owner_ok ?s1" and rd: "reading ?s1 ?now" using owner_ok_read [OF ok] reading_now [OF ok] by auto
  have rc: "renewCommand c ?now ?s1 = Some (Inr res, t)"
    using assms(4,5) by (simp add: do_command_def gatePresenter_def clock_Now_def dispatch_def)
  have acc: "renew (sc_Generation c) (sc_Presentations c) ?now ?s1 = Some (None, ?t) \<and> advances ?s1 ?t"
    using ok1 rd
    by (rule renew_cases [where generation = "sc_Generation c" and ps = "sc_Presentations c"])
      (use rc in \<open>auto simp: renewCommand_def\<close>)
  note adv = conjunct2 [OF acc]
  have "renewCommand c ?now ?s1 = Some (Inr (zero_Result\<lparr>res_Lifetimes := lifetimes_of ?now ?t\<rparr>), ?t)"
    by (simp add: renewCommand_def conjunct1 [OF acc] lifetimes_eq [OF advances_ok [OF adv]])
  then have t: "t = ?t" and lf: "res_Lifetimes res = lifetimes_of ?now ?t" using rc by auto
  have "reading ?t ?now" by (rule renewed_reading [OF ok1 rd])
  from lifetimes_of_valid [OF advances_ok [OF adv] this] lf
  have lv: "map l_ID (res_Lifetimes res) = os_order ?t" "\<forall>l\<in>set (res_Lifetimes res). Lifetime_Validate l = None"
    by simp_all
  show ?thesis
    unfolding t using lv by (auto simp: renewed_def Let_def cleared_def presented_def time_Add_def)
qed

theorem renewal_takes_effect_witness:
  "owner_reachable ex_clock None None ex_one \<and>
   (\<exists>res t. do_command (zero_StateCommand\<lparr>sc_Kind := KPresentationRenew, sc_Generation := 1,
       sc_Presentations := [\<lparr>p_ID = 1, p_State = PresentationHovered\<rparr>]\<rparr>) ex_one = Some (Inr res, t) \<and>
     os_leaseDeadline t = 13000000000 \<and> map l_ID (res_Lifetimes res) = [1])"
proof -
  let ?ps = "[\<lparr>p_ID = 1, p_State = PresentationHovered\<rparr>]"
  let ?c = "zero_StateCommand\<lparr>sc_Kind := KPresentationRenew, sc_Generation := 1, sc_Presentations := ?ps\<rparr>"
  have now: "os_clock ex_one (os_reads ex_one) = 7000000000" by (simp add: ex_one_def ex_clock_def Second_def)
  have v: "Command_Validate (zero_Command\<lparr>c_Kind := CommandPresentationRenew, c_Presentations := ?ps\<rparr>) = None"
    by (simp add: Command_Validate_def limit_defs)
  have ok: "owner_ok ex_one" by (rule reachable_ok [OF ex_reachable ex_clock_ok]) simp
  let ?s1 = "ex_one\<lparr>os_reads := Suc (os_reads ex_one)\<rparr>"
  have "renew 1 ?ps 7000000000 ?s1 = Some (None, renewed 1 ?ps 7000000000 ?s1)"
    using owner_ok_read [OF ok] reading_now [OF ok] unfolding now
    by (rule renew_cases [where generation = 1 and ps = ?ps]) (use v in \<open>auto simp: renew_def ex_one_def split: if_splits\<close>)
  moreover obtain ls where "lifetimes 7000000000 (renewed 1 ?ps 7000000000 ?s1) = Some ls"
    using lifetimes_eq [OF advances_ok [OF renewed_advances [OF owner_ok_read [OF ok] reading_now [OF ok] _ v, of 1]]] now
    by simp
  ultimately obtain res t where d: "do_command ?c ex_one = Some (Inr res, t)"
    using now by (simp add: do_command_def gatePresenter_def clock_Now_def dispatch_def renewCommand_def)
  from renewal_takes_effect [OF ex_reachable ex_clock_ok _ _ d] d ex_reachable now show ?thesis
    by (auto simp: PresentationLease_def Second_def ex_one_def zero_StateCommand_def)
qed

end
