(* ===== verification/OwnerOps.thy ===== *)
theory OwnerOps
  imports OwnerProps
begin

text \<open>
  The behaviour of the single operations of the owner: adding and replacing, the choice of a victim
  when the table is full, the detection of bursts, producers that publish under a key, closing,
  actions and dismissing everything.
\<close>

subsection \<open>Adding and replacing\<close>

text \<open>
  a valid notification that replaces nothing, added to a table that is not full, gets an ID that no
  active notification and no history entry uses, goes to the end of the order, and leaves every other
  record, the history and the producer table as they were; exactly one \<open>added\<close> delta is published.
\<close>

theorem add_gets_fresh_id:
  assumes "owner_reachable clk sink store s" "clock_ok clk" "\<forall>h. store = Some h \<longrightarrow> store_ok h"
    "validateCandidate c now = None" "os_records s (cand_ReplacesID c) = None"
    "length (os_order s) < MaxActiveNotifications"
  shows "\<exists>nid r t. addWithProducerKey c key prepared now s = Some (Inr (zero_Result\<lparr>res_ID := nid\<rparr>), t) \<and>
    nid \<noteq> 0 \<and> \<not> takenIDs s nid \<and> rec_notification r = notificationFromCandidate nid c now \<and>
    os_records t = (os_records s)(nid \<mapsto> r) \<and> os_order t = os_order s @ [nid] \<and>
    os_history t = os_history s \<and> os_producerIDs t = os_producerIDs s \<and>
    os_events t = os_events s @ delta_events (os_sequence s) [notificationDelta DeltaAdded r now]"
proof -
  have ok: "owner_ok s" using reachable_ok [OF assms(1,2)] assms(3) by blast
  obtain nid nxt where nid: "ResolveID 0 (os_nextID s) (takenIDs s) = Some (nid, nxt)" "nid \<noteq> 0" "\<not> takenIDs s nid"
    using ResolveID_owner [OF ok] by blast
  have "card (dom (os_records s)) = length (os_order s)"
    using owner_okD(1,2) [OF ok] by (simp add: distinct_card)
  with assms(6) have "card (dom (os_records s)) \<noteq> MaxActiveNotifications" by simp
  then have eq: "addWithProducerKey c key prepared now s = Some (Inr (zero_Result\<lparr>res_ID := nid\<rparr>),
      insertRecord nid (newRecord c key prepared now nid) now (s\<lparr>os_nextID := nxt\<rparr>))"
    using assms(4,5) nid(1) by (simp add: addWithProducerKey_def)
  define r where "r = addedRecord (newRecord c key prepared now nid) PresentationSuppressed False key now"
  have "insertRecord nid (newRecord c key prepared now nid) now (s\<lparr>os_nextID := nxt\<rparr>) =
      emit [notificationDelta DeltaAdded r now] (s\<lparr>os_nextID := nxt, os_records := (os_records s)(nid \<mapsto> r),
        os_order := os_order s @ [nid]\<rparr>)"
    by (simp add: insertRecord_eq Let_def r_def)
  moreover have "rec_notification r = notificationFromCandidate nid c now" by (simp add: r_def newRecord_def)
  ultimately show ?thesis
    using eq nid by (intro exI [of _ nid] exI [of _ r]) (simp add: emit_def)
qed

theorem add_gets_fresh_id_witness:
  "owner_reachable ex_clock None None ex_one \<and> validateCandidate ex_candidate ex_now = None \<and>
   (\<exists>nid t. addWithProducerKey ex_candidate [] None ex_now ex_one = Some (Inr (zero_Result\<lparr>res_ID := nid\<rparr>), t) \<and>
      nid \<noteq> 1 \<and> os_order t = [1, nid])"
proof -
  have c: "os_records ex_one (cand_ReplacesID ex_candidate) = None"
    by (simp add: ex_one_def ex_candidate_def zero_Candidate_def)
  have l: "length (os_order ex_one) < MaxActiveNotifications" by (simp add: ex_one_def MaxActiveNotifications_def)
  have "takenIDs ex_one 1" by (simp add: takenIDs_def ex_one_def)
  with add_gets_fresh_id [OF ex_reachable ex_clock_ok _ ex_valid c l, of "[]" None] ex_reachable ex_valid
  show ?thesis by (fastforce simp: ex_one_def)
qed

text \<open>
  a valid notification that names an active ID takes its place: the same ID is reported as
  replaced, the order is unchanged, the record keeps the presentation state and the displayed flag of
  the one it replaces, and a countdown that runs starts over with the new duration.
\<close>

theorem replace_keeps_place:
  assumes "validateCandidate c now = None" "os_records s (cand_ReplacesID c) = Some old"
  shows "\<exists>r t. addWithProducerKey c key prepared now s =
      Some (Inr (zero_Result\<lparr>res_ID := cand_ReplacesID c, res_Replaced := True\<rparr>), t) \<and>
    os_records t = (os_records s)(cand_ReplacesID c \<mapsto> r) \<and> os_order t = os_order s \<and>
    rec_notification r = notificationFromCandidate (cand_ReplacesID c) c now \<and>
    rec_state r = rec_state old \<and> rec_displayed r = rec_displayed old \<and>
    (rec_hasDeadline r \<longleftrightarrow> 0 < candidateDuration c \<and> rec_state old \<notin> {PresentationQueued, PresentationHovered}) \<and>
    (rec_hasDeadline r \<longrightarrow> rec_deadline r = now + candidateDuration c) \<and>
    os_events t = os_events s @ delta_events (os_sequence s) [notificationDelta DeltaReplaced r now]"
proof -
  let ?nid = "cand_ReplacesID c"
  define r where "r = addedRecord (newRecord c key prepared now ?nid) (rec_state old) (rec_displayed old) key now"
  have "rec_displayed r = rec_displayed old"
    "rec_hasDeadline r \<longleftrightarrow> 0 < candidateDuration c \<and> rec_state old \<notin> {PresentationQueued, PresentationHovered}"
    "rec_hasDeadline r \<longrightarrow> rec_deadline r = now + candidateDuration c"
    "rec_notification r = notificationFromCandidate ?nid c now" "rec_state r = rec_state old"
    by (auto simp: r_def addedRecord_def newRecord_def startDeadline_def Let_def time_Add_def)
  with assms show ?thesis
    by (intro exI [of _ r] exI [of _ "replaceRecord ?nid old (newRecord c key prepared now ?nid) key now s"])
      (simp add: addWithProducerKey_def Let_def replaceRecord_eq r_def [symmetric] emit_def)
qed

theorem replace_keeps_place_witness:
  "\<exists>r t. addWithProducerKey (ex_candidate\<lparr>cand_ReplacesID := 1\<rparr>) [] None ex_now ex_one =
      Some (Inr (zero_Result\<lparr>res_ID := 1, res_Replaced := True\<rparr>), t) \<and> os_order t = [1] \<and>
      os_records t 1 = Some r \<and> rec_state r = PresentationSuppressed"
proof -
  have v: "validateCandidate (ex_candidate\<lparr>cand_ReplacesID := 1\<rparr>) ex_now = None"
    using ex_valid by (auto simp: validateCandidate_def notificationFromCandidate_def split: if_splits)
  have r: "os_records ex_one (cand_ReplacesID (ex_candidate\<lparr>cand_ReplacesID := 1\<rparr>)) = Some ex_record"
    by (simp add: ex_one_def)
  have st: "rec_state ex_record = PresentationSuppressed" by (simp add: ex_record_def startDeadline_def newRecord_def)
  obtain r t where "addWithProducerKey (ex_candidate\<lparr>cand_ReplacesID := 1\<rparr>) [] None ex_now ex_one =
      Some (Inr (zero_Result\<lparr>res_ID := 1, res_Replaced := True\<rparr>), t)"
    "os_records t = (os_records ex_one)(1 \<mapsto> r)" "os_order t = os_order ex_one" "rec_state r = rec_state ex_record"
    using replace_keeps_place [OF v r, of "[]" None] by auto
  then show ?thesis using st by (intro exI [of _ r] exI [of _ t]) (simp add: ex_one_def)
qed

subsection \<open>Eviction\<close>

lemma choose_victim_find:
  assumes "set ids \<subseteq> dom m" "0 \<notin> set ids"
  shows "choose_victim P m ids =
    Some (case find (\<lambda>nid. P (the (m nid))) ids of None \<Rightarrow> 0 | Some v \<Rightarrow> v)"
  using assms by (induction ids) (auto split: option.splits)

text \<open>
  the victim of a full table is the oldest notification that expires and is not critical; if there
  is none, the oldest that is not critical; only if all are critical, the oldest of them.
\<close>

theorem eviction_policy:
  assumes "owner_reachable clk sink store s" "clock_ok clk" "\<forall>h. store = Some h \<longrightarrow> store_ok h"
    "os_order s \<noteq> []"
  shows "capacityVictim s = Some
    (case find (\<lambda>nid. n_Urgency (rec_notification (the (os_records s nid))) \<noteq> UrgencyCritical \<and>
                      0 < rec_duration (the (os_records s nid))) (os_order s) of
       Some v \<Rightarrow> v
     | None \<Rightarrow> (case find (\<lambda>nid. n_Urgency (rec_notification (the (os_records s nid))) \<noteq> UrgencyCritical) (os_order s) of
                 Some v \<Rightarrow> v
               | None \<Rightarrow> hd (os_order s)))"
proof -
  have ok: "owner_ok s" using reachable_ok [OF assms(1,2)] assms(3) by blast
  have find: "find Q (os_order s) = Some v \<Longrightarrow> v \<noteq> 0" for Q v
    using owner_okD(4) [OF ok] by (metis find_Some_iff nth_mem)
  show ?thesis
    unfolding capacityVictim_def using owner_okD(2,4) [OF ok] assms(4)
    by (auto simp: choose_victim_find find split: option.splits)
qed

theorem eviction_policy_witness:
  "owner_reachable ex_clock None None ex_one \<and> os_order ex_one \<noteq> [] \<and> capacityVictim ex_one = Some 1"
proof -
  have "os_order ex_one \<noteq> []" by (simp add: ex_one_def)
  moreover have "find P [1 :: u32] = Some 1 \<or> find P [1 :: u32] = None" for P by (cases "P 1") auto
  ultimately show ?thesis
    using eviction_policy [OF ex_reachable ex_clock_ok] ex_reachable
    by (auto simp: ex_one_def split: option.splits)
qed

subsection \<open>Bursts\<close>

text \<open>The records a candidate can be a duplicate of.\<close>

definition burst_match :: "Candidate \<Rightarrow> time \<Rightarrow> notifRecord \<Rightarrow> bool" where
  "burst_match c now r \<longleftrightarrow> rec_producerKey r = [] \<and> sameBurstKey (rec_candidate r) c \<and>
     0 \<le> time_Sub now (rec_lastReceived r) \<and> time_Sub now (rec_lastReceived r) \<le> notificationBurstWindow"

text \<open>\<open>latest A d\<close>: \<open>d\<close> is a record of \<open>A\<close> that was received last, or none if \<open>A\<close> is empty.\<close>

definition latest :: "notifRecord set \<Rightarrow> notifRecord option \<Rightarrow> bool" where
  "latest A d \<longleftrightarrow> (case d of None \<Rightarrow> A = {} | Some r \<Rightarrow> r \<in> A \<and> (\<forall>e\<in>A. rec_lastReceived e \<le> rec_lastReceived r))"

lemma latest_trans: "latest A d \<Longrightarrow> latest (set_option d \<union> B) e \<Longrightarrow> latest (A \<union> B) e"
  by (fastforce simp: latest_def split: option.splits)

lemma burst_loop_latest:
  "latest (set_option dup \<union> {r. \<exists>nid\<in>set ids. m nid = Some r \<and> burst_match c now r}) (burst_loop c now m dup ids)"
proof (induction ids arbitrary: dup)
  case Nil
  show ?case by (cases dup) (simp_all add: latest_def)
next
  case (Cons nid ids)
  let ?X = "{r. m nid = Some r \<and> burst_match c now r}"
  let ?R = "{r. \<exists>nid\<in>set ids. m nid = Some r \<and> burst_match c now r}"
  define dup' where "dup' = (case m nid of
      None \<Rightarrow> dup
    | Some r \<Rightarrow> if burst_match c now r
        then (case dup of None \<Rightarrow> Some r
              | Some d \<Rightarrow> if time_After (rec_lastReceived r) (rec_lastReceived d) then Some r else dup)
        else dup)"
  have step: "burst_loop c now m dup (nid # ids) = burst_loop c now m dup' ids"
    by (auto simp: dup'_def burst_match_def Let_def not_le not_less intro!: arg_cong2 [where f = "burst_loop c now m"]
        split: option.splits)
  have "latest (set_option dup \<union> ?X) dup'"
    by (auto simp: latest_def dup'_def time_After_def split: option.splits)
  from latest_trans [OF this Cons.IH [of dup']]
  have "latest ((set_option dup \<union> ?X) \<union> ?R) (burst_loop c now m dup (nid # ids))" by (simp only: step)
  moreover have "(set_option dup \<union> ?X) \<union> ?R =
      set_option dup \<union> {r. \<exists>nid\<in>set (nid # ids). m nid = Some r \<and> burst_match c now r}" by auto
  ultimately show ?case by (simp only:)
qed

text \<open>
  a notification is taken for a repetition exactly when some active notification that no producer
  owns has the same application, summary, body and urgency and was received at most five seconds ago;
  the ID that is reused is that of one received last.
\<close>

theorem burst_finds_latest_repetition:
  assumes "owner_reachable clk sink store s" "clock_ok clk" "\<forall>h. store = Some h \<longrightarrow> store_ok h"
  shows "(burstDuplicate c now s = 0 \<longleftrightarrow> (\<forall>r\<in>ran (os_records s). \<not> burst_match c now r)) \<and>
    (burstDuplicate c now s \<noteq> 0 \<longrightarrow> (\<exists>r. os_records s (burstDuplicate c now s) = Some r \<and> burst_match c now r \<and>
       (\<forall>e\<in>ran (os_records s). burst_match c now e \<longrightarrow> rec_lastReceived e \<le> rec_lastReceived r)))"
proof -
  have ok: "owner_ok s" using reachable_ok [OF assms(1,2)] assms(3) by blast
  let ?M = "{r \<in> ran (os_records s). burst_match c now r}"
  have dom: "dom (os_records s) = set (rev (os_order s))" using owner_okD(2) [OF ok] by simp
  have "{r. \<exists>nid\<in>set (rev (os_order s)). os_records s nid = Some r \<and> burst_match c now r} = ?M"
    unfolding dom [symmetric] by (auto simp: ran_def)
  with burst_loop_latest [of None "rev (os_order s)" "os_records s" c now]
  have l: "latest ?M (burst_loop c now (os_records s) None (rev (os_order s)))" by simp
  show ?thesis
  proof (cases "burst_loop c now (os_records s) None (rev (os_order s))")
    case None
    with l show ?thesis by (auto simp: latest_def burstDuplicate_def)
  next
    case (Some d)
    with l obtain nid where nid: "os_records s nid = Some d" "burst_match c now d"
      "\<forall>e\<in>?M. rec_lastReceived e \<le> rec_lastReceived d" by (auto simp: latest_def ran_def)
    have "n_ID (rec_notification d) = nid" using owner_okD(5) [OF ok nid(1)] by (simp add: rec_ok_def)
    moreover have "nid \<noteq> 0" using nid(1) owner_okD(2,4) [OF ok] by (auto simp: dom_def)
    moreover have "d \<in> ran (os_records s)" using nid(1) by (rule ranI)
    ultimately show ?thesis using Some nid by (auto simp: burstDuplicate_def)
  qed
qed

theorem burst_finds_latest_repetition_witness:
  "owner_reachable ex_clock None None ex_one \<and> burst_match ex_candidate 4000000000 ex_record \<and>
   burstDuplicate ex_candidate 4000000000 ex_one = 1"
proof -
  have m: "burst_match ex_candidate 4000000000 ex_record"
    by (simp add: burst_match_def ex_record_def startDeadline_def newRecord_def sameBurstKey_def time_Sub_def
        ex_now_def notificationBurstWindow_def Second_def minDuration_def maxDuration_def)
  have ran: "ran (os_records ex_one) = {ex_record}" by (simp add: ex_one_def ran_def)
  have dom: "os_records ex_one i = Some r \<Longrightarrow> i = 1" for i r by (simp add: ex_one_def split: if_splits)
  from burst_finds_latest_repetition [OF ex_reachable ex_clock_ok, of ex_candidate 4000000000] m ran dom ex_reachable
  show ?thesis by (metis insertI1 option.distinct(1))
qed

subsection \<open>Producers\<close>

lemma producer_candidate_valid:
  assumes "ProducerRequest_Validate p = None" "0 < now"
  shows "validateCandidate (producer_candidate p i) now = None"
  using assms
  by (auto simp: producer_candidate_def validateCandidate_def Notification_Validate_def notificationFromCandidate_def
      zero_Candidate_def zero_Sender_def ProducerRequest_Validate_def validateText_def time_IsZero_def
      image_option_Validate_def)

lemma publishProducer_valid:
  assumes ok: "owner_ok s" and rd: "0 < now" "\<forall>n\<ge>os_reads s. now \<le> os_clock s n"
    and p: "ProducerRequest_Validate p = None"
  obtains r t where "publishProducer (Some p) now s = Some (Inr r, t)" "advances s t"
    "os_producerIDs t (pr_Key p) = Some (res_ID r)"
    "os_producerIDs s (pr_Key p) \<noteq> None \<longrightarrow> res_Replaced r \<and> os_producerIDs s (pr_Key p) = Some (res_ID r)"
proof -
  have ne: "pr_Key p \<noteq> []" using p by (auto simp: ProducerRequest_Validate_def validateText_def)
  define c where "c = producer_candidate p (producerID s (pr_Key p))"
  have c: "cand_ReplacesID c = producerID s (pr_Key p)" "validateCandidate c now = None"
    using producer_candidate_valid [OF p rd(1)] by (simp_all add: c_def)
  note eq = publishProducer_eq [OF ok p, of now, folded c_def]
  show thesis
  proof (rule addWithProducerKey_advances [OF ok rd, of None "pr_Key p" c])
    fix res t
    assume a: "addWithProducerKey c (pr_Key p) None now s = Some (Inr res, t)"
      "advances s (bindKey (pr_Key p) (res_ID res) t)"
      "res_Replaced res = (os_records s (cand_ReplacesID c) \<noteq> None)"
      "res_Replaced res \<Longrightarrow> res_ID res = cand_ReplacesID c"
    have "os_records s (producerID s (pr_Key p)) \<noteq> None" if some: "os_producerIDs s (pr_Key p) \<noteq> None"
    proof -
      obtain i where i: "os_producerIDs s (pr_Key p) = Some i" using some by blast
      then have "os_records s i \<noteq> None" using owner_okD(8) [OF ok] unfolding producers_ok_def by blast
      with i show ?thesis by (simp add: producerID_def)
    qed
    moreover have "os_producerIDs s (pr_Key p) \<noteq> None \<Longrightarrow> os_producerIDs s (pr_Key p) = Some (producerID s (pr_Key p))"
      by (auto simp: producerID_def)
    ultimately show thesis
      using that [of res "bindKey (pr_Key p) (res_ID res) t"] a c ne by (auto simp: bindKey_def eq)
  qed (use c in simp_all)
qed

lemma publish_command:
  assumes ok: "owner_ok s" and c: "sc_Kind c = KProducerPublish" "sc_Producer c = Some p"
    "ProducerRequest_Validate p = None" "requirePresenter (sc_Generation c) s = None"
  obtains r t where "do_command c s = Some (Inr r, t)" "advances s t" "gens t = gens s"
    "os_producerIDs t (pr_Key p) = Some (res_ID r)"
    "os_producerIDs s (pr_Key p) \<noteq> None \<longrightarrow> res_Replaced r \<and> os_producerIDs s (pr_Key p) = Some (res_ID r)"
proof -
  let ?s1 = "s\<lparr>os_reads := Suc (os_reads s)\<rparr>" and ?now = "os_clock s (os_reads s)"
  obtain r t where t: "publishProducer (Some p) ?now ?s1 = Some (Inr r, t)" "advances ?s1 t"
    "os_producerIDs t (pr_Key p) = Some (res_ID r)"
    "os_producerIDs ?s1 (pr_Key p) \<noteq> None \<longrightarrow> res_Replaced r \<and> os_producerIDs ?s1 (pr_Key p) = Some (res_ID r)"
    using publishProducer_valid [OF owner_ok_read [OF ok] reading_le [OF reading_now [OF ok]] c(3)] .
  have "gatePresenter c s = None" using c by (simp add: gatePresenter_def)
  then have "do_command c s = Some (Inr r, t)" using t(1) c by (simp add: do_command_def clock_Now_def dispatch_def)
  moreover have "gens t = gens s" using gens_publishProducer [OF t(1)] by (simp add: gens_simps)
  ultimately show thesis using that [of r t] t advances_trans [OF advances_read [OF ok] t(2)] by simp
qed

text \<open>
  a producer's key is an idempotent handle. A valid publication that passes the presenter gate
  always succeeds; publishing again under the same key, with whatever content, updates the same
  notification: it reports a replacement of the ID that the first publication was given.
\<close>

theorem producer_key_is_stable:
  assumes "owner_reachable clk sink store s" "clock_ok clk" "\<forall>h. store = Some h \<longrightarrow> store_ok h"
    "sc_Kind c1 = KProducerPublish" "sc_Producer c1 = Some p1" "ProducerRequest_Validate p1 = None"
    "sc_Kind c2 = KProducerPublish" "sc_Producer c2 = Some p2" "ProducerRequest_Validate p2 = None"
    "requirePresenter (sc_Generation c1) s = None" "requirePresenter (sc_Generation c2) s = None"
    "pr_Key p1 = pr_Key p2"
  shows "\<exists>r1 t r2 u. do_command c1 s = Some (Inr r1, t) \<and> do_command c2 t = Some (Inr r2, u) \<and>
    res_ID r2 = res_ID r1 \<and> res_Replaced r2 \<and> os_producerIDs u (pr_Key p2) = Some (res_ID r1)"
proof -
  have ok: "owner_ok s" using reachable_ok [OF assms(1,2)] assms(3) by blast
  obtain r1 t where 1: "do_command c1 s = Some (Inr r1, t)" "advances s t" "gens t = gens s"
    "os_producerIDs t (pr_Key p1) = Some (res_ID r1)"
    using publish_command [OF ok assms(4,5,6,10)] by blast
  have "requirePresenter (sc_Generation c2) t = None"
    using assms(11) 1(3) by (auto simp: requirePresenter_def gens_def split: if_splits)
  from publish_command [OF advances_ok [OF 1(2)] assms(7-9) this] obtain r2 u where
    2: "do_command c2 t = Some (Inr r2, u)" "os_producerIDs u (pr_Key p2) = Some (res_ID r2)"
      "os_producerIDs t (pr_Key p2) \<noteq> None \<longrightarrow> res_Replaced r2 \<and> os_producerIDs t (pr_Key p2) = Some (res_ID r2)"
    by blast
  show ?thesis using 1 2 assms(12) by auto
qed

definition ex_producer :: ProducerRequest where
  "ex_producer = \<lparr>pr_Key = ''battery'', pr_AppName = ''power'', pr_Summary = ''Battery'', pr_Body = [],
     pr_Urgency = UrgencyNormal, pr_ExpireTimeoutMS = 0, pr_Value = Some 80\<rparr>"

definition ex_publish :: StateCommand where
  "ex_publish = zero_StateCommand\<lparr>sc_Kind := KProducerPublish, sc_Producer := Some ex_producer\<rparr>"

lemma ex_producer_valid: "ProducerRequest_Validate ex_producer = None"
proof -
  have "utf8_ValidString ''battery''" "utf8_ValidString ''power''" "utf8_ValidString ''Battery''"
    by (rule utf8_ascii, simp)+
  then show ?thesis
    by (simp add: ProducerRequest_Validate_def ex_producer_def validateText_def limit_defs Urgency_valid_def
        UrgencyNormal_def UrgencyCritical_def value_in_range_def)
qed

theorem producer_key_is_stable_witness:
  "owner_reachable ex_clock None None ex_one \<and>
   (\<exists>r1 t r2 u. do_command ex_publish ex_one = Some (Inr r1, t) \<and> do_command ex_publish t = Some (Inr r2, u) \<and>
      res_ID r2 = res_ID r1 \<and> res_Replaced r2)"
proof -
  have p: "sc_Kind ex_publish = KProducerPublish" "sc_Producer ex_publish = Some ex_producer"
    "requirePresenter (sc_Generation ex_publish) ex_one = None"
    by (simp_all add: ex_publish_def zero_StateCommand_def requirePresenter_def)
  from producer_key_is_stable [OF ex_reachable ex_clock_ok _ p(1,2) ex_producer_valid p(1,2) ex_producer_valid p(3,3)]
    ex_reachable show ?thesis by auto
qed

subsection \<open>Closing\<close>

text \<open>
  a transient or private notification leaves no trace. Closing it takes it out of the records, the
  order and the producer table and publishes one \<open>closed\<close> delta with the reason; the history, in
  memory and so on disk, is untouched.
\<close>

theorem private_close_leaves_no_trace:
  assumes "os_records s nid = Some r" "cand_Transient (rec_candidate r) \<or> cand_Private (rec_candidate r)"
  shows "close nid reason s = (None, snd (close nid reason s)) \<and>
    os_history (snd (close nid reason s)) = os_history s \<and>
    os_records (snd (close nid reason s)) = (os_records s)(nid := None) \<and>
    os_order (snd (close nid reason s)) = remove1 nid (os_order s) \<and>
    os_events (snd (close nid reason s)) = os_events s @
      [zero_Event\<lparr>ev_Sequence := os_sequence s + 1,
         ev_Delta := Some (zero_Delta\<lparr>d_Kind := DeltaClosed, d_ID := nid, d_CloseReason := reason\<rparr>)\<rparr>]"
  using assms by (auto simp: close_def Let_def publishDelta_emit emit_def forget_def split: option.splits)

theorem private_close_leaves_no_trace_witness:
  "let s = ex_one\<lparr>os_records := [1 \<mapsto> ex_record\<lparr>rec_candidate := ex_candidate\<lparr>cand_Private := True\<rparr>\<rparr>]\<rparr>
   in os_order (snd (close 1 CloseDismissed s)) = [] \<and> os_history (snd (close 1 CloseDismissed s)) = os_history s"
proof -
  let ?r = "ex_record\<lparr>rec_candidate := ex_candidate\<lparr>cand_Private := True\<rparr>\<rparr>"
  let ?s = "ex_one\<lparr>os_records := [1 \<mapsto> ?r]\<rparr>"
  have "os_records ?s 1 = Some ?r" "cand_Transient (rec_candidate ?r) \<or> cand_Private (rec_candidate ?r)" by simp_all
  from private_close_leaves_no_trace [OF this, of CloseDismissed] show ?thesis by (simp add: Let_def ex_one_def)
qed

text \<open>
  an action reaches the application before the notification disappears. Invoking an action that
  the notification offers publishes the action event first and then, unless it is resident, closes it
  as dismissed; an action it does not offer, or an ID that is not active, is an error and changes nothing.
\<close>

theorem action_precedes_close:
  assumes "owner_reachable clk sink store s" "clock_ok clk" "\<forall>h. store = Some h \<longrightarrow> store_ok h"
  shows "(\<forall>r. os_records s nid = Some r \<longrightarrow> key \<in> act_Key ` set (n_Actions (rec_notification r)) \<longrightarrow>
      fst (invokeAction nid key s) = None \<and>
      (\<exists>evs. os_events (snd (invokeAction nid key s)) =
         os_events s @ zero_Event\<lparr>ev_Action := Some \<lparr>ae_ID = nid, ae_Key = key\<rparr>\<rparr> # evs) \<and>
      (cand_Resident (rec_candidate r) \<longrightarrow> os_records (snd (invokeAction nid key s)) = os_records s) \<and>
      (\<not> cand_Resident (rec_candidate r) \<longrightarrow> os_records (snd (invokeAction nid key s)) = (os_records s)(nid := None))) \<and>
    ((\<forall>r. os_records s nid = Some r \<longrightarrow> key \<notin> act_Key ` set (n_Actions (rec_notification r))) \<longrightarrow>
      fst (invokeAction nid key s) \<noteq> None \<and> snd (invokeAction nid key s) = s)"
proof (intro conjI allI impI)
  have ok: "owner_ok s" using reachable_ok [OF assms(1,2)] assms(3) by blast
  let ?ev = "zero_Event\<lparr>ev_Action := Some \<lparr>ae_ID = nid, ae_Key = key\<rparr>\<rparr>"
  let ?s1 = "snd (publish ?ev s)"
  have ok1: "owner_ok ?s1" using ok by (simp add: publish_def)
  fix r assume r: "os_records s nid = Some r" "key \<in> act_Key ` set (n_Actions (rec_notification r))"
  have eq: "invokeAction nid key s = (if \<not> cand_Resident (rec_candidate r) then close nid CloseDismissed ?s1 else (None, ?s1))"
    using r by (auto simp: invokeAction_def Let_def)
  have "os_records ?s1 nid = Some r" using r(1) by simp
  note c = close_advances [OF ok1 close_reasons_valid(2) this]
  show "fst (invokeAction nid key s) = None" using c(1) by (simp add: eq)
  show "os_records (snd (invokeAction nid key s)) = os_records s" if "cand_Resident (rec_candidate r)"
    using that by (simp add: eq)
  show "os_records (snd (invokeAction nid key s)) = (os_records s)(nid := None)" if "\<not> cand_Resident (rec_candidate r)"
    using that c(3) by (simp add: eq)
  have "\<exists>evs. os_events (snd (invokeAction nid key s)) = os_events ?s1 @ evs"
    using c(2) by (auto simp: eq advances_def tracks_def)
  then show "\<exists>evs. os_events (snd (invokeAction nid key s)) = os_events s @ ?ev # evs"
    by (auto simp: publish_def)
qed (auto simp: invokeAction_def split: option.splits)

theorem action_precedes_close_witness:
  "owner_reachable ex_clock None None ex_one \<and> fst (invokeAction 1 ''open'' ex_one) \<noteq> None \<and>
   snd (invokeAction 1 ''open'' ex_one) = ex_one"
proof -
  have "\<forall>r. os_records ex_one 1 = Some r \<longrightarrow> ''open'' \<notin> act_Key ` set (n_Actions (rec_notification r))"
    by (simp add: ex_one_def ex_record_def startDeadline_def newRecord_def notificationFromCandidate_def
        ex_candidate_def zero_Candidate_def)
  with action_precedes_close [OF ex_reachable ex_clock_ok, of 1 "''open''"] ex_reachable show ?thesis by auto
qed

text \<open>
  dismissing everything dismisses everything: the command of a presenter in force succeeds and no
  notification is left active.
\<close>

theorem dismiss_all_empties:
  assumes "owner_reachable clk sink store s" "clock_ok clk" "\<forall>h. store = Some h \<longrightarrow> store_ok h"
    "sc_Kind c = KDismissAll" "requirePresenter (sc_Generation c) s = None"
  shows "\<exists>t. do_command c s = Some (Inr zero_Result, t) \<and> os_order t = [] \<and> os_records t = Map.empty"
proof -
  have ok: "owner_ok s" using reachable_ok [OF assms(1,2)] assms(3) by blast
  let ?s1 = "s\<lparr>os_reads := Suc (os_reads s)\<rparr>"
  let ?t = "snd (dismissLoop (os_order s) None ?s1)"
  have d: "fst (dismissLoop (os_order s) None ?s1) = None" "os_order ?t = []"
    using dismissLoop_all [OF owner_ok_read [OF ok]] by simp_all
  have "dom (os_records ?t) = set (os_order ?t)"
    using dismissLoop_advances [OF owner_ok_read [OF ok], of "os_order s" None] advances_ok owner_okD(2) by blast
  with d(2) have "os_records ?t = Map.empty" by simp
  moreover have "do_command c s = Some (Inr zero_Result, ?t)"
    using assms(4,5) d(1) by (simp add: do_command_def gatePresenter_def clock_Now_def dispatch_def result_of_def)
  ultimately show ?thesis using d(2) by blast
qed

theorem dismiss_all_empties_witness:
  "owner_reachable ex_clock None None ex_one \<and> os_order ex_one = [1] \<and>
   (\<exists>t. do_command (zero_StateCommand\<lparr>sc_Kind := KDismissAll\<rparr>) ex_one = Some (Inr zero_Result, t) \<and> os_order t = [])"
proof -
  have "requirePresenter (sc_Generation (zero_StateCommand\<lparr>sc_Kind := KDismissAll\<rparr>)) ex_one = None"
    by (simp add: requirePresenter_def zero_StateCommand_def)
  from dismiss_all_empties [OF ex_reachable ex_clock_ok _ _ this] ex_reachable show ?thesis
    by (auto simp: ex_one_def)
qed

end
