(* ===== verification/Lineage.thy ===== *)
theory Lineage
  imports Protocol Json
begin

text \<open>
  \<open>internal/sender/lineage.go\<close>: the ancestors of a sender, read from the process table. \<open>ReadFile\<close> is
  \<open>os.ReadFile\<close>; the root of the table is a clean path without a slash at its end, so that joining it is
  appending. The white space of \<open>TrimSpace\<close> and \<open>Fields\<close> is that of ASCII, the only one in a \<open>stat\<close> line
  outside the parentheses.
\<close>

subsection \<open>Strings (package strings and strconv)\<close>

definition is_space :: "char \<Rightarrow> bool" where
  "is_space c \<longleftrightarrow> of_char c \<in> {9, 10, 11, 12, 13, 32 :: nat}"

definition TrimSpace :: "string \<Rightarrow> string" where
  "TrimSpace s = rev (dropWhile is_space (rev (dropWhile is_space s)))"

text \<open>\<open>IndexByte\<close> and \<open>LastIndex\<close>; \<open>None\<close> is -1.\<close>

fun IndexByte :: "string \<Rightarrow> char \<Rightarrow> nat option" where
  "IndexByte [] c = None"
| "IndexByte (x # s) c = (if x = c then Some 0 else map_option Suc (IndexByte s c))"

fun LastIndex :: "string \<Rightarrow> string \<Rightarrow> nat option" where
  "LastIndex [] sub = (if sub = [] then Some 0 else None)"
| "LastIndex (x # s) sub =
     (case LastIndex s sub of
        Some i \<Rightarrow> Some (Suc i)
      | None \<Rightarrow> if take (length sub) (x # s) = sub then Some 0 else None)"

fun fields_from :: "string \<Rightarrow> string \<Rightarrow> string list" where
  "fields_from w [] = (if w = [] then [] else [w])"
| "fields_from w (c # s) =
     (if is_space c then (if w = [] then [] else [w]) @ fields_from [] s else fields_from (w @ [c]) s)"

definition Fields :: "string \<Rightarrow> string list" where
  "Fields s = fields_from [] s"

definition is_digit :: "char \<Rightarrow> bool" where
  "is_digit c \<longleftrightarrow> 48 \<le> (of_char c :: nat) \<and> (of_char c :: nat) \<le> 57"

text \<open>\<open>ParseUint\<close> in base 10 for a number of the given bits.\<close>

definition ParseUint :: "nat \<Rightarrow> string \<Rightarrow> nat option" where
  "ParseUint bits s =
     (if s = [] \<or> \<not> list_all is_digit s then None
      else (let n = foldl (\<lambda>n c. 10 * n + (of_char c - 48)) 0 s in if n < 2 ^ bits then Some n else None))"

subsection \<open>Capture (lineage.go)\<close>

definition stat_path :: "string \<Rightarrow> u32 \<Rightarrow> string" where
  "stat_path procRoot pid = procRoot @ ''/'' @ dec (uint pid) @ ''/stat''"

definition parseStat :: "u32 \<Rightarrow> string \<Rightarrow> (u32 \<times> u64) option" where
  "parseStat pid data =
     (let stat = TrimSpace data in
      do {
        close' \<leftarrow> LastIndex stat '') '';
        open' \<leftarrow> IndexByte stat (CHR ''('');
        if open' < 1 \<or> close' \<le> open' then None
        else do {
          parsedPID \<leftarrow> ParseUint 32 (TrimSpace (take open' stat));
          if of_nat parsedPID \<noteq> pid then None
          else
            (let fields = Fields (drop (close' + 2) stat) in
             if length fields < 20 \<or> length (fields ! 0) \<noteq> 1 then None
             else do {
               parent \<leftarrow> ParseUint 32 (fields ! 1);
               start \<leftarrow> ParseUint 64 (fields ! 19);
               if start = 0 then None else Some (of_nat parent, of_nat start)
             })
        }
      })"

definition readStat :: "(string \<Rightarrow> bytes option) \<Rightarrow> string \<Rightarrow> u32 \<Rightarrow> (u32 \<times> u64) option" where
  "readStat ReadFile procRoot pid = Option.bind (ReadFile (stat_path procRoot pid)) (parseStat pid)"

text \<open>The loop, with the number of entries that still fit; \<open>seen\<close> is the set of IDs already recorded.\<close>

fun capture_loop :: "(u32 \<Rightarrow> (u32 \<times> u64) option) \<Rightarrow> nat \<Rightarrow> u32 list \<Rightarrow> u64 \<Rightarrow> u32 \<Rightarrow> Process list" where
  "capture_loop stat 0 seen childStart pid = []"
| "capture_loop stat (Suc n) seen childStart pid =
     (if pid = 0 \<or> pid \<in> set seen then []
      else case stat pid of
        None \<Rightarrow> []
      | Some (parent, start) \<Rightarrow>
          if childStart \<noteq> 0 \<and> childStart < start then []
          else \<lparr>proc_PID = pid, proc_StartTime = start\<rparr> # capture_loop stat n (pid # seen) start parent)"

definition Capture :: "(string \<Rightarrow> bytes option) \<Rightarrow> string \<Rightarrow> u32 \<Rightarrow> Process list" where
  "Capture ReadFile procRoot pid = capture_loop (readStat ReadFile procRoot) MaxLineageEntries [] 0 pid"

subsection \<open>What a lineage is\<close>

lemma ParseUint_less: "ParseUint bits s = Some n \<Longrightarrow> n < 2 ^ bits"
  by (auto simp: ParseUint_def Let_def split: if_splits)

lemma readStat_start:
  assumes "readStat ReadFile procRoot pid = Some (parent, start)"
  shows "start \<noteq> 0"
proof -
  obtain n s where "ParseUint 64 s = Some n" "n \<noteq> 0" "start = of_nat n"
    using assms unfolding readStat_def parseStat_def Let_def
    by (auto simp: bind_eq_Some_conv split: if_splits)
  then show ?thesis using ParseUint_less [of 64 s n] by (simp add: word_of_nat_eq_0_iff nat_dvd_not_less)
qed

text \<open>Each process after the first is the parent that the process table gives for the one before it.\<close>

fun ancestry :: "(u32 \<Rightarrow> (u32 \<times> u64) option) \<Rightarrow> u32 \<Rightarrow> u64 \<Rightarrow> Process list \<Rightarrow> bool" where
  "ancestry stat pid childStart [] \<longleftrightarrow> True"
| "ancestry stat pid childStart (p # ps) \<longleftrightarrow> proc_PID p = pid \<and> pid \<noteq> 0 \<and> (childStart = 0 \<or> proc_StartTime p \<le> childStart) \<and>
     (\<exists>parent. stat pid = Some (parent, proc_StartTime p) \<and> ancestry stat parent (proc_StartTime p) ps)"

lemma capture_loop_ancestry: "ancestry stat pid childStart (capture_loop stat n seen childStart pid)"
  by (induction stat n seen childStart pid rule: capture_loop.induct) (auto split: option.splits)

lemma capture_loop_length: "length (capture_loop stat n seen childStart pid) \<le> n"
  by (induction stat n seen childStart pid rule: capture_loop.induct) (auto split: option.splits)

lemma capture_loop_distinct:
  "distinct (map proc_PID (capture_loop stat n seen childStart pid)) \<and>
   proc_PID ` set (capture_loop stat n seen childStart pid) \<inter> set seen = {}"
proof (induction n arbitrary: seen childStart pid)
  case (Suc n)
  show ?case
  proof (cases "stat pid")
    case (Some p)
    then show ?thesis using Suc.IH [of "pid # seen" "snd p" "fst p"] by (cases p) auto
  qed simp
qed simp

lemma ancestry_starts:
  assumes "ancestry (readStat ReadFile procRoot) pid childStart ps" "p \<in> set ps"
  shows "proc_PID p \<noteq> 0" "proc_StartTime p \<noteq> 0"
  using assms
  by (induction "readStat ReadFile procRoot" pid childStart ps rule: ancestry.induct) (auto dest: readStat_start)

lemma Capture_valid:
  "length (Capture ReadFile procRoot pid) \<le> MaxLineageEntries"
  "p \<in> set (Capture ReadFile procRoot pid) \<Longrightarrow> proc_PID p \<noteq> 0 \<and> proc_StartTime p \<noteq> 0"
  using capture_loop_length ancestry_starts [OF capture_loop_ancestry] by (auto simp: Capture_def)

text \<open>
  C40: Whatever the process table holds, cycles and garbage included, capturing a lineage ends; the lineage starts at
  the sender, each further entry is the recorded parent of the one before it and did not start after it, no
  process occurs twice, and there are at most sixteen entries, all with an ID and a start time.
\<close>

theorem lineage_is_an_ancestry:
  "ancestry (readStat ReadFile procRoot) pid 0 (Capture ReadFile procRoot pid) \<and>
   distinct (map proc_PID (Capture ReadFile procRoot pid)) \<and>
   length (Capture ReadFile procRoot pid) \<le> MaxLineageEntries \<and>
   list_all (\<lambda>p. proc_PID p \<noteq> 0 \<and> proc_StartTime p \<noteq> 0) (Capture ReadFile procRoot pid)"
  using capture_loop_ancestry capture_loop_distinct Capture_valid by (auto simp: Capture_def list_all_iff)

end
