(* ===== verification/Normalize.thy ===== *)
theory Normalize
  imports Notify HistoryImage Lineage "HOL-Library.Multiset"
begin

text \<open>
  \<open>internal/notify/normalize.go\<close> and \<open>internal/notify/image.go\<close>: a request of the bus becomes a candidate
  notification. Hints are a list of pairs with distinct keys, in the order in which the program happens to
  range over the map; the lookups of \<open>applyImageHints\<close> are \<open>map_of\<close>. A panic (an index out of range) is
  \<open>None\<close>. The PNG encoder is a parameter, as in the history; \<open>url.Parse\<close> is modelled for the \<open>file\<close> scheme,
  the only one it is called on.
\<close>

subsection \<open>Raw images (image.go)\<close>

record RawImage =
  raw_Width :: i32
  raw_Height :: i32
  raw_RowStride :: i32
  raw_HasAlpha :: bool
  raw_BitsPerSample :: i32
  raw_Channels :: i32
  raw_Data :: bytes

text \<open>
  The products are of 64 bits in the source. They are exact here: once the dimensions have passed the first
  check, a factor of at most 4096 times a 32-bit number is far from overflowing.
\<close>

definition RawImage_Validate :: "RawImage \<Rightarrow> error" where
  "RawImage_Validate r =
     (let w = sint (raw_Width r); h = sint (raw_Height r); stride = sint (raw_RowStride r); ch = sint (raw_Channels r);
          minimumStride = w * ch; rawBytes = stride * h; minimumBytes = stride * (h - 1) + minimumStride;
          decodedBytes = w * h * 4; dataBytes = int (length (raw_Data r))
      in first_error
        [fail_if (w \<le> 0 \<or> h \<le> 0 \<or> MaxSourceImageDimension < w \<or> MaxSourceImageDimension < h)
           (Err ''notify: invalid image dimensions''),
         fail_if (sint (raw_BitsPerSample r) \<noteq> 8 \<or> (ch \<noteq> 3 \<and> ch \<noteq> 4) \<or> (raw_HasAlpha r \<and> ch \<noteq> 4))
           (Err ''notify: unsupported image format''),
         fail_if (stride \<le> 0 \<or> stride < minimumStride) (Err ''notify: invalid image row stride''),
         fail_if (MaxSourceImageBytes < rawBytes \<or> MaxSourceImageBytes < decodedBytes \<or>
                  dataBytes < minimumBytes \<or> rawBytes < dataBytes)
           (Err ''notify: invalid image data length'')])"

definition byte_at :: "bytes \<Rightarrow> nat \<Rightarrow> u8 option" where
  "byte_at d i = (if i < length d then Some (of_char (d ! i)) else None)"

definition pixel_at :: "RawImage \<Rightarrow> nat \<Rightarrow> nat \<Rightarrow> pixel option" where
  "pixel_at raw sourceX sourceY =
     (let source = sourceY * nat (sint (raw_RowStride raw)) + sourceX * nat (sint (raw_Channels raw)) in
      do {
        r \<leftarrow> byte_at (raw_Data raw) source;
        g \<leftarrow> byte_at (raw_Data raw) (source + 1);
        b \<leftarrow> byte_at (raw_Data raw) (source + 2);
        a \<leftarrow> (if raw_HasAlpha raw then byte_at (raw_Data raw) (source + 3) else Some 0xff);
        Some (r, g, b, a)
      })"

definition resample :: "RawImage \<Rightarrow> nat \<Rightarrow> nat \<Rightarrow> nrgba option" where
  "resample raw dstWidth dstHeight =
     (let width = nat (sint (raw_Width raw)); height = nat (sint (raw_Height raw)) in
      those (map (\<lambda>y. those (map (\<lambda>x. pixel_at raw (x * width div dstWidth) (y * height div dstHeight)) [0..<dstWidth]))
        [0..<dstHeight]))"

definition normalizeImage :: "codec \<Rightarrow> RawImage \<Rightarrow> (err + Image) option" where
  "normalizeImage c raw =
     (case RawImage_Validate raw of
        Some e \<Rightarrow> Some (Inl e)
      | None \<Rightarrow>
          (let (dstWidth, dstHeight) =
             scaled MaxWireImageLongEdge (nat (sint (raw_Width raw))) (nat (sint (raw_Height raw)))
           in map_option (\<lambda>dst.
                case png_Encode c dst of
                  None \<Rightarrow> Inl (Err ''png: encode'')
                | Some encoded \<Rightarrow>
                    if MaxWireImageBytes < length encoded then Inl (Err ''notify: encoded image exceeds wire limit'')
                    else Inr \<lparr>img_MediaType = ''image/png'', img_Width = of_nat dstWidth,
                              img_Height = of_nat dstHeight, img_Data = encoded\<rparr>)
              (resample raw dstWidth dstHeight)))"

subsection \<open>Reading a file URI (package net/url)\<close>

datatype escape_mode = encodePath | encodeHost | encodeOther

definition is_hex :: "char \<Rightarrow> bool" where
  "is_hex c \<longleftrightarrow> (let n = (of_char c :: nat) in 48 \<le> n \<and> n \<le> 57 \<or> 97 \<le> n \<and> n \<le> 102 \<or> 65 \<le> n \<and> n \<le> 70)"

definition unhex :: "char \<Rightarrow> nat" where
  "unhex c = (let n = (of_char c :: nat) in if n \<le> 57 then n - 48 else if 97 \<le> n then n - 87 else n - 55)"

definition is_alnum :: "char \<Rightarrow> bool" where
  "is_alnum c \<longleftrightarrow> (let n = (of_char c :: nat) in 48 \<le> n \<and> n \<le> 57 \<or> 65 \<le> n \<and> n \<le> 90 \<or> 97 \<le> n \<and> n \<le> 122)"

definition host_char :: "char \<Rightarrow> bool" where
  "host_char c \<longleftrightarrow> (of_char c :: nat) \<ge> 128 \<or> is_alnum c \<or> c \<in> set ''-_.~!$&()*+,;=:[]<>'' \<or> c \<in> {CHR 0x22, CHR 0x27}"

text \<open>\<open>None\<close> is an escape error; in a host only bytes above 127 and the percent sign may be escaped.\<close>

fun unescape :: "escape_mode \<Rightarrow> string \<Rightarrow> string option" where
  "unescape m [] = Some []"
| "unescape m (c # s) =
     (if c = CHR ''%'' then
        (case s of
           a # b # r \<Rightarrow>
             if \<not> is_hex a \<or> \<not> is_hex b \<or> m = encodeHost \<and> unhex a < 8 \<and> \<not> (a = CHR ''2'' \<and> b = CHR ''5'') then None
             else map_option (Cons (char_of (16 * unhex a + unhex b))) (unescape m r)
         | _ \<Rightarrow> None)
      else if m = encodeHost \<and> \<not> host_char c then None
      else map_option (Cons c) (unescape m s))"

definition cut_at :: "char \<Rightarrow> string \<Rightarrow> string \<times> string" where
  "cut_at c s = (takeWhile (\<lambda>x. x \<noteq> c) s, drop 1 (dropWhile (\<lambda>x. x \<noteq> c) s))"

definition valid_userinfo :: "string \<Rightarrow> bool" where
  "valid_userinfo s \<longleftrightarrow> list_all (\<lambda>c. is_alnum c \<or> c \<in> set ''-._:~!$&()*+,;=%@'' \<or> c = CHR 0x27) s"

text \<open>
  A host in brackets is returned as it stands, without the checks of an address literal; the caller accepts
  neither such a host nor an error.
\<close>

definition parseHost :: "string \<Rightarrow> string option" where
  "parseHost host =
     (if CHR ''['' \<in> set host then Some host
      else if CHR '':'' \<in> set host \<and> \<not> list_all is_digit (rev (takeWhile (\<lambda>x. x \<noteq> CHR '':'') (rev host))) then None
      else unescape encodeHost host)"

definition parseAuthority :: "string \<Rightarrow> string option" where
  "parseAuthority authority =
     (case LastIndex authority ''@'' of
        None \<Rightarrow> parseHost authority
      | Some i \<Rightarrow>
          (case parseHost (drop (i + 1) authority) of
             None \<Rightarrow> None
           | Some host \<Rightarrow>
               (let userinfo = take i authority; (user, password) = cut_at (CHR '':'') userinfo in
                if \<not> valid_userinfo userinfo \<or> unescape encodeOther user = None \<or> unescape encodeOther password = None
                then None else Some host)))"

text \<open>The host and the path of a URI that starts with \<open>file://\<close>.\<close>

definition url_Parse :: "string \<Rightarrow> (string \<times> string) option" where
  "url_Parse raw =
     (let (u, frag) = cut_at (CHR ''#'') raw in
      if \<exists>c\<in>set u. of_char c < (32::nat) \<or> of_char c = (127::nat) then None
      else
        (let rest = fst (cut_at (CHR ''?'') (drop 7 u));
             authority = takeWhile (\<lambda>x. x \<noteq> CHR ''/'') rest; path = dropWhile (\<lambda>x. x \<noteq> CHR ''/'') rest
         in do {
              host \<leftarrow> parseAuthority authority;
              p \<leftarrow> unescape encodePath path;
              f \<leftarrow> unescape encodeOther frag;
              Some (host, p)
            }))"

subsection \<open>Hints (normalize.go)\<close>

datatype hint = HByte u8 | HBool bool | HInt32 i32 | HString string | HRawImage RawImage | HOther

type_synonym hints = "(string \<times> hint) list"

record Request =
  req_AppName :: string
  req_AppIcon :: string
  req_Summary :: string
  req_Body :: string
  req_ReplacesID :: u32
  req_Actions :: "string list"
  req_Hints :: hints
  req_ExpireTimeout :: i32
  req_Sender :: Sender

definition validateString :: "string \<Rightarrow> string \<Rightarrow> bool \<Rightarrow> error" where
  "validateString name value emptyOK = first_error
     [fail_if (\<not> utf8_ValidString value) (Err (''notify: '' @ name @ '' is not valid UTF-8'')),
      fail_if ((\<not> emptyOK \<and> value = []) \<or> MaxBodyBytes < length value) (Err (''notify: invalid '' @ name @ '' length''))]"

definition imagePathIcon :: "string \<Rightarrow> string option" where
  "imagePathIcon h =
     (if take 7 h = ''file://'' then
        (case url_Parse h of
           None \<Rightarrow> None
         | Some (host, path) \<Rightarrow>
             if host \<noteq> [] \<and> host \<noteq> ''localhost'' \<or> take 1 path \<noteq> ''/'' \<or> path = ''/'' then None else Some path)
      else if take 1 h = ''/'' then Some h
      else if h = ''.'' \<or> h = ''..'' \<or> CHR ''/'' \<in> set h \<or> CHR '':'' \<in> set h then None
      else Some h)"

definition applyImageHints :: "codec \<Rightarrow> hints \<Rightarrow> Candidate \<Rightarrow> Candidate option" where
  "applyImageHints c hs cand =
     (case map_of hs ''image-data'' of
        Some (HRawImage raw) \<Rightarrow>
          (case normalizeImage c raw of
             None \<Rightarrow> None
           | Some (Inl e) \<Rightarrow> Some (cand\<lparr>cand_ImageRejected := True\<rparr>)
           | Some (Inr img) \<Rightarrow> Some (cand\<lparr>cand_Image := Some img, cand_AppIcon := []\<rparr>))
      | Some _ \<Rightarrow> Some (cand\<lparr>cand_ImageRejected := True\<rparr>)
      | None \<Rightarrow>
          (case map_of hs ''image-path'' of
             None \<Rightarrow> Some cand
           | Some (HString path) \<Rightarrow>
               if validateString ''image path'' path True \<noteq> None then Some (cand\<lparr>cand_ImageRejected := True\<rparr>)
               else if path = [] then Some cand
               else (case imagePathIcon path of
                       None \<Rightarrow> Some (cand\<lparr>cand_ImageRejected := True\<rparr>)
                     | Some icon \<Rightarrow> Some (cand\<lparr>cand_AppIcon := icon\<rparr>))
           | Some _ \<Rightarrow> Some (cand\<lparr>cand_ImageRejected := True\<rparr>)))"

text \<open>One turn of the loop over the hints.\<close>

definition hint_text :: "string \<Rightarrow> hint \<Rightarrow> string option" where
  "hint_text name v = (case v of HString s \<Rightarrow> if validateString name s True = None then Some s else None | _ \<Rightarrow> None)"

definition hint_bool :: "hint \<Rightarrow> bool" where
  "hint_bool v = (case v of HBool b \<Rightarrow> b | _ \<Rightarrow> False)"

definition apply_hint :: "string \<times> hint \<Rightarrow> Candidate \<Rightarrow> Candidate" where
  "apply_hint kv cand =
     (let (key, v) = kv in
      if key = ''urgency'' then
        (case v of HByte u \<Rightarrow> if u \<le> UrgencyCritical then cand\<lparr>cand_Urgency := u\<rparr> else cand | _ \<Rightarrow> cand)
      else if key = ''transient'' then cand\<lparr>cand_Transient := hint_bool v\<rparr>
      else if key = ''x-sysc-private'' then cand\<lparr>cand_Private := hint_bool v\<rparr>
      else if key = ''resident'' then cand\<lparr>cand_Resident := hint_bool v\<rparr>
      else if key = ''desktop-entry'' then
        (case hint_text ''desktop entry'' v of Some s \<Rightarrow> cand\<lparr>cand_DesktopEntry := s\<rparr> | None \<Rightarrow> cand)
      else if key = ''category'' then
        (case hint_text ''category'' v of Some s \<Rightarrow> cand\<lparr>cand_Category := s\<rparr> | None \<Rightarrow> cand)
      else if key = ''value'' then
        (case v of HInt32 n \<Rightarrow> if 0 \<le> sint n \<and> sint n \<le> 100 then cand\<lparr>cand_Value := Some n\<rparr> else cand | _ \<Rightarrow> cand)
      else if key = ''x-kde-reply-placeholder-text'' then
        (case hint_text ''reply placeholder'' v of
           Some s \<Rightarrow> cand\<lparr>cand_InlineReply := True, cand_ReplyPlaceholder := s\<rparr> | None \<Rightarrow> cand)
      else cand)"

subsection \<open>Normalize (normalize.go)\<close>

text \<open>The loop over the action list, two strings at a time; \<open>seen\<close> are the keys so far.\<close>

fun action_loop :: "string list \<Rightarrow> string list \<Rightarrow> Candidate \<Rightarrow> err + Candidate" where
  "action_loop seen (k # l # rest) cand =
     (let action = \<lparr>act_Key = k, act_Label = l\<rparr> in
      case Action_Validate action of
        Some e \<Rightarrow> Inl (Wrap ''notify: action'' e)
      | None \<Rightarrow>
          if k \<in> set seen then Inl (Err ''notify: duplicate action key'')
          else action_loop (k # seen) rest
            (cand\<lparr>cand_Actions := cand_Actions cand @ [action],
                  cand_InlineReply := (cand_InlineReply cand \<or> k = ''inline-reply'')\<rparr>))"
| "action_loop seen _ cand = Inr cand"

text \<open>
  The five texts are checked in the order of a map, so only which error is returned when several are bad
  depends on it.
\<close>

definition Normalize :: "codec \<Rightarrow> Request \<Rightarrow> (err + Candidate) option" where
  "Normalize c r =
     (case first_error
        [fail_if (MaxHints < length (req_Hints r)) (Err ''notify: too many hints''),
         fail_if (sint (req_ExpireTimeout r) < -1) (Err ''notify: invalid expiry timeout''),
         validateString ''app name'' (req_AppName r) True, validateString ''app icon'' (req_AppIcon r) True,
         validateString ''summary'' (req_Summary r) True, validateString ''body'' (req_Body r) True,
         validateString ''sender'' (sender_Name (req_Sender r)) True,
         fail_if (odd (length (req_Actions r)) \<or> MaxActionPairs < length (req_Actions r) div 2)
           (Err ''notify: invalid action list'')] of
        Some e \<Rightarrow> Some (Inl e)
      | None \<Rightarrow>
          (case action_loop [] (req_Actions r)
             (zero_Candidate\<lparr>cand_AppName := req_AppName r, cand_AppIcon := req_AppIcon r, cand_Summary := req_Summary r,
                cand_Body := req_Body r, cand_ReplacesID := req_ReplacesID r, cand_ExpireTimeout := req_ExpireTimeout r,
                cand_Urgency := UrgencyNormal, cand_Sender := req_Sender r\<rparr>) of
             Inl e \<Rightarrow> Some (Inl e)
           | Inr cand \<Rightarrow> map_option Inr (applyImageHints c (req_Hints r) (fold apply_hint (req_Hints r) cand))))"

subsection \<open>Images are read within their bounds\<close>

lemma those_map_defined: "(\<And>x. x \<in> set xs \<Longrightarrow> f x \<noteq> None) \<Longrightarrow> those (map f xs) \<noteq> None"
  by (induction xs) (auto split: option.splits)

lemma those_map_length: "those (map f xs) = Some ys \<Longrightarrow> length ys = length xs"
  by (induction xs arbitrary: ys) (auto split: option.splits)

lemma scaled_index: "i < d \<Longrightarrow> 0 < w \<Longrightarrow> i * w div d < (w :: nat)"
  by (simp add: div_less_iff_less_mult)

lemma RawImage_Validate_None:
  assumes "RawImage_Validate raw = None"
  shows "0 < sint (raw_Width raw)" "0 < sint (raw_Height raw)" "sint (raw_Width raw) \<le> 4096" "sint (raw_Height raw) \<le> 4096"
    "sint (raw_Channels raw) = 3 \<or> sint (raw_Channels raw) = 4" "raw_HasAlpha raw \<Longrightarrow> sint (raw_Channels raw) = 4"
    "0 < sint (raw_RowStride raw)"
    "sint (raw_RowStride raw) * (sint (raw_Height raw) - 1) + sint (raw_Width raw) * sint (raw_Channels raw) \<le> int (length (raw_Data raw))"
  using assms by (auto simp: RawImage_Validate_def Let_def MaxSourceImageDimension_def)

lemma pixel_at_Some:
  assumes v: "RawImage_Validate raw = None" and x: "x < nat (sint (raw_Width raw))" and y: "y < nat (sint (raw_Height raw))"
  shows "pixel_at raw x y \<noteq> None"
proof -
  note r = RawImage_Validate_None [OF v]
  define w h st ch where "w = nat (sint (raw_Width raw))" and "h = nat (sint (raw_Height raw))"
    and "st = nat (sint (raw_RowStride raw))" and "ch = nat (sint (raw_Channels raw))"
  have i: "sint (raw_Width raw) = int w" "sint (raw_Height raw) = int h" "sint (raw_RowStride raw) = int st"
    "sint (raw_Channels raw) = int ch" using r by (auto simp: w_def h_def st_def ch_def)
  have xy: "x < w" "y < h" using x y by (simp_all add: w_def h_def)
  have "int (st * (h - 1) + w * ch) \<le> int (length (raw_Data raw))"
    using r(8) xy unfolding i by (simp add: of_nat_diff)
  then have len: "st * (h - 1) + w * ch \<le> length (raw_Data raw)" by linarith
  have "st * y \<le> st * (h - 1)" using xy by (intro mult_le_mono2) linarith
  then have "y * st \<le> st * (h - 1)" by (simp add: mult.commute)
  moreover have "x * ch + ch \<le> w * ch" using xy mult_le_mono1 [of "Suc x" w ch] by simp
  ultimately have last: "y * st + x * ch + ch \<le> length (raw_Data raw)" using len by linarith
  have "ch = 3 \<or> ch = 4" "raw_HasAlpha raw \<Longrightarrow> ch = 4" using r(5,6) unfolding i by auto
  with last show ?thesis
    by (auto simp: pixel_at_def Let_def byte_at_def st_def [symmetric] ch_def [symmetric])
qed

lemma resample_Some:
  assumes v: "RawImage_Validate raw = None"
  shows "resample raw dw dh \<noteq> None"
  unfolding resample_def Let_def
  using RawImage_Validate_None(1,2) [OF v]
  by (intro those_map_defined pixel_at_Some [OF v] scaled_index) auto

lemma normalizeImage_spec:
  "case normalizeImage c raw of
     None \<Rightarrow> False
   | Some (Inl e) \<Rightarrow> True
   | Some (Inr img) \<Rightarrow>
       img_MediaType img = ''image/png'' \<and> img_Width img \<noteq> 0 \<and> img_Height img \<noteq> 0 \<and>
       unat (img_Width img) \<le> MaxWireImageLongEdge \<and> unat (img_Height img) \<le> MaxWireImageLongEdge \<and>
       length (img_Data img) \<le> MaxWireImageBytes"
proof (cases "RawImage_Validate raw")
  case (Some e)
  then show ?thesis by (simp add: normalizeImage_def)
next
  case None
  obtain dw dh where d: "scaled MaxWireImageLongEdge (nat (sint (raw_Width raw))) (nat (sint (raw_Height raw))) = (dw, dh)"
    by (cases "scaled MaxWireImageLongEdge (nat (sint (raw_Width raw))) (nat (sint (raw_Height raw)))")
  obtain dst where dst: "resample raw dw dh = Some dst" using resample_Some [OF None] by blast
  have b: "1 \<le> dw" "1 \<le> dh" "dw \<le> MaxWireImageLongEdge" "dh \<le> MaxWireImageLongEdge"
    using scaled_le_edge [OF d] RawImage_Validate_None [OF None] by (auto simp: MaxWireImageLongEdge_def)
  then have "unat (of_nat dw :: u32) = dw" "unat (of_nat dh :: u32) = dh"
    by (simp_all add: unat_of_nat MaxWireImageLongEdge_def)
  moreover from this b have "(of_nat dw :: u32) \<noteq> 0" "(of_nat dh :: u32) \<noteq> 0" by auto
  ultimately show ?thesis
    using b by (auto simp: normalizeImage_def None d dst split: option.splits)
qed

text \<open>
  C35: Converting an image hint never reads outside the data it was given, whatever dimensions, stride, format and
  length the sender claims: \<open>normalizeImage\<close> does not panic. When it produces an image, its edges are between 1
  and 512 pixels and its data within the wire limit.
\<close>

theorem image_hints_are_read_in_bounds:
  "case normalizeImage c raw of
     None \<Rightarrow> False
   | Some (Inl e) \<Rightarrow> True
   | Some (Inr img) \<Rightarrow>
       img_MediaType img = ''image/png'' \<and> img_Width img \<noteq> 0 \<and> img_Height img \<noteq> 0 \<and>
       unat (img_Width img) \<le> MaxWireImageLongEdge \<and> unat (img_Height img) \<le> MaxWireImageLongEdge \<and>
       length (img_Data img) \<le> MaxWireImageBytes"
  by (rule normalizeImage_spec)

subsection \<open>The order of the hints does not matter\<close>

text \<open>A hint changes a field only under its own key: the effect of one hint, field by field.\<close>

definition on_key :: "string \<Rightarrow> (hint \<Rightarrow> 'a \<Rightarrow> 'a) \<Rightarrow> string \<Rightarrow> hint \<Rightarrow> 'a \<Rightarrow> 'a" where
  "on_key key f k v x = (if k = key then f v x else x)"

lemma on_key_commute: "k \<noteq> k' \<Longrightarrow> on_key key f k v (on_key key f k' v' x) = on_key key f k' v' (on_key key f k v x)"
  by (auto simp: on_key_def)

definition text_or :: "string \<Rightarrow> hint \<Rightarrow> string \<Rightarrow> string" where
  "text_or name v x = (case hint_text name v of None \<Rightarrow> x | Some s \<Rightarrow> s)"

definition urgency_or :: "hint \<Rightarrow> Urgency \<Rightarrow> Urgency" where
  "urgency_or v x = (case v of HByte u \<Rightarrow> if u \<le> UrgencyCritical then u else x | _ \<Rightarrow> x)"

definition value_or :: "hint \<Rightarrow> i32 option \<Rightarrow> i32 option" where
  "value_or v x = (case v of HInt32 n \<Rightarrow> if 0 \<le> sint n \<and> sint n \<le> 100 then Some n else x | _ \<Rightarrow> x)"

definition hint_fields :: "string \<Rightarrow> hint \<Rightarrow> Candidate \<Rightarrow> Candidate" where
  "hint_fields k v cand = cand\<lparr>
     cand_Urgency := on_key ''urgency'' urgency_or k v (cand_Urgency cand),
     cand_Transient := on_key ''transient'' (\<lambda>v x. hint_bool v) k v (cand_Transient cand),
     cand_Private := on_key ''x-sysc-private'' (\<lambda>v x. hint_bool v) k v (cand_Private cand),
     cand_Resident := on_key ''resident'' (\<lambda>v x. hint_bool v) k v (cand_Resident cand),
     cand_DesktopEntry := on_key ''desktop-entry'' (text_or ''desktop entry'') k v (cand_DesktopEntry cand),
     cand_Category := on_key ''category'' (text_or ''category'') k v (cand_Category cand),
     cand_Value := on_key ''value'' value_or k v (cand_Value cand),
     cand_InlineReply := on_key ''x-kde-reply-placeholder-text''
       (\<lambda>v x. x \<or> hint_text ''reply placeholder'' v \<noteq> None) k v (cand_InlineReply cand),
     cand_ReplyPlaceholder := on_key ''x-kde-reply-placeholder-text'' (text_or ''reply placeholder'') k v (cand_ReplyPlaceholder cand)\<rparr>"

lemma apply_hint_fields: "apply_hint (k, v) cand = hint_fields k v cand"
  by (cases cand; cases v)
    (simp_all add: apply_hint_def hint_fields_def on_key_def text_or_def urgency_or_def value_or_def hint_text_def)

lemma hint_fields_commute:
  assumes "k \<noteq> k'"
  shows "hint_fields k v (hint_fields k' v' cand) = hint_fields k' v' (hint_fields k v cand)"
  unfolding hint_fields_def by (simp add: on_key_commute [OF assms])

lemma apply_hint_commute: "fst x \<noteq> fst y \<Longrightarrow> apply_hint x (apply_hint y cand) = apply_hint y (apply_hint x cand)"
  using hint_fields_commute [of "fst x" "fst y" "snd x" "snd y"] by (cases x; cases y) (simp add: apply_hint_fields)

lemma fold_apply_hint_perm:
  assumes "distinct (map fst hs)" "mset hs = mset hs'"
  shows "fold apply_hint hs = fold apply_hint hs'"
proof (rule fold_multiset_equiv [OF _ assms(2)])
  fix x y assume "x \<in> set hs" "y \<in> set hs"
  then have "x = y \<or> fst x \<noteq> fst y" using assms(1) by (auto simp: distinct_map dest: inj_onD)
  then show "apply_hint x \<circ> apply_hint y = apply_hint y \<circ> apply_hint x"
    using apply_hint_commute [of x y] by (auto simp: fun_eq_iff)
qed

lemma map_of_perm:
  assumes "distinct (map fst hs)" "mset hs = mset hs'"
  shows "map_of hs = map_of hs'"
proof -
  have "distinct (map fst hs')" using assms by (metis mset_map mset_eq_imp_distinct_iff)
  with assms show ?thesis by (intro map_of_inject_set [THEN iffD2]) (auto dest: mset_eq_setD)
qed

text \<open>A request gives the same candidate, or the same error, for every order of its hints.\<close>

lemma Normalize_perm:
  assumes "distinct (map fst hs)" "mset hs = mset hs'"
  shows "Normalize c (r\<lparr>req_Hints := hs\<rparr>) = Normalize c (r\<lparr>req_Hints := hs'\<rparr>)"
  using fold_apply_hint_perm [OF assms] map_of_perm [OF assms] mset_eq_length [OF assms(2)]
  by (simp add: Normalize_def applyImageHints_def cong: option.case_cong sum.case_cong)

definition sample_request :: Request where
  "sample_request = \<lparr>req_AppName = ''app'', req_AppIcon = [], req_Summary = ''hi'', req_Body = [], req_ReplacesID = 0,
     req_Actions = [], req_Hints = [], req_ExpireTimeout = -1, req_Sender = zero_Sender\<rparr>"

end
