(* ===== verification/NormalizeProps.thy ===== *)
theory NormalizeProps
  imports Normalize Owner
begin

text \<open>
  How the requests of the bus meet the owner: a candidate that \<open>Normalize\<close> lets through is one that the owner
  accepts, with one exception, an icon path from a file URI whose escapes decode to bytes that are not UTF-8.
\<close>

definition good_text :: "string \<Rightarrow> bool" where
  "good_text s \<longleftrightarrow> utf8_ValidString s \<and> length s \<le> MaxBodyBytes"

lemma validateText_good [simp]: "validateText name s MaxBodyBytes True = None \<longleftrightarrow> good_text s"
  by (auto simp: validateText_def good_text_def)

lemma validateString_good [simp]: "validateString name s True = None \<longleftrightarrow> good_text s"
  by (auto simp: validateString_def good_text_def)

lemma hint_text_good: "hint_text name v = Some s \<Longrightarrow> good_text s"
  by (auto simp: hint_text_def split: hint.splits if_splits)

lemma good_text_Nil [simp]: "good_text []"
  by (simp add: good_text_def)

subsection \<open>What the hints may do to a candidate\<close>

definition hints_ok :: "Candidate \<Rightarrow> bool" where
  "hints_ok c \<longleftrightarrow> Urgency_valid (cand_Urgency c) \<and> value_in_range (cand_Value c) \<and> good_text (cand_DesktopEntry c) \<and>
     good_text (cand_Category c) \<and> good_text (cand_ReplyPlaceholder c)"

lemma on_keyI: "P x \<Longrightarrow> P (f v x) \<Longrightarrow> P (on_key key f k v x)"
  by (simp add: on_key_def)

lemma text_or_good: "good_text x \<Longrightarrow> good_text (text_or name v x)"
  by (auto simp: text_or_def dest: hint_text_good split: option.splits)

lemma urgency_or_valid: "Urgency_valid x \<Longrightarrow> Urgency_valid (urgency_or v x)"
  by (auto simp: urgency_or_def Urgency_valid_def split: hint.splits)

lemma value_or_in_range: "value_in_range x \<Longrightarrow> value_in_range (value_or v x)"
  by (auto simp: value_or_def value_in_range_def split: hint.splits)

lemma apply_hint_ok: "hints_ok c \<Longrightarrow> hints_ok (apply_hint x c)"
  by (cases x) (simp add: apply_hint_fields hint_fields_def hints_ok_def on_keyI text_or_good urgency_or_valid value_or_in_range)

definition untouched :: "Candidate \<Rightarrow> Candidate \<Rightarrow> bool" where
  "untouched c d \<longleftrightarrow> cand_AppName d = cand_AppName c \<and> cand_Summary d = cand_Summary c \<and> cand_Body d = cand_Body c \<and>
     cand_Actions d = cand_Actions c \<and> cand_ExpireTimeout d = cand_ExpireTimeout c \<and> cand_Sender d = cand_Sender c"

lemma apply_hint_frame:
  "untouched c (apply_hint x c)" "cand_AppIcon (apply_hint x c) = cand_AppIcon c" "cand_Image (apply_hint x c) = cand_Image c"
  by (cases x; simp add: apply_hint_fields hint_fields_def untouched_def)+

lemma fold_apply_hint:
  "hints_ok c \<Longrightarrow> hints_ok (fold apply_hint hs c)" "untouched c (fold apply_hint hs c)"
  "cand_AppIcon (fold apply_hint hs c) = cand_AppIcon c" "cand_Image (fold apply_hint hs c) = cand_Image c"
proof -
  have "(hints_ok c \<longrightarrow> hints_ok (fold apply_hint hs c)) \<and> untouched c (fold apply_hint hs c) \<and>
      cand_AppIcon (fold apply_hint hs c) = cand_AppIcon c \<and> cand_Image (fold apply_hint hs c) = cand_Image c"
  proof (induction hs arbitrary: c)
    case (Cons x hs)
    then show ?case
      using apply_hint_ok [of c x] apply_hint_frame [where c = c and x = x] Cons [of "apply_hint x c"] by (auto simp: untouched_def)
  qed (simp add: untouched_def)
  then show "hints_ok c \<Longrightarrow> hints_ok (fold apply_hint hs c)" "untouched c (fold apply_hint hs c)"
    "cand_AppIcon (fold apply_hint hs c) = cand_AppIcon c" "cand_Image (fold apply_hint hs c) = cand_Image c" by auto
qed

lemma same_InlineReply: "\<exists>x. d = d\<lparr>cand_InlineReply := x\<rparr>"
  by (rule exI [of _ "cand_InlineReply d"]) simp

lemma action_loop_spec:
  assumes "action_loop seen as c = Inr d"
  shows "\<exists>acts inline. d = c\<lparr>cand_Actions := cand_Actions c @ acts, cand_InlineReply := inline\<rparr> \<and> length acts = length as div 2 \<and>
    distinct (map act_Key acts) \<and> act_Key ` set acts \<inter> set seen = {} \<and> (\<forall>a\<in>set acts. Action_Validate a = None)"
  using assms
proof (induction seen as c rule: action_loop.induct)
  case (1 seen k l rest c)
  let ?a = "\<lparr>act_Key = k, act_Label = l\<rparr>"
  let ?c = "c\<lparr>cand_Actions := cand_Actions c @ [?a], cand_InlineReply := (cand_InlineReply c \<or> k = ''inline-reply'')\<rparr>"
  have v: "Action_Validate ?a = None" "k \<notin> set seen" "action_loop (k # seen) rest ?c = Inr d"
    using "1.prems" by (auto simp: Let_def split: option.splits if_splits)
  from "1.IH" [OF refl v] obtain acts inline where
    r: "d = ?c\<lparr>cand_Actions := cand_Actions ?c @ acts, cand_InlineReply := inline\<rparr>" "length acts = length rest div 2"
    "distinct (map act_Key acts)" "act_Key ` set acts \<inter> set (k # seen) = {}" "\<forall>a\<in>set acts. Action_Validate a = None"
    by blast
  with v show ?case by (intro exI [of _ "?a # acts"] exI [of _ inline]) auto
qed (auto simp: same_InlineReply intro!: exI [of _ "[]"])

subsection \<open>What an image hint may do\<close>

lemma unescape_length: "unescape m s = Some t \<Longrightarrow> length t \<le> length s"
proof (induction m s arbitrary: t rule: unescape.induct)
  case (2 m c s)
  show ?case
  proof (cases "c = CHR ''%''")
    case True
    then obtain a b r where s: "s = a # b # r" using "2.prems" by (auto split: list.splits)
    with True "2.prems" "2.IH"(1) [OF True s refl] show ?thesis by (fastforce split: if_splits)
  next
    case False
    with "2.prems" "2.IH"(2) [OF False] show ?thesis by (auto split: if_splits)
  qed
qed simp

lemma imagePathIcon_length:
  assumes "imagePathIcon h = Some icon"
  shows "length icon \<le> length h"
proof (cases "take 7 h = ''file://''")
  case True
  obtain host p where u: "url_Parse h = Some (host, p)" "icon = p"
    using assms True by (auto simp: imagePathIcon_def split: option.splits if_splits)
  let ?rest = "fst (cut_at (CHR ''?'') (drop 7 (fst (cut_at (CHR ''#'') h))))"
  have "unescape encodePath (dropWhile (\<lambda>x. x \<noteq> CHR ''/'') ?rest) = Some p"
    using u by (auto simp: url_Parse_def Let_def case_prod_beta bind_eq_Some_conv split: if_splits)
  then have "length p \<le> length (dropWhile (\<lambda>x. x \<noteq> CHR ''/'') ?rest)" by (rule unescape_length)
  also have "\<dots> \<le> length ?rest" by (rule length_dropWhile_le)
  also have "\<dots> \<le> length (fst (cut_at (CHR ''#'') h))"
    by (simp add: cut_at_def) (metis diff_le_self le_trans length_drop length_takeWhile_le)
  also have "\<dots> \<le> length h" by (simp add: cut_at_def length_takeWhile_le)
  finally show ?thesis using u by simp
next
  case False
  then show ?thesis using assms by (auto simp: imagePathIcon_def split: if_splits)
qed

lemma normalizeImage_valid:
  assumes "normalizeImage c raw = Some (Inr img)" "\<forall>d. png_Encode c d \<noteq> Some []"
  shows "Image_Validate img = None"
proof -
  have "img_Data img \<noteq> []"
    using assms by (auto simp: normalizeImage_def Let_def split: option.splits if_splits prod.splits)
  then show ?thesis
    using normalizeImage_spec [of c raw] assms(1) by (auto simp: Image_Validate_def)
qed

definition image_change :: "Candidate \<Rightarrow> Candidate \<Rightarrow> bool" where
  "image_change cand d \<longleftrightarrow> (\<exists>icon img rejected. d = cand\<lparr>cand_AppIcon := icon, cand_Image := img, cand_ImageRejected := rejected\<rparr> \<and>
     length icon \<le> MaxBodyBytes \<and> image_option_Validate img = None)"

lemma image_changeI:
  assumes "length icon \<le> MaxBodyBytes" "image_option_Validate img = None"
    "d = cand\<lparr>cand_AppIcon := icon, cand_Image := img, cand_ImageRejected := rejected\<rparr>"
  shows "image_change cand d"
  using assms unfolding image_change_def by blast

lemma applyImageHints_spec:
  assumes a: "applyImageHints c hs cand = Some d" and enc: "\<forall>px. png_Encode c px \<noteq> Some []"
    and l: "length (cand_AppIcon cand) \<le> MaxBodyBytes" and none: "cand_Image cand = None"
  shows "image_change cand d"
proof -
  have keep: "image_change cand (cand\<lparr>cand_ImageRejected := b\<rparr>)" for b
    using l none by (intro image_changeI [where icon = "cand_AppIcon cand" and img = None and rejected = b]) (simp_all add: image_option_Validate_def)
  from keep [of "cand_ImageRejected cand"] have same: "image_change cand cand" by simp
  show ?thesis
  proof (cases "map_of hs ''image-data''")
    case (Some h)
    show ?thesis
    proof (cases h)
      case (HRawImage raw)
      obtain r where r: "normalizeImage c raw = Some r" using a Some HRawImage by (cases "normalizeImage c raw") (simp_all add: applyImageHints_def)
      show ?thesis
      proof (cases r)
        case (Inl e)
        then show ?thesis using a Some HRawImage r keep [of True] by (simp add: applyImageHints_def)
      next
        case (Inr img)
        then have "d = cand\<lparr>cand_Image := Some img, cand_AppIcon := []\<rparr>" using a Some HRawImage r by (simp add: applyImageHints_def)
        with normalizeImage_valid [OF r [unfolded Inr] enc] show ?thesis
          by (intro image_changeI [where icon = "[]" and img = "Some img" and rejected = "cand_ImageRejected cand"]) (simp_all add: image_option_Validate_def)
      qed
    qed (use a Some keep [of True] in \<open>simp_all add: applyImageHints_def\<close>)
  next
    case no_data: None
    show ?thesis
    proof (cases "map_of hs ''image-path''")
      case None
      then show ?thesis using a no_data same by (simp add: applyImageHints_def)
    next
      case (Some h)
      show ?thesis
      proof (cases h)
        case (HString path)
        show ?thesis
        proof (cases "good_text path \<and> path \<noteq> [] \<and> imagePathIcon path \<noteq> None")
          case True
          then obtain icon where i: "imagePathIcon path = Some icon" by auto
          then have "d = cand\<lparr>cand_AppIcon := icon\<rparr>" using a no_data Some HString True by (simp add: applyImageHints_def)
          moreover have "length icon \<le> MaxBodyBytes" using imagePathIcon_length [OF i] True by (simp add: good_text_def)
          ultimately show ?thesis
            using none by (intro image_changeI [where icon = icon and img = None and rejected = "cand_ImageRejected cand"]) (simp_all add: image_option_Validate_def)
        next
          case False
          then show ?thesis
            using a no_data Some HString keep [of True] same by (auto simp: applyImageHints_def split: if_splits)
        qed
      qed (use a no_data Some keep [of True] in \<open>simp_all add: applyImageHints_def\<close>)
    qed
  qed
qed

lemma applyImageHints_untouched:
  assumes "applyImageHints c hs cand = Some d"
  shows "untouched cand d"
proof (cases "map_of hs ''image-data''")
  case (Some h)
  then show ?thesis using assms by (cases h) (auto simp: applyImageHints_def untouched_def split: option.splits sum.splits)
next
  case None
  show ?thesis
  proof (cases "map_of hs ''image-path''")
    case (Some h)
    then show ?thesis
      using assms None by (cases h) (auto simp: applyImageHints_def untouched_def split: option.splits if_splits)
  qed (use assms None in \<open>simp add: applyImageHints_def untouched_def\<close>)
qed

lemma Normalize_texts:
  assumes "Normalize c r = Some (Inr cand)"
  shows "cand_AppName cand = req_AppName r \<and> cand_Summary cand = req_Summary r \<and> cand_Body cand = req_Body r"
proof -
  obtain c0 c1 where c1: "action_loop [] (req_Actions r) c0 = Inr c1"
    "applyImageHints c (req_Hints r) (fold apply_hint (req_Hints r) c1) = Some cand"
    "cand_AppName c0 = req_AppName r" "cand_Summary c0 = req_Summary r" "cand_Body c0 = req_Body r"
    using assms unfolding Normalize_def by (auto split: option.splits sum.splits)
  have "cand_AppName c1 = cand_AppName c0 \<and> cand_Summary c1 = cand_Summary c0 \<and> cand_Body c1 = cand_Body c0"
    using action_loop_spec [OF c1(1)] by auto
  then show ?thesis
    using c1(3-) fold_apply_hint(2) [where c = c1 and hs = "req_Hints r"] applyImageHints_untouched [OF c1(2)]
    by (simp add: untouched_def)
qed

text \<open>
  C36: A request that \<open>Normalize\<close> accepts is accepted by the owner as well, at any time, if and only if the icon it ends
  up with is valid UTF-8: nothing else that a sender can put into a request, its hints, its actions or its
  image, and nothing in the process table, makes the owner refuse what \<open>Normalize\<close> has let through.
\<close>

theorem normalized_requests_are_accepted:
  assumes "Normalize c r = Some (Inr cand)" "\<forall>px. png_Encode c px \<noteq> Some []" "now \<noteq> 0"
    and "sender_Lineage (req_Sender r) = Capture ReadFile procRoot pid"
  shows "validateCandidate cand now = None \<longleftrightarrow> utf8_ValidString (cand_AppIcon cand)"
proof -
  let ?c0 = "zero_Candidate\<lparr>cand_AppName := req_AppName r, cand_AppIcon := req_AppIcon r, cand_Summary := req_Summary r,
    cand_Body := req_Body r, cand_ReplacesID := req_ReplacesID r, cand_ExpireTimeout := req_ExpireTimeout r,
    cand_Urgency := UrgencyNormal, cand_Sender := req_Sender r\<rparr>"
  have texts: "good_text (req_AppName r)" "good_text (req_AppIcon r)" "good_text (req_Summary r)" "good_text (req_Body r)"
    "\<not> sint (req_ExpireTimeout r) < -1" "length (req_Actions r) div 2 \<le> MaxActionPairs"
    and loop: "\<exists>c1. action_loop [] (req_Actions r) ?c0 = Inr c1 \<and> applyImageHints c (req_Hints r) (fold apply_hint (req_Hints r) c1) = Some cand"
    using assms(1) unfolding Normalize_def by (auto split: option.splits sum.splits)
  obtain c1 where c1: "action_loop [] (req_Actions r) ?c0 = Inr c1"
    "applyImageHints c (req_Hints r) (fold apply_hint (req_Hints r) c1) = Some cand" using loop by blast
  obtain acts inline where acts: "c1 = ?c0\<lparr>cand_Actions := acts, cand_InlineReply := inline\<rparr>"
    "length acts \<le> MaxActionPairs" "distinct (map act_Key acts)" "\<forall>a\<in>set acts. Action_Validate a = None"
    using action_loop_spec [OF c1(1)] texts(6) by (auto simp: zero_Candidate_def)
  let ?d = "fold apply_hint (req_Hints r) c1"
  have "hints_ok c1" unfolding acts(1)
    by (simp add: hints_ok_def Urgency_valid_def UrgencyNormal_def UrgencyCritical_def zero_Candidate_def value_in_range_def)
  then have h: "hints_ok ?d" and u: "untouched c1 ?d" and f: "cand_AppIcon ?d = req_AppIcon r" "cand_Image ?d = None"
    using fold_apply_hint [where c = c1 and hs = "req_Hints r"] acts(1) by (simp_all add: zero_Candidate_def)
  obtain icon img rejected where d: "cand = ?d\<lparr>cand_AppIcon := icon, cand_Image := img, cand_ImageRejected := rejected\<rparr>"
    "length icon \<le> MaxBodyBytes" "image_option_Validate img = None"
    using applyImageHints_spec [OF c1(2) assms(2)] f texts(2) by (auto simp: image_change_def good_text_def)
  have "validateCandidate cand now = None \<longleftrightarrow> good_text icon"
    using texts acts(2-4) h u d(3) assms(3) Capture_valid [where ReadFile = ReadFile and procRoot = procRoot and pid = pid]
    by (auto simp: d(1) acts(1) validateCandidate_def Notification_Validate_def notificationFromCandidate_def untouched_def
        hints_ok_def time_IsZero_def assms(4))
  with d show ?thesis by (simp add: good_text_def)
qed

subsection \<open>An icon that is not UTF-8\<close>

definition bad_uri :: string where "bad_uri = ''file:///%ff''"

lemma bad_uri_icon: "imagePathIcon bad_uri = Some [CHR ''/'', CHR 0xFF]"
  by code_simp

lemma ascii_good: "list_all (\<lambda>c. of_char c < (128::nat)) s \<Longrightarrow> length s \<le> MaxBodyBytes \<Longrightarrow> good_text s"
  by (auto simp: good_text_def list_all_iff intro: utf8_ascii)

lemma bad_uri_good: "good_text bad_uri"
  by (rule ascii_good) (simp_all add: bad_uri_def MaxBodyBytes_def)

lemma bad_icon_not_utf8: "\<not> utf8_ValidString [CHR ''/'', CHR 0xFF]"
  by code_simp

definition bad_uri_request :: Request where
  "bad_uri_request = sample_request\<lparr>req_Hints := [(''image-path'', HString bad_uri)]\<rparr>"

definition bad_uri_candidate :: Candidate where
  "bad_uri_candidate = zero_Candidate\<lparr>cand_AppName := ''app'', cand_AppIcon := [CHR ''/'', CHR 0xFF], cand_Summary := ''hi'',
     cand_ExpireTimeout := -1, cand_Urgency := UrgencyNormal\<rparr>"

lemma bad_uri_normalized: "Normalize c bad_uri_request = Some (Inr bad_uri_candidate)"
proof -
  have v: "validateString name ''app'' True = None" "validateString name ''hi'' True = None" "validateString name [] True = None"
    "validateString name bad_uri True = None" for name
    using bad_uri_good by (simp_all add: ascii_good MaxBodyBytes_def)
  show ?thesis
    by (simp add: Normalize_def bad_uri_request_def sample_request_def bad_uri_candidate_def applyImageHints_def apply_hint_def
        v bad_uri_icon limit_defs zero_Sender_def zero_Candidate_def) (simp add: bad_uri_def)
qed

text \<open>
  C37: A single escape in an image hint makes a whole \<open>Notify\<close> fail. For the image path \<open>file:///%ff\<close>, \<open>Normalize\<close>
  succeeds without marking the image as rejected, the icon is the decoded path, which is not UTF-8, and the
  owner then refuses the notification with an error and without any change, although a malformed image is
  meant to be dropped and the notification shown without it.
\<close>

theorem escaped_image_path_fails_notify:
  "Normalize c bad_uri_request = Some (Inr bad_uri_candidate) \<and> \<not> cand_ImageRejected bad_uri_candidate \<and>
   (\<exists>e. add bad_uri_candidate prepared now s = Some (Inl e, s))"
proof -
  have "\<exists>e. validateCandidate cand now = Some e" if "cand_AppIcon cand = [CHR ''/'', CHR 0xFF]" for cand
  proof -
    have False if "validateCandidate cand now = None"
      using that \<open>cand_AppIcon cand = _\<close> bad_icon_not_utf8
      by (simp add: validateCandidate_def Notification_Validate_def notificationFromCandidate_def good_text_def split: if_splits)
    then show ?thesis by blast
  qed
  then have "\<exists>e. addWithProducerKey cand [] prepared now s = Some (Inl e, s)" if "cand_AppIcon cand = [CHR ''/'', CHR 0xFF]" for cand
    using that unfolding addWithProducerKey_def by fastforce
  then show ?thesis
    using bad_uri_normalized by (simp add: add_def bad_uri_candidate_def zero_Candidate_def)
qed

subsection \<open>Witness\<close>

definition one_pixel_codec :: codec where
  "one_pixel_codec = \<lparr>png_Decode = (\<lambda>_. None), png_Encode = (\<lambda>_. Some ''PNG''), sha256_Sum256 = (\<lambda>_. 0)\<rparr>"

theorem normalized_requests_are_accepted_witness:
  "Normalize one_pixel_codec bad_uri_request = Some (Inr bad_uri_candidate) \<and> validateCandidate bad_uri_candidate 5 \<noteq> None"
proof -
  have "Capture (\<lambda>_. None) ''/proc'' 0 = []" by (simp add: Capture_def MaxLineageEntries_def eval_nat_numeral)
  then have "sender_Lineage (req_Sender bad_uri_request) = Capture (\<lambda>_. None) ''/proc'' 0"
    by (simp add: bad_uri_request_def sample_request_def zero_Sender_def)
  from normalized_requests_are_accepted [OF bad_uri_normalized _ _ this, of one_pixel_codec 5] show ?thesis
    using bad_uri_normalized bad_icon_not_utf8 by (simp add: one_pixel_codec_def bad_uri_candidate_def)
qed

end
