(* ===== verification/Fdo.thy ===== *)
theory Fdo
  imports NormalizeProps OwnerOps
begin

text \<open>
  The D-Bus face of the daemon (\<open>internal/fdo/convert.go\<close>, \<open>internal/fdo/server.go\<close>) and the calls into the owner
  that it makes (\<open>Owner.Do\<close>). The bus itself is a parameter: the process ID the bus gives for a sender, the
  process table and the PNG codec. The order of the calls of one sender is the subject of \<open>CallOrder\<close>.
\<close>

subsection \<open>Calling the owner (owner.go, Do)\<close>

text \<open>
  How a call of \<open>Do\<close> goes, which the scheduler decides: it is answered, or its context is done, or the owner has
  closed, before or after the owner has taken the request. The owner is its state, \<open>None\<close> if it has closed.
\<close>

datatype course = Answered | CancelledEarly | CancelledLate | ClosedEarly | ClosedLate

definition Owner_Do :: "course \<Rightarrow> StateCommand \<Rightarrow> ownerState \<Rightarrow> ((err + Result) \<times> ownerState) option" where
  "Owner_Do how c s =
     (let served = do { (r, s1) \<leftarrow> do_command c s; s2 \<leftarrow> resetTimer s1; Some (r, s2) } in
      case how of
        Answered \<Rightarrow> served
      | CancelledEarly \<Rightarrow> Some (Inl ErrContext, s)
      | CancelledLate \<Rightarrow> map_option (\<lambda>(r, s1). (Inl ErrContext, s1)) served
      | ClosedEarly \<Rightarrow> Some (Inl (Err ''state: owner closed''), s)
      | ClosedLate \<Rightarrow> map_option (\<lambda>(r, s1). (Inl (Err ''state: owner closed''), s1)) served)"

subsection \<open>Hints (convert.go)\<close>

text \<open>The values of a D-Bus variant that the program distinguishes; a struct decodes to a list of values.\<close>

datatype variant =
    VByte u8 | VBool bool | VInt32 i32 | VText string | VBytes bytes | VStruct "variant list"
  | VImage RawImage | VOther

fun variant_Value :: "variant \<Rightarrow> hint" where
  "variant_Value (VByte b) = HByte b"
| "variant_Value (VBool b) = HBool b"
| "variant_Value (VInt32 n) = HInt32 n"
| "variant_Value (VText s) = HString s"
| "variant_Value _ = HOther"

text \<open>Type assertions.\<close>

definition as_int32 :: "variant \<Rightarrow> i32 option" where
  "as_int32 v = (case v of VInt32 n \<Rightarrow> Some n | _ \<Rightarrow> None)"

definition as_bool :: "variant \<Rightarrow> bool option" where
  "as_bool v = (case v of VBool b \<Rightarrow> Some b | _ \<Rightarrow> None)"

definition as_bytes :: "variant \<Rightarrow> bytes option" where
  "as_bytes v = (case v of VBytes d \<Rightarrow> Some d | _ \<Rightarrow> None)"

definition convertImageData :: "variant \<Rightarrow> RawImage option" where
  "convertImageData v =
     (case v of
        VImage d \<Rightarrow> Some d
      | VStruct fs \<Rightarrow>
          if length fs \<noteq> 7 then None
          else do {
            width \<leftarrow> as_int32 (fs ! 0);
            height \<leftarrow> as_int32 (fs ! 1);
            rowStride \<leftarrow> as_int32 (fs ! 2);
            hasAlpha \<leftarrow> as_bool (fs ! 3);
            bits \<leftarrow> as_int32 (fs ! 4);
            channels \<leftarrow> as_int32 (fs ! 5);
            d \<leftarrow> as_bytes (fs ! 6);
            Some \<lparr>raw_Width = width, raw_Height = height, raw_RowStride = rowStride, raw_HasAlpha = hasAlpha,
                  raw_BitsPerSample = bits, raw_Channels = channels, raw_Data = d\<rparr>
          }
      | _ \<Rightarrow> None)"

definition passed_hints :: "string list" where
  "passed_hints = [''urgency'', ''transient'', ''x-sysc-private'', ''resident'', ''desktop-entry'', ''category'', ''value'',
     ''x-kde-reply-placeholder-text'']"

text \<open>One turn of the loop: the hints so far, the best image so far and its priority.\<close>

fun convert_hint :: "string \<times> variant \<Rightarrow> hints \<times> variant \<times> nat \<Rightarrow> hints \<times> variant \<times> nat" where
  "convert_hint (key, v) (result, rawImage, imagePriority) =
     (if key \<in> set passed_hints then (result @ [(key, variant_Value v)], rawImage, imagePriority)
      else if key \<in> {''image-data'', ''image_data'', ''icon_data''} then
        (let priority = (if key = ''image-data'' then 0 else if key = ''image_data'' then 1 else 2) in
         if priority < imagePriority then (result, v, priority) else (result, rawImage, imagePriority))
      else if key = ''image-path'' then
        (case v of VText path \<Rightarrow> (result @ [(key, HString path)], rawImage, imagePriority) | _ \<Rightarrow> (result, rawImage, imagePriority))
      else (result, rawImage, imagePriority))"

definition convertHints :: "(string \<times> variant) list \<Rightarrow> err + hints" where
  "convertHints source =
     (if MaxHints < length source then Inl (Err ''fdo: too many hints'')
      else
        (let (result, rawImage, imagePriority) = fold convert_hint source ([], VOther, 3) in
         if imagePriority < 3
         then (case convertImageData rawImage of
                 Some img \<Rightarrow> Inr (result @ [(''image-data'', HRawImage img)])
               | None \<Rightarrow> Inr result)
         else Inr result))"

subsection \<open>The methods of the bus object (server.go)\<close>

datatype busErrorName = dbusInvalidArgs | dbusFailed | invalidNotification

type_synonym busError = "busErrorName \<times> err"

record bus =
  bus_ProcessID :: "string \<Rightarrow> u32 option"
  bus_ReadFile :: "string \<Rightarrow> bytes option"
  bus_procRoot :: string

record notifyCall =
  call_sender :: string
  call_appName :: string
  call_replacesID :: u32
  call_appIcon :: string
  call_summary :: string
  call_body :: string
  call_actions :: "string list"
  call_hints :: "(string \<times> variant) list"
  call_expireTimeout :: i32

definition request_of :: "bus \<Rightarrow> notifyCall \<Rightarrow> hints \<Rightarrow> Request" where
  "request_of b n hs =
     (let pid = (case bus_ProcessID b (call_sender n) of Some p \<Rightarrow> p | None \<Rightarrow> 0) in
      \<lparr>req_AppName = call_appName n, req_AppIcon = call_appIcon n, req_Summary = call_summary n, req_Body = call_body n,
       req_ReplacesID = call_replacesID n, req_Actions = call_actions n, req_Hints = hs,
       req_ExpireTimeout = call_expireTimeout n,
       req_Sender = \<lparr>sender_Name = call_sender n, sender_PID = pid,
                     sender_Lineage = Capture (bus_ReadFile b) (bus_procRoot b) pid\<rparr>\<rparr>)"

text \<open>The part of \<open>Notify\<close> before the ordered section: the hints, the sender, and the candidate.\<close>

definition prepareCall :: "codec \<Rightarrow> bus \<Rightarrow> notifyCall \<Rightarrow> (busError + Candidate \<times> PreparedImage option) option" where
  "prepareCall c b n =
     (case convertHints (call_hints n) of
        Inl e \<Rightarrow> Some (Inl (dbusInvalidArgs, e))
      | Inr hs \<Rightarrow>
          (case Normalize c (request_of b n hs) of
             None \<Rightarrow> None
           | Some (Inl e) \<Rightarrow> Some (Inl (dbusInvalidArgs, e))
           | Some (Inr cand) \<Rightarrow>
               Some (Inr (cand,
                 if cand_Image cand \<noteq> None \<and> \<not> cand_Transient cand \<and> \<not> cand_Private cand
                 then (case PrepareImage c (cand_Image cand) of Inr p \<Rightarrow> Some p | Inl _ \<Rightarrow> None)
                 else None))))"

text \<open>The owner of the server is \<open>None\<close> before \<open>Serve\<close> (\<open>stateOwner\<close>).\<close>

definition endpoint_Notify ::
  "codec \<Rightarrow> bus \<Rightarrow> course \<Rightarrow> notifyCall \<Rightarrow> ownerState option \<Rightarrow> ((busError + u32) \<times> ownerState option) option" where
  "endpoint_Notify c b how n owner =
     (case prepareCall c b n of
        None \<Rightarrow> None
      | Some (Inl e) \<Rightarrow> Some (Inl e, owner)
      | Some (Inr (cand, prepared)) \<Rightarrow>
          (case owner of
             None \<Rightarrow> Some (Inl (dbusFailed, Err ''notification state unavailable''), None)
           | Some s \<Rightarrow>
               (case Owner_Do how (zero_StateCommand\<lparr>sc_Kind := KAdd, sc_Candidate := cand,
                                    sc_PreparedHistoryImage := prepared\<rparr>) s of
                  None \<Rightarrow> None
                | Some (Inl e, s1) \<Rightarrow> Some (Inl (dbusFailed, e), Some s1)
                | Some (Inr r, s1) \<Rightarrow> Some (Inr (res_ID r), Some s1))))"

definition endpoint_CloseNotification ::
  "course \<Rightarrow> u32 \<Rightarrow> ownerState option \<Rightarrow> (busError option \<times> ownerState option) option" where
  "endpoint_CloseNotification how nid owner =
     (case owner of
        None \<Rightarrow> Some (Some (dbusFailed, Err ''notification state unavailable''), None)
      | Some s \<Rightarrow>
          (case Owner_Do how (zero_StateCommand\<lparr>sc_Kind := KCloseRequested, sc_ID := nid\<rparr>) s of
             None \<Rightarrow> None
           | Some (Inl e, s1) \<Rightarrow>
               Some (Some (if errors_Is e ErrNotFound then invalidNotification else dbusFailed, e), Some s1)
           | Some (Inr r, s1) \<Rightarrow> Some (None, Some s1)))"

subsection \<open>Signals (server.go)\<close>

definition emitQueueSize :: nat where "emitQueueSize = 128"

datatype queuedSignal =
  NotificationClosed u32 u32 | ActionInvoked u32 string | NotificationReplied u32 string

definition signals_of :: "Event \<Rightarrow> queuedSignal list" where
  "signals_of ev =
     (case ev_Delta ev of
        Some d \<Rightarrow> if d_Kind d = DeltaClosed then [NotificationClosed (d_ID d) (d_CloseReason d)] else []
      | None \<Rightarrow> []) @
     (case ev_Action ev of Some a \<Rightarrow> [ActionInvoked (ae_ID a) (ae_Key a)] | None \<Rightarrow> []) @
     (case ev_Reply ev of Some r \<Rightarrow> [NotificationReplied (re_ID r) (re_Text r)] | None \<Rightarrow> [])"

text \<open>Each signal is queued if there is room and dropped otherwise.\<close>

definition queueSignal :: "queuedSignal \<Rightarrow> bool \<times> queuedSignal list \<Rightarrow> bool \<times> queuedSignal list" where
  "queueSignal sig dq = (if length (snd dq) < emitQueueSize then (fst dq, snd dq @ [sig]) else (False, snd dq))"

definition fdo_Publish :: "Event \<Rightarrow> queuedSignal list \<Rightarrow> bool \<times> queuedSignal list" where
  "fdo_Publish ev queue = fold queueSignal (signals_of ev) (True, queue)"

subsection \<open>Life cycle (server.go)\<close>

text \<open>
  What the server has registered with the bus, and what the calls of the bus answer, which is a parameter: the
  error of a call, or for the name the error or whether the server is its only owner (\<open>RequestName\<close>), or no
  longer is (\<open>ReleaseName\<close>).
\<close>

record fdoServer =
  fs_attempted :: bool
  fs_served :: bool
  fs_owner :: "ownerState option"
  fs_closed :: bool
  fs_exported :: bool
  fs_matched :: bool
  fs_signalled :: bool
  fs_named :: bool
  fs_orderClosed :: bool

record busAnswers =
  ba_Export :: error
  ba_AddMatchSignal :: error
  ba_RequestName :: "err + bool"
  ba_Unexport :: error
  ba_RemoveMatchSignal :: error
  ba_ReleaseName :: "err + bool"

definition NewServer :: fdoServer where
  "NewServer = \<lparr>fs_attempted = False, fs_served = False, fs_owner = None, fs_closed = False, fs_exported = False,
     fs_matched = False, fs_signalled = False, fs_named = False, fs_orderClosed = False\<rparr>"

definition unexport :: "busAnswers \<Rightarrow> fdoServer \<Rightarrow> fdoServer" where
  "unexport a s = (if ba_Unexport a = None then s\<lparr>fs_exported := False\<rparr> else s)"

definition unmatch :: "busAnswers \<Rightarrow> fdoServer \<Rightarrow> fdoServer" where
  "unmatch a s = (if ba_RemoveMatchSignal a = None then s\<lparr>fs_matched := False\<rparr> else s)"

definition fdo_Serve :: "busAnswers \<Rightarrow> ownerState option \<Rightarrow> fdoServer \<Rightarrow> error \<times> fdoServer" where
  "fdo_Serve a owner s =
     (if owner = None then (Some (Err ''fdo: missing server dependency''), s)
      else if fs_attempted s then (Some (Err ''fdo: server already started''), s)
      else
        (let s1 = s\<lparr>fs_attempted := True, fs_owner := owner\<rparr> in
         case ba_Export a of
           Some e \<Rightarrow> (Some (Wrap ''fdo: export interface'' e), s1)
         | None \<Rightarrow>
             (let s2 = s1\<lparr>fs_exported := True\<rparr> in
              case ba_AddMatchSignal a of
                Some e \<Rightarrow> (Some (Wrap ''fdo: watch name ownership'' e), unexport a s2)
              | None \<Rightarrow>
                  (let s3 = s2\<lparr>fs_matched := True, fs_signalled := True\<rparr>;
                       undo = unexport a (unmatch a (s3\<lparr>fs_signalled := False\<rparr>)) in
                   case ba_RequestName a of
                     Inl e \<Rightarrow> (Some (Wrap ''fdo: acquire org.freedesktop.Notifications'' e), undo)
                   | Inr False \<Rightarrow> (Some (Err ''fdo: acquire org.freedesktop.Notifications''), undo)
                   | Inr True \<Rightarrow> (None, s3\<lparr>fs_named := True, fs_served := True\<rparr>)))))"

text \<open>The errors of the calls are joined; the body runs once (\<open>closeOnce\<close>).\<close>

definition fdo_Close :: "busAnswers \<Rightarrow> fdoServer \<Rightarrow> err list \<times> fdoServer" where
  "fdo_Close a s =
     (if fs_closed s then ([], s)
      else
        (let s1 = s\<lparr>fs_closed := True, fs_orderClosed := True\<rparr> in
         if fs_served s
         then (List.map_filter id [ba_RemoveMatchSignal a, ba_Unexport a,
                 case ba_ReleaseName a of
                   Inl e \<Rightarrow> Some e
                 | Inr False \<Rightarrow> Some (Err ''fdo: release org.freedesktop.Notifications'')
                 | Inr True \<Rightarrow> None],
               (let s2 = unexport a (unmatch a (s1\<lparr>fs_signalled := False\<rparr>)) in
                if ba_ReleaseName a = Inr True then s2\<lparr>fs_named := False\<rparr> else s2))
         else ([], s1)))"

text \<open>A signal of the bus: its name and its arguments, each a string or not; and what \<open>monitorName\<close> makes of them.\<close>

type_synonym busSignal = "string \<times> string option list"

definition name_lost :: "string \<Rightarrow> busSignal \<Rightarrow> bool" where
  "name_lost uniqueName sig \<longleftrightarrow>
     fst sig = ''org.freedesktop.DBus.NameOwnerChanged'' \<and> length (snd sig) = 3 \<and>
     snd sig ! 0 = Some ''org.freedesktop.Notifications'' \<and> snd sig ! 1 = Some uniqueName \<and>
     (case snd sig ! 2 of Some newOwner \<Rightarrow> newOwner \<noteq> uniqueName | None \<Rightarrow> False)"

datatype monitored = Stop | ConnectionLost | Signalled "busSignal option"

text \<open>
  What comes first at each turn is given: the stop, the end of the connection, or a signal. The flag says
  whether the server is closing. The result is what is sent on \<open>done\<close>, if the loop ends.
\<close>

fun monitorName :: "string \<Rightarrow> (monitored \<times> bool) list \<Rightarrow> error option" where
  "monitorName uniqueName [] = None"
| "monitorName uniqueName ((Stop, closing) # ms) = Some None"
| "monitorName uniqueName ((ConnectionLost, closing) # ms) =
     Some (if closing then None else Some (Err ''fdo: D-Bus connection lost''))"
| "monitorName uniqueName ((Signalled None, closing) # ms) = monitorName uniqueName ms"
| "monitorName uniqueName ((Signalled (Some sig), closing) # ms) =
     (if name_lost uniqueName sig \<and> \<not> closing then Some (Some (Err ''fdo: notification bus name lost''))
      else monitorName uniqueName ms)"

subsection \<open>A call becomes a notification\<close>

text \<open>What was added is stored under the ID that is returned.\<close>

lemma addWithProducerKey_record:
  assumes "addWithProducerKey c key prepared now s = Some (Inr res, t)"
  shows "\<exists>r. os_records t (res_ID res) = Some r \<and> rec_notification r = notificationFromCandidate (res_ID res) c now"
proof -
  have v: "validateCandidate c now = None" using assms by (cases "validateCandidate c now") (auto simp: addWithProducerKey_def)
  have n: "rec_notification (newRecord c key prepared now nid) = notificationFromCandidate nid c now" for nid
    by (simp add: newRecord_def)
  show ?thesis
  proof (cases "os_records s (cand_ReplacesID c)")
    case (Some existing)
    then show ?thesis using assms v n by (auto simp: addWithProducerKey_def replaceRecord_eq Let_def emit_def)
  next
    case None
    then show ?thesis
      using assms v n by (auto simp: addWithProducerKey_def insertRecord_eq Let_def emit_def bind_eq_Some_conv)
  qed
qed

lemma add_record:
  assumes "add c prepared now s = Some (Inr res, t)"
  obtains r i where "os_records t (res_ID res) = Some r"
    "rec_notification r = notificationFromCandidate (res_ID res) (c\<lparr>cand_ReplacesID := i\<rparr>) now"
proof -
  have "\<exists>i. add c prepared now s = addWithProducerKey (c\<lparr>cand_ReplacesID := i\<rparr>) [] prepared now s"
    by (auto simp: add_def intro: exI [of _ "cand_ReplacesID c"])
  then show thesis using assms addWithProducerKey_record that by metis
qed

lemma add_rejected:
  assumes "owner_ok s" "0 < now" "\<forall>n\<ge>os_reads s. now \<le> os_clock s n" "\<forall>p. prepared = Some p \<longrightarrow> prepared_ok p"
    "add c prepared now s = Some (Inl e, t)"
  shows "t = s"
proof -
  define c' where "c' = (if cand_ReplacesID c = 0 then c\<lparr>cand_ReplacesID := burstDuplicate c now s\<rparr> else c)"
  have eq: "add c prepared now s = addWithProducerKey c' [] prepared now s" by (simp add: add_def c'_def)
  show ?thesis
    by (rule addWithProducerKey_advances [OF assms(1-4), of "[]" c']) (use assms(5) in \<open>auto simp: eq\<close>)
qed

lemma resetTimer_view: "resetTimer s = Some t \<Longrightarrow> view_of t = view_of s"
  by (auto simp: resetTimer_def Let_def clock_Now_def view_of_def notification_of_def history_of_def bind_eq_Some_conv
      split: if_splits)

lemma applyImageHints_total: "applyImageHints c hs cand \<noteq> None"
proof -
  have n: "normalizeImage c raw \<noteq> None" for raw using normalizeImage_spec [of c raw] by (cases "normalizeImage c raw") auto
  show ?thesis
  proof (cases "map_of hs ''image-data''")
    case None
    then show ?thesis by (simp add: applyImageHints_def split: option.splits hint.splits)
  next
    case (Some h)
    then show ?thesis using n by (cases h) (auto simp: applyImageHints_def split: option.splits sum.splits)
  qed
qed

lemma Normalize_total: "\<exists>x. Normalize c r = Some x"
  using applyImageHints_total unfolding Normalize_def by (auto split: option.splits sum.splits)

lemma prepareCall_total:
  "\<exists>x. prepareCall c b n = Some x \<and> (\<forall>cand p. x = Inr (cand, Some p) \<longrightarrow> prepared_ok p)"
proof (cases "convertHints (call_hints n)")
  case (Inl e)
  then show ?thesis by (simp add: prepareCall_def)
next
  case (Inr hs)
  obtain x where "Normalize c (request_of b n hs) = Some x" using Normalize_total by blast
  with Inr show ?thesis
    by (cases x) (auto simp: prepareCall_def dest: PrepareImage_ok split: if_splits sum.splits)
qed

lemma prepareCall_texts:
  assumes "prepareCall c b n = Some (Inr (cand, p))"
  shows "cand_AppName cand = call_appName n \<and> cand_Summary cand = call_summary n \<and> cand_Body cand = call_body n"
proof -
  obtain hs where "convertHints (call_hints n) = Inr hs" "Normalize c (request_of b n hs) = Some (Inr cand)"
    using assms by (auto simp: prepareCall_def split: sum.splits option.splits)
  from Normalize_texts [OF this(2)] show ?thesis by (simp add: request_of_def Let_def)
qed

text \<open>
  C33: Every \<open>Notify\<close> call that reaches the owner is answered, whatever its arguments: no hint, image, action list or
  process table makes it panic or leaves the owner stuck. It either reports an error, and then nothing that a
  presenter sees has changed, or it returns a non-zero ID, and then the owner holds a notification under that
  ID with the application name, the summary and the body of the call.
\<close>

theorem notify_stores_what_was_sent:
  assumes "owner_reachable clk sink store s" "clock_ok clk" "\<forall>h. store = Some h \<longrightarrow> store_ok h"
  shows "\<exists>r t. endpoint_Notify c b Answered n (Some s) = Some (r, Some t) \<and>
    (case r of
       Inl e \<Rightarrow> view_of t = view_of s
     | Inr nid \<Rightarrow> nid \<noteq> 0 \<and> (\<exists>x. os_records t nid = Some x \<and> n_AppName (rec_notification x) = call_appName n \<and>
         n_Summary (rec_notification x) = call_summary n \<and> n_Body (rec_notification x) = call_body n))"
proof -
  have ok: "owner_ok s" using reachable_ok [OF assms(1,2)] assms(3) by blast
  obtain x where x: "prepareCall c b n = Some x" "\<forall>cand p. x = Inr (cand, Some p) \<longrightarrow> prepared_ok p"
    using prepareCall_total by blast
  show ?thesis
  proof (cases x)
    case (Inl e)
    then show ?thesis using x by (simp add: endpoint_Notify_def)
  next
    case (Inr y)
    obtain cand p where y: "y = (cand, p)" by (cases y)
    let ?c = "zero_StateCommand\<lparr>sc_Kind := KAdd, sc_Candidate := cand, sc_PreparedHistoryImage := p\<rparr>"
    let ?s1 = "s\<lparr>os_reads := Suc (os_reads s)\<rparr>" and ?now = "os_clock s (os_reads s)"
    have img: "\<forall>q. p = Some q \<longrightarrow> prepared_ok q" using x(2) Inr y by auto
    have ok1: "owner_ok ?s1" and rd: "0 < ?now" "\<forall>n\<ge>os_reads ?s1. ?now \<le> os_clock ?s1 n"
      using owner_ok_read [OF ok] reading_le [OF reading_now [OF ok]] by auto
    obtain res t where t: "add cand p ?now ?s1 = Some (res, t)" "advances ?s1 t" using add_advances [OF ok1 rd img] by blast
    have d: "do_command ?c s = Some (res, t)"
      using t(1) by (simp add: do_command_def gatePresenter_def clock_Now_def dispatch_def zero_StateCommand_def)
    obtain u where u: "resetTimer t = Some u" "advances t u" "os_records u = os_records t"
      using resetTimer_spec [OF advances_ok [OF t(2)]] by blast
    have o: "Owner_Do Answered ?c s = Some (res, u)" using d u(1) by (simp add: Owner_Do_def)
    show ?thesis
    proof (cases res)
      case (Inl e)
      have "t = ?s1" using add_rejected [OF ok1 rd img t(1) [unfolded Inl]] .
      moreover have "view_of u = view_of t" by (rule resetTimer_view [OF u(1)])
      ultimately show ?thesis using x Inr y o Inl by (simp add: endpoint_Notify_def)
    next
      case (Inr r)
      obtain z i where z: "os_records t (res_ID r) = Some z"
        "rec_notification z = notificationFromCandidate (res_ID r) (cand\<lparr>cand_ReplacesID := i\<rparr>) ?now"
        using add_record [OF t(1) [unfolded Inr]] by blast
      have "res_ID r \<noteq> 0" using z(1) owner_okD(2,4) [OF advances_ok [OF t(2)]] by (auto simp: dom_def)
      then show ?thesis
        using x \<open>x = Inr y\<close> y o Inr z u(3) prepareCall_texts [of c b n cand p]
        by (simp add: endpoint_Notify_def notificationFromCandidate_def)
    qed
  qed
qed

definition ex_bus :: bus where
  "ex_bus = \<lparr>bus_ProcessID = (\<lambda>_. Some 0), bus_ReadFile = (\<lambda>_. None), bus_procRoot = ''/proc''\<rparr>"

definition ex_call :: notifyCall where
  "ex_call = \<lparr>call_sender = '':1.7'', call_appName = ''mail'', call_replacesID = 0, call_appIcon = [], call_summary = ''hello'',
     call_body = [], call_actions = [], call_hints = [(''urgency'', VByte 1)], call_expireTimeout = - 1\<rparr>"

theorem notify_stores_what_was_sent_witness:
  "owner_reachable ex_clock None None ex_one \<and> clock_ok ex_clock \<and>
   (\<exists>r t. endpoint_Notify one_pixel_codec ex_bus Answered ex_call (Some ex_one) = Some (r, Some t))"
  using notify_stores_what_was_sent [OF ex_reachable ex_clock_ok, of one_pixel_codec ex_bus ex_call] ex_reachable ex_clock_ok
  by auto

end
