(* ===== verification/OwnerClients.thy ===== *)
theory OwnerClients
  imports Fdo OwnerProps
begin

text \<open>
  The goroutines around the owner (\<open>internal/state/owner.go\<close>): callers of \<open>Do\<close>, \<open>Snapshot\<close> and \<open>Close\<close>, the channels between
  them and the owner, and the loop of \<open>run\<close>. The channel of requests has no buffer, so that a request is handed over when the caller
  and the loop meet in their \<open>select\<close>; the channel of each reply holds one. What is shown is that the calls are
  linearizable: their interleaving is a sequential run of the owner, which is what the other theories work with (\<open>Owner_Do\<close>).
\<close>

subsection \<open>Callers, channels and the loop\<close>

datatype response = ResultReply "err + Result" | SnapshotReply Snapshot

datatype outcome = Response response | ContextDone | OwnerClosed

text \<open>A caller offers its request, waits for the reply, and returns; a caller of \<open>Close\<close> waits for the end of the loop.\<close>

datatype caller = Idle | Offering request | AwaitingReply request | Done request outcome | AwaitingDone | Flushing

text \<open>Where the loop is: in its \<open>select\<close>, with a request it has taken, before the send of a reply, or at its end (\<open>done\<close> is closed).\<close>

datatype loopPhase = Selecting | Taken nat request | Replying nat response | Ended

text \<open>\<open>ow_log\<close> is a history variable: what was served for whom, from which state to which. No step reads it.\<close>

record served =
  sv_caller :: nat
  sv_request :: request
  sv_before :: ownerState
  sv_response :: response
  sv_after :: ownerState

record ownerCalls =
  ow_state :: ownerState
  ow_phase :: loopPhase
  ow_stop :: bool
  ow_caller :: "nat \<Rightarrow> caller"
  ow_reply :: "nat \<Rightarrow> response option"
  ow_log :: "served list"

abbreviation at_caller :: "nat \<Rightarrow> caller \<Rightarrow> ownerCalls \<Rightarrow> ownerCalls" where
  "at_caller i c y \<equiv> y\<lparr>ow_caller := (ow_caller y)(i := c)\<rparr>"

text \<open>What the loop computes for a request, and the reply it sends.\<close>

definition answer :: "request \<Rightarrow> ownerState \<Rightarrow> (response \<times> ownerState) option" where
  "answer q s =
     (case q of
        SnapshotRequest \<Rightarrow> map_option (\<lambda>(sn, t). (SnapshotReply sn, t)) (snapshot s)
      | CommandRequest c \<Rightarrow> do { (r, s1) \<leftarrow> do_command c s; s2 \<leftarrow> resetTimer s1; Some (ResultReply r, s2) }
      | TimerFired \<Rightarrow> None)"

definition timer_turn :: "ownerState \<Rightarrow> ownerState \<Rightarrow> bool" where
  "timer_turn s t \<longleftrightarrow> ready TimerFired s \<and> serve TimerFired s = Some t"

inductive call_owner :: "ownerCalls \<Rightarrow> ownerCalls \<Rightarrow> bool" where
  refused: "ow_caller y i = Idle \<Longrightarrow> request_ok q \<Longrightarrow> q \<noteq> TimerFired \<Longrightarrow> call_owner y (at_caller i (Done q ContextDone) y)"
| enter: "ow_caller y i = Idle \<Longrightarrow> request_ok q \<Longrightarrow> q \<noteq> TimerFired \<Longrightarrow> call_owner y (at_caller i (Offering q) y)"
| hand_over: "ow_caller y i = Offering q \<Longrightarrow> ow_phase y = Selecting \<Longrightarrow>
    call_owner y (at_caller i (AwaitingReply q) (y\<lparr>ow_phase := Taken i q\<rparr>))"
| cancel_early: "ow_caller y i = Offering q \<Longrightarrow> call_owner y (at_caller i (Done q ContextDone) y)"
| closed_early: "ow_caller y i = Offering q \<Longrightarrow> ow_phase y = Ended \<Longrightarrow> call_owner y (at_caller i (Done q OwnerClosed) y)"
| work: "ow_phase y = Taken i q \<Longrightarrow> answer q (ow_state y) = Some (r, t) \<Longrightarrow>
    call_owner y (y\<lparr>ow_state := t, ow_phase := Replying i r,
      ow_log := ow_log y @ [\<lparr>sv_caller = i, sv_request = q, sv_before = ow_state y, sv_response = r, sv_after = t\<rparr>]\<rparr>)"
| send: "ow_phase y = Replying i r \<Longrightarrow> ow_reply y i = None \<Longrightarrow>
    call_owner y (y\<lparr>ow_phase := Selecting, ow_reply := (ow_reply y)(i := Some r)\<rparr>)"
| receive: "ow_caller y i = AwaitingReply q \<Longrightarrow> ow_reply y i = Some r \<Longrightarrow>
    call_owner y (at_caller i (Done q (Response r)) (y\<lparr>ow_reply := (ow_reply y)(i := None)\<rparr>))"
| cancel_late: "ow_caller y i = AwaitingReply q \<Longrightarrow> call_owner y (at_caller i (Done q ContextDone) y)"
| closed_late: "ow_caller y i = AwaitingReply q \<Longrightarrow> ow_phase y = Ended \<Longrightarrow> call_owner y (at_caller i (Done q OwnerClosed) y)"
| timer: "ow_phase y = Selecting \<Longrightarrow> timer_turn (ow_state y) t \<Longrightarrow> call_owner y (y\<lparr>ow_state := t\<rparr>)"
| stop: "ow_phase y = Selecting \<Longrightarrow> ow_stop y \<Longrightarrow> call_owner y (y\<lparr>ow_phase := Ended\<rparr>)"
| close: "ow_caller y i = Idle \<Longrightarrow> call_owner y (at_caller i AwaitingDone (y\<lparr>ow_stop := True\<rparr>))"
| close_done: "ow_caller y i = AwaitingDone \<Longrightarrow> ow_phase y = Ended \<Longrightarrow> call_owner y (at_caller i Flushing y)"

definition calls_initial :: "ownerCalls \<Rightarrow> bool" where
  "calls_initial y \<longleftrightarrow> owner_initial (ow_state y) \<and> ow_phase y = Selecting \<and> \<not> ow_stop y \<and> ow_caller y = (\<lambda>_. Idle) \<and>
     ow_reply y = (\<lambda>_. None) \<and> ow_log y = []"

subsection \<open>The invariant\<close>

definition logged :: "ownerCalls \<Rightarrow> nat \<Rightarrow> request \<Rightarrow> response \<Rightarrow> bool" where
  "logged y i q r \<longleftrightarrow> (\<exists>e\<in>set (ow_log y). sv_caller e = i \<and> sv_request e = q \<and> sv_response e = r)"

definition in_log :: "ownerCalls \<Rightarrow> nat \<Rightarrow> bool" where
  "in_log y i \<longleftrightarrow> i \<in> sv_caller ` set (ow_log y)"

definition served_now :: "ownerCalls \<Rightarrow> nat \<Rightarrow> bool" where
  "served_now y i \<longleftrightarrow> (\<exists>q. ow_phase y = Taken i q) \<or> (\<exists>r. ow_phase y = Replying i r)"

text \<open>A caller that has handed over its request, whether or not it still waits.\<close>

definition handed :: "caller \<Rightarrow> request \<Rightarrow> bool" where
  "handed c q \<longleftrightarrow> c = AwaitingReply q \<or> c = Done q ContextDone \<or> c = Done q OwnerClosed"

text \<open>The log as a sequential run: the timer may fire between two requests.\<close>

fun linear :: "ownerState \<Rightarrow> served list \<Rightarrow> ownerState \<Rightarrow> bool" where
  "linear s [] t \<longleftrightarrow> timer_turn\<^sup>*\<^sup>* s t"
| "linear s (e # es) t \<longleftrightarrow> timer_turn\<^sup>*\<^sup>* s (sv_before e) \<and> request_ok (sv_request e) \<and>
     answer (sv_request e) (sv_before e) = Some (sv_response e, sv_after e) \<and> linear (sv_after e) es t"

definition caller_ok :: "ownerCalls \<Rightarrow> nat \<Rightarrow> bool" where
  "caller_ok y i =
     (case ow_caller y i of
        Idle \<Rightarrow> \<not> in_log y i \<and> \<not> served_now y i \<and> ow_reply y i = None
      | Offering q \<Rightarrow> \<not> in_log y i \<and> \<not> served_now y i \<and> ow_reply y i = None \<and> request_ok q \<and> q \<noteq> TimerFired
      | AwaitingReply q \<Rightarrow> served_now y i \<or> ow_reply y i \<noteq> None
      | Done q out \<Rightarrow> (\<forall>r. out = Response r \<longrightarrow> logged y i q r \<and> \<not> served_now y i \<and> ow_reply y i = None)
      | _ \<Rightarrow> ow_stop y \<and> \<not> in_log y i \<and> \<not> served_now y i \<and> ow_reply y i = None)"

definition phase_ok :: "ownerCalls \<Rightarrow> bool" where
  "phase_ok y =
     (case ow_phase y of
        Selecting \<Rightarrow> True
      | Taken i q \<Rightarrow> handed (ow_caller y i) q \<and> request_ok q \<and> q \<noteq> TimerFired \<and> \<not> in_log y i \<and> ow_reply y i = None
      | Replying i r \<Rightarrow> (\<exists>q. handed (ow_caller y i) q \<and> logged y i q r) \<and> ow_reply y i = None
      | Ended \<Rightarrow> ow_stop y)"

definition calls_ok :: "ownerState \<Rightarrow> ownerCalls \<Rightarrow> bool" where
  "calls_ok s0 y \<longleftrightarrow> owner_ok (ow_state y) \<and> linear s0 (ow_log y) (ow_state y) \<and> distinct (map sv_caller (ow_log y)) \<and> phase_ok y \<and>
     (\<forall>i. caller_ok y i) \<and> (\<forall>i r. ow_reply y i = Some r \<longrightarrow> (\<exists>q. handed (ow_caller y i) q \<and> logged y i q r))"

lemma logged_frame [simp]:
  "logged (y\<lparr>ow_state := x1\<rparr>) = logged y" "logged (y\<lparr>ow_phase := x2\<rparr>) = logged y" "logged (y\<lparr>ow_stop := x3\<rparr>) = logged y"
  "logged (y\<lparr>ow_caller := x4\<rparr>) = logged y" "logged (y\<lparr>ow_reply := x5\<rparr>) = logged y"
  "in_log (y\<lparr>ow_state := x1\<rparr>) = in_log y" "in_log (y\<lparr>ow_phase := x2\<rparr>) = in_log y" "in_log (y\<lparr>ow_stop := x3\<rparr>) = in_log y"
  "in_log (y\<lparr>ow_caller := x4\<rparr>) = in_log y" "in_log (y\<lparr>ow_reply := x5\<rparr>) = in_log y"
  "served_now (y\<lparr>ow_state := x1\<rparr>) = served_now y" "served_now (y\<lparr>ow_stop := x3\<rparr>) = served_now y"
  "served_now (y\<lparr>ow_caller := x4\<rparr>) = served_now y" "served_now (y\<lparr>ow_reply := x5\<rparr>) = served_now y"
  "served_now (y\<lparr>ow_log := x6\<rparr>) = served_now y"
  by (simp_all add: fun_eq_iff logged_def in_log_def served_now_def)

lemma served_now_phase [simp]:
  "served_now (y\<lparr>ow_phase := p\<rparr>) j \<longleftrightarrow> (case p of Taken i q \<Rightarrow> j = i | Replying i r \<Rightarrow> j = i | _ \<Rightarrow> False)"
  by (auto simp: served_now_def split: loopPhase.split)

lemma handed_simps [simp]:
  "\<not> handed Idle q" "\<not> handed (Offering p) q" "handed (AwaitingReply p) q \<longleftrightarrow> p = q" "\<not> handed AwaitingDone q" "\<not> handed Flushing q"
  "handed (Done p ContextDone) q \<longleftrightarrow> p = q" "handed (Done p OwnerClosed) q \<longleftrightarrow> p = q" "\<not> handed (Done p (Response r)) q"
  by (auto simp: handed_def)

lemma calls_okD:
  assumes "calls_ok s0 y"
  shows "owner_ok (ow_state y)" "linear s0 (ow_log y) (ow_state y)" "distinct (map sv_caller (ow_log y))" "phase_ok y" "caller_ok y i"
    "ow_reply y i = Some r \<Longrightarrow> \<exists>q. handed (ow_caller y i) q \<and> logged y i q r"
  using assms by (auto simp: calls_ok_def)

lemma caller_okD:
  assumes "caller_ok y i"
  shows "ow_caller y i = Idle \<Longrightarrow> \<not> in_log y i \<and> \<not> served_now y i \<and> ow_reply y i = None"
    "ow_caller y i = Offering q \<Longrightarrow> \<not> in_log y i \<and> \<not> served_now y i \<and> ow_reply y i = None \<and> request_ok q \<and> q \<noteq> TimerFired"
    "ow_caller y i = AwaitingReply q \<Longrightarrow> served_now y i \<or> ow_reply y i \<noteq> None"
    "ow_caller y i = Done q (Response r) \<Longrightarrow> logged y i q r"
    "ow_caller y i = AwaitingDone \<Longrightarrow> ow_stop y \<and> \<not> in_log y i \<and> \<not> served_now y i \<and> ow_reply y i = None"
  using assms by (simp_all add: caller_ok_def)

lemma caller_simps [simp]:
  "caller_ok (at_caller i (Done q ContextDone) y) i" "caller_ok (at_caller i (Done q OwnerClosed) y) i"
  by (simp_all add: caller_ok_def)

lemma caller_change:
  assumes y: "calls_ok s0 y" and c: "caller_ok (at_caller i c y) i" "\<And>q. handed (ow_caller y i) q \<Longrightarrow> handed c q"
  shows "calls_ok s0 (at_caller i c y)"
proof -
  have "phase_ok (at_caller i c y)" using calls_okD(4) [OF y] c(2) by (auto simp: phase_ok_def split: loopPhase.splits)
  moreover have "caller_ok (at_caller i c y) j" for j using calls_okD(5) [OF y, of j] c(1) by (cases "j = i") (auto simp: caller_ok_def split: caller.splits)
  ultimately show ?thesis using y c(2) by (fastforce simp: calls_ok_def)
qed

lemma done_change:
  assumes y: "calls_ok s0 y" and c: "ow_caller y i \<in> {Idle, Offering q, AwaitingReply q}" and out: "out \<in> {ContextDone, OwnerClosed}"
  shows "calls_ok s0 (at_caller i (Done q out) y)"
  by (rule caller_change [OF y]) (use c out in auto)

lemma linear_snoc:
  assumes "linear s es t" "request_ok q" "answer q t = Some (r, u)"
  shows "linear s (es @ [\<lparr>sv_caller = i, sv_request = q, sv_before = t, sv_response = r, sv_after = u\<rparr>]) u"
  using assms by (induction es arbitrary: s) auto

lemma linear_timer: "linear s es t \<Longrightarrow> timer_turn t u \<Longrightarrow> linear s es u"
  by (induction es arbitrary: s) (auto intro: rtranclp.rtrancl_into_rtrancl)

lemma answer_serve: "answer q s = Some (r, t) \<Longrightarrow> serve q s = Some t"
  by (cases q) (auto simp: answer_def serve_def bind_eq_Some_conv)

lemma answer_total: "serve q s = Some t \<Longrightarrow> q \<noteq> TimerFired \<Longrightarrow> \<exists>r. answer q s = Some (r, t)"
  by (cases q) (auto simp: answer_def serve_def bind_eq_Some_conv)

lemma answer_turn: "answer q s = Some (r, t) \<Longrightarrow> request_ok q \<Longrightarrow> owner_turn s t"
  using answer_serve by (cases q) (auto simp: owner_turn_def ready_def answer_def)

lemma timer_owner_turn: "timer_turn s t \<Longrightarrow> owner_turn s t"
  unfolding timer_turn_def owner_turn_def by (intro exI [of _ TimerFired]) (simp add: request_ok_def)

lemma linear_turns: "linear s es t \<Longrightarrow> owner_turn\<^sup>*\<^sup>* s t"
proof (induction es arbitrary: s)
  case Nil
  then have "timer_turn\<^sup>*\<^sup>* s t" by simp
  then show ?case by (rule rtranclp_mono [THEN predicate2D, rotated]) (auto intro: timer_owner_turn)
next
  case (Cons e es)
  then have "timer_turn\<^sup>*\<^sup>* s (sv_before e)" "owner_turn (sv_before e) (sv_after e)" "owner_turn\<^sup>*\<^sup>* (sv_after e) t" using answer_turn by auto
  moreover from this(1) have "owner_turn\<^sup>*\<^sup>* s (sv_before e)"
    by (rule rtranclp_mono [THEN predicate2D, rotated]) (auto intro: timer_owner_turn)
  ultimately show ?case by (meson converse_rtranclp_into_rtranclp rtranclp_trans)
qed

lemma work_ok:
  assumes y: "calls_ok s0 y" and p: "ow_phase y = Taken i q" and a: "answer q (ow_state y) = Some (r, t)"
  shows "calls_ok s0 (y\<lparr>ow_state := t, ow_phase := Replying i r,
      ow_log := ow_log y @ [\<lparr>sv_caller = i, sv_request = q, sv_before = ow_state y, sv_response = r, sv_after = t\<rparr>]\<rparr>)" (is "calls_ok s0 ?z")
proof -
  have ph: "handed (ow_caller y i) q" "request_ok q" "\<not> in_log y i" "ow_reply y i = None" using calls_okD(4) [OF y] p by (simp_all add: phase_ok_def)
  have l: "logged ?z j q' r' \<longleftrightarrow> logged y j q' r' \<or> j = i \<and> q' = q \<and> r' = r" for j q' r' by (auto simp: logged_def)
  have n: "in_log ?z j \<longleftrightarrow> in_log y j \<or> j = i" for j by (auto simp: in_log_def)
  have s: "served_now y j \<longleftrightarrow> j = i" for j using p by (auto simp: served_now_def)
  have i: "ow_caller y i \<noteq> Idle" "\<And>q. ow_caller y i \<noteq> Offering q" "ow_caller y i \<noteq> AwaitingDone" "ow_caller y i \<noteq> Flushing" using ph(1) by auto
  have "caller_ok ?z j" for j using calls_okD(5) [OF y, of j] i by (auto simp: caller_ok_def s l n split: caller.splits)
  moreover have "phase_ok ?z" using ph by (auto simp: phase_ok_def l)
  moreover have "owner_ok t" using owner_machine.step_inv [OF calls_okD(1) [OF y] answer_turn [OF a ph(2)]] .
  moreover have "distinct (map sv_caller (ow_log ?z))" using calls_okD(3) [OF y] ph(3) by (simp add: in_log_def)
  moreover have "linear s0 (ow_log ?z) t" using linear_snoc [OF calls_okD(2) [OF y] ph(2) a] by simp
  ultimately show ?thesis using calls_okD(6) [OF y] by (fastforce simp: calls_ok_def l)
qed

lemma send_ok:
  assumes y: "calls_ok s0 y" and p: "ow_phase y = Replying i r" "ow_reply y i = None"
  shows "calls_ok s0 (y\<lparr>ow_phase := Selecting, ow_reply := (ow_reply y)(i := Some r)\<rparr>)" (is "calls_ok s0 ?z")
proof -
  obtain q where q: "handed (ow_caller y i) q" "logged y i q r" using calls_okD(4) [OF y] p by (auto simp: phase_ok_def)
  have s: "served_now y j \<longleftrightarrow> j = i" for j using p by (auto simp: served_now_def)
  have "caller_ok ?z j" for j using calls_okD(5) [OF y, of j] q(1) by (cases "j = i") (auto simp: caller_ok_def s split: caller.splits)
  then show ?thesis using y q by (auto simp: calls_ok_def phase_ok_def)
qed

lemma hand_over_ok:
  assumes y: "calls_ok s0 y" and p: "ow_caller y i = Offering q" "ow_phase y = Selecting"
  shows "calls_ok s0 (at_caller i (AwaitingReply q) (y\<lparr>ow_phase := Taken i q\<rparr>))" (is "calls_ok s0 ?z")
proof -
  have c: "\<not> in_log y i" "ow_reply y i = None" "request_ok q" "q \<noteq> TimerFired" using calls_okD(5) [OF y, of i] p by (simp_all add: caller_ok_def)
  have s: "\<not> served_now y j" for j using p by (auto simp: served_now_def)
  have "caller_ok ?z j" for j using calls_okD(5) [OF y, of j] by (cases "j = i") (auto simp: caller_ok_def s split: caller.splits)
  then show ?thesis using y c p by (auto simp: calls_ok_def phase_ok_def)
qed

lemma receive_ok:
  assumes y: "calls_ok s0 y" and p: "ow_caller y i = AwaitingReply q" "ow_reply y i = Some r"
  shows "calls_ok s0 (at_caller i (Done q (Response r)) (y\<lparr>ow_reply := (ow_reply y)(i := None)\<rparr>))" (is "calls_ok s0 ?z")
proof -
  have l: "logged y i q r" using calls_okD(6) [OF y p(2)] p(1) by auto
  have n: "\<not> served_now y i" using calls_okD(4) [OF y] p(2) by (auto simp: phase_ok_def served_now_def)
  have "caller_ok ?z j" for j using calls_okD(5) [OF y, of j] l n by (cases "j = i") (auto simp: caller_ok_def split: caller.splits)
  moreover have "phase_ok ?z" using calls_okD(4) [OF y] n by (auto simp: phase_ok_def served_now_def split: loopPhase.splits)
  ultimately show ?thesis using y by (fastforce simp: calls_ok_def)
qed

lemma call_owner_ok:
  assumes y: "calls_ok s0 y" and st: "call_owner y z"
  shows "calls_ok s0 z"
  using st
proof cases
  case (hand_over i q)
  then show ?thesis using hand_over_ok [OF y] by blast
next
  case (work i q r t)
  then show ?thesis using work_ok [OF y] by blast
next
  case (send i r)
  then show ?thesis using send_ok [OF y] by blast
next
  case (receive i q r)
  then show ?thesis using receive_ok [OF y] by blast
next
  case (timer t)
  have "owner_ok t" using owner_machine.step_inv [OF calls_okD(1) [OF y] timer_owner_turn [OF timer(3)]] .
  moreover have "linear s0 (ow_log y) t" by (rule linear_timer [OF calls_okD(2) [OF y] timer(3)])
  moreover have "phase_ok z" "caller_ok z i" for i
    using calls_okD(4,5) [OF y] unfolding timer(1) by (simp_all add: phase_ok_def caller_ok_def cong: loopPhase.case_cong caller.case_cong)
  ultimately show ?thesis using y unfolding timer(1) by (simp add: calls_ok_def)
next
  case stop
  have "caller_ok z i" for i
    using calls_okD(5) [OF y, of i] stop by (auto simp: caller_ok_def served_now_def split: caller.splits)
  then show ?thesis using y stop by (simp add: calls_ok_def phase_ok_def)
next
  case (close i)
  let ?y = "y\<lparr>ow_stop := True\<rparr>"
  have "caller_ok ?y j" for j using calls_okD(5) [OF y, of j] by (auto simp: caller_ok_def split: caller.splits)
  moreover have "phase_ok ?y" using calls_okD(4) [OF y] by (auto simp: phase_ok_def split: loopPhase.splits)
  ultimately have "calls_ok s0 ?y" using y by (simp add: calls_ok_def)
  from caller_change [OF this, of i AwaitingDone] show ?thesis
    using close calls_okD(5) [OF y, of i] by (simp add: caller_ok_def)
next
  case (enter i q)
  from caller_okD(1) [OF calls_okD(5) [OF y] enter(2)] enter show ?thesis
    unfolding enter(1) by (intro caller_change [OF y]) (simp_all add: caller_ok_def)
next
  case (close_done i)
  from caller_okD(5) [OF calls_okD(5) [OF y] close_done(2)] close_done show ?thesis
    unfolding close_done(1) by (intro caller_change [OF y]) (simp_all add: caller_ok_def)
qed (simp_all add: done_change [OF y])

lemma calls_initial_ok: "calls_initial y \<Longrightarrow> calls_ok (ow_state y) y"
  using owner_machine.initial_inv by (simp add: calls_initial_def calls_ok_def phase_ok_def caller_ok_def in_log_def served_now_def)

lemma call_owner_turns:
  assumes "calls_ok s0 y" "call_owner y z"
  shows "owner_turn\<^sup>*\<^sup>* (ow_state y) (ow_state z)"
  using assms(2)
proof cases
  case (work i q r t)
  have "request_ok q" using calls_okD(4) [OF assms(1)] work by (simp add: phase_ok_def)
  with answer_turn [OF work(3)] work(1) show ?thesis by simp
next
  case (timer t)
  then show ?thesis using r_into_rtranclp [of owner_turn, OF timer_owner_turn [OF timer(3)]] by simp
qed simp_all

interpretation owner_calls: composed_machine "\<lambda>y. calls_initial y \<and> ow_state y = s0" call_owner "calls_ok s0" owner_initial owner_turn ow_state for s0
  by unfold_locales (use calls_initial_ok call_owner_ok call_owner_turns in \<open>auto simp: calls_initial_def\<close>)

lemma log_grows: "call_owner\<^sup>*\<^sup>* y z \<Longrightarrow> \<exists>more. ow_log z = ow_log y @ more"
proof (induction rule: rtranclp_induct)
  case (step z u)
  have "\<exists>more. ow_log u = ow_log z @ more" using step.hyps(2) by (induction rule: call_owner.induct) simp_all
  with step.IH show ?case by auto
qed simp

subsection \<open>Calls are linearizable\<close>

definition returned :: "caller \<Rightarrow> bool" where
  "returned c \<longleftrightarrow> (\<exists>q out. c = Done q out) \<or> c = Flushing"

lemma linear_answers: "linear s es t \<Longrightarrow> e \<in> set es \<Longrightarrow> answer (sv_request e) (sv_before e) = Some (sv_response e, sv_after e)"
  by (induction es arbitrary: s) auto

lemma answer_Do: "answer (CommandRequest c) s = Some (r, t) \<Longrightarrow> \<exists>res. r = ResultReply res \<and> Owner_Do Answered c s = Some (res, t)"
  by (auto simp: answer_def Owner_Do_def bind_eq_Some_conv)

lemma loop_moves:
  assumes "calls_ok s0 z"
  shows "ow_phase z = Taken i q \<Longrightarrow> \<exists>u. call_owner z u \<and> (\<exists>r. ow_phase u = Replying i r)"
    "ow_phase z = Replying i r \<Longrightarrow> \<exists>u. call_owner z u \<and> ow_phase u = Selecting \<and> ow_reply u i = Some r"
proof -
  assume p: "ow_phase z = Taken i q"
  then have q: "request_ok q" "q \<noteq> TimerFired" using calls_okD(4) [OF assms] by (simp_all add: phase_ok_def)
  obtain t where "serve q (ow_state z) = Some t" using serve_advances [OF calls_okD(1) [OF assms] q(1)] by blast
  with answer_total q(2) obtain r where "answer q (ow_state z) = Some (r, t)" by blast
  from call_owner.work [OF p this] show "\<exists>u. call_owner z u \<and> (\<exists>r. ow_phase u = Replying i r)" by fastforce
next
  assume p: "ow_phase z = Replying i r"
  then have "ow_reply z i = None" using calls_okD(4) [OF assms] by (simp add: phase_ok_def)
  from call_owner.send [OF p this] show "\<exists>u. call_owner z u \<and> ow_phase u = Selecting \<and> ow_reply u i = Some r" by fastforce
qed

lemma ended_returns:
  assumes "ow_phase z = Ended" "ow_caller z i \<noteq> Idle" "\<not> returned (ow_caller z i)"
  shows "\<exists>c. returned c \<and> call_owner z (at_caller i c z)"
  using assms call_owner.closed_early [of z i] call_owner.closed_late [of z i] call_owner.close_done [of z i]
  by (cases "ow_caller z i") (auto simp: returned_def)

text \<open>
  C6: The calls of \<open>Do\<close> and \<open>Snapshot\<close> are linearizable, whatever the callers, cancelled contexts, the timer and \<open>Close\<close> do. In every
  state that is reached, what the owner has served so far is a sequential run from its start, with timer firings in between, in
  which no call is served twice; a call that has returned a reply has been served, with that reply, and one that has not yet
  handed over its request has not; what is served later comes later in that run. Each call served by \<open>Do\<close> is exactly one \<open>Owner_Do\<close>.
  And nobody waits for ever: the loop is never blocked by a caller that has gone away, a caller without a
  reply is being served, and once the owner has ended every caller can return.
\<close>

theorem owner_calls_are_linearizable:
  assumes "calls_initial y" "call_owner\<^sup>*\<^sup>* y z" "call_owner\<^sup>*\<^sup>* z z'"
  shows "linear (ow_state y) (ow_log z) (ow_state z) \<and> distinct (map sv_caller (ow_log z)) \<and>
    (\<forall>i q r. ow_caller z i = Done q (Response r) \<longrightarrow> logged z i q r) \<and>
    (\<forall>i q. ow_caller z i \<in> {Idle, Offering q} \<longrightarrow> \<not> in_log z i) \<and>
    (\<exists>more. ow_log z' = ow_log z @ more) \<and>
    (\<forall>e\<in>set (ow_log z). \<forall>c. sv_request e = CommandRequest c \<longrightarrow>
       (\<exists>res. sv_response e = ResultReply res \<and> Owner_Do Answered c (sv_before e) = Some (res, sv_after e))) \<and>
    (\<forall>i q. ow_phase z = Taken i q \<longrightarrow> (\<exists>u. call_owner z u \<and> (\<exists>r. ow_phase u = Replying i r))) \<and>
    (\<forall>i r. ow_phase z = Replying i r \<longrightarrow> (\<exists>u. call_owner z u \<and> ow_phase u = Selecting \<and> ow_reply u i = Some r)) \<and>
    (\<forall>i q. ow_caller z i = AwaitingReply q \<longrightarrow> ow_reply z i \<noteq> None \<or> served_now z i) \<and>
    (\<forall>i. ow_phase z = Ended \<and> ow_caller z i \<noteq> Idle \<and> \<not> returned (ow_caller z i) \<longrightarrow> (\<exists>c. returned c \<and> call_owner z (at_caller i c z)))"
proof -
  have ok: "calls_ok (ow_state y) z" using owner_calls.reachable_inv [OF _ assms(2)] assms(1) by simp
  note l = calls_okD(2) [OF ok]
  have "\<forall>e\<in>set (ow_log z). \<forall>c. sv_request e = CommandRequest c \<longrightarrow>
      (\<exists>res. sv_response e = ResultReply res \<and> Owner_Do Answered c (sv_before e) = Some (res, sv_after e))"
    using linear_answers [OF l] answer_Do by fastforce
  moreover have "\<forall>i q r. ow_caller z i = Done q (Response r) \<longrightarrow> logged z i q r"
    "\<forall>i q. ow_caller z i \<in> {Idle, Offering q} \<longrightarrow> \<not> in_log z i"
    "\<forall>i q. ow_caller z i = AwaitingReply q \<longrightarrow> ow_reply z i \<noteq> None \<or> served_now z i"
    using caller_okD [OF calls_okD(5) [OF ok]] by blast+
  moreover note l calls_okD(3) [OF ok] log_grows [OF assms(3)] loop_moves [OF ok] ended_returns
  ultimately show ?thesis by blast
qed

text \<open>One caller whose notification is added, and who gets its reply.\<close>

definition ex_calls :: ownerCalls where
  "ex_calls = \<lparr>ow_state = ex_start, ow_phase = Selecting, ow_stop = False, ow_caller = (\<lambda>_. Idle), ow_reply = (\<lambda>_. None), ow_log = []\<rparr>"

lemma ex_calls_initial: "calls_initial ex_calls"
proof -
  have "owner_start ex_clock None None = Some ex_start"
    by (simp add: owner_start_def ex_start_def [symmetric] resetTimer_def ordered_records_def time_IsZero_def)
  then have "owner_initial ex_start" unfolding owner_initial_def using ex_clock_ok by blast
  then show ?thesis by (simp add: calls_initial_def ex_calls_def)
qed

lemma ex_call_returns:
  "\<exists>z r. call_owner\<^sup>*\<^sup>* ex_calls z \<and> ow_caller z 0 = Done ex_add (Response r) \<and> ow_state z = ex_one \<and> ow_phase z = Selecting \<and>
     ow_log z = [\<lparr>sv_caller = 0, sv_request = ex_add, sv_before = ex_start, sv_response = r, sv_after = ex_one\<rparr>]"
proof -
  have q: "request_ok ex_add" "ex_add \<noteq> TimerFired" by (simp_all add: request_ok_def ex_add_def command_ok_def zero_StateCommand_def)
  obtain r where r: "answer ex_add ex_start = Some (r, ex_one)" using answer_total [OF ex_served q(2)] by blast
  let ?y1 = "at_caller 0 (Offering ex_add) ex_calls" let ?y2 = "at_caller 0 (AwaitingReply ex_add) (?y1\<lparr>ow_phase := Taken 0 ex_add\<rparr>)"
  let ?y3 = "?y2\<lparr>ow_state := ex_one, ow_phase := Replying 0 r,
    ow_log := [\<lparr>sv_caller = 0, sv_request = ex_add, sv_before = ex_start, sv_response = r, sv_after = ex_one\<rparr>]\<rparr>"
  let ?y4 = "?y3\<lparr>ow_phase := Selecting, ow_reply := (ow_reply ?y3)(0 := Some r)\<rparr>"
  let ?y5 = "at_caller 0 (Done ex_add (Response r)) (?y4\<lparr>ow_reply := (ow_reply ?y4)(0 := None)\<rparr>)"
  have 1: "call_owner ex_calls ?y1" using q by (intro call_owner.enter) (simp_all add: ex_calls_def)
  have 2: "call_owner ?y1 ?y2" by (rule call_owner.hand_over) (simp_all add: ex_calls_def)
  have 3: "call_owner ?y2 ?y3" using call_owner.work [of ?y2 0 ex_add r ex_one] r by (simp add: ex_calls_def)
  have 4: "call_owner ?y3 ?y4" by (rule call_owner.send) (simp_all add: ex_calls_def)
  have 5: "call_owner ?y4 ?y5" by (rule call_owner.receive) (simp_all add: ex_calls_def)
  have "call_owner\<^sup>*\<^sup>* ex_calls ?y5" using 1 2 3 4 5 by (meson converse_rtranclp_into_rtranclp rtranclp.rtrancl_refl)
  then show ?thesis by (intro exI [of _ ?y5] exI [of _ r]) (simp add: ex_calls_def)
qed

theorem owner_calls_are_linearizable_witness:
  "calls_initial ex_calls \<and> (\<exists>z r. call_owner\<^sup>*\<^sup>* ex_calls z \<and> ow_caller z 0 = Done ex_add (Response r) \<and> logged z 0 ex_add r \<and>
     linear ex_start (ow_log z) ex_one \<and> length (ow_log z) = 1)"
proof -
  obtain z r where z: "call_owner\<^sup>*\<^sup>* ex_calls z" "ow_caller z 0 = Done ex_add (Response r)" "ow_state z = ex_one"
    "ow_log z = [\<lparr>sv_caller = 0, sv_request = ex_add, sv_before = ex_start, sv_response = r, sv_after = ex_one\<rparr>]" using ex_call_returns by blast
  have "ow_state ex_calls = ex_start" by (simp add: ex_calls_def)
  with owner_calls_are_linearizable [OF ex_calls_initial z(1) rtranclp.rtrancl_refl] z(2,3)
  have "logged z 0 ex_add r" "linear ex_start (ow_log z) ex_one" by auto
  with z ex_calls_initial show ?thesis by auto
qed

end
