(* ===== verification/HistoryProps.thy ===== *)
theory HistoryProps
  imports HistoryMirror
begin

text \<open>
  What the history store guarantees: the file it writes stays within what it accepts when it reads,
  additions drop no more than they must, expiry and marking touch exactly what they should, and the
  results of the operations tell the whole story.
\<close>

subsection \<open>Example store\<close>

definition ex_codec :: codec where
  "ex_codec = \<lparr>png_Decode = \<lambda>_. None, png_Encode = \<lambda>_. None, sha256_Sum256 = \<lambda>_. 0\<rparr>"

definition ex_entry :: "u32 \<Rightarrow> HistoryEntry" where
  "ex_entry nid = zero_HistoryEntry\<lparr>h_ID := nid, h_Summary := ''hello'', h_Timestamp := 1000000000\<rparr>"

definition ex_store0 :: Store where
  "ex_store0 = \<lparr>st_codec = ex_codec, st_entries = [], st_dirty = False, st_writeGen = 0, st_workerGen = 0,
     st_closed = False, st_lastErr = None, st_wake = False\<rparr>"

definition ex_store1 :: Store where
  "ex_store1 = snd (Add (ex_entry 7) 1000000000 ex_store0)"

lemma ex_store0_ok: "store_ok ex_store0"
  by (simp add: store_ok_def entries_ok_def ex_store0_def documentBytes_alt maxHistoryWriteBytes_def
      maxHistoryJSONBytes_def limit_defs)

lemma ex_store1_ok: "store_ok ex_store1"
  using Add_mirrors [OF ex_store0_ok, of "ex_entry 7" 1000000000 "fst (Add (ex_entry 7) 1000000000 ex_store0)" ex_store1]
  by (simp add: ex_store1_def)

lemma ex_entry_valid: "nid \<noteq> 0 \<Longrightarrow> HistoryEntry_Validate (ex_entry nid) = None"
proof -
  have "utf8_ValidString ''hello''" by (rule utf8_ascii) simp
  then show "nid \<noteq> 0 \<Longrightarrow> HistoryEntry_Validate (ex_entry nid) = None"
    by (simp add: HistoryEntry_Validate_def ex_entry_def zero_HistoryEntry_def validateText_def limit_defs
        Urgency_valid_def image_option_Validate_def time_IsZero_def)
qed

lemma ex_store1_entries: "Entries ex_store1 = [ex_entry 7]" "fst (Add (ex_entry 7) 1000000000 ex_store0) = Inr (ex_entry 7, [])"
proof -
  have v: "HistoryEntry_Validate (ex_entry 7) = None" by (simp add: ex_entry_valid)
  have im: "(ex_entry 7)\<lparr>h_Image := None\<rparr> = ex_entry 7" by (simp add: ex_entry_def zero_HistoryEntry_def)
  have "time_json 1000000000 \<noteq> None" by code_simp
  then obtain r where r: "newRetained (ex_entry 7) None = Inr r" "rt_entry r = ex_entry 7"
    by (auto simp: newRetained_def marshal_diskEntry_def diskEntryOf_def ex_entry_def Let_def)
  have "retained_ok r"
    using newRetained_ok [OF r(1) v] by (simp add: prepared_ok_def ex_entry_def zero_HistoryEntry_def)
  then have fits: "documentBytes [r] \<le> maxHistoryWriteBytes" by (rule single_fits)
  have p: "PrepareImage ex_codec (h_Image (ex_entry 7)) = Inr \<lparr>prep_image = None, prep_meta = None\<rparr>"
    by (simp add: PrepareImage_def normalizeHistoryImage_def ex_entry_def zero_HistoryEntry_def)
  have "Add (ex_entry 7) 1000000000 ex_store0 = (Inr (ex_entry 7, []), schedule (ex_store0\<lparr>st_entries := [r]\<rparr>))"
    using fits v r(1) p
    by (simp add: Add_def AddPrepared_def Let_def im ex_store0_def limit_defs)
      (simp add: ex_entry_def go_time limit_defs HistoryRetention_def)
  then show "Entries ex_store1 = [ex_entry 7]" "fst (Add (ex_entry 7) 1000000000 ex_store0) = Inr (ex_entry 7, [])"
    using r(2) by (simp_all add: ex_store1_def Entries_def)
qed

subsection \<open>The file\<close>

text \<open>
  C13: the size the store computes for its document, from the sizes it measured when the entries were
  added, is exactly the length of the file it writes (the encoded document and a newline).
\<close>

theorem document_size_is_exact:
  assumes "store_ok s"
  shows "\<exists>enc. marshal_document (encodeDocument (st_entries s)) = Some enc \<and>
    documentBytes (st_entries s) = length (enc @ [CHR 0x0A])"
  using documentBytes_exact assms by (simp add: store_ok_def entries_ok_def)

theorem document_size_is_exact_witness:
  "store_ok ex_store1 \<and> (\<exists>enc. marshal_document (encodeDocument (st_entries ex_store1)) = Some enc \<and>
     documentBytes (st_entries ex_store1) = length (enc @ [CHR 0x0A]))"
  using document_size_is_exact [OF ex_store1_ok] ex_store1_ok by simp

text \<open>
  C12: the store never writes a file that its own read path would reject. After any sequence of
  operations on a good store the document can be encoded, the file is below the 8 MiB read limit, and
  it holds at most 100 entries, all valid and under different IDs.
\<close>

theorem history_stays_readable:
  assumes "store_ok s" "\<forall>q\<in>set qs. store_request_ok q"
  shows "\<exists>ns t enc. run_session store_serves qs s = Some (ns, t) \<and>
    marshal_document (encodeDocument (st_entries t)) = Some enc \<and> length (enc @ [CHR 0x0A]) < maxHistoryJSONBytes \<and>
    length (st_entries t) \<le> MaxHistoryEntries \<and> distinct (IDs t) \<and>
    (\<forall>e\<in>set (Entries t). HistoryEntry_Validate e = None)"
proof -
  obtain ns t where t: "run_session store_serves qs s = Some (ns, t)" "store_ok t"
    using history_mirror.session_total [OF assms] by blast
  then have e: "entries_ok (st_entries t)" by (simp add: store_ok_def)
  obtain enc where "marshal_document (encodeDocument (st_entries t)) = Some enc"
    "documentBytes (st_entries t) = length (enc @ [CHR 0x0A])"
    using documentBytes_exact e by (auto simp: entries_ok_def)
  moreover have "maxHistoryWriteBytes < maxHistoryJSONBytes"
    by (simp add: maxHistoryWriteBytes_def maxHistoryJSONBytes_def)
  ultimately show ?thesis
    using t e by (auto simp: entries_ok_def IDs_def Entries_def retained_ok_def)
qed

theorem history_stays_readable_witness:
  "store_ok ex_store0 \<and> (\<exists>ns t enc. run_session store_serves [RAdd (ex_entry 7) 1000000000, RMarkSeen [7], RClear] ex_store0 =
     Some (ns, t) \<and> marshal_document (encodeDocument (st_entries t)) = Some enc \<and>
     length (enc @ [CHR 0x0A]) < maxHistoryJSONBytes)"
  using history_stays_readable [OF ex_store0_ok, of "[RAdd (ex_entry 7) 1000000000, RMarkSeen [7], RClear]"]
    ex_store0_ok by auto

text \<open>
  what the operations return is the whole story. A client that applies, in order, the removals,
  additions and marks that the results of any sequence of operations report has the same history,
  in the same order, as the store.
\<close>

theorem history_results_mirror_store:
  assumes "store_ok s" "\<forall>q\<in>set qs. store_request_ok q"
  shows "\<exists>ns t. run_session store_serves qs s = Some (ns, t) \<and>
    Entries t = fold apply_history_notice ns (Entries s)"
  using history_mirror.session_total [OF assms] by blast

theorem history_results_mirror_store_witness:
  "store_ok ex_store1 \<and> (\<exists>ns t. run_session store_serves [RSweep 1000000000, RRemove [7]] ex_store1 = Some (ns, t) \<and>
     Entries t = fold apply_history_notice ns [ex_entry 7])"
  using history_results_mirror_store [OF ex_store1_ok, of "[RSweep 1000000000, RRemove [7]]"] ex_store1_ok
  by (simp add: ex_store1_entries)

subsection \<open>Adding\<close>

text \<open>The budget loop stops at the first document that fits.\<close>

lemma trimToBudget_minimal:
  assumes "trimToBudget rs = (fitted, removed)"
  shows "\<exists>k\<le>length rs. fitted = drop k rs \<and> removed = map rt_ID (take k rs) \<and>
    (\<forall>j<k. maxHistoryWriteBytes < documentBytes (drop j rs))"
  using assms
proof (induction rs arbitrary: fitted removed)
  case Nil
  then show ?case by simp
next
  case (Cons r rs)
  show ?case
  proof (cases "documentBytes (r # rs) \<le> maxHistoryWriteBytes")
    case True
    with Cons.prems show ?thesis by (intro exI [of _ 0]) simp
  next
    case False
    then obtain removed' where r': "trimToBudget rs = (fitted, removed')" "removed = rt_ID r # removed'"
      using Cons.prems by (auto split: prod.splits)
    from Cons.IH [OF r'(1)] obtain k where k: "k \<le> length rs" "fitted = drop k rs" "removed' = map rt_ID (take k rs)"
      "\<forall>j<k. maxHistoryWriteBytes < documentBytes (drop j rs)" by blast
    have "maxHistoryWriteBytes < documentBytes (drop j (r # rs))" if "j < Suc k" for j
      using that False k(4) by (cases j) auto
    with k r'(2) show ?thesis by (intro exI [of _ "Suc k"]) auto
  qed
qed

lemma AddPrepared_added:
  assumes "AddPrepared e0 img now s = (Inr (e, removed), t)" "h_ID e \<noteq> 0"
  shows "\<exists>r counted cr fitted br. e = e0\<lparr>h_Image := prep_image img\<rparr> \<and> HistoryEntry_Validate e = None \<and>
    newRetained e (prep_meta img) = Inr r \<and>
    trimToCount (filter (\<lambda>x. rt_ID x \<noteq> h_ID e \<and> \<not> expired now x) (st_entries s) @ [r]) = (counted, cr) \<and>
    trimToBudget counted = (fitted, br) \<and> t = schedule (s\<lparr>st_entries := fitted\<rparr>)"
proof -
  define entry where "entry = e0\<lparr>h_Image := prep_image img\<rparr>"
  note eq = assms(1) [unfolded AddPrepared_def Let_def, folded entry_def]
  have v: "HistoryEntry_Validate entry = None" using eq by (cases "HistoryEntry_Validate entry") simp_all
  have young: "\<not> time_Before (h_Timestamp entry) (time_Add now (- HistoryRetention))"
    using eq v assms(2) by (auto simp: zero_HistoryEntry_def)
  obtain r where r: "newRetained entry (prep_meta img) = Inr r"
    using eq v young by (cases "newRetained entry (prep_meta img)") simp_all
  then show ?thesis using eq v young by (simp add: entry_def [symmetric] case_prod_beta prod_eq_iff) blast
qed

text \<open>
  an accepted entry is always kept, as the newest, and makes room by dropping as little as
  possible: the entry with its ID, what has expired, and then the oldest of the rest, one by one, only
  while there are more than 100 entries or the document exceeds the write budget.
\<close>

theorem add_drops_as_little_as_possible:
  assumes "store_ok s" "prepared_ok img" "AddPrepared e0 img now s = (Inr (e, removed), t)" "h_ID e \<noteq> 0"
  shows "\<exists>k r. let kept = filter (\<lambda>x. rt_ID x \<noteq> h_ID e \<and> \<not> expired now x) (st_entries s)
    in rt_entry r = e \<and> e = e0\<lparr>h_Image := prep_image img\<rparr> \<and> k \<le> length kept \<and> st_entries t = drop k kept @ [r] \<and>
       documentBytes (st_entries t) \<le> maxHistoryWriteBytes \<and> length (st_entries t) \<le> MaxHistoryEntries \<and>
       (\<forall>j<k. MaxHistoryEntries < length (drop j kept @ [r]) \<or> maxHistoryWriteBytes < documentBytes (drop j kept @ [r]))"
proof -
  define kept where "kept = filter (\<lambda>x. rt_ID x \<noteq> h_ID e \<and> \<not> expired now x) (st_entries s)"
  obtain r counted cr fitted br where
    e: "e = e0\<lparr>h_Image := prep_image img\<rparr>" "HistoryEntry_Validate e = None" and r: "newRetained e (prep_meta img) = Inr r" and
    c: "trimToCount (kept @ [r]) = (counted, cr)" and b: "trimToBudget counted = (fitted, br)" and
    t: "t = schedule (s\<lparr>st_entries := fitted\<rparr>)"
    using AddPrepared_added [OF assms(3,4)] unfolding kept_def by blast
  have meta: "prepared_ok \<lparr>prep_image = h_Image e, prep_meta = prep_meta img\<rparr>"
    using assms(2) by (simp add: e(1) prepared_ok_def)
  have rok: "retained_ok r" "rt_entry r = e" using newRetained_ok [OF r e(2) meta] by auto
  have kok: "entries_ok kept" using assms(1) by (simp add: store_ok_def kept_def entries_ok_filter)
  have new: "h_ID (rt_entry r) \<notin> set (map rt_ID kept)" by (auto simp: rok(2) kept_def)
  define n where "n = length (kept @ [r]) - MaxHistoryEntries"
  have n: "n \<le> length kept" using kok by (simp add: n_def entries_ok_def limit_defs)
  have counted: "counted = drop n kept @ [r]" using c n by (simp add: trimToCount_eq n_def)
  obtain m where m: "m \<le> length counted" "fitted = drop m counted"
    "\<forall>j<m. maxHistoryWriteBytes < documentBytes (drop j counted)"
    using trimToBudget_minimal [OF b] by blast
  obtain k where k: "k \<le> length kept" "fitted = drop k kept @ [r]" "entries_ok fitted"
    using trims_keep_new [OF kok rok(1) new c b] by blast
  have "length fitted = Suc (length kept - k)" unfolding k(2) by simp
  moreover have "length fitted = Suc (length kept - n) - m" unfolding m(2) counted by simp
  ultimately have nm: "k = n + m \<or> k = length kept \<and> length kept < n + m" using k(1) n m(1) by (auto simp: counted)
  have low: "MaxHistoryEntries < length (drop j kept @ [r]) \<or> maxHistoryWriteBytes < documentBytes (drop j kept @ [r])"
    if "j < k" for j
  proof (cases "j < n")
    case True
    then have "MaxHistoryEntries < length (drop j kept @ [r])" using n by (simp add: n_def)
    then show ?thesis ..
  next
    case False
    then have "j - n < m" "drop (j - n) counted = drop j kept @ [r]" using nm that k(1) n by (auto simp: counted)
    with m(3) show ?thesis by auto
  qed
  show ?thesis
    unfolding Let_def kept_def [symmetric]
    using k rok(2) e(1) low by (intro exI [of _ k] exI [of _ r]) (simp add: t entries_ok_def)
qed

theorem add_drops_as_little_as_possible_witness:
  "store_ok ex_store0 \<and> AddPrepared (ex_entry 7) \<lparr>prep_image = None, prep_meta = None\<rparr> 1000000000 ex_store0 =
     (Inr (ex_entry 7, []), ex_store1) \<and> length (st_entries ex_store1) \<le> MaxHistoryEntries"
proof -
  let ?img = "\<lparr>prep_image = None, prep_meta = None\<rparr>"
  have "Add (ex_entry 7) 1000000000 ex_store0 = AddPrepared (ex_entry 7) ?img 1000000000 ex_store0"
    by (simp add: Add_def ex_store0_def PrepareImage_def normalizeHistoryImage_def ex_entry_def zero_HistoryEntry_def)
  then have a: "AddPrepared (ex_entry 7) ?img 1000000000 ex_store0 = (Inr (ex_entry 7, []), ex_store1)"
    using ex_store1_entries(2) by (simp add: ex_store1_def prod_eq_iff)
  have "prepared_ok ?img" "h_ID (ex_entry 7) \<noteq> 0" by (simp_all add: prepared_ok_def ex_entry_def)
  from add_drops_as_little_as_possible [OF ex_store0_ok this(1) a this(2)] a ex_store0_ok show ?thesis
    by (auto simp: Let_def)
qed

subsection \<open>Expiry, removal and marks\<close>

text \<open>
  a sweep removes exactly the entries older than the seven days of retention, reports exactly their
  IDs, keeps the others in order, and schedules a write only if it removed something.
\<close>

theorem sweep_removes_exactly_the_expired:
  assumes "store_ok s" "Sweep now s = (removed, t)"
  shows "st_entries t = filter (\<lambda>r. now - HistoryRetention \<le> h_Timestamp (rt_entry r)) (st_entries s) \<and>
    removed = map rt_ID (filter (\<lambda>r. h_Timestamp (rt_entry r) < now - HistoryRetention) (st_entries s)) \<and>
    (removed = [] \<longrightarrow> t = s) \<and> (removed \<noteq> [] \<longrightarrow> st_dirty t \<and> st_writeGen t = Suc (st_writeGen s))"
proof -
  have e: "expired now = (\<lambda>r. h_Timestamp (rt_entry r) < now - HistoryRetention)"
    by (simp add: fun_eq_iff expired_def go_time)
  show ?thesis
    using assms(2) by (auto simp: Sweep_def Let_def e filter_empty_conv filter_id_conv not_less split: if_splits)
qed

theorem sweep_removes_exactly_the_expired_witness:
  "store_ok ex_store1 \<and> (\<exists>t. Sweep 1000000000000000 ex_store1 = ([7], t) \<and> st_entries t = [])"
proof -
  obtain removed t where sw: "Sweep 1000000000000000 ex_store1 = (removed, t)" by fastforce
  obtain r where r: "st_entries ex_store1 = [r]" "rt_entry r = ex_entry 7"
    using ex_store1_entries(1) by (auto simp: Entries_def)
  from sweep_removes_exactly_the_expired [OF ex_store1_ok sw] r sw ex_store1_ok show ?thesis
    by (simp add: ex_entry_def HistoryRetention_def go_time)
qed

text \<open>
  marking entries as seen cannot fail on a good store. It marks exactly the named entries, reports
  exactly those whose flag changed, and never lets the document grow, so the store stays within its
  write budget without trimming (each mark makes the file one byte shorter).
\<close>

theorem marking_seen_never_fails:
  assumes "store_ok s"
  shows "\<exists>changed t. MarkSeen ids s = (Inr changed, t) \<and> store_ok t \<and>
    Entries t = map (\<lambda>e. if h_ID e \<in> set ids then e\<lparr>h_Seen := True\<rparr> else e) (Entries s) \<and>
    set changed \<subseteq> set (IDs s) \<and> distinct changed \<and>
    documentBytes (st_entries t) \<le> documentBytes (st_entries s)"
proof -
  obtain res t where m: "MarkSeen ids s = (res, t)" by fastforce
  show ?thesis using assms m
  proof (cases rule: MarkSeen_spec)
    case (1 changed)
    with m show ?thesis by (auto simp: hist_seen_def)
  qed
qed

theorem marking_seen_never_fails_witness:
  "store_ok ex_store1 \<and> (\<exists>changed t. MarkSeen [7] ex_store1 = (Inr changed, t) \<and>
     Entries t = [(ex_entry 7)\<lparr>h_Seen := True\<rparr>])"
proof -
  have "map (\<lambda>e. if h_ID e \<in> set [7] then e\<lparr>h_Seen := True\<rparr> else e) (Entries ex_store1) = [(ex_entry 7)\<lparr>h_Seen := True\<rparr>]"
    by (simp add: ex_store1_entries) (simp add: ex_entry_def)
  with marking_seen_never_fails [OF ex_store1_ok, of "[7]"] ex_store1_ok show ?thesis by auto
qed

subsection \<open>Images\<close>

text \<open>
  whatever picture the decoder returns, the image kept in history has both edges between 1 and 96
  pixels, and its metadata carries those dimensions and the 64 hexadecimal digits of its SHA-256 digest.
\<close>

theorem history_images_are_small:
  assumes "PrepareImage c src = Inr p"
  shows "case (prep_image p, prep_meta p) of
      (None, None) \<Rightarrow> src = None
    | (Some i, Some m) \<Rightarrow> src \<noteq> None \<and> 1 \<le> unat (img_Width i) \<and> unat (img_Width i) \<le> 96 \<and>
        1 \<le> unat (img_Height i) \<and> unat (img_Height i) \<le> 96 \<and> im_width m = img_Width i \<and> im_height m = img_Height i \<and>
        im_digest m = hex_EncodeToString (sha256_Sum256 c (img_Data i)) \<and> length (im_digest m) = 64
    | _ \<Rightarrow> False"
proof -
  have ok: "prepared_ok p" using PrepareImage_ok [OF assms] .
  show ?thesis
  proof (cases src)
    case None
    with assms show ?thesis by (auto simp: PrepareImage_def normalizeHistoryImage_def)
  next
    case (Some i)
    then obtain r where n: "normalizeHistoryImage c (Some i) = Inr r"
      using assms by (cases "normalizeHistoryImage c (Some i)") (simp_all add: PrepareImage_def)
    then obtain img where "r = Some img" by (rule normalizeHistoryImage_Some)
    with n Some assms ok show ?thesis
      by (auto simp: PrepareImage_def prepared_ok_def newImageMeta_def historyImageLongEdge_def)
  qed
qed

definition ex_png :: codec where
  "ex_png = \<lparr>png_Decode = \<lambda>_. Some \<lparr>pic_Dx = 200, pic_Dy = 100, pic_At = \<lambda>x y. (0, 0, 0, 0)\<rparr>,
     png_Encode = \<lambda>_. Some ''png'', sha256_Sum256 = \<lambda>_. 1\<rparr>"

theorem history_images_are_small_witness:
  "\<exists>p i. PrepareImage ex_png (Some \<lparr>img_MediaType = ''image/png'', img_Width = 200, img_Height = 100, img_Data = ''x''\<rparr>) = Inr p \<and>
     prep_image p = Some i \<and> unat (img_Width i) \<le> 96"
proof -
  let ?src = "\<lparr>img_MediaType = ''image/png'', img_Width = 200, img_Height = 100, img_Data = ''x''\<rparr>"
  obtain p i where p: "PrepareImage ex_png (Some ?src) = Inr p" "prep_image p = Some i"
    by (simp add: PrepareImage_def normalizeHistoryImage_def Image_Validate_def limit_defs ex_png_def scaled_def
        historyImageLongEdge_def)
  with history_images_are_small [OF p(1)] show ?thesis by (auto split: option.splits)
qed

end
