(* ===== verification/CallOrder.thy ===== *)
theory CallOrder
  imports Contracts
begin

text \<open>
  The order of D-Bus calls (\<open>internal/fdo/order.go\<close>): every call that changes state gets a ticket when
  it arrives, and its handler goroutine waits for its turn among the calls of the same sender. The
  operations are translated one by one; a step relation interleaves the read goroutine, the handlers
  and \<open>Close\<close>, with the queue of outstanding calls per sender as the abstract state.
\<close>

subsection \<open>Messages and the order (order.go)\<close>

datatype MessageType = TypeMethodCall | TypeMethodReply | TypeError | TypeSignal

datatype HeaderField = FieldPath | FieldInterface | FieldMember | FieldSender | FieldSignature

text \<open>Header values keep their D-Bus type: a path or a signature is not equal to a plain string.\<close>

datatype HeaderValue = VString string | VObjectPath string | VSignature string

text \<open>\<open>msg_Identity\<close> is the identity of the shared header map (\<open>messageID\<close>).\<close>

record Message =
  msg_Identity :: nat
  msg_Type :: MessageType
  msg_Headers :: "HeaderField \<rightharpoonup> HeaderValue"

record CallOrder =
  co_issued :: "string \<rightharpoonup> u64"
  co_turn :: "string \<rightharpoonup> u64"
  co_tickets :: "nat \<rightharpoonup> u64"
  co_closed :: bool

definition notifySignature :: string where "notifySignature = ''susssasa{sv}i''"
definition closeSignature :: string where "closeSignature = ''u''"
definition ObjectPath :: string where "ObjectPath = ''/org/freedesktop/Notifications''"
definition Interface :: string where "Interface = ''org.freedesktop.Notifications''"

definition NewCallOrder :: CallOrder where
  "NewCallOrder = \<lparr>co_issued = Map.empty, co_turn = Map.empty, co_tickets = Map.empty, co_closed = False\<rparr>"

definition messageID :: "Message \<Rightarrow> nat" where
  "messageID m = msg_Identity m"

definition sender_of :: "Message \<Rightarrow> string option" where
  "sender_of m = (case msg_Headers m FieldSender of Some (VString s) \<Rightarrow> Some s | _ \<Rightarrow> None)"

definition ticketed :: "Message \<Rightarrow> bool" where
  "ticketed m \<longleftrightarrow>
     msg_Type m = TypeMethodCall \<and> msg_Headers m FieldPath = Some (VObjectPath ObjectPath) \<and>
     msg_Headers m FieldInterface = Some (VString Interface) \<and>
     (let member = (case msg_Headers m FieldMember of Some (VString s) \<Rightarrow> s | _ \<Rightarrow> []);
          signature = (case msg_Headers m FieldSignature of Some (VSignature s) \<Rightarrow> s | _ \<Rightarrow> [])
      in member = ''Notify'' \<and> signature = notifySignature \<or>
         member = ''CloseNotification'' \<and> signature = closeSignature)"

text \<open>A missing key of a counter map reads as zero.\<close>

definition counter :: "(string \<rightharpoonup> u64) \<Rightarrow> string \<Rightarrow> u64" where
  "counter m s = (case m s of None \<Rightarrow> 0 | Some n \<Rightarrow> n)"

definition Observe :: "Message \<Rightarrow> CallOrder \<Rightarrow> CallOrder" where
  "Observe m ord =
     (if \<not> ticketed m then ord
      else case sender_of m of
        None \<Rightarrow> ord
      | Some s \<Rightarrow>
          if co_closed ord then ord
          else (let ticket = counter (co_issued ord) s in
                ord\<lparr>co_issued := (co_issued ord)(s \<mapsto> ticket + 1),
                    co_tickets := (co_tickets ord)(messageID m \<mapsto> ticket)\<rparr>))"

text \<open>
  \<open>Enter\<close> up to its wait loop: the ticket is taken out of the table, or there is none and the call
  passes; then the condition on which the loop ends.
\<close>

definition takeTicket :: "Message \<Rightarrow> CallOrder \<Rightarrow> (string \<times> u64) option \<times> CallOrder" where
  "takeTicket m ord =
     (case sender_of m of
        None \<Rightarrow> (None, ord)
      | Some s \<Rightarrow>
          (case co_tickets ord (messageID m) of
             None \<Rightarrow> (None, ord)
           | Some ticket \<Rightarrow> (Some (s, ticket), ord\<lparr>co_tickets := (co_tickets ord)(messageID m := None)\<rparr>)))"

definition mayProceed :: "string \<Rightarrow> u64 \<Rightarrow> CallOrder \<Rightarrow> bool" where
  "mayProceed s ticket ord \<longleftrightarrow> co_closed ord \<or> counter (co_turn ord) s = ticket"

definition advance :: "string \<Rightarrow> CallOrder \<Rightarrow> CallOrder" where
  "advance s ord =
     (let t = counter (co_turn ord) s + 1 in
      if t = counter (co_issued ord) s
      then ord\<lparr>co_turn := (co_turn ord)(s := None), co_issued := (co_issued ord)(s := None)\<rparr>
      else ord\<lparr>co_turn := (co_turn ord)(s \<mapsto> t)\<rparr>)"

definition CloseOrder :: "CallOrder \<Rightarrow> CallOrder" where
  "CloseOrder ord = ord\<lparr>co_closed := True, co_tickets := Map.empty\<rparr>"

subsection \<open>The goroutines\<close>

text \<open>
  A handler runs its preprocessing, waits with its ticket, is in the section that changes state
  (holding the turn, or without one when it was not ordered or the order is closed), and ends.
  \<open>w_queue\<close> is the abstract state: the outstanding ordered calls of each sender, oldest first.
\<close>

datatype phase = Running | Waiting string u64 | Inside "string option"

record world =
  w_order :: CallOrder
  w_calls :: "nat \<rightharpoonup> Message \<times> phase"
  w_queue :: "string \<Rightarrow> nat list"

definition ordered_call :: "Message \<Rightarrow> CallOrder \<Rightarrow> string option" where
  "ordered_call m ord = (if ticketed m \<and> \<not> co_closed ord then sender_of m else None)"

inductive call_step :: "world \<Rightarrow> world \<Rightarrow> bool" where
  arrive: "w_calls w (messageID m) = None \<Longrightarrow>
     (\<And>s. ordered_call m (w_order w) = Some s \<Longrightarrow> length (w_queue w s) + 1 < 2 ^ 64) \<Longrightarrow>
     call_step w (w\<lparr>w_order := Observe m (w_order w), w_calls := (w_calls w)(messageID m \<mapsto> (m, Running)),
       w_queue := (\<lambda>s. if ordered_call m (w_order w) = Some s then w_queue w s @ [messageID m] else w_queue w s)\<rparr>)"
| pass: "w_calls w i = Some (m, Running) \<Longrightarrow> takeTicket m (w_order w) = (None, ord) \<Longrightarrow>
     call_step w (w\<lparr>w_calls := (w_calls w)(i \<mapsto> (m, Inside None))\<rparr>)"
| take: "w_calls w i = Some (m, Running) \<Longrightarrow> takeTicket m (w_order w) = (Some (s, t), ord) \<Longrightarrow>
     call_step w (w\<lparr>w_order := ord, w_calls := (w_calls w)(i \<mapsto> (m, Waiting s t))\<rparr>)"
| enter: "w_calls w i = Some (m, Waiting s t) \<Longrightarrow> mayProceed s t (w_order w) \<Longrightarrow>
     call_step w (w\<lparr>w_calls := (w_calls w)(i \<mapsto>
       (m, Inside (if co_closed (w_order w) then None else Some s)))\<rparr>)"
| leave: "w_calls w i = Some (m, Inside (Some s)) \<Longrightarrow>
     call_step w (w\<lparr>w_order := advance s (w_order w), w_calls := (w_calls w)(i := None),
       w_queue := (w_queue w)(s := tl (w_queue w s))\<rparr>)"
| leave_free: "w_calls w i = Some (m, Inside None) \<Longrightarrow>
     call_step w (w\<lparr>w_calls := (w_calls w)(i := None)\<rparr>)"
| close: "call_step w (w\<lparr>w_order := CloseOrder (w_order w)\<rparr>)"

definition call_initial :: "world \<Rightarrow> bool" where
  "call_initial w \<longleftrightarrow> w_order w = NewCallOrder \<and> w_calls w = Map.empty \<and> w_queue w = (\<lambda>_. [])"

subsection \<open>The invariant: the counters are the queue\<close>

text \<open>
  While the order is open, the counters of a sender are the two ends of its queue, and the call at
  position \<open>i\<close> holds the ticket that is \<open>i\<close> turns away, in the table or in its hands; only the first
  can be inside.
\<close>

fun at_place :: "CallOrder \<Rightarrow> string \<Rightarrow> nat \<Rightarrow> nat \<Rightarrow> phase \<Rightarrow> bool" where
  "at_place ord s pos i Running \<longleftrightarrow> co_tickets ord i = Some (counter (co_turn ord) s + of_nat pos)"
| "at_place ord s pos i (Waiting s' t) \<longleftrightarrow> s' = s \<and> t = counter (co_turn ord) s + of_nat pos \<and> co_tickets ord i = None"
| "at_place ord s pos i (Inside h) \<longleftrightarrow> h = Some s \<and> pos = 0 \<and> co_tickets ord i = None"

fun unordered :: "CallOrder \<Rightarrow> nat \<Rightarrow> phase \<Rightarrow> bool" where
  "unordered ord i Running \<longleftrightarrow> co_tickets ord i = None"
| "unordered ord i (Waiting s t) \<longleftrightarrow> False"
| "unordered ord i (Inside h) \<longleftrightarrow> h = None \<and> co_tickets ord i = None"

definition sender_ok :: "world \<Rightarrow> string \<Rightarrow> bool" where
  "sender_ok w s \<longleftrightarrow> (let q = w_queue w s; ord = w_order w in
     distinct q \<and> length q < 2 ^ 64 \<and>
     (q = [] \<longrightarrow> co_issued ord s = None \<and> co_turn ord s = None) \<and>
     counter (co_issued ord) s = counter (co_turn ord) s + of_nat (length q) \<and>
     (\<forall>pos<length q. \<exists>m ph. w_calls w (q ! pos) = Some (m, ph) \<and> sender_of m = Some s \<and> at_place ord s pos (q ! pos) ph))"

definition order_ok :: "world \<Rightarrow> bool" where
  "order_ok w \<longleftrightarrow>
     (\<forall>i m ph. w_calls w i = Some (m, ph) \<longrightarrow> messageID m = i) \<and>
     (\<not> co_closed (w_order w) \<longrightarrow>
        (\<forall>s. sender_ok w s) \<and>
        (\<forall>i. co_tickets (w_order w) i \<noteq> None \<longrightarrow> w_calls w i \<noteq> None) \<and>
        (\<forall>i m ph. w_calls w i = Some (m, ph) \<longrightarrow>
           (\<exists>s. i \<in> set (w_queue w s)) \<or> unordered (w_order w) i ph))"

lemma order_okD:
  assumes "order_ok w"
  shows "w_calls w i = Some (m, ph) \<Longrightarrow> messageID m = i"
    "\<not> co_closed (w_order w) \<Longrightarrow> sender_ok w s"
    "\<not> co_closed (w_order w) \<Longrightarrow> co_tickets (w_order w) i \<noteq> None \<Longrightarrow> w_calls w i \<noteq> None"
    "\<not> co_closed (w_order w) \<Longrightarrow> w_calls w i = Some (m, ph) \<Longrightarrow>
       (\<exists>s. i \<in> set (w_queue w s)) \<or> unordered (w_order w) i ph"
  using assms unfolding order_ok_def by blast+

lemma order_okI:
  assumes "\<And>i m ph. w_calls w i = Some (m, ph) \<Longrightarrow> messageID m = i"
    "\<And>s. \<not> co_closed (w_order w) \<Longrightarrow> sender_ok w s"
    "\<And>i. \<not> co_closed (w_order w) \<Longrightarrow> co_tickets (w_order w) i \<noteq> None \<Longrightarrow> w_calls w i \<noteq> None"
    "\<And>i m ph. \<not> co_closed (w_order w) \<Longrightarrow> w_calls w i = Some (m, ph) \<Longrightarrow> \<forall>s. i \<notin> set (w_queue w s) \<Longrightarrow>
       unordered (w_order w) i ph"
  shows "order_ok w"
  using assms unfolding order_ok_def by blast

lemma sender_okI:
  assumes "distinct (w_queue w s)" "length (w_queue w s) < 2 ^ 64"
    "w_queue w s = [] \<Longrightarrow> co_issued (w_order w) s = None \<and> co_turn (w_order w) s = None"
    "counter (co_issued (w_order w)) s = counter (co_turn (w_order w)) s + of_nat (length (w_queue w s))"
    "\<And>pos. pos < length (w_queue w s) \<Longrightarrow> \<exists>m ph. w_calls w (w_queue w s ! pos) = Some (m, ph) \<and> sender_of m = Some s \<and>
       at_place (w_order w) s pos (w_queue w s ! pos) ph"
  shows "sender_ok w s"
  using assms unfolding sender_ok_def Let_def by blast

lemma sender_okD:
  assumes "sender_ok w s"
  shows "distinct (w_queue w s)" "length (w_queue w s) < 2 ^ 64"
    "w_queue w s = [] \<Longrightarrow> co_issued (w_order w) s = None \<and> co_turn (w_order w) s = None"
    "counter (co_issued (w_order w)) s = counter (co_turn (w_order w)) s + of_nat (length (w_queue w s))"
    "pos < length (w_queue w s) \<Longrightarrow> \<exists>m ph. w_calls w (w_queue w s ! pos) = Some (m, ph) \<and> sender_of m = Some s \<and>
       at_place (w_order w) s pos (w_queue w s ! pos) ph"
  using assms by (auto simp: sender_ok_def Let_def)

text \<open>A call in a queue is live, belongs to that sender, and is in the state its position asks for.\<close>

lemma queued_call:
  assumes ok: "order_ok w" and op: "\<not> co_closed (w_order w)" and i: "i \<in> set (w_queue w s)"
    and c: "w_calls w i = Some (m, ph)"
  obtains pos where "pos < length (w_queue w s)" "w_queue w s ! pos = i" "sender_of m = Some s"
    "at_place (w_order w) s pos i ph"
proof -
  obtain pos where "pos < length (w_queue w s)" "w_queue w s ! pos = i" using i by (auto simp: in_set_conv_nth)
  with sender_okD(5) [OF order_okD(2) [OF ok op, of s], of pos] c that show thesis by auto
qed

lemma queued_live:
  assumes "order_ok w" "\<not> co_closed (w_order w)" "i \<in> set (w_queue w s)"
  shows "w_calls w i \<noteq> None"
proof -
  obtain pos where "pos < length (w_queue w s)" "w_queue w s ! pos = i" using assms(3) by (auto simp: in_set_conv_nth)
  with sender_okD(5) [OF order_okD(2) [OF assms(1,2), of s], of pos] show ?thesis by auto
qed

text \<open>A change that leaves the queue of a sender, its counters and its calls alone keeps it well formed.\<close>

lemma sender_ok_frame:
  assumes "sender_ok w s" "w_queue w' s = w_queue w s"
    "co_issued (w_order w') s = co_issued (w_order w) s" "co_turn (w_order w') s = co_turn (w_order w) s"
    "\<And>i. i \<in> set (w_queue w s) \<Longrightarrow> w_calls w' i = w_calls w i"
    "\<And>i. i \<in> set (w_queue w s) \<Longrightarrow> co_tickets (w_order w') i = co_tickets (w_order w) i"
  shows "sender_ok w' s"
proof -
  have c: "counter (co_issued (w_order w')) s = counter (co_issued (w_order w)) s"
    "counter (co_turn (w_order w')) s = counter (co_turn (w_order w)) s"
    using assms(3,4) by (simp_all add: counter_def)
  have "at_place (w_order w') s pos i ph = at_place (w_order w) s pos i ph" if "i \<in> set (w_queue w s)" for pos i ph
    using assms(6) [OF that] c by (cases ph) simp_all
  then show ?thesis
    using assms(1) assms(2-5) c unfolding sender_ok_def Let_def by (metis nth_mem)
qed

lemma of_nat_u64_eq: "n < 2 ^ 64 \<Longrightarrow> k < 2 ^ 64 \<Longrightarrow> (of_nat n = (of_nat k :: u64)) = (n = k)"
  by (simp add: word_unat_eq_iff unat_of_nat)

lemma of_nat_u64_eq_0: "n < 2 ^ 64 \<Longrightarrow> (of_nat n = (0 :: u64)) = (n = 0)"
  using of_nat_u64_eq [of n 0] by simp

subsection \<open>Every step keeps the invariant\<close>

lemma unordered_frame:
  "co_tickets ord' i = co_tickets ord i \<Longrightarrow> unordered ord' i ph = unordered ord i ph"
  by (cases ph) simp_all

lemma at_place_frame:
  "co_tickets ord' i = co_tickets ord i \<Longrightarrow> co_turn ord' s = co_turn ord s \<Longrightarrow>
     at_place ord' s pos i ph = at_place ord s pos i ph"
  by (cases ph) (simp_all add: counter_def)

lemma arrive_unordered_ok:
  assumes ok: "order_ok w" and new: "w_calls w (messageID m) = None" and obs: "Observe m (w_order w) = w_order w"
  shows "order_ok (w\<lparr>w_calls := (w_calls w)(messageID m \<mapsto> (m, Running))\<rparr>)" (is "order_ok ?w")
proof (rule order_okI)
  show "messageID c = i" if "w_calls ?w i = Some (c, ph)" for i c ph
    using that order_okD(1) [OF ok] by (cases "i = messageID m") auto
  assume op: "\<not> co_closed (w_order ?w)"
  then have op': "\<not> co_closed (w_order w)" by simp
  have notin: "messageID m \<notin> set (w_queue w s)" for s using queued_live [OF ok op'] new by blast
  show "sender_ok ?w s" for s
    using notin [of s] by (intro sender_ok_frame [OF order_okD(2) [OF ok op', of s]]) auto
  show "w_calls ?w i \<noteq> None" if "co_tickets (w_order ?w) i \<noteq> None" for i
    using that order_okD(3) [OF ok op', of i] by auto
  show "unordered (w_order ?w) i ph" if "w_calls ?w i = Some (c, ph)" "\<forall>s. i \<notin> set (w_queue ?w s)" for i c ph
  proof (cases "i = messageID m")
    case True
    then have "co_tickets (w_order w) i = None" using order_okD(3) [OF ok op', of i] new by blast
    with True that(1) show ?thesis by simp
  next
    case False
    with that order_okD(4) [OF ok op', of i c ph] show ?thesis by simp
  qed
qed

lemma arrive_ordered_ok:
  assumes ok: "order_ok w" and new: "w_calls w (messageID m) = None" and op: "\<not> co_closed (w_order w)"
    and s: "sender_of m = Some s" and room: "length (w_queue w s) + 1 < 2 ^ 64"
  shows "order_ok (w\<lparr>w_order := (w_order w)\<lparr>co_issued := (co_issued (w_order w))(s \<mapsto> counter (co_issued (w_order w)) s + 1),
        co_tickets := (co_tickets (w_order w))(messageID m \<mapsto> counter (co_issued (w_order w)) s)\<rparr>,
      w_calls := (w_calls w)(messageID m \<mapsto> (m, Running)),
      w_queue := (w_queue w)(s := w_queue w s @ [messageID m])\<rparr>)" (is "order_ok ?w")
proof (rule order_okI)
  let ?i = "messageID m" and ?ord = "w_order w"
  note sok = order_okD(2) [OF ok op, of s]
  have notin: "?i \<notin> set (w_queue w s)" for s using queued_live [OF ok op] new by blast
  show "messageID c = i" if "w_calls ?w i = Some (c, ph)" for i c ph
    using that order_okD(1) [OF ok] by (cases "i = ?i") auto
  show "sender_ok ?w s'" for s'
  proof (cases "s' = s")
    case False
    with notin [of s'] show ?thesis by (intro sender_ok_frame [OF order_okD(2) [OF ok op, of s']]) auto
  next
    case True
    show ?thesis unfolding True
    proof (rule sender_okI)
      show "distinct (w_queue ?w s)" using sender_okD(1) [OF sok] notin [of s] by simp
      show "length (w_queue ?w s) < 2 ^ 64" using room by simp
      show "counter (co_issued (w_order ?w)) s = counter (co_turn (w_order ?w)) s + of_nat (length (w_queue ?w s))"
        using sender_okD(4) [OF sok] by (simp add: counter_def)
      fix pos assume pos: "pos < length (w_queue ?w s)"
      show "\<exists>c ph. w_calls ?w (w_queue ?w s ! pos) = Some (c, ph) \<and> sender_of c = Some s \<and>
          at_place (w_order ?w) s pos (w_queue ?w s ! pos) ph"
      proof (cases "pos < length (w_queue w s)")
        case True
        then have ne: "w_queue w s ! pos \<noteq> ?i" using notin [of s] nth_mem by metis
        obtain c ph where c: "w_calls w (w_queue w s ! pos) = Some (c, ph)" "sender_of c = Some s"
          "at_place ?ord s pos (w_queue w s ! pos) ph" using sender_okD(5) [OF sok True] by blast
        have "at_place (w_order ?w) s pos (w_queue w s ! pos) ph"
          using c(3) ne at_place_frame [of "w_order ?w" "w_queue w s ! pos" ?ord s pos ph] by simp
        with c True ne show ?thesis by (simp add: nth_append)
      next
        case False
        with pos have "pos = length (w_queue w s)" by simp
        with s sender_okD(4) [OF sok] show ?thesis by (simp add: nth_append)
      qed
    qed simp
  qed
  show "w_calls ?w i \<noteq> None" if "co_tickets (w_order ?w) i \<noteq> None" for i
    using that order_okD(3) [OF ok op, of i] by (cases "i = ?i") auto
  show "unordered (w_order ?w) i ph" if "w_calls ?w i = Some (c, ph)" "\<forall>s. i \<notin> set (w_queue ?w s)" for i c ph
  proof -
    have ne: "i \<noteq> ?i" using that(2) [rule_format, of s] by auto
    have "\<forall>s'. i \<notin> set (w_queue w s')"
    proof
      fix s' show "i \<notin> set (w_queue w s')" using that(2) [rule_format, of s'] by (cases "s' = s") auto
    qed
    with ne that(1) order_okD(4) [OF ok op, of i c ph] have "unordered ?ord i ph" by auto
    with ne unordered_frame [of "w_order ?w" i ?ord ph] show ?thesis by simp
  qed
qed

lemma arrive_ok:
  assumes ok: "order_ok w" and new: "w_calls w (messageID m) = None"
    and room: "\<And>s. ordered_call m (w_order w) = Some s \<Longrightarrow> length (w_queue w s) + 1 < 2 ^ 64"
  shows "order_ok (w\<lparr>w_order := Observe m (w_order w), w_calls := (w_calls w)(messageID m \<mapsto> (m, Running)),
       w_queue := (\<lambda>s. if ordered_call m (w_order w) = Some s then w_queue w s @ [messageID m] else w_queue w s)\<rparr>)"
proof (cases "ordered_call m (w_order w)")
  case None
  then have "Observe m (w_order w) = w_order w"
    by (auto simp: Observe_def ordered_call_def split: option.splits if_splits)
  with arrive_unordered_ok [OF ok new this] None show ?thesis by simp
next
  case (Some s)
  then have s: "ticketed m" "\<not> co_closed (w_order w)" "sender_of m = Some s"
    by (auto simp: ordered_call_def split: if_splits)
  have "(\<lambda>s'. if ordered_call m (w_order w) = Some s' then w_queue w s' @ [messageID m] else w_queue w s') =
      (w_queue w)(s := w_queue w s @ [messageID m])" using Some by auto
  with arrive_ordered_ok [OF ok new s(2,3) room [OF Some]] s show ?thesis by (simp add: Observe_def Let_def)
qed

text \<open>Changing the phase of one call: its place, or its being unordered, has to be shown anew.\<close>

lemma phase_ok:
  assumes ok: "order_ok w" and c: "w_calls w i = Some (m, ph)"
    and tk: "\<And>j. j \<noteq> i \<Longrightarrow> co_tickets ord j = co_tickets (w_order w) j" "co_tickets ord i = None \<or> ord = w_order w"
    and cnt: "co_issued ord = co_issued (w_order w)" "co_turn ord = co_turn (w_order w)" "co_closed ord = co_closed (w_order w)"
    and placed: "\<And>s pos. \<not> co_closed (w_order w) \<Longrightarrow> pos < length (w_queue w s) \<Longrightarrow> w_queue w s ! pos = i \<Longrightarrow>
       sender_of m = Some s \<Longrightarrow> at_place (w_order w) s pos i ph \<Longrightarrow> at_place ord s pos i ph'"
    and free: "\<not> co_closed (w_order w) \<Longrightarrow> unordered (w_order w) i ph \<Longrightarrow> \<forall>s. i \<notin> set (w_queue w s) \<Longrightarrow> unordered ord i ph'"
  shows "order_ok (w\<lparr>w_order := ord, w_calls := (w_calls w)(i \<mapsto> (m, ph'))\<rparr>)" (is "order_ok ?w")
proof (rule order_okI)
  show "messageID c = j" if "w_calls ?w j = Some (c, p)" for j c p
    using that order_okD(1) [OF ok] c by (cases "j = i") auto
  assume "\<not> co_closed (w_order ?w)"
  then have op: "\<not> co_closed (w_order w)" using cnt(3) by simp
  show "sender_ok ?w s" for s
  proof (rule sender_okI)
    note sok = order_okD(2) [OF ok op, of s]
    show "distinct (w_queue ?w s)" "length (w_queue ?w s) < 2 ^ 64"
      "w_queue ?w s = [] \<Longrightarrow> co_issued (w_order ?w) s = None \<and> co_turn (w_order ?w) s = None"
      "counter (co_issued (w_order ?w)) s = counter (co_turn (w_order ?w)) s + of_nat (length (w_queue ?w s))"
      using sender_okD(1-4) [OF sok] cnt by simp_all
    fix pos assume "pos < length (w_queue ?w s)"
    then have pos: "pos < length (w_queue w s)" by simp
    let ?j = "w_queue w s ! pos"
    obtain c' p where j: "w_calls w ?j = Some (c', p)" "sender_of c' = Some s" "at_place (w_order w) s pos ?j p"
      using sender_okD(5) [OF sok pos] by blast
    show "\<exists>c p. w_calls ?w (w_queue ?w s ! pos) = Some (c, p) \<and> sender_of c = Some s \<and>
        at_place (w_order ?w) s pos (w_queue ?w s ! pos) p"
    proof (cases "?j = i")
      case True
      then have "at_place ord s pos i ph'" using placed [OF op pos True] j c by simp
      with True j c show ?thesis by simp
    next
      case False
      then have "at_place ord s pos ?j p" using j(3) at_place_frame [of ord ?j "w_order w" s pos p] tk(1) cnt(2) by simp
      with False j show ?thesis by simp
    qed
  qed
  show "w_calls ?w j \<noteq> None" if "co_tickets (w_order ?w) j \<noteq> None" for j
    using that order_okD(3) [OF ok op, of j] tk(1) [of j] by (cases "j = i") auto
  show "unordered (w_order ?w) j p" if j: "w_calls ?w j = Some (c', p)" "\<forall>s. j \<notin> set (w_queue ?w s)" for j c' p
  proof (cases "j = i")
    case True
    then have "\<forall>s. i \<notin> set (w_queue w s)" using j(2) by simp
    moreover have "unordered (w_order w) i ph" using order_okD(4) [OF ok op c] calculation by blast
    ultimately show ?thesis using free [OF op] True j(1) by simp
  next
    case False
    then have "unordered (w_order w) j p" using j order_okD(4) [OF ok op, of j c' p] by simp
    with False tk(1) unordered_frame [of ord j "w_order w" p] show ?thesis by simp
  qed
qed

lemma pass_ok:
  assumes ok: "order_ok w" and c: "w_calls w i = Some (m, Running)" and none: "takeTicket m (w_order w) = (None, ord)"
  shows "order_ok (w\<lparr>w_calls := (w_calls w)(i \<mapsto> (m, Inside None))\<rparr>)"
proof -
  have "messageID m = i" using order_okD(1) [OF ok c] .
  with none have "sender_of m = None \<or> co_tickets (w_order w) i = None"
    by (auto simp: takeTicket_def split: option.splits)
  then have "order_ok (w\<lparr>w_order := w_order w, w_calls := (w_calls w)(i \<mapsto> (m, Inside None))\<rparr>)"
    by (intro phase_ok [OF ok c]) auto
  then show ?thesis by simp
qed

lemma take_ok:
  assumes ok: "order_ok w" and c: "w_calls w i = Some (m, Running)" and some: "takeTicket m (w_order w) = (Some (s, t), ord)"
  shows "order_ok (w\<lparr>w_order := ord, w_calls := (w_calls w)(i \<mapsto> (m, Waiting s t))\<rparr>)"
proof -
  have "messageID m = i" using order_okD(1) [OF ok c] .
  with some have t: "sender_of m = Some s" "co_tickets (w_order w) i = Some t"
    "ord = (w_order w)\<lparr>co_tickets := (co_tickets (w_order w))(i := None)\<rparr>"
    by (auto simp: takeTicket_def split: option.splits)
  then show ?thesis by (intro phase_ok [OF ok c]) auto
qed

lemma enter_ok:
  assumes ok: "order_ok w" and c: "w_calls w i = Some (m, Waiting s t)" and may: "mayProceed s t (w_order w)"
  shows "order_ok (w\<lparr>w_calls := (w_calls w)(i \<mapsto> (m, Inside (if co_closed (w_order w) then None else Some s)))\<rparr>)"
proof -
  have "pos = 0" if "\<not> co_closed (w_order w)" "pos < length (w_queue w s)" "t = counter (co_turn (w_order w)) s + of_nat pos" for pos
  proof -
    have "of_nat pos = (0 :: u64)" using may that by (simp add: mayProceed_def)
    moreover have "pos < 2 ^ 64" using that sender_okD(2) [OF order_okD(2) [OF ok that(1), of s]] by simp
    ultimately show ?thesis using of_nat_u64_eq_0 by blast
  qed
  then have "order_ok (w\<lparr>w_order := w_order w,
      w_calls := (w_calls w)(i \<mapsto> (m, Inside (if co_closed (w_order w) then None else Some s)))\<rparr>)"
    by (intro phase_ok [OF ok c]) auto
  then show ?thesis by simp
qed

lemma leave_free_ok:
  assumes ok: "order_ok w" and c: "w_calls w i = Some (m, Inside None)"
  shows "order_ok (w\<lparr>w_calls := (w_calls w)(i := None)\<rparr>)" (is "order_ok ?w")
proof (rule order_okI)
  show "messageID c = j" if "w_calls ?w j = Some (c, p)" for j c p
    using that order_okD(1) [OF ok] by (cases "j = i") auto
  assume "\<not> co_closed (w_order ?w)"
  then have op: "\<not> co_closed (w_order w)" by simp
  have notin: "i \<notin> set (w_queue w s)" for s
  proof
    assume "i \<in> set (w_queue w s)"
    from queued_call [OF ok op this c] show False by simp
  qed
  then have tk: "co_tickets (w_order w) i = None" using order_okD(4) [OF ok op c] by auto
  show "sender_ok ?w s" for s
    using notin [of s] by (intro sender_ok_frame [OF order_okD(2) [OF ok op, of s]]) auto
  show "w_calls ?w j \<noteq> None" if "co_tickets (w_order ?w) j \<noteq> None" for j
    using that order_okD(3) [OF ok op, of j] tk by (cases "j = i") auto
  show "unordered (w_order ?w) j p" if "w_calls ?w j = Some (c', p)" "\<forall>s. j \<notin> set (w_queue ?w s)" for j c' p
    using that order_okD(4) [OF ok op, of j c' p] by (cases "j = i") auto
qed

text \<open>The call that holds the turn of a sender is the first of its queue.\<close>

lemma holder_is_first:
  assumes ok: "order_ok w" and op: "\<not> co_closed (w_order w)" and c: "w_calls w i = Some (m, Inside (Some s))"
  shows "\<exists>q. w_queue w s = i # q" "co_tickets (w_order w) i = None" "sender_of m = Some s"
proof -
  obtain s' where s': "i \<in> set (w_queue w s')" using order_okD(4) [OF ok op c] by auto
  from queued_call [OF ok op s' c] obtain pos where pos: "pos < length (w_queue w s')" "w_queue w s' ! pos = i"
    "sender_of m = Some s'" "at_place (w_order w) s' pos i (Inside (Some s))" .
  then show "\<exists>q. w_queue w s = i # q" "co_tickets (w_order w) i = None" "sender_of m = Some s"
    by (auto simp: neq_Nil_conv elim: list.set_cases)
qed

lemma advance_counters:
  assumes sok: "sender_ok w s" and q: "w_queue w s = i # q"
  defines "ord \<equiv> advance s (w_order w)"
  shows "q = [] \<Longrightarrow> co_issued ord s = None \<and> co_turn ord s = None"
    "q \<noteq> [] \<Longrightarrow> counter (co_turn ord) s = counter (co_turn (w_order w)) s + 1 \<and> co_issued ord = co_issued (w_order w)"
    "s' \<noteq> s \<Longrightarrow> co_issued ord s' = co_issued (w_order w) s' \<and> co_turn ord s' = co_turn (w_order w) s'"
    "co_tickets ord = co_tickets (w_order w)" "co_closed ord = co_closed (w_order w)"
proof -
  let ?t = "counter (co_turn (w_order w)) s"
  have iss: "counter (co_issued (w_order w)) s = ?t + of_nat (Suc (length q))" using sender_okD(4) [OF sok] q by simp
  have "(?t + 1 = counter (co_issued (w_order w)) s) = (of_nat (length q) = (0 :: u64))" by (simp add: iss)
  also have "\<dots> = (length q = 0)" using sender_okD(2) [OF sok] q by (intro of_nat_u64_eq_0) simp
  finally have last: "(?t + 1 = counter (co_issued (w_order w)) s) = (q = [])" by simp
  show "q = [] \<Longrightarrow> co_issued ord s = None \<and> co_turn ord s = None"
    "q \<noteq> [] \<Longrightarrow> counter (co_turn ord) s = ?t + 1 \<and> co_issued ord = co_issued (w_order w)"
    "s' \<noteq> s \<Longrightarrow> co_issued ord s' = co_issued (w_order w) s' \<and> co_turn ord s' = co_turn (w_order w) s'"
    "co_tickets ord = co_tickets (w_order w)" "co_closed ord = co_closed (w_order w)"
    using last by (simp_all add: ord_def advance_def Let_def) (simp_all add: counter_def)
qed

lemma leave_sender_ok:
  assumes sok: "sender_ok w s" and q: "w_queue w s = i # q"
    and w': "w_queue w' s = q" "w_order w' = advance s (w_order w)" "\<And>j. j \<noteq> i \<Longrightarrow> w_calls w' j = w_calls w j"
  shows "sender_ok w' s"
proof (rule sender_okI)
  note adv = advance_counters [OF sok q]
  have d: "distinct (i # q)" using sender_okD(1) [OF sok] q by simp
  show "distinct (w_queue w' s)" using d w' by simp
  show "length (w_queue w' s) < 2 ^ 64" using sender_okD(2) [OF sok] q w' by simp
  show "w_queue w' s = [] \<Longrightarrow> co_issued (w_order w') s = None \<and> co_turn (w_order w') s = None" using adv(1) w' by simp
  show "counter (co_issued (w_order w')) s = counter (co_turn (w_order w')) s + of_nat (length (w_queue w' s))"
    using adv(1,2) sender_okD(4) [OF sok] q w' by (cases "q = []") (simp_all add: counter_def)
  fix pos assume "pos < length (w_queue w' s)"
  then have pos: "pos < length q" using w' by simp
  obtain c p where j: "w_calls w (q ! pos) = Some (c, p)" "sender_of c = Some s" "at_place (w_order w) s (Suc pos) (q ! pos) p"
    using sender_okD(5) [OF sok, of "Suc pos"] q pos by auto
  have "q \<noteq> []" "q ! pos \<noteq> i" using pos d by auto
  with j(3) adv(2,4) w' have "at_place (w_order w') s pos (q ! pos) p" by (cases p) auto
  with j \<open>q ! pos \<noteq> i\<close> w' show "\<exists>c p. w_calls w' (w_queue w' s ! pos) = Some (c, p) \<and> sender_of c = Some s \<and>
      at_place (w_order w') s pos (w_queue w' s ! pos) p" by simp
qed

lemma leave_ok:
  assumes ok: "order_ok w" and c: "w_calls w i = Some (m, Inside (Some s))"
  shows "order_ok (w\<lparr>w_order := advance s (w_order w), w_calls := (w_calls w)(i := None),
    w_queue := (w_queue w)(s := tl (w_queue w s))\<rparr>)" (is "order_ok ?w")
proof (rule order_okI)
  show "messageID c = j" if "w_calls ?w j = Some (c, p)" for j c p
    using that order_okD(1) [OF ok] by (cases "j = i") auto
  have cl: "co_closed (advance s (w_order w)) = co_closed (w_order w)" by (simp add: advance_def Let_def)
  assume "\<not> co_closed (w_order ?w)"
  then have op: "\<not> co_closed (w_order w)" using cl by simp
  obtain q where q: "w_queue w s = i # q" using holder_is_first(1) [OF ok op c] by blast
  note sok = order_okD(2) [OF ok op, of s]
  note adv = advance_counters [OF sok q]
  note own = holder_is_first(2,3) [OF ok op c]
  show "sender_ok ?w s'" for s'
  proof (cases "s' = s")
    case True
    show ?thesis unfolding True by (rule leave_sender_ok [OF sok q]) (simp_all add: q)
  next
    case False
    have "i \<notin> set (w_queue w s')"
    proof
      assume "i \<in> set (w_queue w s')"
      from queued_call [OF ok op this c] own(2) False show False by auto
    qed
    then show ?thesis
      using adv(3) [OF False] adv(4) False by (intro sender_ok_frame [OF order_okD(2) [OF ok op, of s']]) auto
  qed
  show "w_calls ?w j \<noteq> None" if "co_tickets (w_order ?w) j \<noteq> None" for j
    using that order_okD(3) [OF ok op, of j] own(1) adv(4) by (cases "j = i") auto
  show "unordered (w_order ?w) j p" if j: "w_calls ?w j = Some (c', p)" "\<forall>s. j \<notin> set (w_queue ?w s)" for j c' p
  proof -
    have ne: "j \<noteq> i" using j(1) by auto
    have "j \<notin> set (w_queue w s')" for s' using j(2) [rule_format, of s'] ne q by (cases "s' = s") auto
    then have "unordered (w_order w) j p" using ne j(1) order_okD(4) [OF ok op, of j c' p] by auto
    then show ?thesis using unordered_frame [of "w_order ?w" j "w_order w" p] adv(4) by simp
  qed
qed

lemma close_ok:
  assumes "order_ok w"
  shows "order_ok (w\<lparr>w_order := CloseOrder (w_order w)\<rparr>)"
  using order_okD(1) [OF assms] by (intro order_okI) (auto simp: CloseOrder_def)

lemma call_step_ok:
  assumes ok: "order_ok w" and st: "call_step w w'"
  shows "order_ok w'"
  using st
proof cases
  case (arrive m)
  then show ?thesis using arrive_ok [OF ok] by blast
next
  case (pass i m ord)
  then show ?thesis using pass_ok [OF ok] by blast
next
  case (take i m s t ord)
  then show ?thesis using take_ok [OF ok] by blast
next
  case (enter i m s t)
  then show ?thesis using enter_ok [OF ok] by blast
next
  case (leave i m s)
  then show ?thesis using leave_ok [OF ok] by blast
next
  case (leave_free i m)
  then show ?thesis using leave_free_ok [OF ok] by blast
next
  case close
  then show ?thesis using close_ok [OF ok] by blast
qed

lemma call_initial_ok: "call_initial w \<Longrightarrow> order_ok w"
  by (intro order_okI sender_okI) (auto simp: call_initial_def NewCallOrder_def counter_def)

interpretation call_machine: guarded_machine call_initial call_step order_ok
  by unfold_locales (fact call_initial_ok, fact call_step_ok)

subsection \<open>Example: a Notify and a CloseNotification of one sender\<close>

definition ex_message :: "nat \<Rightarrow> string \<Rightarrow> string \<Rightarrow> Message" where
  "ex_message i member signature = \<lparr>msg_Identity = i, msg_Type = TypeMethodCall,
     msg_Headers = [FieldPath \<mapsto> VObjectPath ObjectPath, FieldInterface \<mapsto> VString Interface,
       FieldMember \<mapsto> VString member, FieldSignature \<mapsto> VSignature signature, FieldSender \<mapsto> VString ''a'']\<rparr>"

definition ex_world0 :: world where
  "ex_world0 = \<lparr>w_order = NewCallOrder, w_calls = Map.empty, w_queue = (\<lambda>_. [])\<rparr>"

abbreviation ex_notify :: Message where "ex_notify \<equiv> ex_message 10 ''Notify'' notifySignature"
abbreviation ex_close :: Message where "ex_close \<equiv> ex_message 20 ''CloseNotification'' closeSignature"

text \<open>Both calls have arrived, the first has taken its ticket and entered, the second waits.\<close>

definition ex_world :: world where
  "ex_world = \<lparr>w_order = \<lparr>co_issued = [''a'' \<mapsto> 2], co_turn = Map.empty, co_tickets = Map.empty, co_closed = False\<rparr>,
     w_calls = [10 \<mapsto> (ex_notify, Inside (Some ''a'')), 20 \<mapsto> (ex_close, Waiting ''a'' 1)],
     w_queue = (\<lambda>s. if s = ''a'' then [10, 20] else [])\<rparr>"

lemma ex_message_simps [simp]:
  "messageID (ex_message i mem sig) = i" "sender_of (ex_message i mem sig) = Some ''a''"
  "ticketed ex_notify" "ticketed ex_close"
  by (simp_all add: ex_message_def messageID_def sender_of_def ticketed_def)

lemma ex_world_reachable: "call_initial ex_world0 \<and> call_step\<^sup>*\<^sup>* ex_world0 ex_world"
proof -
  define w1 where "w1 = \<lparr>w_order = \<lparr>co_issued = [''a'' \<mapsto> 1], co_turn = Map.empty, co_tickets = [10 \<mapsto> 0], co_closed = False\<rparr>,
     w_calls = [10 \<mapsto> (ex_notify, Running)], w_queue = (\<lambda>s. if s = ''a'' then [10 :: nat] else [])\<rparr>"
  define w2 where "w2 = \<lparr>w_order = \<lparr>co_issued = [''a'' \<mapsto> 2], co_turn = Map.empty, co_tickets = [10 \<mapsto> 0, 20 \<mapsto> 1], co_closed = False\<rparr>,
     w_calls = [10 \<mapsto> (ex_notify, Running), 20 \<mapsto> (ex_close, Running)],
     w_queue = (\<lambda>s. if s = ''a'' then [10 :: nat, 20] else [])\<rparr>"
  define w3 where "w3 = w2\<lparr>w_order := \<lparr>co_issued = [''a'' \<mapsto> 2], co_turn = Map.empty, co_tickets = [20 \<mapsto> 1], co_closed = False\<rparr>,
     w_calls := [10 \<mapsto> (ex_notify, Waiting ''a'' 0), 20 \<mapsto> (ex_close, Running)]\<rparr>"
  define w4 where "w4 = w3\<lparr>w_calls := [10 \<mapsto> (ex_notify, Inside (Some ''a'')), 20 \<mapsto> (ex_close, Running)]\<rparr>"
  have "call_step ex_world0 (ex_world0\<lparr>w_order := Observe ex_notify (w_order ex_world0),
      w_calls := (w_calls ex_world0)(messageID ex_notify \<mapsto> (ex_notify, Running)),
      w_queue := (\<lambda>s. if ordered_call ex_notify (w_order ex_world0) = Some s
        then w_queue ex_world0 s @ [messageID ex_notify] else w_queue ex_world0 s)\<rparr>)"
    by (rule call_step.arrive) (simp_all add: ex_world0_def)
  moreover have "\<dots> = w1"
    by (auto simp: ex_world0_def w1_def Observe_def NewCallOrder_def ordered_call_def counter_def fun_eq_iff)
  ultimately have 1: "call_step ex_world0 w1" by simp
  have "call_step w1 (w1\<lparr>w_order := Observe ex_close (w_order w1),
      w_calls := (w_calls w1)(messageID ex_close \<mapsto> (ex_close, Running)),
      w_queue := (\<lambda>s. if ordered_call ex_close (w_order w1) = Some s
        then w_queue w1 s @ [messageID ex_close] else w_queue w1 s)\<rparr>)"
    by (rule call_step.arrive) (simp_all add: w1_def)
  moreover have "\<dots> = w2"
    by (auto simp: w1_def w2_def Observe_def ordered_call_def counter_def fun_eq_iff)
  ultimately have 2: "call_step w1 w2" by simp
  have "call_step w2 (w2\<lparr>w_order := (w_order w2)\<lparr>co_tickets := (co_tickets (w_order w2))(10 := None)\<rparr>,
      w_calls := (w_calls w2)(10 \<mapsto> (ex_notify, Waiting ''a'' 0))\<rparr>)"
    by (rule call_step.take) (simp_all add: w2_def takeTicket_def)
  moreover have "\<dots> = w3" by (auto simp: w2_def w3_def fun_eq_iff)
  ultimately have 3: "call_step w2 w3" by simp
  have "call_step w3 (w3\<lparr>w_calls := (w_calls w3)(10 \<mapsto> (ex_notify, Inside (if co_closed (w_order w3) then None else Some ''a'')))\<rparr>)"
    by (rule call_step.enter [of _ _ _ _ 0]) (simp_all add: w3_def w2_def mayProceed_def counter_def)
  moreover have "\<dots> = w4" by (auto simp: w2_def w3_def w4_def fun_eq_iff)
  ultimately have 4: "call_step w3 w4" by simp
  have "call_step w4 (w4\<lparr>w_order := (w_order w4)\<lparr>co_tickets := (co_tickets (w_order w4))(20 := None)\<rparr>,
      w_calls := (w_calls w4)(20 \<mapsto> (ex_close, Waiting ''a'' 1))\<rparr>)"
    by (rule call_step.take) (simp_all add: w4_def w3_def w2_def takeTicket_def)
  moreover have "\<dots> = ex_world" by (auto simp: w2_def w3_def w4_def ex_world_def fun_eq_iff)
  ultimately have "call_step w4 ex_world" by simp
  with 1 2 3 4 have "call_step\<^sup>*\<^sup>* ex_world0 ex_world" by (meson converse_rtranclp_into_rtranclp rtranclp.rtrancl_refl)
  then show ?thesis by (simp add: call_initial_def ex_world0_def)
qed

subsection \<open>The order is kept\<close>



text \<open>
  C32: no call waits for ever behind nobody. A call that waits and is the oldest of its sender may
  proceed, a closed order lets every waiting call proceed, and a sender with no outstanding call has
  no counters left.
\<close>

theorem oldest_call_is_never_blocked:
  assumes "call_initial w0" "call_step\<^sup>*\<^sup>* w0 w"
  shows "(\<forall>i m s t. w_calls w i = Some (m, Waiting s t) \<and> (co_closed (w_order w) \<or> hd (w_queue w s) = i) \<longrightarrow>
      mayProceed s t (w_order w)) \<and>
    (\<forall>s. \<not> co_closed (w_order w) \<and> w_queue w s = [] \<longrightarrow>
       co_issued (w_order w) s = None \<and> co_turn (w_order w) s = None)"
proof (intro conjI allI impI)
  have ok: "order_ok w" using call_machine.reachable_inv [OF assms] .
  show "mayProceed s t (w_order w)"
    if c: "w_calls w i = Some (m, Waiting s t) \<and> (co_closed (w_order w) \<or> hd (w_queue w s) = i)" for i m s t
  proof (cases "co_closed (w_order w)")
    case False
    then have hd: "hd (w_queue w s) = i" using c by blast
    have cw: "w_calls w i = Some (m, Waiting s t)" using c by blast
    obtain s' where s': "i \<in> set (w_queue w s')" using order_okD(4) [OF ok False cw] by auto
    from queued_call [OF ok False s' cw] obtain pos where "pos < length (w_queue w s')" "w_queue w s' ! pos = i"
      "at_place (w_order w) s' pos i (Waiting s t)" .
    then have pos: "pos < length (w_queue w s)" "w_queue w s ! pos = i" "t = counter (co_turn (w_order w)) s + of_nat pos"
      by simp_all
    have z: "w_queue w s ! 0 = i" "0 < length (w_queue w s)" using hd pos(1) by (cases "w_queue w s"; simp)+
    have "pos = 0"
      using nth_eq_iff_index_eq [OF sender_okD(1) [OF order_okD(2) [OF ok False, of s]] pos(1) z(2)] pos(2) z(1) by simp
    with pos(3) show ?thesis by (simp add: mayProceed_def)
  qed (simp add: mayProceed_def)
  show "co_issued (w_order w) s = None" "co_turn (w_order w) s = None"
    if "\<not> co_closed (w_order w) \<and> w_queue w s = []" for s
    using that sender_okD(3) [OF order_okD(2) [OF ok, of s]] by auto
qed

theorem oldest_call_is_never_blocked_witness:
  "call_initial ex_world0 \<and> call_step\<^sup>*\<^sup>* ex_world0 ex_world \<and> co_issued (w_order ex_world) ''b'' = None"
proof -
  have "\<not> co_closed (w_order ex_world) \<and> w_queue ex_world ''b'' = []" by (simp add: ex_world_def)
  with oldest_call_is_never_blocked [OF conjunct1 [OF ex_world_reachable] conjunct2 [OF ex_world_reachable]] ex_world_reachable
  show ?thesis by blast
qed

end
