(* ===== verification/Connection.thy ===== *)
theory Connection
  imports Contracts Protocol
begin

text \<open>
  One presenter connection (\<open>internal/presenter/connection.go\<close>): the bounded outbound queue, the swap
  of the backlog for a snapshot when a slow reader overflows it (resync), parked replies, and the
  writer. Every method is one definition; a step relation interleaves the owner (deltas, snapshots),
  the reader (replies) and the writer goroutine.

  \<^item> \<open>c_queue\<close> is the content of the channel, whose capacity is \<open>MaxPresenterQueueMessages\<close>; that no send
    to it blocks is a theorem, not an assumption.
  \<^item> \<open>c_writer\<close> says where the writer goroutine is in \<open>writeLoop\<close>: at its top, between \<open>takeReply\<close> and
    \<open>takeResync\<close>, in the \<open>select\<close>, or writing the message \<open>c_inflight\<close> that it has taken from the channel.
  \<^item> \<open>c_wire\<close> and \<open>c_base\<close> are history variables: what the writer has written so far, and the sequence of
    the snapshot of the handshake. No operation reads them. The wire begins with that snapshot, which the handler writes
    itself before it starts the writer (\<open>greet\<close>).
\<close>

subsection \<open>State (connection.go)\<close>

record outbound =
  ob_data :: bytes
  ob_sequence :: u64

datatype sent = SentDelta u64 bytes | SentReply bytes | SentSnapshot u64 bytes

datatype writer = Unstarted | AtTop | AtResync | AtSelect | Writing | Stopped

record connection =
  c_generation :: u64
  c_producer :: bool
  c_queue :: "outbound list"
  c_pending :: "outbound list"
  c_queuedMessages :: int
  c_queuedBytes :: int
  c_lastSequence :: u64
  c_lastRequestID :: u64
  c_active :: bool
  c_failed :: bool
  c_resyncNeeded :: bool
  c_resyncScheduled :: bool
  c_resyncFrame :: "bytes option"
  c_resyncSeq :: u64
  c_resyncTail :: "outbound list"
  c_resyncTailBytes :: int
  c_replyHold :: "bytes option"
  c_wake :: bool
  c_inflight :: "outbound option"
  c_writer :: writer
  c_wire :: "sent list"
  c_base :: u64

definition newConnection :: "u64 \<Rightarrow> connection" where
  "newConnection generation =
     \<lparr>c_generation = generation, c_producer = False, c_queue = [], c_pending = [], c_queuedMessages = 0,
      c_queuedBytes = 0, c_lastSequence = 0, c_lastRequestID = 0, c_active = False, c_failed = False,
      c_resyncNeeded = False, c_resyncScheduled = False, c_resyncFrame = None, c_resyncSeq = 0,
      c_resyncTail = [], c_resyncTailBytes = 0, c_replyHold = None, c_wake = False, c_inflight = None,
      c_writer = Unstarted, c_wire = [], c_base = 0\<rparr>"

definition len :: "outbound \<Rightarrow> int" where
  "len m = int (length (ob_data m))"

subsection \<open>Reserving room (connection.go)\<close>

definition reserve :: "outbound \<Rightarrow> connection \<Rightarrow> connection option" where
  "reserve m c =
     (if int MaxPresenterQueueMessages \<le> c_queuedMessages c \<or>
         int MaxPresenterDecodedBytes - len m < c_queuedBytes c
      then None
      else Some (c\<lparr>c_queuedMessages := c_queuedMessages c + 1, c_queuedBytes := c_queuedBytes c + len m\<rparr>))"

definition reserveTail :: "outbound \<Rightarrow> connection \<Rightarrow> connection option" where
  "reserveTail m c =
     (if MaxPresenterQueueMessages \<le> length (c_resyncTail c) \<or>
         int MaxPresenterDecodedBytes - len m < c_resyncTailBytes c
      then None
      else Some (c\<lparr>c_resyncTailBytes := c_resyncTailBytes c + len m\<rparr>))"

definition release :: "outbound \<Rightarrow> connection \<Rightarrow> connection" where
  "release m c = c\<lparr>c_queuedMessages := c_queuedMessages c - 1, c_queuedBytes := c_queuedBytes c - len m\<rparr>"

definition fail :: "connection \<Rightarrow> connection" where
  "fail c = c\<lparr>c_failed := True\<rparr>"

subsection \<open>Before the handshake is complete (connection.go)\<close>

definition prepare :: "outbound \<Rightarrow> connection \<Rightarrow> bool \<times> connection" where
  "prepare m c =
     (if c_failed c then (False, fail c)
      else case reserve m c of
        None \<Rightarrow> (False, fail c)
      | Some c1 \<Rightarrow> (True, c1\<lparr>c_pending := c_pending c1 @ [m]\<rparr>))"

fun activate_loop :: "u64 \<Rightarrow> outbound list \<Rightarrow> connection \<Rightarrow> bool \<times> connection" where
  "activate_loop sequence [] c = (True, c)"
| "activate_loop sequence (m # ms) c =
     (if ob_sequence m \<le> sequence then activate_loop sequence ms (release m c)
      else if ValidateNextSequence (c_lastSequence c) (ob_sequence m) \<noteq> None then (False, fail c)
      else activate_loop sequence ms (c\<lparr>c_lastSequence := ob_sequence m, c_queue := c_queue c @ [m]\<rparr>))"

definition activate :: "u64 \<Rightarrow> connection \<Rightarrow> bool \<times> connection" where
  "activate sequence c =
     (if c_failed c then (False, c)
      else
        (let (ok, c1) = activate_loop sequence (c_pending c) (c\<lparr>c_lastSequence := sequence, c_base := sequence\<rparr>)
         in if ok then (True, c1\<lparr>c_pending := [], c_active := True\<rparr>) else (False, c1)))"

subsection \<open>Deltas, snapshots and replies (connection.go)\<close>

definition beginResyncLocked :: "connection \<Rightarrow> bool \<times> connection" where
  "beginResyncLocked c =
     (\<not> c_resyncScheduled c, c\<lparr>c_resyncNeeded := True, c_resyncScheduled := True\<rparr>)"

text \<open>The results are \<open>published\<close> and \<open>resync\<close>.\<close>

definition enqueueDelta :: "outbound \<Rightarrow> connection \<Rightarrow> bool \<times> bool \<times> connection" where
  "enqueueDelta m c =
     (if c_failed c \<or> \<not> c_active c then (False, False, c)
      else if c_resyncNeeded c
      then
        (if c_resyncFrame c = None then (True, False, c)
         else if ob_sequence m \<noteq> c_resyncSeq c + of_nat (length (c_resyncTail c)) + 1 then (False, False, fail c)
         else case reserveTail m c of
           None \<Rightarrow> (False, False, fail c)
         | Some c1 \<Rightarrow> (True, False, c1\<lparr>c_resyncTail := c_resyncTail c1 @ [m]\<rparr>))
      else if ValidateNextSequence (c_lastSequence c) (ob_sequence m) \<noteq> None then (False, False, fail c)
      else case reserve m c of
        None \<Rightarrow> (True, beginResyncLocked c)
      | Some c1 \<Rightarrow>
          (let c2 = c1\<lparr>c_lastSequence := ob_sequence m\<rparr> in
           if length (c_queue c2) < MaxPresenterQueueMessages
           then (True, False, c2\<lparr>c_queue := c_queue c2 @ [m]\<rparr>)
           else (True, beginResyncLocked (release m c2))))"

definition enqueueSnapshot :: "bytes \<Rightarrow> u64 \<Rightarrow> connection \<Rightarrow> bool \<times> connection" where
  "enqueueSnapshot frame sequence c =
     (if c_failed c \<or> \<not> c_active c \<or> \<not> c_resyncNeeded c \<or> c_resyncFrame c \<noteq> None then (False, c)
      else (True, c\<lparr>c_resyncFrame := Some frame, c_resyncSeq := sequence, c_wake := True\<rparr>))"

text \<open>\<open>None\<close>: the caller waits on \<open>replyWait\<close>.\<close>

definition enqueue :: "outbound \<Rightarrow> connection \<Rightarrow> (bool \<times> connection) option" where
  "enqueue m c =
     (if c_failed c \<or> \<not> c_active c then Some (False, fail c)
      else if c_replyHold c \<noteq> None then None
      else
        (let park = (\<lambda>c. (True, c\<lparr>c_replyHold := Some (ob_data m), c_wake := True\<rparr>))
         in case reserve m c of
              None \<Rightarrow> Some (park c)
            | Some c1 \<Rightarrow>
                if length (c_queue c1) < MaxPresenterQueueMessages
                then Some (True, c1\<lparr>c_queue := c_queue c1 @ [m]\<rparr>)
                else Some (park (release m c1))))"

subsection \<open>The writer (connection.go)\<close>

definition takeReply :: "connection \<Rightarrow> (bytes \<times> connection) option" where
  "takeReply c = map_option (\<lambda>frame. (frame, c\<lparr>c_replyHold := None\<rparr>)) (c_replyHold c)"

definition takeResync :: "connection \<Rightarrow> (bytes \<times> connection) option" where
  "takeResync c =
     (case c_resyncFrame c of
        None \<Rightarrow> None
      | Some frame \<Rightarrow>
          if c_queue c \<noteq> [] then None
          else Some (frame,
            c\<lparr>c_resyncFrame := None, c_queue := c_queue c @ c_resyncTail c,
              c_queuedMessages := c_queuedMessages c + int (length (c_resyncTail c)),
              c_queuedBytes := c_queuedBytes c + (\<Sum>m\<leftarrow>c_resyncTail c. len m),
              c_lastSequence := c_resyncSeq c + of_nat (length (c_resyncTail c)),
              c_resyncTail := [], c_resyncTailBytes := 0, c_resyncSeq := 0,
              c_resyncNeeded := False, c_resyncScheduled := False\<rparr>))"

definition sent_as :: "outbound \<Rightarrow> sent" where
  "sent_as m = (if ob_sequence m = 0 then SentReply (ob_data m) else SentDelta (ob_sequence m) (ob_data m))"

text \<open>
  The turns of \<open>writeLoop\<close>: a parked reply first, then a snapshot, then what the \<open>select\<close> offers. A frame that
  \<open>takeReply\<close> or \<open>takeResync\<close> returns is written before anything else, or the write fails.
\<close>

inductive write_step :: "connection \<Rightarrow> connection \<Rightarrow> bool" where
  write_reply: "c_writer c = AtTop \<Longrightarrow> takeReply c = Some (frame, c') \<Longrightarrow>
    write_step c (c'\<lparr>c_wire := c_wire c' @ [SentReply frame]\<rparr>)"
| reply_error: "c_writer c = AtTop \<Longrightarrow> takeReply c = Some (frame, c') \<Longrightarrow>
    write_step c (fail (c'\<lparr>c_writer := Stopped\<rparr>))"
| no_reply: "c_writer c = AtTop \<Longrightarrow> takeReply c = None \<Longrightarrow> write_step c (c\<lparr>c_writer := AtResync\<rparr>)"
| write_resync: "c_writer c = AtResync \<Longrightarrow> takeResync c = Some (frame, c') \<Longrightarrow>
    write_step c (c'\<lparr>c_writer := AtTop, c_wire := c_wire c' @ [SentSnapshot (c_resyncSeq c) frame]\<rparr>)"
| resync_error: "c_writer c = AtResync \<Longrightarrow> takeResync c = Some (frame, c') \<Longrightarrow>
    write_step c (fail (c'\<lparr>c_writer := Stopped\<rparr>))"
| no_resync: "c_writer c = AtResync \<Longrightarrow> takeResync c = None \<Longrightarrow> write_step c (c\<lparr>c_writer := AtSelect\<rparr>)"
| closed: "c_writer c = AtSelect \<Longrightarrow> c_failed c \<Longrightarrow> write_step c (c\<lparr>c_writer := Stopped\<rparr>)"
| wake: "c_writer c = AtSelect \<Longrightarrow> c_wake c \<Longrightarrow> write_step c (c\<lparr>c_writer := AtTop, c_wake := False\<rparr>)"
| dequeue: "c_writer c = AtSelect \<Longrightarrow> c_queue c = m # ms \<Longrightarrow>
    write_step c (c\<lparr>c_writer := Writing, c_inflight := Some m, c_queue := ms\<rparr>)"
| written: "c_writer c = Writing \<Longrightarrow> c_inflight c = Some m \<Longrightarrow>
    write_step c (release m (c\<lparr>c_writer := AtTop, c_inflight := None, c_wire := c_wire c @ [sent_as m]\<rparr>))"
| write_error: "c_writer c = Writing \<Longrightarrow> c_inflight c = Some m \<Longrightarrow> write_step c (fail (c\<lparr>c_writer := Stopped\<rparr>))"

text \<open>
  The end of the handshake (\<open>handle\<close> in server.go): the handler writes the hello and the frame of the snapshot and starts \<open>writeLoop\<close>.
  The hello says nothing of the owner's state and is left out of \<open>c_wire\<close>.
\<close>

definition greet :: "bytes \<Rightarrow> connection \<Rightarrow> connection" where
  "greet frame c = c\<lparr>c_writer := AtTop, c_wire := c_wire c @ [SentSnapshot (c_base c) frame]\<rparr>"

text \<open>
  The steps of a connection: what the owner and the reader do to it, and the turns of the writer. The
  wake-up of \<open>enqueue\<close> is sent after the mutex is released, so it may also arrive later (\<open>late_wake\<close>).
\<close>

inductive conn_step :: "connection \<Rightarrow> connection \<Rightarrow> bool" where
  prepare: "\<not> c_active c \<Longrightarrow> ob_sequence m \<noteq> 0 \<Longrightarrow> conn_step c (snd (prepare m c))"
| activate: "\<not> c_active c \<Longrightarrow> conn_step c (snd (activate sequence c))"
| delta: "ob_sequence m \<noteq> 0 \<Longrightarrow> conn_step c (snd (snd (enqueueDelta m c)))"
| snapshot: "conn_step c (snd (enqueueSnapshot frame sequence c))"
| reply: "ob_sequence m = 0 \<Longrightarrow> enqueue m c = Some (b, c') \<Longrightarrow> conn_step c c'"
| failure: "conn_step c (fail c)"
| start: "c_active c \<Longrightarrow> c_writer c = Unstarted \<Longrightarrow> conn_step c (greet frame c)"
| late_wake: "conn_step c (c\<lparr>c_wake := True\<rparr>)"
| turn: "write_step c c' \<Longrightarrow> conn_step c c'"

definition conn_initial :: "connection \<Rightarrow> bool" where
  "conn_initial c \<longleftrightarrow> (\<exists>generation. c = newConnection generation)"

subsection \<open>The invariant\<close>

text \<open>
  What a reader that checks sequences computes: the sequence it has reached, if each delta follows the
  one before it or the snapshot that rebased it, by the check of the protocol library.
\<close>

fun follows :: "u64 \<Rightarrow> sent list \<Rightarrow> u64 option" where
  "follows b [] = Some b"
| "follows b (SentDelta q d # xs) = (if ValidateNextSequence b q = None then follows q xs else None)"
| "follows b (SentReply r # xs) = follows b xs"
| "follows b (SentSnapshot q f # xs) = follows q xs"

definition unsent :: "connection \<Rightarrow> outbound list" where
  "unsent c = (case c_inflight c of None \<Rightarrow> [] | Some m \<Rightarrow> [m]) @ c_queue c"

definition counted :: "connection \<Rightarrow> bool" where
  "counted c \<longleftrightarrow> c_queuedMessages c = int (length (unsent c @ c_pending c)) \<and>
     c_queuedBytes c = (\<Sum>m\<leftarrow>unsent c @ c_pending c. len m) \<and>
     c_queuedMessages c \<le> int MaxPresenterQueueMessages \<and> c_queuedBytes c \<le> int MaxPresenterDecodedBytes"

definition tail_ok :: "connection \<Rightarrow> bool" where
  "tail_ok c \<longleftrightarrow> length (c_resyncTail c) \<le> MaxPresenterQueueMessages \<and>
     c_resyncTailBytes c = (\<Sum>m\<leftarrow>c_resyncTail c. len m) \<and> c_resyncTailBytes c \<le> int MaxPresenterDecodedBytes \<and>
     (\<forall>m\<in>set (c_resyncTail c). ob_sequence m \<noteq> 0) \<and>
     (\<forall>i<length (c_resyncTail c). ob_sequence (c_resyncTail c ! i) = c_resyncSeq c + of_nat (Suc i)) \<and>
     (c_resyncFrame c \<noteq> None \<longrightarrow> c_resyncNeeded c) \<and> (c_resyncFrame c = None \<longrightarrow> c_resyncTail c = []) \<and>
     (c_resyncNeeded c \<longrightarrow> c_active c)"

fun greeted :: "sent list \<Rightarrow> bool" where
  "greeted (SentSnapshot q f # xs) = True"
| "greeted xs = False"

definition position_ok :: "connection \<Rightarrow> bool" where
  "position_ok c \<longleftrightarrow> (c_writer c = Stopped \<longrightarrow> c_failed c) \<and>
     (if c_writer c = Writing then c_inflight c \<noteq> None else c_inflight c = None \<or> c_writer c = Stopped) \<and>
     (if c_writer c = Unstarted then c_wire c = [] else greeted (c_wire c)) \<and>
     (if c_active c then c_pending c = []
      else c_writer c = Unstarted \<and> (c_failed c \<or> c_queue c = []))"

text \<open>What the reader has seen is a stream without gaps, and what is queued continues it up to \<open>lastSequence\<close>.\<close>

definition continues :: "connection \<Rightarrow> bool" where
  "continues c \<longleftrightarrow> (\<exists>b. follows (c_base c) (c_wire c @ map sent_as (unsent c)) = Some b \<and>
     (c_failed c \<or> c_resyncNeeded c \<or> b = c_lastSequence c))"

definition stream_ok :: "connection \<Rightarrow> bool" where
  "stream_ok c \<longleftrightarrow> follows (c_base c) (c_wire c) \<noteq> None \<and> (c_active c \<and> c_writer c \<noteq> Stopped \<longrightarrow> continues c)"

text \<open>A writer that waits in the \<open>select\<close> has been woken if there is something it does not wait for.\<close>

definition wake_ok :: "connection \<Rightarrow> bool" where
  "wake_ok c \<longleftrightarrow> (c_writer c \<in> {AtResync, AtSelect} \<and> c_replyHold c \<noteq> None \<longrightarrow> c_wake c) \<and>
     (c_writer c = AtSelect \<and> c_resyncFrame c \<noteq> None \<and> c_queue c = [] \<longrightarrow> c_wake c)"

definition conn_ok :: "connection \<Rightarrow> bool" where
  "conn_ok c \<longleftrightarrow> length (c_queue c) \<le> MaxPresenterQueueMessages \<and> (\<forall>m\<in>set (c_pending c). ob_sequence m \<noteq> 0) \<and>
     (c_failed c \<or> counted c) \<and> tail_ok c \<and> position_ok c \<and> stream_ok c \<and> wake_ok c"

text \<open>What each part of the invariant does not depend on.\<close>

lemma unsent_frame [simp]:
  "unsent (c\<lparr>c_pending := x1\<rparr>) = unsent c"
  "unsent (c\<lparr>c_queuedMessages := x2\<rparr>) = unsent c"
  "unsent (c\<lparr>c_queuedBytes := x3\<rparr>) = unsent c"
  "unsent (c\<lparr>c_lastSequence := x4\<rparr>) = unsent c"
  "unsent (c\<lparr>c_lastRequestID := x5\<rparr>) = unsent c"
  "unsent (c\<lparr>c_active := x6\<rparr>) = unsent c"
  "unsent (c\<lparr>c_failed := x7\<rparr>) = unsent c"
  "unsent (c\<lparr>c_resyncNeeded := x8\<rparr>) = unsent c"
  "unsent (c\<lparr>c_resyncScheduled := x9\<rparr>) = unsent c"
  "unsent (c\<lparr>c_resyncFrame := x10\<rparr>) = unsent c"
  "unsent (c\<lparr>c_resyncSeq := x11\<rparr>) = unsent c"
  "unsent (c\<lparr>c_resyncTail := x12\<rparr>) = unsent c"
  "unsent (c\<lparr>c_resyncTailBytes := x13\<rparr>) = unsent c"
  "unsent (c\<lparr>c_replyHold := x14\<rparr>) = unsent c"
  "unsent (c\<lparr>c_wake := x15\<rparr>) = unsent c"
  "unsent (c\<lparr>c_writer := x16\<rparr>) = unsent c"
  "unsent (c\<lparr>c_wire := x17\<rparr>) = unsent c"
  "unsent (c\<lparr>c_base := x18\<rparr>) = unsent c"
  by (simp_all add: unsent_def)

lemma counted_frame [simp]:
  "counted (c\<lparr>c_lastSequence := x1\<rparr>) = counted c"
  "counted (c\<lparr>c_lastRequestID := x2\<rparr>) = counted c"
  "counted (c\<lparr>c_active := x3\<rparr>) = counted c"
  "counted (c\<lparr>c_failed := x4\<rparr>) = counted c"
  "counted (c\<lparr>c_resyncNeeded := x5\<rparr>) = counted c"
  "counted (c\<lparr>c_resyncScheduled := x6\<rparr>) = counted c"
  "counted (c\<lparr>c_resyncFrame := x7\<rparr>) = counted c"
  "counted (c\<lparr>c_resyncSeq := x8\<rparr>) = counted c"
  "counted (c\<lparr>c_resyncTail := x9\<rparr>) = counted c"
  "counted (c\<lparr>c_resyncTailBytes := x10\<rparr>) = counted c"
  "counted (c\<lparr>c_replyHold := x11\<rparr>) = counted c"
  "counted (c\<lparr>c_wake := x12\<rparr>) = counted c"
  "counted (c\<lparr>c_writer := x13\<rparr>) = counted c"
  "counted (c\<lparr>c_wire := x14\<rparr>) = counted c"
  "counted (c\<lparr>c_base := x15\<rparr>) = counted c"
  by (simp_all add: counted_def)

lemma tail_ok_frame [simp]:
  "tail_ok (c\<lparr>c_pending := x1\<rparr>) = tail_ok c"
  "tail_ok (c\<lparr>c_queuedMessages := x2\<rparr>) = tail_ok c"
  "tail_ok (c\<lparr>c_queuedBytes := x3\<rparr>) = tail_ok c"
  "tail_ok (c\<lparr>c_lastSequence := x4\<rparr>) = tail_ok c"
  "tail_ok (c\<lparr>c_lastRequestID := x5\<rparr>) = tail_ok c"
  "tail_ok (c\<lparr>c_failed := x6\<rparr>) = tail_ok c"
  "tail_ok (c\<lparr>c_resyncScheduled := x7\<rparr>) = tail_ok c"
  "tail_ok (c\<lparr>c_replyHold := x8\<rparr>) = tail_ok c"
  "tail_ok (c\<lparr>c_wake := x9\<rparr>) = tail_ok c"
  "tail_ok (c\<lparr>c_inflight := x10\<rparr>) = tail_ok c"
  "tail_ok (c\<lparr>c_writer := x11\<rparr>) = tail_ok c"
  "tail_ok (c\<lparr>c_wire := x12\<rparr>) = tail_ok c"
  "tail_ok (c\<lparr>c_base := x13\<rparr>) = tail_ok c"
  "tail_ok (c\<lparr>c_queue := x14\<rparr>) = tail_ok c"
  by (simp_all add: tail_ok_def)

lemma position_ok_frame [simp]:
  "position_ok (c\<lparr>c_queuedMessages := x1\<rparr>) = position_ok c"
  "position_ok (c\<lparr>c_queuedBytes := x2\<rparr>) = position_ok c"
  "position_ok (c\<lparr>c_lastSequence := x3\<rparr>) = position_ok c"
  "position_ok (c\<lparr>c_lastRequestID := x4\<rparr>) = position_ok c"
  "position_ok (c\<lparr>c_resyncNeeded := x5\<rparr>) = position_ok c"
  "position_ok (c\<lparr>c_resyncScheduled := x6\<rparr>) = position_ok c"
  "position_ok (c\<lparr>c_resyncFrame := x7\<rparr>) = position_ok c"
  "position_ok (c\<lparr>c_resyncSeq := x8\<rparr>) = position_ok c"
  "position_ok (c\<lparr>c_resyncTail := x9\<rparr>) = position_ok c"
  "position_ok (c\<lparr>c_resyncTailBytes := x10\<rparr>) = position_ok c"
  "position_ok (c\<lparr>c_replyHold := x11\<rparr>) = position_ok c"
  "position_ok (c\<lparr>c_wake := x12\<rparr>) = position_ok c"
  "position_ok (c\<lparr>c_base := x13\<rparr>) = position_ok c"
  by (simp_all add: position_ok_def)

lemma continues_frame [simp]:
  "continues (c\<lparr>c_pending := x1\<rparr>) = continues c"
  "continues (c\<lparr>c_queuedMessages := x2\<rparr>) = continues c"
  "continues (c\<lparr>c_queuedBytes := x3\<rparr>) = continues c"
  "continues (c\<lparr>c_lastRequestID := x4\<rparr>) = continues c"
  "continues (c\<lparr>c_active := x5\<rparr>) = continues c"
  "continues (c\<lparr>c_resyncScheduled := x6\<rparr>) = continues c"
  "continues (c\<lparr>c_resyncFrame := x7\<rparr>) = continues c"
  "continues (c\<lparr>c_resyncSeq := x8\<rparr>) = continues c"
  "continues (c\<lparr>c_resyncTail := x9\<rparr>) = continues c"
  "continues (c\<lparr>c_resyncTailBytes := x10\<rparr>) = continues c"
  "continues (c\<lparr>c_replyHold := x11\<rparr>) = continues c"
  "continues (c\<lparr>c_wake := x12\<rparr>) = continues c"
  "continues (c\<lparr>c_writer := x13\<rparr>) = continues c"
  by (simp_all add: continues_def)

lemma stream_ok_frame [simp]:
  "stream_ok (c\<lparr>c_pending := x1\<rparr>) = stream_ok c"
  "stream_ok (c\<lparr>c_queuedMessages := x2\<rparr>) = stream_ok c"
  "stream_ok (c\<lparr>c_queuedBytes := x3\<rparr>) = stream_ok c"
  "stream_ok (c\<lparr>c_lastRequestID := x4\<rparr>) = stream_ok c"
  "stream_ok (c\<lparr>c_resyncScheduled := x5\<rparr>) = stream_ok c"
  "stream_ok (c\<lparr>c_resyncFrame := x6\<rparr>) = stream_ok c"
  "stream_ok (c\<lparr>c_resyncSeq := x7\<rparr>) = stream_ok c"
  "stream_ok (c\<lparr>c_resyncTail := x8\<rparr>) = stream_ok c"
  "stream_ok (c\<lparr>c_resyncTailBytes := x9\<rparr>) = stream_ok c"
  "stream_ok (c\<lparr>c_replyHold := x10\<rparr>) = stream_ok c"
  "stream_ok (c\<lparr>c_wake := x11\<rparr>) = stream_ok c"
  by (simp_all add: stream_ok_def)

lemma wake_ok_frame [simp]:
  "wake_ok (c\<lparr>c_pending := x1\<rparr>) = wake_ok c"
  "wake_ok (c\<lparr>c_queuedMessages := x2\<rparr>) = wake_ok c"
  "wake_ok (c\<lparr>c_queuedBytes := x3\<rparr>) = wake_ok c"
  "wake_ok (c\<lparr>c_lastSequence := x4\<rparr>) = wake_ok c"
  "wake_ok (c\<lparr>c_lastRequestID := x5\<rparr>) = wake_ok c"
  "wake_ok (c\<lparr>c_active := x6\<rparr>) = wake_ok c"
  "wake_ok (c\<lparr>c_failed := x7\<rparr>) = wake_ok c"
  "wake_ok (c\<lparr>c_resyncNeeded := x8\<rparr>) = wake_ok c"
  "wake_ok (c\<lparr>c_resyncScheduled := x9\<rparr>) = wake_ok c"
  "wake_ok (c\<lparr>c_resyncSeq := x10\<rparr>) = wake_ok c"
  "wake_ok (c\<lparr>c_resyncTail := x11\<rparr>) = wake_ok c"
  "wake_ok (c\<lparr>c_resyncTailBytes := x12\<rparr>) = wake_ok c"
  "wake_ok (c\<lparr>c_inflight := x13\<rparr>) = wake_ok c"
  "wake_ok (c\<lparr>c_wire := x14\<rparr>) = wake_ok c"
  "wake_ok (c\<lparr>c_base := x15\<rparr>) = wake_ok c"
  by (simp_all add: wake_ok_def)

lemma sent_as_simps [simp]:
  "ob_sequence m = 0 \<Longrightarrow> sent_as m = SentReply (ob_data m)"
  "ob_sequence m \<noteq> 0 \<Longrightarrow> sent_as m = SentDelta (ob_sequence m) (ob_data m)"
  by (simp_all add: sent_as_def)

lemma greeted_append [simp]: "greeted xs \<Longrightarrow> greeted (xs @ ys)"
  by (cases xs rule: greeted.cases) simp_all

lemma ValidateNextSequence_None: "ValidateNextSequence p n = None \<longleftrightarrow> p \<noteq> - 1 \<and> n = p + 1"
  by (auto simp: ValidateNextSequence_def)

lemma ValidateNextSequence_Suc: "n \<noteq> 0 \<Longrightarrow> n = p + 1 \<Longrightarrow> ValidateNextSequence p n = None"
  by (auto simp: ValidateNextSequence_None)

lemma follows_append: "follows b (xs @ ys) = Option.bind (follows b xs) (\<lambda>b'. follows b' ys)"
  by (induction b xs rule: follows.induct) simp_all

lemma follows_prefix: "follows b (xs @ ys) = Some l \<Longrightarrow> follows b xs \<noteq> None"
  by (auto simp: follows_append bind_eq_Some_conv)

lemma follows_deltas:
  assumes "\<forall>m\<in>set ms. ob_sequence m \<noteq> 0" "\<forall>i<length ms. ob_sequence (ms ! i) = b + of_nat (Suc i)"
  shows "follows b (map sent_as ms) = Some (b + of_nat (length ms))"
  using assms
proof (induction ms arbitrary: b)
  case Nil
  show ?case by simp
next
  case (Cons m ms)
  have m: "ob_sequence m = b + 1" using Cons.prems(2) by force
  have "\<forall>i<length ms. ob_sequence (ms ! i) = (b + 1) + of_nat (Suc i)"
  proof (intro allI impI)
    fix i assume "i < length ms"
    then show "ob_sequence (ms ! i) = (b + 1) + of_nat (Suc i)"
      using Cons.prems(2) [rule_format, of "Suc i"] by (simp add: algebra_simps)
  qed
  from Cons.IH [OF _ this] Cons.prems(1) m show ?case by (simp add: ValidateNextSequence_Suc algebra_simps)
qed

lemma len_nonneg [simp]: "0 \<le> len m"
  by (simp add: len_def)

lemma reserve_Some:
  "reserve m c = Some c1 \<longleftrightarrow> c_queuedMessages c < int MaxPresenterQueueMessages \<and>
     c_queuedBytes c + len m \<le> int MaxPresenterDecodedBytes \<and>
     c1 = c\<lparr>c_queuedMessages := c_queuedMessages c + 1, c_queuedBytes := c_queuedBytes c + len m\<rparr>"
  by (auto simp: reserve_def)

lemma reserveTail_Some:
  "reserveTail m c = Some c1 \<longleftrightarrow> length (c_resyncTail c) < MaxPresenterQueueMessages \<and>
     c_resyncTailBytes c + len m \<le> int MaxPresenterDecodedBytes \<and>
     c1 = c\<lparr>c_resyncTailBytes := c_resyncTailBytes c + len m\<rparr>"
  by (auto simp: reserveTail_def)

text \<open>While the counters are right, a message that could be reserved fits into the channel.\<close>

lemma counted_room:
  assumes "counted c" "c_queuedMessages c < int MaxPresenterQueueMessages"
  shows "length (c_queue c) < MaxPresenterQueueMessages"
  using assms by (auto simp: counted_def unsent_def split: option.splits)

subsection \<open>Every step keeps the invariant\<close>

lemma conn_okD:
  assumes "conn_ok c"
  shows "length (c_queue c) \<le> MaxPresenterQueueMessages" "\<forall>m\<in>set (c_pending c). ob_sequence m \<noteq> 0"
    "c_failed c \<or> counted c" "tail_ok c" "position_ok c" "stream_ok c" "wake_ok c"
  using assms by (simp_all add: conn_ok_def)

lemma continues_fail: "continues c \<Longrightarrow> continues (c\<lparr>c_failed := True\<rparr>)"
  by (auto simp: continues_def)

lemma fail_ok: "conn_ok c \<Longrightarrow> conn_ok (fail c)"
  by (auto simp: conn_ok_def fail_def position_ok_def stream_ok_def continues_fail split: if_splits)

lemma prepare_ok:
  assumes ok: "conn_ok c" and m: "\<not> c_active c" "ob_sequence m \<noteq> 0"
  shows "conn_ok (snd (prepare m c))"
proof (cases "c_failed c \<or> reserve m c = None")
  case True
  then show ?thesis using fail_ok [OF ok] by (auto simp: prepare_def)
next
  case False
  then obtain c1 where c1: "reserve m c = Some c1" by auto
  have r: "snd (prepare m c) = c1\<lparr>c_pending := c_pending c1 @ [m]\<rparr>" using False c1 by (simp add: prepare_def)
  have "counted (snd (prepare m c))"
    using ok False c1 unfolding r by (simp add: conn_ok_def counted_def reserve_Some)
  moreover have "position_ok (snd (prepare m c))"
    using conn_okD(5) [OF ok] m c1 unfolding r by (auto simp: position_ok_def reserve_Some)
  ultimately show ?thesis
    using ok m c1 unfolding r by (auto simp: conn_ok_def reserve_Some)
qed

text \<open>The loop of \<open>activate\<close> moves what follows the snapshot to the queue and releases the rest.\<close>

lemma activate_loop_frame [simp]:
  "c_pending (snd (activate_loop sequence ms c)) = c_pending c"
  "c_active (snd (activate_loop sequence ms c)) = c_active c"
  "c_resyncNeeded (snd (activate_loop sequence ms c)) = c_resyncNeeded c"
  "c_resyncFrame (snd (activate_loop sequence ms c)) = c_resyncFrame c"
  "c_resyncSeq (snd (activate_loop sequence ms c)) = c_resyncSeq c"
  "c_resyncTail (snd (activate_loop sequence ms c)) = c_resyncTail c"
  "c_resyncTailBytes (snd (activate_loop sequence ms c)) = c_resyncTailBytes c"
  "c_inflight (snd (activate_loop sequence ms c)) = c_inflight c"
  "c_writer (snd (activate_loop sequence ms c)) = c_writer c"
  "c_wire (snd (activate_loop sequence ms c)) = c_wire c"
  "c_base (snd (activate_loop sequence ms c)) = c_base c"
  "c_failed (snd (activate_loop sequence ms c)) = (c_failed c \<or> \<not> fst (activate_loop sequence ms c))"
  by (induction ms arbitrary: c) (simp_all add: release_def fail_def)

lemma activate_loop_length:
  "length (c_queue (snd (activate_loop sequence ms c))) \<le> length (c_queue c) + length ms"
proof (induction ms arbitrary: c)
  case (Cons m ms)
  show ?case using Cons.IH [of "release m c"] Cons.IH [of "c\<lparr>c_lastSequence := ob_sequence m, c_queue := c_queue c @ [m]\<rparr>"]
    by (simp add: release_def fail_def)
qed simp

lemma activate_loop_follows:
  assumes "fst (activate_loop sequence ms c)" "\<forall>m\<in>set ms. ob_sequence m \<noteq> 0"
    "follows (c_base c) (map sent_as (c_queue c)) = Some (c_lastSequence c)"
  shows "follows (c_base c) (map sent_as (c_queue (snd (activate_loop sequence ms c)))) =
    Some (c_lastSequence (snd (activate_loop sequence ms c)))"
  using assms
proof (induction ms arbitrary: c)
  case (Cons m ms)
  let ?c = "c\<lparr>c_lastSequence := ob_sequence m, c_queue := c_queue c @ [m]\<rparr>"
  show ?case
  proof (cases "ob_sequence m \<le> sequence")
    case True
    with Cons.prems Cons.IH [of "release m c"] show ?thesis by (simp add: release_def)
  next
    case False
    with Cons.prems(1) have v: "ValidateNextSequence (c_lastSequence c) (ob_sequence m) = None" by (auto split: if_splits)
    then have "follows (c_base c) (map sent_as (c_queue c @ [m])) = Some (ob_sequence m)"
      using Cons.prems by (auto simp: follows_append)
    with False v Cons.prems Cons.IH [of ?c] show ?thesis by simp
  qed
qed simp

lemma activate_loop_counts:
  assumes "fst (activate_loop sequence ms c)"
    "c_queuedMessages c = int (length (c_queue c @ ms))" "c_queuedBytes c = (\<Sum>m\<leftarrow>c_queue c @ ms. len m)"
  shows "c_queuedMessages (snd (activate_loop sequence ms c)) = int (length (c_queue (snd (activate_loop sequence ms c)))) \<and>
    c_queuedBytes (snd (activate_loop sequence ms c)) = (\<Sum>m\<leftarrow>c_queue (snd (activate_loop sequence ms c)). len m) \<and>
    c_queuedMessages (snd (activate_loop sequence ms c)) \<le> c_queuedMessages c \<and>
    c_queuedBytes (snd (activate_loop sequence ms c)) \<le> c_queuedBytes c"
  using assms
proof (induction ms arbitrary: c)
  case (Cons m ms)
  let ?c = "c\<lparr>c_lastSequence := ob_sequence m, c_queue := c_queue c @ [m]\<rparr>"
  show ?case
  proof (cases "ob_sequence m \<le> sequence")
    case True
    have "c_queuedMessages (release m c) \<le> c_queuedMessages c" "c_queuedBytes (release m c) \<le> c_queuedBytes c"
      by (simp_all add: release_def)
    moreover have "c_queuedMessages (release m c) = int (length (c_queue (release m c) @ ms))"
      "c_queuedBytes (release m c) = (\<Sum>m\<leftarrow>c_queue (release m c) @ ms. len m)"
      using Cons.prems by (simp_all add: release_def)
    ultimately show ?thesis using True Cons.prems(1) Cons.IH [of "release m c"] by simp
  next
    case False
    with Cons.prems Cons.IH [of ?c] show ?thesis by (simp split: if_splits)
  qed
qed simp

lemma activate_ok:
  assumes ok: "conn_ok c" and a: "\<not> c_active c"
  shows "conn_ok (snd (activate sequence c))"
proof (cases "c_failed c")
  case True
  then show ?thesis using ok by (simp add: activate_def)
next
  case False
  let ?c = "c\<lparr>c_lastSequence := sequence, c_base := sequence\<rparr>"
  let ?l = "activate_loop sequence (c_pending c) ?c"
  have q: "c_queue c = []" "c_inflight c = None" "c_wire c = []" "c_writer c = Unstarted"
    using conn_okD(5) [OF ok] a False by (auto simp: position_ok_def split: if_splits)
  have n: "c_queuedMessages c = int (length (c_pending c))" "c_queuedBytes c = (\<Sum>m\<leftarrow>c_pending c. len m)"
    "length (c_pending c) \<le> MaxPresenterQueueMessages" "c_queuedBytes c \<le> int MaxPresenterDecodedBytes"
    using conn_okD(3) [OF ok] False q by (auto simp: counted_def unsent_def)
  have l: "length (c_queue (snd ?l)) \<le> MaxPresenterQueueMessages"
    using activate_loop_length [of sequence "c_pending c" ?c] q n by simp
  note t = conn_okD(4) [OF ok]
  show ?thesis
  proof (cases "fst ?l")
    case True
    have r: "snd (activate sequence c) = (snd ?l)\<lparr>c_pending := [], c_active := True\<rparr>"
      using False True by (simp add: activate_def case_prod_beta)
    have f: "follows sequence (map sent_as (c_queue (snd ?l))) = Some (c_lastSequence (snd ?l))"
      using activate_loop_follows [OF True] ok q by (simp add: conn_ok_def)
    have "counted (snd (activate sequence c))"
      using activate_loop_counts [OF True] q n unfolding r by (simp add: counted_def unsent_def)
    moreover have "stream_ok (snd (activate sequence c))"
      using f q False unfolding r by (simp add: stream_ok_def continues_def unsent_def)
    moreover have "tail_ok (snd (activate sequence c))"
      using t a unfolding r by (auto simp: tail_ok_def)
    moreover have "wake_ok (snd (activate sequence c))" "position_ok (snd (activate sequence c))"
      using q False True unfolding r by (simp_all add: wake_ok_def position_ok_def)
    ultimately show ?thesis using l unfolding conn_ok_def r by simp
  next
    case loop_failed: False
    have r: "snd (activate sequence c) = snd ?l"
      using False loop_failed by (simp add: activate_def case_prod_beta)
    have "tail_ok (snd ?l)" using t by (simp add: tail_ok_def)
    moreover have "wake_ok (snd ?l)" "position_ok (snd ?l)" "stream_ok (snd ?l)"
      using q a loop_failed by (simp_all add: wake_ok_def position_ok_def stream_ok_def)
    ultimately show ?thesis using l ok loop_failed unfolding conn_ok_def r by simp
  qed
qed

text \<open>A delta that follows the last one is queued, buffered behind the snapshot, dropped or arms a resync.\<close>

lemma tail_snoc:
  assumes "tail_ok c" "reserveTail m c = Some c1" "c_resyncFrame c \<noteq> None" "ob_sequence m \<noteq> 0"
    "ob_sequence m = c_resyncSeq c + of_nat (length (c_resyncTail c)) + 1"
  shows "tail_ok (c1\<lparr>c_resyncTail := c_resyncTail c1 @ [m]\<rparr>)"
  using assms by (auto simp: tail_ok_def reserveTail_Some nth_append less_Suc_eq algebra_simps)

lemma follows_snoc:
  "follows b (w @ map sent_as ms) = Some l \<Longrightarrow> follows b (w @ map sent_as (ms @ [m])) = follows l [sent_as m]"
  by (auto simp: follows_append bind_eq_Some_conv)

lemma counted_snoc:
  assumes "counted c" "reserve m c = Some c1" "c_pending c = []"
  shows "counted (c1\<lparr>c_queue := c_queue c @ [m]\<rparr>)"
  using assms by (auto simp: counted_def reserve_Some unsent_def split: option.splits)

lemma active_okD:
  assumes "conn_ok c" "c_active c" "\<not> c_failed c"
  shows "counted c" "c_pending c = []" "c_writer c \<noteq> Stopped" "continues c"
  using assms by (auto simp: conn_ok_def position_ok_def stream_ok_def split: if_splits)

text \<open>Adding to the queue keeps the invariant, if the message continues the stream.\<close>

lemma queue_snoc_ok:
  assumes ok: "conn_ok c" and a: "c_active c" "\<not> c_failed c" and r: "reserve m c = Some c1"
    and f: "\<exists>b. follows (c_base c) (c_wire c @ map sent_as (unsent c @ [m])) = Some b \<and> (c_resyncNeeded c \<or> b = l)"
  shows "length (c_queue c) < MaxPresenterQueueMessages" "conn_ok (c1\<lparr>c_lastSequence := l, c_queue := c_queue c @ [m]\<rparr>)"
proof -
  note k = active_okD [OF ok a]
  show room: "length (c_queue c) < MaxPresenterQueueMessages"
    using counted_room [OF k(1)] r by (simp add: reserve_Some)
  let ?c = "c1\<lparr>c_lastSequence := l, c_queue := c_queue c @ [m]\<rparr>"
  have c1: "c1 = c\<lparr>c_queuedMessages := c_queuedMessages c + 1, c_queuedBytes := c_queuedBytes c + len m\<rparr>"
    using r by (simp add: reserve_Some)
  have "counted ?c" using counted_snoc [OF k(1) r k(2)] by (simp add: counted_def unsent_def)
  moreover have "position_ok ?c" "wake_ok ?c"
    using conn_okD(5,7) [OF ok] a by (auto simp: position_ok_def wake_ok_def c1)
  moreover have "unsent ?c = unsent c @ [m]" by (simp add: unsent_def c1)
  then have "continues ?c" using f by (auto simp: continues_def c1)
  then have "stream_ok ?c" using conn_okD(6) [OF ok] unfolding stream_ok_def by (simp add: c1)
  ultimately show "conn_ok ?c" using ok room by (auto simp: conn_ok_def c1)
qed

lemma enqueueDelta_ok:
  assumes ok: "conn_ok c" and m: "ob_sequence m \<noteq> 0"
  shows "conn_ok (snd (snd (enqueueDelta m c)))"
proof -
  note f = fail_ok [OF ok]
  let ?v = "ValidateNextSequence (c_lastSequence c) (ob_sequence m) = None"
  consider (idle) "c_failed c \<or> \<not> c_active c"
    | (tail) "\<not> c_failed c" "c_active c" "c_resyncNeeded c"
    | (gap) "\<not> c_failed c" "c_active c" "\<not> c_resyncNeeded c" "\<not> ?v"
    | (full) "\<not> c_failed c" "c_active c" "\<not> c_resyncNeeded c" ?v "reserve m c = None"
    | (queued) c1 where "\<not> c_failed c" "c_active c" "\<not> c_resyncNeeded c" ?v "reserve m c = Some c1"
    by blast
  then show ?thesis
  proof cases
    case idle
    then show ?thesis using ok by (simp add: enqueueDelta_def)
  next
    case tail
    show ?thesis
    proof (cases "c_resyncFrame c = None \<or> ob_sequence m \<noteq> c_resyncSeq c + of_nat (length (c_resyncTail c)) + 1 \<or>
        reserveTail m c = None")
      case True
      then show ?thesis using tail ok f by (auto simp: enqueueDelta_def)
    next
      case False
      then obtain c1 where c1: "c_resyncFrame c \<noteq> None" "reserveTail m c = Some c1"
        "ob_sequence m = c_resyncSeq c + of_nat (length (c_resyncTail c)) + 1" by auto
      then have r: "snd (snd (enqueueDelta m c)) = c1\<lparr>c_resyncTail := c_resyncTail c1 @ [m]\<rparr>"
        using tail unfolding enqueueDelta_def by auto
      show ?thesis
        using ok tail_snoc [OF conn_okD(4) [OF ok] c1(2,1) m c1(3)] c1(2) unfolding r by (simp add: conn_ok_def reserveTail_Some)
    qed
  next
    case gap
    then show ?thesis using f by (simp add: enqueueDelta_def)
  next
    case full
    have c: "snd (snd (enqueueDelta m c)) = c\<lparr>c_resyncNeeded := True, c_resyncScheduled := True\<rparr>"
      using full by (simp add: enqueueDelta_def beginResyncLocked_def)
    have "stream_ok (c\<lparr>c_resyncNeeded := True\<rparr>)" "tail_ok (c\<lparr>c_resyncNeeded := True\<rparr>)"
      using ok full by (auto simp: conn_ok_def stream_ok_def continues_def tail_ok_def)
    then show ?thesis using ok unfolding c by (simp add: conn_ok_def)
  next
    case queued
    have "\<exists>b. follows (c_base c) (c_wire c @ map sent_as (unsent c @ [m])) = Some b \<and> (c_resyncNeeded c \<or> b = ob_sequence m)"
      using active_okD(4) [OF ok queued(2,1)] queued(1,3,4) m by (auto simp: continues_def follows_snoc simp del: map_append)
    note r = queue_snoc_ok [OF ok queued(2,1,5) this]
    have "c_queue c1 = c_queue c" using queued by (simp add: reserve_Some)
    then show ?thesis using r queued by (simp add: enqueueDelta_def)
  qed
qed

lemma enqueueSnapshot_ok: "conn_ok c \<Longrightarrow> conn_ok (snd (enqueueSnapshot frame sequence c))"
  by (auto simp: enqueueSnapshot_def conn_ok_def tail_ok_def wake_ok_def)

lemma follows_reply:
  assumes "follows b (w @ xs) = Some l"
  shows "follows b (w @ SentReply r # xs) = Some l" "follows b (w @ xs @ [SentReply r]) = Some l"
  using assms by (simp_all add: follows_append bind_eq_Some_conv)

lemma enqueue_ok:
  assumes ok: "conn_ok c" and m: "ob_sequence m = 0" and e: "enqueue m c = Some (b, c')"
  shows "conn_ok c'"
proof -
  consider (dead) "c_failed c \<or> \<not> c_active c" | (park) "\<not> c_failed c" "c_active c" "c_replyHold c = None" "reserve m c = None"
    | (queued) c1 where "\<not> c_failed c" "c_active c" "c_replyHold c = None" "reserve m c = Some c1"
    using e by (cases "reserve m c") (auto simp: enqueue_def split: if_splits)
  then show ?thesis
  proof cases
    case dead
    then show ?thesis using e fail_ok [OF ok] by (auto simp: enqueue_def)
  next
    case park
    then have "c' = c\<lparr>c_replyHold := Some (ob_data m), c_wake := True\<rparr>" using e by (simp add: enqueue_def)
    then show ?thesis using ok by (simp add: conn_ok_def wake_ok_def)
  next
    case queued
    have "\<exists>b. follows (c_base c) (c_wire c @ map sent_as (unsent c @ [m])) = Some b \<and> (c_resyncNeeded c \<or> b = c_lastSequence c)"
      using active_okD(4) [OF ok queued(2,1)] queued(1) m by (auto simp: continues_def follows_snoc simp del: map_append)
    note r = queue_snoc_ok [OF ok queued(2,1,4) this]
    have c1: "c_queue c1 = c_queue c" "c_lastSequence c1 = c_lastSequence c" using queued by (simp_all add: reserve_Some)
    have q: "c1\<lparr>c_lastSequence := c_lastSequence c, c_queue := c_queue c @ [m]\<rparr> = c1\<lparr>c_queue := c_queue c @ [m]\<rparr>"
      using c1 by simp
    have "c' = c1\<lparr>c_queue := c_queue c @ [m]\<rparr>" using e r(1) c1 queued by (simp add: enqueue_def)
    then show ?thesis using r(2) unfolding q by simp
  qed
qed

subsection \<open>The turns of the writer\<close>

lemma takeReply_ok:
  assumes ok: "conn_ok c" and w: "c_writer c = AtTop" and t: "takeReply c = Some (frame, c')"
  shows "conn_ok (c'\<lparr>c_wire := c_wire c' @ [SentReply frame]\<rparr>)" "conn_ok (fail (c'\<lparr>c_writer := Stopped\<rparr>))"
proof -
  have c': "c' = c\<lparr>c_replyHold := None\<rparr>" using t by (auto simp: takeReply_def)
  have a: "c_active c" using conn_okD(5) [OF ok] w by (auto simp: position_ok_def split: if_splits)
  then obtain l where l: "follows (c_base c) (c_wire c @ map sent_as (unsent c)) = Some l"
    "c_failed c \<or> c_resyncNeeded c \<or> l = c_lastSequence c"
    using conn_okD(6) [OF ok] w by (auto simp: stream_ok_def continues_def)
  have "continues (c'\<lparr>c_wire := c_wire c' @ [SentReply frame]\<rparr>)"
    using follows_reply(1) [OF l(1)] l(2) unfolding continues_def c' by auto
  moreover have "follows (c_base c) (c_wire c @ [SentReply frame]) \<noteq> None"
    using conn_okD(6) [OF ok] by (auto simp: stream_ok_def follows_append)
  ultimately show "conn_ok (c'\<lparr>c_wire := c_wire c' @ [SentReply frame]\<rparr>)"
    using ok w a unfolding c' by (simp add: conn_ok_def stream_ok_def position_ok_def wake_ok_def)
  show "conn_ok (fail (c'\<lparr>c_writer := Stopped\<rparr>))"
    using ok a w unfolding c' by (auto simp: conn_ok_def fail_def stream_ok_def position_ok_def wake_ok_def)
qed

lemma takeResync_Some:
  "takeResync c = Some (frame, c') \<longleftrightarrow> c_resyncFrame c = Some frame \<and> c_queue c = [] \<and>
     c' = c\<lparr>c_resyncFrame := None, c_queue := c_resyncTail c,
            c_queuedMessages := c_queuedMessages c + int (length (c_resyncTail c)),
            c_queuedBytes := c_queuedBytes c + (\<Sum>m\<leftarrow>c_resyncTail c. len m),
            c_lastSequence := c_resyncSeq c + of_nat (length (c_resyncTail c)),
            c_resyncTail := [], c_resyncTailBytes := 0, c_resyncSeq := 0,
            c_resyncNeeded := False, c_resyncScheduled := False\<rparr>"
  by (auto simp: takeResync_def split: option.splits if_splits)

lemma takeResync_ok:
  assumes ok: "conn_ok c" and w: "c_writer c = AtResync" and t: "takeResync c = Some (frame, c')"
  shows "conn_ok (c'\<lparr>c_writer := AtTop, c_wire := c_wire c' @ [SentSnapshot (c_resyncSeq c) frame]\<rparr>)"
    "conn_ok (fail (c'\<lparr>c_writer := Stopped\<rparr>))"
proof -
  have a: "c_active c" "c_pending c = []" "c_inflight c = None"
    using conn_okD(5) [OF ok] w by (auto simp: position_ok_def split: if_splits)
  have e: "c_queue c = []" using t by (simp add: takeResync_Some)
  let ?t = "c_resyncTail c"
  have tail: "follows (c_resyncSeq c) (map sent_as ?t) = Some (c_resyncSeq c + of_nat (length ?t))"
    "length ?t \<le> MaxPresenterQueueMessages" "(\<Sum>m\<leftarrow>?t. len m) \<le> int MaxPresenterDecodedBytes"
    using conn_okD(4) [OF ok] by (auto simp: tail_ok_def intro!: follows_deltas)
  let ?c = "c'\<lparr>c_writer := AtTop, c_wire := c_wire c' @ [SentSnapshot (c_resyncSeq c) frame]\<rparr>"
  have "tail_ok c'" "wake_ok ?c" using t a by (simp_all add: takeResync_Some tail_ok_def wake_ok_def)
  moreover have "stream_ok ?c"
    using conn_okD(6) [OF ok] t tail a w by (auto simp: takeResync_Some stream_ok_def continues_def unsent_def follows_append)
  moreover have "c_failed c \<or> counted c'"
    using conn_okD(3) [OF ok] tail t e a by (auto simp: takeResync_Some counted_def unsent_def)
  moreover have "position_ok ?c" using conn_okD(5) [OF ok] t a w by (simp add: takeResync_Some position_ok_def)
  ultimately show "conn_ok ?c" using t a tail by (auto simp: conn_ok_def takeResync_Some)
  have "stream_ok (fail (c'\<lparr>c_writer := Stopped\<rparr>))" "position_ok (fail (c'\<lparr>c_writer := Stopped\<rparr>))"
    using conn_okD(5,6) [OF ok] t a w by (simp_all add: takeResync_Some stream_ok_def position_ok_def fail_def)
  then show "conn_ok (fail (c'\<lparr>c_writer := Stopped\<rparr>))"
    using \<open>tail_ok c'\<close> t a tail by (simp add: takeResync_Some conn_ok_def fail_def wake_ok_def)
qed

lemma dequeue_ok:
  assumes ok: "conn_ok c" and w: "c_writer c = AtSelect" "c_queue c = m # ms"
  shows "conn_ok (c\<lparr>c_writer := Writing, c_inflight := Some m, c_queue := ms\<rparr>)"
proof -
  let ?c = "c\<lparr>c_writer := Writing, c_inflight := Some m, c_queue := ms\<rparr>"
  have a: "c_active c" "c_inflight c = None"
    using conn_okD(5) [OF ok] w by (auto simp: position_ok_def split: if_splits)
  have u: "unsent ?c = unsent c" using w a by (simp add: unsent_def)
  have "stream_ok ?c" "c_failed c \<or> counted ?c"
    using conn_okD(3,6) [OF ok] w unfolding stream_ok_def continues_def counted_def u by auto
  moreover have "position_ok ?c" "wake_ok ?c"
    using conn_okD(5) [OF ok] a w(1) by (simp_all add: position_ok_def wake_ok_def)
  ultimately show ?thesis using ok w by (simp add: conn_ok_def)
qed

lemma written_ok:
  assumes ok: "conn_ok c" and w: "c_writer c = Writing" "c_inflight c = Some m"
  shows "conn_ok (release m (c\<lparr>c_writer := AtTop, c_inflight := None, c_wire := c_wire c @ [sent_as m]\<rparr>))"
proof -
  let ?c = "release m (c\<lparr>c_writer := AtTop, c_inflight := None, c_wire := c_wire c @ [sent_as m]\<rparr>)"
  have u: "unsent c = m # c_queue c" "unsent ?c = c_queue c" using w by (simp_all add: unsent_def release_def)
  have p: "c_active c" "c_pending c = []"
    using conn_okD(5) [OF ok] w by (auto simp: position_ok_def split: if_splits)
  have "c_failed c \<or> counted ?c"
    using conn_okD(3) [OF ok] p len_nonneg [of m] unfolding counted_def u
    by (auto simp: release_def simp del: len_nonneg)
  moreover obtain l where l: "follows (c_base c) (c_wire c @ map sent_as (m # c_queue c)) = Some l"
    "c_failed c \<or> c_resyncNeeded c \<or> l = c_lastSequence c"
    using conn_okD(6) [OF ok] w p unfolding stream_ok_def continues_def u by auto
  have "follows (c_base c) (c_wire c @ [sent_as m]) \<noteq> None"
    using follows_prefix [of "c_base c" "c_wire c @ [sent_as m]" "map sent_as (c_queue c)" l] l by simp
  then have "stream_ok ?c"
    using l unfolding stream_ok_def continues_def u by (auto simp: release_def)
  moreover have "position_ok ?c" "wake_ok ?c" "tail_ok ?c"
    using conn_okD(4,5) [OF ok] p w by (simp_all add: position_ok_def wake_ok_def release_def)
  ultimately show ?thesis using ok by (simp add: conn_ok_def release_def)
qed

lemma stop_ok:
  assumes ok: "conn_ok c" and a: "c_active c" "c_writer c \<noteq> Unstarted"
  shows "conn_ok (fail (c\<lparr>c_writer := Stopped\<rparr>))"
proof -
  have "position_ok (fail (c\<lparr>c_writer := Stopped\<rparr>))" using conn_okD(5) [OF ok] a by (simp add: position_ok_def fail_def split: if_splits)
  then show ?thesis using ok a by (simp add: conn_ok_def fail_def stream_ok_def wake_ok_def)
qed

lemma write_step_started: "write_step c d \<Longrightarrow> c_writer c \<noteq> Unstarted"
  by (erule write_step.cases) simp_all

lemma write_step_active: "write_step c d \<Longrightarrow> conn_ok c \<Longrightarrow> c_active c"
  using write_step_started [of c d] conn_okD(5) [of c] by (simp add: position_ok_def split: if_splits)

lemma move_writer_ok:
  assumes "conn_ok c" "c_writer c \<in> {AtTop, AtResync, AtSelect}" "c_active c" "w \<in> {AtTop, AtResync, AtSelect}"
    "wake_ok (c\<lparr>c_writer := w\<rparr>)"
  shows "conn_ok (c\<lparr>c_writer := w\<rparr>)"
  using assms by (auto simp: conn_ok_def stream_ok_def position_ok_def)

lemma write_step_ok:
  assumes ok: "conn_ok c" and st: "write_step c d"
  shows "conn_ok d"
proof -
  note a = write_step_active [OF st ok]
  from st show ?thesis
  proof cases
    case (write_reply frame c')
    then show ?thesis using takeReply_ok(1) ok by blast
  next
    case (reply_error frame c')
    then show ?thesis using takeReply_ok(2) ok by blast
  next
    case no_reply
    then show ?thesis using a by (auto simp: takeReply_def wake_ok_def intro!: move_writer_ok [OF ok])
  next
    case (write_resync frame c')
    then show ?thesis using takeResync_ok(1) ok by blast
  next
    case (resync_error frame c')
    then show ?thesis using takeResync_ok(2) ok by blast
  next
    case no_resync
    have "wake_ok (c\<lparr>c_writer := AtSelect\<rparr>)"
      using no_resync conn_okD(7) [OF ok] by (auto simp: takeResync_def wake_ok_def split: if_splits)
    then show ?thesis unfolding no_resync using no_resync a by (intro move_writer_ok [OF ok]) auto
  next
    case closed
    have "fail (c\<lparr>c_writer := Stopped\<rparr>) = c\<lparr>c_writer := Stopped\<rparr>" using closed(3) by (simp add: fail_def)
    then show ?thesis using stop_ok [OF ok a] closed by simp
  next
    case wake
    have "conn_ok (c\<lparr>c_writer := AtTop\<rparr>)"
      using wake a by (intro move_writer_ok [OF ok]) (auto simp: wake_ok_def)
    then show ?thesis using wake by (simp add: conn_ok_def wake_ok_def)
  next
    case (dequeue m ms)
    then show ?thesis using dequeue_ok ok by blast
  next
    case (written m)
    then show ?thesis using written_ok ok by blast
  next
    case (write_error m)
    then show ?thesis using stop_ok [OF ok a] by simp
  qed
qed

lemma conn_initial_ok: "conn_initial c \<Longrightarrow> conn_ok c"
  by (auto simp: conn_initial_def newConnection_def conn_ok_def counted_def unsent_def tail_ok_def
      position_ok_def stream_ok_def wake_ok_def)

lemma greet_ok:
  assumes ok: "conn_ok c" and u: "c_active c" "c_writer c = Unstarted"
  shows "conn_ok (greet frame c)"
proof -
  have w: "c_wire c = []" using conn_okD(5) [OF ok] u by (simp add: position_ok_def)
  have "continues (greet frame c)" using conn_okD(6) [OF ok] u w by (simp add: stream_ok_def greet_def continues_def)
  then have "stream_ok (greet frame c)" using w by (simp add: stream_ok_def greet_def)
  moreover have "position_ok (greet frame c)" "wake_ok (greet frame c)"
    using conn_okD(5) [OF ok] u w by (simp_all add: position_ok_def wake_ok_def greet_def)
  ultimately show ?thesis using ok by (simp add: conn_ok_def greet_def)
qed

lemma conn_step_ok:
  assumes ok: "conn_ok c" and st: "conn_step c d"
  shows "conn_ok d"
  using st
proof cases
  case (prepare m)
  then show ?thesis using prepare_ok ok by blast
next
  case (activate sequence)
  then show ?thesis using activate_ok ok by blast
next
  case (delta m)
  then show ?thesis using enqueueDelta_ok ok by blast
next
  case (snapshot frame sequence)
  then show ?thesis using enqueueSnapshot_ok ok by blast
next
  case (reply m b)
  then show ?thesis using enqueue_ok ok by blast
next
  case failure
  then show ?thesis using fail_ok ok by blast
next
  case start
  then show ?thesis using greet_ok [OF ok] by simp
next
  case late_wake
  then show ?thesis using ok by (simp add: conn_ok_def wake_ok_def)
next
  case turn
  then show ?thesis using write_step_ok ok by blast
qed

interpretation conn_machine: guarded_machine conn_initial conn_step conn_ok
  by unfold_locales (auto intro: conn_initial_ok conn_step_ok)

end
