(* ===== verification/ConnectionProps.thy ===== *)
theory ConnectionProps
  imports Connection
begin

text \<open>
  What a presenter connection promises: the stream on the wire has no gap, the buffers stay bounded so that
  no send to the channel blocks, the writer is never asleep with something to write and writes everything,
  and the deltas of the owner never look like a gap. The last part composes the connection with the
  sequence numbers of the owner (\<open>feed_step\<close>), which deliver deltas and snapshots in the owner's order.
\<close>

subsection \<open>The writer left alone writes everything\<close>

lemma drain_one:
  assumes "c_writer c = AtTop" "c_replyHold c = None" "c_queue c = m # ms"
  shows "write_step\<^sup>*\<^sup>* c (release m (c\<lparr>c_queue := ms, c_writer := AtTop, c_inflight := None, c_wire := c_wire c @ [sent_as m]\<rparr>))"
proof -
  let ?r = "c\<lparr>c_writer := AtResync\<rparr>" let ?s = "c\<lparr>c_writer := AtSelect\<rparr>"
  let ?w = "c\<lparr>c_writer := Writing, c_inflight := Some m, c_queue := ms\<rparr>"
  have 1: "write_step c ?r" using assms by (intro no_reply) (simp_all add: takeReply_def)
  have 2: "write_step ?r ?s"
    using no_resync [of ?r] assms by (simp add: takeResync_def split: option.splits)
  have 3: "write_step ?s ?w" using dequeue [of ?s m ms] assms by simp
  have 4: "write_step ?w (release m (c\<lparr>c_queue := ms, c_writer := AtTop, c_inflight := None, c_wire := c_wire c @ [sent_as m]\<rparr>))"
    using written [of ?w m] by simp
  from 1 2 3 4 show ?thesis by (meson converse_rtranclp_into_rtranclp rtranclp.rtrancl_refl)
qed

lemma drain:
  assumes "c_writer c = AtTop" "c_replyHold c = None"
  shows "\<exists>d. write_step\<^sup>*\<^sup>* c d \<and> c_wire d = c_wire c @ map sent_as (c_queue c) \<and> c_queue d = [] \<and>
    c_writer d = AtTop \<and> c_replyHold d = None \<and> c_resyncFrame d = c_resyncFrame c \<and>
    c_resyncSeq d = c_resyncSeq c \<and> c_resyncTail d = c_resyncTail c"
  using assms
proof (induction "c_queue c" arbitrary: c)
  case Nil
  then show ?case by (intro exI [of _ c]) auto
next
  case (Cons m ms)
  let ?c = "release m (c\<lparr>c_queue := ms, c_writer := AtTop, c_inflight := None, c_wire := c_wire c @ [sent_as m]\<rparr>)"
  have "write_step\<^sup>*\<^sup>* c ?c" using drain_one Cons by metis
  moreover obtain d where "write_step\<^sup>*\<^sup>* ?c d" "c_wire d = c_wire c @ map sent_as (m # ms)" "c_queue d = []"
    "c_writer d = AtTop" "c_replyHold d = None" "c_resyncFrame d = c_resyncFrame c"
    "c_resyncSeq d = c_resyncSeq c" "c_resyncTail d = c_resyncTail c"
    using Cons.hyps(1) [of ?c] Cons.prems by (auto simp: release_def)
  moreover note Cons.hyps(2)
  ultimately show ?case by (metis rtranclp_trans)
qed

text \<open>What is still to be written: the parked reply, the queue, and the snapshot with what follows it.\<close>

definition backlog :: "connection \<Rightarrow> sent list" where
  "backlog c = (case c_replyHold c of None \<Rightarrow> [] | Some frame \<Rightarrow> [SentReply frame]) @ map sent_as (c_queue c) @
     (case c_resyncFrame c of None \<Rightarrow> [] | Some frame \<Rightarrow> SentSnapshot (c_resyncSeq c) frame # map sent_as (c_resyncTail c))"

lemma drain_resync:
  assumes "c_writer c = AtTop" "c_replyHold c = None" "c_queue c = []" "c_resyncFrame c = Some frame"
  shows "\<exists>d. write_step\<^sup>*\<^sup>* c d \<and> c_wire d = c_wire c @ SentSnapshot (c_resyncSeq c) frame # map sent_as (c_resyncTail c) \<and>
    c_queue d = [] \<and> c_replyHold d = None \<and> c_resyncFrame d = None \<and> c_writer d = AtTop"
proof -
  let ?r = "c\<lparr>c_writer := AtResync\<rparr>"
  obtain c' where t: "takeResync ?r = Some (frame, c')" using assms by (auto simp: takeResync_def)
  let ?c = "c'\<lparr>c_writer := AtTop, c_wire := c_wire c' @ [SentSnapshot (c_resyncSeq ?r) frame]\<rparr>"
  have 1: "write_step c ?r" using assms by (intro no_reply) (simp_all add: takeReply_def)
  have 2: "write_step ?r ?c" using t by (intro write_resync) simp_all
  have c: "c_replyHold ?c = None" "c_queue ?c = c_resyncTail c" "c_resyncFrame ?c = None"
    "c_wire ?c = c_wire c @ [SentSnapshot (c_resyncSeq c) frame]"
    using t assms unfolding takeResync_Some by simp_all
  obtain d where d: "write_step\<^sup>*\<^sup>* ?c d" "c_wire d = c_wire ?c @ map sent_as (c_queue ?c)" "c_queue d = []"
    "c_replyHold d = None" "c_resyncFrame d = c_resyncFrame ?c" "c_writer d = AtTop"
    using drain [OF _ c(1)] by auto
  have "write_step\<^sup>*\<^sup>* c d" using 1 2 d(1) by (meson converse_rtranclp_into_rtranclp)
  with c d show ?thesis by (intro exI [of _ d]) simp
qed

lemma drain_all:
  assumes "c_writer c = AtTop" "c_replyHold c = None"
  shows "\<exists>d. write_step\<^sup>*\<^sup>* c d \<and> c_wire d = c_wire c @ backlog c \<and> backlog d = [] \<and> c_writer d = AtTop"
proof -
  obtain d where d: "write_step\<^sup>*\<^sup>* c d" "c_wire d = c_wire c @ map sent_as (c_queue c)" "c_queue d = []"
    "c_writer d = AtTop" "c_replyHold d = None" "c_resyncFrame d = c_resyncFrame c"
    "c_resyncSeq d = c_resyncSeq c" "c_resyncTail d = c_resyncTail c"
    using drain [OF assms] by auto
  show ?thesis
  proof (cases "c_resyncFrame c")
    case None
    then show ?thesis using d assms by (intro exI [of _ d]) (simp add: backlog_def)
  next
    case (Some frame)
    obtain e where "write_step\<^sup>*\<^sup>* d e" "c_wire e = c_wire d @ SentSnapshot (c_resyncSeq d) frame # map sent_as (c_resyncTail d)"
      "c_queue e = []" "c_replyHold e = None" "c_resyncFrame e = None" "c_writer e = AtTop"
      using drain_resync [of d frame] d Some by auto
    with d assms Some show ?thesis by (intro exI [of _ e]) (auto simp: backlog_def intro: rtranclp_trans)
  qed
qed

subsection \<open>A sample run\<close>

lemma conn_initial_new [simp]: "conn_initial (newConnection g)"
  by (auto simp: conn_initial_def)

definition sample_delta :: "u64 \<Rightarrow> outbound" where
  "sample_delta q = \<lparr>ob_data = ''{}'', ob_sequence = q\<rparr>"

lemma sample_started:
  "\<exists>c. conn_step\<^sup>*\<^sup>* (newConnection 2) c \<and> c_writer c = AtTop \<and> c_replyHold c = None \<and> c_resyncFrame c = None \<and>
    c_queue c = [sample_delta 6] \<and> c_wire c = [SentSnapshot 5 ''{}''] \<and> c_base c = 5 \<and> \<not> c_failed c \<and> \<not> c_wake c"
proof -
  define c1 where "c1 = snd (activate 5 (newConnection 2))"
  define c2 where "c2 = snd (snd (enqueueDelta (sample_delta 6) c1))"
  have c1: "c1 = (newConnection 2)\<lparr>c_lastSequence := 5, c_base := 5, c_active := True\<rparr>"
    by (simp add: c1_def activate_def newConnection_def)
  have c2: "c2 = c1\<lparr>c_queuedMessages := 1, c_queuedBytes := 2, c_lastSequence := 6, c_queue := [sample_delta 6]\<rparr>"
    unfolding c2_def c1 by (simp add: enqueueDelta_def reserve_def newConnection_def len_def sample_delta_def
        ValidateNextSequence_def MaxPresenterQueueMessages_def MaxPresenterDecodedBytes_def)
  have 1: "conn_step (newConnection 2) c1" unfolding c1_def by (rule conn_step.activate) (simp add: newConnection_def)
  have 2: "conn_step c1 c2" unfolding c2_def by (rule conn_step.delta) (simp add: sample_delta_def)
  have 3: "conn_step c2 (greet ''{}'' c2)" by (rule conn_step.start) (simp_all add: c1 c2, simp add: newConnection_def)
  have "conn_step\<^sup>*\<^sup>* (newConnection 2) (greet ''{}'' c2)"
    using 1 2 3 by (meson converse_rtranclp_into_rtranclp rtranclp.rtrancl_refl)
  then show ?thesis by (intro exI [of _ "greet ''{}'' c2"] conjI) (simp_all add: c1 c2 newConnection_def greet_def)
qed

lemma write_steps_conn: "write_step\<^sup>*\<^sup>* c d \<Longrightarrow> conn_step\<^sup>*\<^sup>* c d"
  by (induction rule: rtranclp_induct) (auto intro: conn_step.turn rtranclp.rtrancl_into_rtrancl)

lemma sample_written:
  "\<exists>c. conn_step\<^sup>*\<^sup>* (newConnection 2) c \<and> c_writer c = AtSelect \<and> \<not> c_wake c \<and> c_queue c = [] \<and>
    c_wire c = [SentSnapshot 5 ''{}'', SentDelta 6 ''{}''] \<and> c_base c = 5 \<and> \<not> c_failed c"
proof -
  obtain c where c: "conn_step\<^sup>*\<^sup>* (newConnection 2) c" "c_writer c = AtTop" "c_replyHold c = None" "c_resyncFrame c = None"
    "c_queue c = [sample_delta 6]" "c_wire c = [SentSnapshot 5 ''{}'']" "c_base c = 5" "\<not> c_failed c" "\<not> c_wake c"
    using sample_started by auto
  let ?d = "release (sample_delta 6) (c\<lparr>c_queue := [], c_writer := AtTop, c_inflight := None,
    c_wire := c_wire c @ [sent_as (sample_delta 6)]\<rparr>)"
  let ?e = "?d\<lparr>c_writer := AtResync\<rparr>"
  let ?f = "?e\<lparr>c_writer := AtSelect\<rparr>"
  have 1: "write_step\<^sup>*\<^sup>* c ?d" using drain_one [OF c(2,3,5)] by simp
  have 2: "write_step ?d ?e" using c by (intro no_reply) (simp_all add: takeReply_def release_def)
  have 3: "write_step ?e ?f" using c by (intro no_resync) (simp_all add: takeResync_def release_def)
  from 1 2 3 have "write_step\<^sup>*\<^sup>* c ?f" by (meson rtranclp.rtrancl_into_rtrancl)
  then have "conn_step\<^sup>*\<^sup>* (newConnection 2) ?f" using c(1) write_steps_conn by (meson rtranclp_trans)
  then show ?thesis using c by (intro exI [of _ ?f]) (simp add: release_def sample_delta_def)
qed

text \<open>
  The writer gets rid of everything it owes: from the top of its loop, as long as the writes succeed, it can
  on its own write exactly the parked reply, then the queued messages in their order, then, if a resync is
  pending, the snapshot followed by the deltas that came after it, and ends with nothing left to write.
\<close>

theorem writer_writes_the_whole_backlog:
  assumes "c_writer c = AtTop"
  shows "\<exists>d. write_step\<^sup>*\<^sup>* c d \<and> c_wire d = c_wire c @ backlog c \<and> backlog d = []"
proof (cases "c_replyHold c")
  case None
  then show ?thesis using drain_all assms by blast
next
  case (Some frame)
  let ?c = "c\<lparr>c_replyHold := None, c_wire := c_wire c @ [SentReply frame]\<rparr>"
  have 1: "write_step c ?c"
    using write_reply [of c frame "c\<lparr>c_replyHold := None\<rparr>"] assms Some by (simp add: takeReply_def)
  obtain d where "write_step\<^sup>*\<^sup>* ?c d" "c_wire d = c_wire ?c @ backlog ?c" "backlog d = []"
    using drain_all [of ?c] assms by auto
  with 1 Some show ?thesis by (intro exI [of _ d]) (auto simp: backlog_def split: option.splits)
qed

theorem writer_writes_the_whole_backlog_witness:
  "\<exists>c d. conn_step\<^sup>*\<^sup>* (newConnection 2) c \<and> write_step\<^sup>*\<^sup>* c d \<and> c_wire d = [SentSnapshot 5 ''{}'', SentDelta 6 ''{}'']"
proof -
  obtain c where c: "conn_step\<^sup>*\<^sup>* (newConnection 2) c" "c_writer c = AtTop" "c_replyHold c = None" "c_resyncFrame c = None"
    "c_queue c = [sample_delta 6]" "c_wire c = [SentSnapshot 5 ''{}'']" using sample_started by auto
  from writer_writes_the_whole_backlog [OF c(2)] c show ?thesis by (auto simp: backlog_def sample_delta_def)
qed

text \<open>
  The stream that a presenter reads has no gap: in every state that a connection can reach, whatever the
  owner, the reader and the writer do and in whatever order, each delta on the wire carries the sequence
  that the protocol library accepts after the delta before it, or after the last snapshot before it.
\<close>

theorem presenter_stream_has_no_gap:
  assumes "conn_initial c0" "conn_step\<^sup>*\<^sup>* c0 c"
  shows "follows (c_base c) (c_wire c) \<noteq> None"
  using conn_machine.reachable_inv [OF assms] by (simp add: conn_ok_def stream_ok_def)

theorem presenter_stream_has_no_gap_witness:
  "\<exists>c. conn_step\<^sup>*\<^sup>* (newConnection 2) c \<and> c_wire c = [SentSnapshot 5 ''{}'', SentDelta 6 ''{}''] \<and> follows (c_base c) (c_wire c) \<noteq> None"
proof -
  obtain c where c: "conn_step\<^sup>*\<^sup>* (newConnection 2) c" "c_wire c = [SentSnapshot 5 ''{}'', SentDelta 6 ''{}'']" using sample_written by auto
  from presenter_stream_has_no_gap [OF _ c(1)] c show ?thesis by auto
qed

text \<open>
  C21: The buffers of a connection are bounded, and no send to its channel blocks while the mutex is held: in every
  reachable state the channel holds at most its capacity, and the buffer behind a snapshot at most as many
  messages and \<open>MaxPresenterDecodedBytes\<close> bytes; until the connection fails, what is queued or being written
  also stays within the byte limit and is exactly what the counters say.
\<close>

theorem presenter_buffers_are_bounded:
  assumes "conn_initial c0" "conn_step\<^sup>*\<^sup>* c0 c"
  shows "length (c_queue c) \<le> MaxPresenterQueueMessages \<and> length (c_resyncTail c) \<le> MaxPresenterQueueMessages \<and>
    (\<Sum>m\<leftarrow>c_resyncTail c. len m) \<le> int MaxPresenterDecodedBytes \<and>
    (c_failed c \<or>
       (\<Sum>m\<leftarrow>unsent c @ c_pending c. len m) \<le> int MaxPresenterDecodedBytes \<and>
       c_queuedMessages c = int (length (unsent c @ c_pending c)) \<and>
       c_queuedBytes c = (\<Sum>m\<leftarrow>unsent c @ c_pending c. len m))"
  using conn_machine.reachable_inv [OF assms] by (auto simp: conn_ok_def tail_ok_def counted_def)

theorem presenter_buffers_are_bounded_witness:
  "\<exists>c. conn_step\<^sup>*\<^sup>* (newConnection 2) c \<and> c_queue c = [sample_delta 6] \<and>
    c_queuedMessages c = int (length (unsent c @ c_pending c))"
proof -
  obtain c where c: "conn_step\<^sup>*\<^sup>* (newConnection 2) c" "c_queue c = [sample_delta 6]" "\<not> c_failed c"
    using sample_started by auto
  from presenter_buffers_are_bounded [OF _ c(1)] c show ?thesis by auto
qed

text \<open>
  C20: No wake-up is lost: a writer that waits in its \<open>select\<close> with no wake-up pending and an empty channel has
  nothing to write, neither a parked reply nor a snapshot.
\<close>

theorem no_wakeup_is_lost:
  assumes "conn_initial c0" "conn_step\<^sup>*\<^sup>* c0 c" "c_writer c = AtSelect" "\<not> c_wake c" "c_queue c = []"
  shows "backlog c = []"
  using conn_machine.reachable_inv [OF assms(1,2)] assms(3-) by (auto simp: conn_ok_def wake_ok_def backlog_def)

theorem no_wakeup_is_lost_witness:
  "\<exists>c. conn_step\<^sup>*\<^sup>* (newConnection 2) c \<and> c_writer c = AtSelect \<and> c_wire c = [SentSnapshot 5 ''{}'', SentDelta 6 ''{}''] \<and> backlog c = []"
proof -
  obtain c where c: "conn_step\<^sup>*\<^sup>* (newConnection 2) c" "c_writer c = AtSelect" "\<not> c_wake c" "c_queue c = []"
    "c_wire c = [SentSnapshot 5 ''{}'', SentDelta 6 ''{}'']" using sample_written by auto
  from no_wakeup_is_lost [OF _ c(1-4)] c show ?thesis by auto
qed

subsection \<open>The connection fed by the owner\<close>

text \<open>
  What \<open>Server.Publish\<close>, \<open>publishSnapshot\<close> and \<open>handle\<close> deliver to one connection from the moment it is
  registered as the preparing one, seen with the sequence counter of the owner: every delta carries the
  next sequence, a snapshot the current one. The handshake takes its snapshot once, after registration.
\<close>

record feed =
  f_sequence :: u64
  f_snapshot :: "u64 option"
  f_conn :: connection

definition deliver :: "outbound \<Rightarrow> connection \<Rightarrow> bool \<times> connection" where
  "deliver m c =
     (if c_active c then let (published, resync, c') = enqueueDelta m c in (published, c') else prepare m c)"

inductive feed_step :: "feed \<Rightarrow> feed \<Rightarrow> bool" where
  publish: "ob_sequence m = f_sequence f + 1 \<Longrightarrow> ob_sequence m \<noteq> 0 \<Longrightarrow>
    feed_step f (f\<lparr>f_sequence := ob_sequence m, f_conn := snd (deliver m (f_conn f))\<rparr>)"
| take_snapshot: "f_snapshot f = None \<Longrightarrow> feed_step f (f\<lparr>f_snapshot := Some (f_sequence f)\<rparr>)"
| hand_over: "f_snapshot f = Some sequence \<Longrightarrow> \<not> c_active (f_conn f) \<Longrightarrow>
    feed_step f (f\<lparr>f_conn := snd (activate sequence (f_conn f))\<rparr>)"
| resync: "feed_step f (f\<lparr>f_conn := snd (enqueueSnapshot frame (f_sequence f) (f_conn f))\<rparr>)"
| reply: "ob_sequence m = 0 \<Longrightarrow> enqueue m (f_conn f) = Some (b, c') \<Longrightarrow> feed_step f (f\<lparr>f_conn := c'\<rparr>)"
| failure: "feed_step f (f\<lparr>f_conn := fail (f_conn f)\<rparr>)"
| start: "c_active (f_conn f) \<Longrightarrow> c_writer (f_conn f) = Unstarted \<Longrightarrow>
    feed_step f (f\<lparr>f_conn := greet frame (f_conn f)\<rparr>)"
| late_wake: "feed_step f (f\<lparr>f_conn := (f_conn f)\<lparr>c_wake := True\<rparr>\<rparr>)"
| turn: "write_step (f_conn f) c' \<Longrightarrow> feed_step f (f\<lparr>f_conn := c'\<rparr>)"

definition feed_initial :: "feed \<Rightarrow> bool" where
  "feed_initial f \<longleftrightarrow> conn_initial (f_conn f) \<and> f_snapshot f = None"

text \<open>The messages that were delivered between two values of the counter.\<close>

fun chain :: "u64 \<Rightarrow> outbound list \<Rightarrow> u64 \<Rightarrow> bool" where
  "chain p [] q \<longleftrightarrow> p = q"
| "chain p (m # ms) q \<longleftrightarrow> p \<noteq> - 1 \<and> ob_sequence m = p + 1 \<and> chain (p + 1) ms q"

definition in_step :: "u64 \<Rightarrow> connection \<Rightarrow> bool" where
  "in_step q c \<longleftrightarrow> (c_resyncNeeded c \<or> c_lastSequence c = q) \<and>
     (c_resyncFrame c = None \<or> c_resyncSeq c + of_nat (length (c_resyncTail c)) = q)"

definition waiting :: "u64 \<Rightarrow> u64 option \<Rightarrow> connection \<Rightarrow> bool" where
  "waiting q snap c \<longleftrightarrow> (\<exists>p. chain p (c_pending c) q \<and> (\<forall>s. snap = Some s \<longrightarrow> p \<le> s \<and> s \<le> q))"

definition feed_ok :: "feed \<Rightarrow> bool" where
  "feed_ok f \<longleftrightarrow> conn_ok (f_conn f) \<and>
     (c_failed (f_conn f) \<or>
      (if c_active (f_conn f) then in_step (f_sequence f) (f_conn f)
       else waiting (f_sequence f) (f_snapshot f) (f_conn f)))"

lemma chain_snoc: "chain p ms q \<Longrightarrow> q \<noteq> - 1 \<Longrightarrow> ob_sequence m = q + 1 \<Longrightarrow> chain p (ms @ [m]) (q + 1)"
  by (induction p ms q rule: chain.induct) auto

lemma succ_not_zero: "(q :: u64) + 1 \<noteq> 0 \<Longrightarrow> q \<noteq> - 1"
  by auto

lemma unat_succ: "(q :: u64) + 1 \<noteq> 0 \<Longrightarrow> unat (q + 1) = Suc (unat q)"
  using unatSuc [of q] by (simp add: add.commute)

lemma le_succ: "(q :: u64) + 1 \<noteq> 0 \<Longrightarrow> q \<le> q + 1"
  by (simp add: word_le_nat_alt unat_succ)

lemma activate_chain:
  assumes "chain p ms q" "c_lastSequence c = (if p \<le> s then s else p)" "s \<le> q"
  shows "fst (activate_loop s ms c) \<and> c_lastSequence (snd (activate_loop s ms c)) = q"
  using assms
proof (induction ms arbitrary: p c)
  case Nil
  then show ?case by auto
next
  case (Cons m ms)
  have m: "p \<noteq> - 1" "ob_sequence m = p + 1" "chain (p + 1) ms q" using Cons.prems by auto
  have nz: "p + 1 \<noteq> 0" using m(1) by (metis add_eq_0_iff2)
  show ?case
  proof (cases "p + 1 \<le> s")
    case True
    then have "p \<le> s" using le_succ [OF nz] by simp
    then show ?thesis using True m Cons.prems Cons.IH [of "p + 1" "release m c"] by (simp add: release_def)
  next
    case False
    have "c_lastSequence c = p"
    proof (cases "p \<le> s")
      case True
      with False have "unat p = unat s" using unat_succ [OF nz] by (simp add: word_le_nat_alt)
      then have "p = s" by (simp add: word_unat_eq_iff)
      with Cons.prems(2) show ?thesis by simp
    qed (use Cons.prems(2) in simp)
    then have v: "ValidateNextSequence (c_lastSequence c) (ob_sequence m) = None"
      using m by (simp add: ValidateNextSequence_None)
    show ?thesis
      using False m v Cons.prems Cons.IH [of "p + 1" "c\<lparr>c_lastSequence := ob_sequence m, c_queue := c_queue c @ [m]\<rparr>"]
      by simp
  qed
qed

text \<open>The handshake of a connection whose messages are in order succeeds, and it is then up to date.\<close>

lemma activate_in_step:
  assumes ok: "conn_ok c" and w: "waiting q (Some s) c" and a: "\<not> c_active c" "\<not> c_failed c"
  shows "fst (activate s c)" "in_step q (snd (activate s c))"
proof -
  let ?c = "c\<lparr>c_lastSequence := s, c_base := s\<rparr>"
  obtain p where "chain p (c_pending c) q" "p \<le> s" "s \<le> q" using w by (auto simp: waiting_def)
  then have l: "fst (activate_loop s (c_pending c) ?c)" "c_lastSequence (snd (activate_loop s (c_pending c) ?c)) = q"
    using activate_chain [of p "c_pending c" q ?c s] by auto
  moreover have "c_resyncFrame c = None" using conn_okD(4) [OF ok] a by (auto simp: tail_ok_def)
  ultimately show "fst (activate s c)" "in_step q (snd (activate s c))"
    using a by (simp_all add: activate_def case_prod_beta in_step_def)
qed

text \<open>A delta that carries the next sequence is refused only for lack of room.\<close>

lemma delta_in_step:
  assumes ok: "conn_ok c" and a: "c_active c" "\<not> c_failed c" and q: "in_step q c"
    and m: "ob_sequence m = q + 1" "ob_sequence m \<noteq> 0"
  shows "if c_resyncFrame c \<noteq> None \<and> reserveTail m c = None
    then enqueueDelta m c = (False, False, fail c)
    else fst (enqueueDelta m c) \<and> c_active (snd (snd (enqueueDelta m c))) \<and> in_step (q + 1) (snd (snd (enqueueDelta m c)))"
proof -
  consider (dropped) "c_resyncNeeded c" "c_resyncFrame c = None" | (tail) "c_resyncNeeded c" "c_resyncFrame c \<noteq> None"
    | (full) "\<not> c_resyncNeeded c" "reserve m c = None" | (queued) c1 where "\<not> c_resyncNeeded c" "reserve m c = Some c1"
    by blast
  then show ?thesis
  proof cases
    case dropped
    then show ?thesis using a by (simp add: enqueueDelta_def in_step_def)
  next
    case tail
    then have "ob_sequence m = c_resyncSeq c + of_nat (length (c_resyncTail c)) + 1"
      using q m by (auto simp: in_step_def)
    moreover have "c_resyncTail c1 = c_resyncTail c" "c_resyncSeq c1 = c_resyncSeq c" "c_resyncNeeded c1" "c_active c1"
      if "reserveTail m c = Some c1" for c1 using that tail a by (simp_all add: reserveTail_Some)
    ultimately show ?thesis
      using a tail m(1) by (cases "reserveTail m c") (simp_all add: enqueueDelta_def in_step_def)
  next
    case full
    have "c_resyncFrame c = None" using full conn_okD(4) [OF ok] by (auto simp: tail_ok_def)
    moreover have "ValidateNextSequence (c_lastSequence c) (ob_sequence m) = None"
      using full q m by (auto simp: in_step_def ValidateNextSequence_Suc)
    ultimately show ?thesis
      using a full by (simp add: enqueueDelta_def in_step_def beginResyncLocked_def)
  next
    case queued
    have "c_resyncFrame c = None" using queued conn_okD(4) [OF ok] by (auto simp: tail_ok_def)
    moreover have "ValidateNextSequence (c_lastSequence c) (ob_sequence m) = None"
      using queued q m by (auto simp: in_step_def ValidateNextSequence_Suc)
    moreover have "length (c_queue c) < MaxPresenterQueueMessages"
      using counted_room [OF active_okD(1) [OF ok a]] queued by (simp add: reserve_Some)
    moreover have "c_queue c1 = c_queue c" "c_resyncFrame c1 = c_resyncFrame c" "c_active c1"
      using queued a by (simp_all add: reserve_Some)
    ultimately show ?thesis
      using a queued m(1) by (simp add: enqueueDelta_def in_step_def)
  qed
qed

lemma prepare_waiting:
  assumes a: "\<not> c_failed c" and w: "waiting q snap c" and m: "ob_sequence m = q + 1" "ob_sequence m \<noteq> 0"
  shows "if reserve m c = None then prepare m c = (False, fail c)
    else fst (prepare m c) \<and> c_active (snd (prepare m c)) = c_active c \<and> waiting (q + 1) snap (snd (prepare m c))"
proof (cases "reserve m c")
  case None
  then show ?thesis using a by (simp add: prepare_def)
next
  case (Some c1)
  then have c1: "c_pending c1 = c_pending c" "c_active c1 = c_active c" by (simp_all add: reserve_Some)
  obtain p where p: "chain p (c_pending c) q" "\<forall>s. snap = Some s \<longrightarrow> p \<le> s \<and> s \<le> q" using w by (auto simp: waiting_def)
  have "chain p (c_pending c @ [m]) (q + 1)" using p m by (intro chain_snoc) auto
  moreover have "\<forall>s. snap = Some s \<longrightarrow> p \<le> s \<and> s \<le> q + 1"
    using p(2) le_succ [of q] m by fastforce
  ultimately show ?thesis using a Some c1 by (auto simp: prepare_def waiting_def)
qed

text \<open>One delta of the owner: it is refused only for lack of room, and the connection stays in step.\<close>

definition no_room :: "outbound \<Rightarrow> connection \<Rightarrow> bool" where
  "no_room m c \<longleftrightarrow> (if c_active c then c_resyncFrame c \<noteq> None \<and> reserveTail m c = None else reserve m c = None)"

definition up_to :: "u64 \<Rightarrow> u64 option \<Rightarrow> connection \<Rightarrow> bool" where
  "up_to q snap c \<longleftrightarrow> (if c_active c then in_step q c else waiting q snap c)"

lemma feed_ok_up_to: "feed_ok f \<longleftrightarrow> conn_ok (f_conn f) \<and> (c_failed (f_conn f) \<or> up_to (f_sequence f) (f_snapshot f) (f_conn f))"
  by (simp add: feed_ok_def up_to_def)

lemma deliver_up_to:
  assumes ok: "conn_ok c" and nf: "\<not> c_failed c" and u: "up_to q snap c" and m: "ob_sequence m = q + 1" "ob_sequence m \<noteq> 0"
  shows "if no_room m c then deliver m c = (False, fail c)
    else fst (deliver m c) \<and> up_to (q + 1) snap (snd (deliver m c))"
proof (cases "c_active c")
  case True
  then show ?thesis
    using delta_in_step [OF ok True nf _ m] u by (auto simp: deliver_def no_room_def up_to_def case_prod_beta)
next
  case False
  then show ?thesis
    using prepare_waiting [OF nf _ m] u by (auto simp: deliver_def no_room_def up_to_def)
qed

lemma deliver_ok:
  assumes f: "feed_ok f" and m: "ob_sequence m = f_sequence f + 1" "ob_sequence m \<noteq> 0"
  shows "feed_ok (f\<lparr>f_sequence := ob_sequence m, f_conn := snd (deliver m (f_conn f))\<rparr>)"
proof -
  let ?c = "f_conn f"
  have ok: "conn_ok ?c" using f by (simp add: feed_ok_def)
  have d: "conn_ok (snd (deliver m ?c))"
    using enqueueDelta_ok [OF ok m(2)] prepare_ok [OF ok _ m(2)] by (simp add: deliver_def case_prod_beta)
  have "c_failed (snd (deliver m ?c)) \<or> up_to (f_sequence f + 1) (f_snapshot f) (snd (deliver m ?c))"
  proof (cases "c_failed ?c")
    case True
    then show ?thesis by (simp add: deliver_def enqueueDelta_def prepare_def fail_def)
  next
    case False
    then have "up_to (f_sequence f) (f_snapshot f) ?c" using f by (simp add: feed_ok_up_to)
    from deliver_up_to [OF ok False this m] show ?thesis by (auto simp: fail_def split: if_splits)
  qed
  with d m show ?thesis by (simp add: feed_ok_up_to)
qed

lemma up_to_frame [simp]:
  "up_to q snap (c\<lparr>c_queue := x1\<rparr>) = up_to q snap c" "up_to q snap (c\<lparr>c_queuedMessages := x2\<rparr>) = up_to q snap c"
  "up_to q snap (c\<lparr>c_queuedBytes := x3\<rparr>) = up_to q snap c" "up_to q snap (c\<lparr>c_replyHold := x4\<rparr>) = up_to q snap c"
  "up_to q snap (c\<lparr>c_wake := x5\<rparr>) = up_to q snap c" "up_to q snap (c\<lparr>c_writer := x6\<rparr>) = up_to q snap c"
  "up_to q snap (c\<lparr>c_wire := x7\<rparr>) = up_to q snap c" "up_to q snap (c\<lparr>c_inflight := x8\<rparr>) = up_to q snap c"
  "up_to q snap (c\<lparr>c_failed := x9\<rparr>) = up_to q snap c"
  by (simp_all add: up_to_def in_step_def waiting_def)

lemma write_step_up_to:
  assumes "write_step c d" "conn_ok c" "c_failed c \<or> up_to q snap c"
  shows "c_failed d \<or> up_to q snap d"
  using assms
proof cases
  case (write_resync frame c')
  then show ?thesis
    using assms(3) write_step_active [OF assms(1,2)]
    by (auto simp: takeResync_Some up_to_def in_step_def)
qed (auto simp: takeReply_def fail_def release_def)

lemma enqueue_up_to:
  assumes "enqueue m c = Some (b, c')" "c_failed c \<or> up_to q snap c"
  shows "c_failed c' \<or> up_to q snap c'"
proof (cases "reserve m c")
  case None
  then show ?thesis using assms by (auto simp: enqueue_def fail_def split: if_splits)
next
  case (Some c1)
  then have "c1 = c\<lparr>c_queuedMessages := c_queuedMessages c + 1, c_queuedBytes := c_queuedBytes c + len m\<rparr>"
    by (simp add: reserve_Some)
  then show ?thesis using assms Some by (auto simp: enqueue_def fail_def release_def split: if_splits)
qed

lemma chain_le: "chain p ms q \<Longrightarrow> p \<le> q"
proof (induction p ms q rule: chain.induct)
  case (2 p m ms q)
  then have "p + 1 \<noteq> 0" by (auto simp: add_eq_0_iff2)
  with 2 show ?case using le_succ [of p] by simp
qed simp

lemma feed_step_ok:
  assumes f: "feed_ok f" and st: "feed_step f g"
  shows "feed_ok g"
proof -
  let ?c = "f_conn f"
  have ok: "conn_ok ?c" and u: "c_failed ?c \<or> up_to (f_sequence f) (f_snapshot f) ?c"
    using f by (simp_all add: feed_ok_up_to)
  from st show ?thesis
  proof cases
    case (publish m)
    then show ?thesis using deliver_ok f by blast
  next
    case take_snapshot
    show ?thesis using take_snapshot ok u chain_le by (auto simp: feed_ok_up_to up_to_def waiting_def)
  next
    case (hand_over sequence)
    have "c_failed (snd (activate sequence ?c)) \<or> up_to (f_sequence f) (f_snapshot f) (snd (activate sequence ?c))"
    proof (cases "c_failed ?c")
      case False
      then have w: "waiting (f_sequence f) (Some sequence) ?c" using hand_over u by (simp add: up_to_def)
      note i = activate_in_step [OF ok w hand_over(3) False]
      have "c_active (snd (activate sequence ?c))" using i(1) False by (simp add: activate_def case_prod_beta split: if_splits)
      with i show ?thesis by (simp add: up_to_def)
    qed (simp add: activate_def)
    then show ?thesis using hand_over activate_ok [OF ok] by (simp add: feed_ok_up_to)
  next
    case (resync frame)
    have "c_resyncTail ?c = []" if "c_resyncFrame ?c = None"
      using that conn_okD(4) [OF ok] by (simp add: tail_ok_def)
    then have "c_failed (snd (enqueueSnapshot frame (f_sequence f) ?c)) \<or>
        up_to (f_sequence f) (f_snapshot f) (snd (enqueueSnapshot frame (f_sequence f) ?c))"
      using u by (auto simp: enqueueSnapshot_def up_to_def in_step_def)
    then show ?thesis using resync enqueueSnapshot_ok [OF ok] by (simp add: feed_ok_up_to)
  next
    case (reply m b c')
    then show ?thesis using enqueue_ok [OF ok] enqueue_up_to u by (simp add: feed_ok_up_to)
  next
    case failure
    then show ?thesis using fail_ok [OF ok] by (simp add: feed_ok_up_to fail_def)
  next
    case start
    then show ?thesis using greet_ok [OF ok] u by (simp add: feed_ok_up_to greet_def)
  next
    case late_wake
    then show ?thesis using conn_step_ok [OF ok conn_step.late_wake] u by (simp add: feed_ok_up_to)
  next
    case (turn c')
    then show ?thesis using write_step_ok [OF ok] write_step_up_to [OF _ ok u] by (simp add: feed_ok_up_to)
  qed
qed

lemma feed_initial_ok:
  assumes "feed_initial f"
  shows "feed_ok f"
proof -
  have "conn_ok (f_conn f)" using assms conn_initial_ok by (simp add: feed_initial_def)
  moreover have "c_pending (f_conn f) = []" "\<not> c_active (f_conn f)" "f_snapshot f = None"
    using assms by (auto simp: feed_initial_def conn_initial_def newConnection_def)
  ultimately show ?thesis by (simp add: feed_ok_def waiting_def)
qed

interpretation feed_machine: guarded_machine feed_initial feed_step feed_ok
  by unfold_locales (blast intro: feed_initial_ok feed_step_ok)+

text \<open>
  C19: A presenter never loses its connection to a gap in the stream of the owner. However the deltas and snapshots
  of the owner interleave with the handshake, with replies and with the writer, the next delta of the owner
  is refused by a live connection only if there is no room for it (the messages held back during the
  handshake, or those behind a snapshot, are at their limit), and the hand-over at the end of the handshake
  never fails a live connection.
\<close>

theorem owner_stream_is_accepted:
  assumes "feed_initial f0" "feed_step\<^sup>*\<^sup>* f0 f" "\<not> c_failed (f_conn f)"
    and "ob_sequence m = f_sequence f + 1" "ob_sequence m \<noteq> 0"
  shows "(fst (deliver m (f_conn f)) \<or> no_room m (f_conn f)) \<and>
    (c_active (f_conn f) \<or> f_snapshot f = None \<or> fst (activate (the (f_snapshot f)) (f_conn f)))"
proof -
  have ok: "conn_ok (f_conn f)" and u: "up_to (f_sequence f) (f_snapshot f) (f_conn f)"
    using feed_machine.reachable_inv [OF assms(1,2)] assms(3) by (simp_all add: feed_ok_up_to)
  have "fst (deliver m (f_conn f)) \<or> no_room m (f_conn f)"
    using deliver_up_to [OF ok assms(3) u assms(4,5)] by (simp split: if_splits)
  moreover have "fst (activate s (f_conn f))" if "\<not> c_active (f_conn f)" "f_snapshot f = Some s" for s
    using activate_in_step(1) [OF ok _ that(1) assms(3)] u that by (simp add: up_to_def)
  ultimately show ?thesis by (cases "f_snapshot f") auto
qed

text \<open>The same run seen with the counter of the owner: a delta during the handshake and one after it.\<close>

definition sample_feed :: feed where
  "sample_feed = \<lparr>f_sequence = 5, f_snapshot = None, f_conn = newConnection 2\<rparr>"

lemma sample_feed_reached:
  "\<exists>f. feed_step\<^sup>*\<^sup>* sample_feed f \<and> \<not> c_failed (f_conn f) \<and> f_sequence f = 6 \<and> c_active (f_conn f) \<and>
    c_queue (f_conn f) = [sample_delta 6] \<and> c_resyncFrame (f_conn f) = None"
proof -
  define c where "c = snd (deliver (sample_delta 6) (newConnection 2))"
  define d where "d = snd (activate 5 c)"
  let ?f1 = "sample_feed\<lparr>f_snapshot := Some 5\<rparr>"
  let ?f2 = "?f1\<lparr>f_sequence := 6, f_conn := c\<rparr>"
  have c: "c = (newConnection 2)\<lparr>c_queuedMessages := 1, c_queuedBytes := 2, c_pending := [sample_delta 6]\<rparr>"
    by (simp add: c_def deliver_def prepare_def reserve_def newConnection_def len_def sample_delta_def
        MaxPresenterQueueMessages_def MaxPresenterDecodedBytes_def)
  have d: "d = c\<lparr>c_lastSequence := 6, c_base := 5, c_queue := [sample_delta 6], c_pending := [], c_active := True\<rparr>"
    unfolding d_def c by (simp add: activate_def newConnection_def sample_delta_def ValidateNextSequence_def)
  have 1: "feed_step sample_feed ?f1" using feed_step.take_snapshot [of sample_feed] by (simp add: sample_feed_def)
  have 2: "feed_step ?f1 ?f2"
    using feed_step.publish [of "sample_delta 6" ?f1] by (simp add: sample_feed_def sample_delta_def c_def)
  have 3: "feed_step ?f2 (?f2\<lparr>f_conn := d\<rparr>)"
    using feed_step.hand_over [of ?f2 5] by (simp add: d_def) (simp add: c newConnection_def)
  have "feed_step\<^sup>*\<^sup>* sample_feed (?f2\<lparr>f_conn := d\<rparr>)"
    using 1 2 3 by (meson converse_rtranclp_into_rtranclp rtranclp.rtrancl_refl)
  then show ?thesis by (intro exI [of _ "?f2\<lparr>f_conn := d\<rparr>"] conjI) (simp_all add: c d newConnection_def)
qed

theorem owner_stream_is_accepted_witness:
  "\<exists>f. feed_step\<^sup>*\<^sup>* sample_feed f \<and> f_sequence f = 6 \<and> fst (deliver (sample_delta 7) (f_conn f))"
proof -
  obtain f where f: "feed_step\<^sup>*\<^sup>* sample_feed f" "\<not> c_failed (f_conn f)" "f_sequence f = 6" "c_active (f_conn f)"
    "c_resyncFrame (f_conn f) = None" using sample_feed_reached by auto
  have "feed_initial sample_feed" by (simp add: feed_initial_def sample_feed_def)
  from owner_stream_is_accepted [OF this f(1,2), of "sample_delta 7"] f show ?thesis
    by (intro exI [of _ f]) (simp add: sample_delta_def no_room_def)
qed

subsection \<open>The order of replies\<close>

text \<open>
  A reply that is parked overtakes replies that were queued before it: if the queue holds an earlier reply and has
  no room for the next one, that one is parked, and the next turn of the writer writes it before the earlier
  reply. The replies of a connection may thus leave in another order than the commands came, although
  \<open>enqueue\<close> states that it keeps their order; only their request IDs tell them apart.
\<close>

theorem parked_reply_overtakes:
  assumes "conn_ok c" "c_active c" "\<not> c_failed c" "c_replyHold c = None" "c_writer c = AtTop"
    and "early \<in> set (c_queue c)" "ob_sequence early = 0" "reserve late c = None"
  shows "\<exists>c1 c2. enqueue late c = Some (True, c1) \<and> write_step c1 c2 \<and>
    c_wire c2 = c_wire c @ [SentReply (ob_data late)] \<and> early \<in> set (c_queue c2)"
proof -
  let ?c = "c\<lparr>c_replyHold := Some (ob_data late), c_wake := True\<rparr>"
  let ?d = "?c\<lparr>c_replyHold := None\<rparr>"
  have "enqueue late c = Some (True, ?c)" using assms by (simp add: enqueue_def)
  moreover have "write_step ?c (?d\<lparr>c_wire := c_wire ?d @ [SentReply (ob_data late)]\<rparr>)"
    using assms by (intro write_reply) (simp_all add: takeReply_def)
  ultimately show ?thesis using assms(6) by fastforce
qed

text \<open>A connection whose queue is full of replies, the first of which is waiting to be written.\<close>

definition sample_full :: connection where
  "sample_full = (newConnection 2)\<lparr>c_active := True, c_writer := AtTop, c_wire := [SentSnapshot 0 []],
     c_queuedMessages := int MaxPresenterQueueMessages,
     c_queue := replicate MaxPresenterQueueMessages \<lparr>ob_data = [], ob_sequence = 0\<rparr>\<rparr>"

lemma follows_replies: "follows b (replicate n (SentReply r)) = Some b"
  by (induction n) simp_all

lemma sample_full_ok: "conn_ok sample_full"
proof -
  have "stream_ok sample_full"
    by (simp add: sample_full_def newConnection_def stream_ok_def continues_def unsent_def follows_replies)
  then show ?thesis
    by (simp add: sample_full_def newConnection_def conn_ok_def counted_def unsent_def len_def sum_list_replicate
        tail_ok_def position_ok_def wake_ok_def)
qed

theorem parked_reply_overtakes_witness:
  "\<exists>c1 c2. enqueue \<lparr>ob_data = ''{}'', ob_sequence = 0\<rparr> sample_full = Some (True, c1) \<and> write_step c1 c2 \<and>
    c_wire c2 = [SentSnapshot 0 [], SentReply ''{}''] \<and> \<lparr>ob_data = [], ob_sequence = 0\<rparr> \<in> set (c_queue c2)"
  using parked_reply_overtakes [OF sample_full_ok, of "\<lparr>ob_data = [], ob_sequence = 0\<rparr>" "\<lparr>ob_data = ''{}'', ob_sequence = 0\<rparr>"]
  by (simp add: sample_full_def newConnection_def reserve_def MaxPresenterQueueMessages_def)

end
