(* ===== verification/FdoProps.thy ===== *)
theory FdoProps
  imports Fdo
begin

text \<open>
  What the D-Bus face promises its clients: what \<open>CloseNotification\<close> answers and signals, that the signal queue
  loses nothing but the newest signals of a full queue, that a start that fails and a close undo every
  registration with the bus, and which of several image hints counts.
\<close>

subsection \<open>Signals\<close>

lemma signals_of_delta_events:
  "concat (map signals_of (delta_events q ds)) =
     concat (map (\<lambda>d. if d_Kind d = DeltaClosed then [NotificationClosed (d_ID d) (d_CloseReason d)] else []) ds)"
  by (induction ds arbitrary: q) (simp_all add: signals_of_def zero_Event_def)

lemma remember_signals:
  "\<exists>evs. os_events (remember r h s) = os_events s @ evs \<and> concat (map signals_of evs) = []"
proof -
  have quiet: "concat (map signals_of (delta_events q (map removedDelta ids @ ds))) = []"
    if "\<forall>d\<in>set ds. d_Kind d = DeltaHistoryAdded" for q ids ds
    using that by (auto simp: signals_of_delta_events removedDelta_def zero_Delta_def)
  show ?thesis
    using quiet [of "[]"] quiet [of "[zero_Delta\<lparr>d_Kind := DeltaHistoryAdded, d_History := Some e\<rparr>]" for e]
    by (auto simp: remember_def Let_def publishDelta_emit publishRemoved_emit emit_emit clock_Now_def
        split: prod.splits sum.splits option.splits) (auto simp: emit_def)
qed

lemma close_signals:
  assumes "os_records s nid = Some r"
  shows "\<exists>evs. os_events (snd (close nid reason s)) = os_events s @ evs \<and>
    concat (map signals_of evs) = [NotificationClosed nid reason]"
proof -
  define s1 where "s1 = publishDelta (zero_Delta\<lparr>d_Kind := DeltaClosed, d_ID := nid, d_CloseReason := reason\<rparr>) (forget nid r s)"
  have 1: "os_events s1 = os_events s @
      delta_events (os_sequence s) [zero_Delta\<lparr>d_Kind := DeltaClosed, d_ID := nid, d_CloseReason := reason\<rparr>]"
    by (simp add: s1_def publishDelta_emit emit_def forget_def)
  have "\<exists>evs. os_events (snd (close nid reason s)) = os_events s1 @ evs \<and> concat (map signals_of evs) = []"
    using assms remember_signals [of r _ s1] by (auto simp: close_def Let_def s1_def split: option.splits)
  then show ?thesis using 1 by (auto simp: signals_of_def zero_Event_def)
qed

text \<open>
  \<open>CloseNotification\<close> is always answered. For an active notification it succeeds, removes exactly that
  notification, and puts exactly one signal on the way to the bus, \<open>NotificationClosed\<close> with its ID and the
  reason \<open>closed by a call\<close>. For any other ID it fails with \<open>InvalidNotification\<close>, signals nothing and changes
  nothing a presenter sees; closing the same notification twice therefore fails the second time.
\<close>

theorem close_notification_outcome:
  assumes "owner_reachable clk sink store s" "clock_ok clk" "\<forall>h. store = Some h \<longrightarrow> store_ok h"
  shows "\<exists>e t evs. endpoint_CloseNotification Answered nid (Some s) = Some (e, Some t) \<and> os_events t = os_events s @ evs \<and>
    (if nid \<in> set (os_order s)
     then e = None \<and> os_records t = (os_records s)(nid := None) \<and>
       concat (map signals_of evs) = [NotificationClosed nid CloseRequested]
     else e = Some (invalidNotification, ErrNotFound) \<and> view_of t = view_of s \<and> evs = [])"
proof -
  let ?c = "zero_StateCommand\<lparr>sc_Kind := KCloseRequested, sc_ID := nid\<rparr>"
  let ?s1 = "s\<lparr>os_reads := Suc (os_reads s)\<rparr>"
  have ok: "owner_ok s" using reachable_ok [OF assms(1,2)] assms(3) by blast
  have ok1: "owner_ok ?s1" using owner_ok_read [OF ok] by simp
  have d: "do_command ?c s = Some (result_of (close nid CloseRequested ?s1))"
    by (simp add: do_command_def gatePresenter_def clock_Now_def dispatch_def zero_StateCommand_def)
  define t where "t = snd (close nid CloseRequested ?s1)"
  have "advances ?s1 t" unfolding t_def by (rule close_advances_any [OF ok1]) simp
  then obtain u where u: "resetTimer t = Some u" "os_records u = os_records t"
    using resetTimer_spec [OF advances_ok] by blast
  have o: "Owner_Do Answered ?c s = Some (fst (result_of (close nid CloseRequested ?s1)), u)"
    using d u(1) by (simp add: Owner_Do_def t_def result_of_def)
  show ?thesis
  proof (cases "os_records s nid")
    case None
    then have c: "close nid CloseRequested ?s1 = (Some ErrNotFound, ?s1)" by (simp add: close_missing)
    then have "endpoint_CloseNotification Answered nid (Some s) = Some (Some (invalidNotification, ErrNotFound), Some u)"
      using o by (simp add: endpoint_CloseNotification_def result_of_def)
    moreover have "nid \<notin> set (os_order s)" using None owner_okD(2) [OF ok] domIff by metis
    moreover have "view_of u = view_of s" "os_events u = os_events s"
      using resetTimer_view [OF u(1)] resetTimer_events [OF u(1)] c by (simp_all add: t_def)
    ultimately show ?thesis by auto
  next
    case (Some r)
    then have r: "os_records ?s1 nid = Some r" by simp
    have "nid \<in> set (os_order s)" using Some owner_okD(2) [OF ok] by (auto simp: dom_def)
    moreover have "fst (close nid CloseRequested ?s1) = None" "os_records t = (os_records s)(nid := None)"
      using close_advances(1,3) [OF ok1 _ r, of CloseRequested] by (simp_all add: t_def)
    moreover obtain evs where "os_events u = os_events s @ evs" "concat (map signals_of evs) = [NotificationClosed nid CloseRequested]"
      using close_signals [OF r, of CloseRequested] resetTimer_events [OF u(1)] by (auto simp: t_def)
    ultimately show ?thesis using o u(2) by (auto simp: endpoint_CloseNotification_def result_of_def)
  qed
qed

theorem close_notification_outcome_witness:
  "owner_reachable ex_clock None None ex_one \<and> clock_ok ex_clock \<and>
   (\<exists>t. endpoint_CloseNotification Answered 1 (Some ex_one) = Some (None, Some t) \<and> os_records t 1 = None)"
proof -
  have "1 \<in> set (os_order ex_one)" by (simp add: ex_one_def)
  with close_notification_outcome [OF ex_reachable ex_clock_ok, of 1] ex_reachable ex_clock_ok show ?thesis by auto
qed

lemma fold_queueSignal:
  "length q \<le> emitQueueSize \<Longrightarrow> fold queueSignal sigs (ok, q) =
     (ok \<and> length q + length sigs \<le> emitQueueSize, q @ take (emitQueueSize - length q) sigs)"
proof (induction sigs arbitrary: ok q)
  case (Cons a sigs)
  show ?case
  proof (cases "length q < emitQueueSize")
    case True
    then have "emitQueueSize - length q = Suc (emitQueueSize - Suc (length q))" by simp
    with True Cons.IH [of "q @ [a]" ok] show ?thesis by (simp add: queueSignal_def)
  next
    case False
    with Cons Cons.IH [of q False] show ?thesis by (simp add: queueSignal_def)
  qed
qed simp

fun publish_all :: "Event list \<Rightarrow> queuedSignal list \<Rightarrow> bool \<times> queuedSignal list" where
  "publish_all [] q = (True, q)"
| "publish_all (ev # evs) q =
     (let (ok, q1) = fdo_Publish ev q; (ok', q2) = publish_all evs q1 in (ok \<and> ok', q2))"

text \<open>
  The signal queue never blocks the owner and never holds more than 128 signals. Publishing any events while the
  emitter is stalled appends their signals in their order, without a duplicate and without one in between
  missing, up to the room in the queue; only the newest ones are dropped, and the caller learns of it.
\<close>

theorem signals_are_queued_in_order:
  assumes "length q \<le> emitQueueSize"
  shows "publish_all evs q =
      (length q + length (concat (map signals_of evs)) \<le> emitQueueSize,
       q @ take (emitQueueSize - length q) (concat (map signals_of evs))) \<and>
    length (snd (publish_all evs q)) \<le> emitQueueSize"
  using assms
proof (induction evs arbitrary: q)
  case (Cons ev evs)
  let ?q1 = "q @ take (emitQueueSize - length q) (signals_of ev)"
  have p: "fdo_Publish ev q = (length q + length (signals_of ev) \<le> emitQueueSize, ?q1)"
    using fold_queueSignal [OF Cons.prems] by (simp add: fdo_Publish_def)
  have "length ?q1 \<le> emitQueueSize" using Cons.prems by simp
  from Cons.IH [OF this] p Cons.prems show ?case by (auto simp: min_def)
qed simp

theorem signals_are_queued_in_order_witness:
  "publish_all [zero_Event\<lparr>ev_Action := Some \<lparr>ae_ID = 4, ae_Key = ''open''\<rparr>\<rparr>] (replicate 128 (ActionInvoked 1 ''x'')) =
     (False, replicate 128 (ActionInvoked 1 ''x''))"
  using signals_are_queued_in_order [of "replicate 128 (ActionInvoked 1 ''x'')"
      "[zero_Event\<lparr>ev_Action := Some \<lparr>ae_ID = 4, ae_Key = ''open''\<rparr>\<rparr>]"]
  by (simp add: emitQueueSize_def signals_of_def zero_Event_def)

subsection \<open>Registrations with the bus\<close>

definition registered :: "fdoServer \<Rightarrow> bool" where
  "registered s \<longleftrightarrow> fs_exported s \<or> fs_matched s \<or> fs_signalled s \<or> fs_named s"

text \<open>
  Starting the D-Bus server either succeeds with the object exported, the name owned and the ownership watched,
  or fails and leaves nothing registered; it can be attempted once; and closing a server, started or not, leaves
  nothing registered and frees the calls that wait for their turn. This needs only that the calls that undo a
  registration succeed.
\<close>

theorem bus_registrations_are_undone:
  assumes "ba_Unexport a = None" "ba_RemoveMatchSignal a = None" "ba_ReleaseName a = Inr True"
  shows "case fdo_Serve a (Some s) NewServer of (e, t) \<Rightarrow>
    (if e = None then fs_exported t \<and> fs_matched t \<and> fs_signalled t \<and> fs_named t else \<not> registered t) \<and>
    fs_owner t = Some s \<and> (\<exists>x. fdo_Serve b owner t = (Some x, t)) \<and>
    fst (fdo_Close a t) = [] \<and> \<not> registered (snd (fdo_Close a t)) \<and> fs_orderClosed (snd (fdo_Close a t)) \<and>
    fdo_Close b (snd (fdo_Close a t)) = ([], snd (fdo_Close a t))"
  using assms
  by (auto simp: fdo_Serve_def fdo_Close_def NewServer_def registered_def unexport_def unmatch_def Let_def
      map_filter_simps split: option.splits sum.splits bool.splits)

theorem bus_registrations_are_undone_witness:
  "\<exists>t. fdo_Serve \<lparr>ba_Export = None, ba_AddMatchSignal = None, ba_RequestName = Inr False, ba_Unexport = None,
      ba_RemoveMatchSignal = None, ba_ReleaseName = Inr True\<rparr> (Some ex_one) NewServer =
    (Some (Err ''fdo: acquire org.freedesktop.Notifications''), t) \<and> \<not> registered t"
  using bus_registrations_are_undone [of "\<lparr>ba_Export = None, ba_AddMatchSignal = None, ba_RequestName = Inr False,
      ba_Unexport = None, ba_RemoveMatchSignal = None, ba_ReleaseName = Inr True\<rparr>" ex_one]
  by (simp add: fdo_Serve_def NewServer_def Let_def split: prod.splits)

subsection \<open>Which image counts\<close>

text \<open>One hint at a time: the entry it becomes, if any, and the better of two images.\<close>

definition kept_hint :: "string \<times> variant \<Rightarrow> (string \<times> hint) option" where
  "kept_hint = (\<lambda>(k, v).
     if k \<in> set passed_hints then Some (k, variant_Value v)
     else if k = ''image-path'' then (case v of VText path \<Rightarrow> Some (k, HString path) | _ \<Rightarrow> None)
     else None)"

definition image_priority :: "string \<Rightarrow> nat" where
  "image_priority k =
     (if k = ''image-data'' then 0 else if k = ''image_data'' then 1 else if k = ''icon_data'' then 2 else 3)"

definition better_image :: "string \<times> variant \<Rightarrow> variant \<times> nat \<Rightarrow> variant \<times> nat" where
  "better_image = (\<lambda>(k, v) (best, p). if image_priority k < p \<and> image_priority k < 3 then (v, image_priority k) else (best, p))"

lemma convert_hint_eq:
  "convert_hint h (result, b) = (result @ List.map_filter kept_hint [h], better_image h b)"
proof -
  obtain k v best p where h: "h = (k, v)" "b = (best, p)" by (cases h; cases b)
  consider "k \<in> set passed_hints" | "k \<in> {''image-data'', ''image_data'', ''icon_data''}" | "k = ''image-path''"
    | "k \<notin> set passed_hints \<union> {''image-data'', ''image_data'', ''icon_data'', ''image-path''}" by blast
  then show ?thesis
  proof cases
    case 1
    then have "image_priority k = 3" by (auto simp: passed_hints_def image_priority_def)
    with 1 h show ?thesis by (simp add: kept_hint_def better_image_def map_filter_simps)
  next
    case 2
    then have "k \<notin> set passed_hints" "k \<noteq> ''image-path''" by (auto simp: passed_hints_def)
    with 2 h show ?thesis by (auto simp: kept_hint_def better_image_def image_priority_def map_filter_simps)
  next
    case 3
    then have "k \<notin> set passed_hints" by (simp add: passed_hints_def)
    with 3 h show ?thesis
      by (cases v) (simp_all add: kept_hint_def better_image_def image_priority_def map_filter_simps)
  next
    case 4
    with h show ?thesis by (simp add: kept_hint_def better_image_def image_priority_def map_filter_simps)
  qed
qed

lemma fold_convert_hint:
  "fold convert_hint hs (result, b) = (result @ List.map_filter kept_hint hs, fold better_image hs b)"
  by (induction hs arbitrary: result b) (simp_all add: convert_hint_eq map_filter_simps split: option.splits)

lemma fold_better_image_perm:
  assumes "distinct (map fst hs)" "mset hs = mset hs'"
  shows "fold better_image hs = fold better_image hs'"
proof (rule fold_multiset_equiv [OF _ assms(2)])
  fix x y assume "x \<in> set hs" "y \<in> set hs"
  then have "x = y \<or> fst x \<noteq> fst y" using assms(1) by (auto simp: distinct_map dest: inj_onD)
  moreover have "image_priority (fst x) \<noteq> image_priority (fst y) \<or> 3 \<le> image_priority (fst x)" if "fst x \<noteq> fst y"
    using that by (auto simp: image_priority_def)
  ultimately show "better_image x \<circ> better_image y = better_image y \<circ> better_image x"
    by (cases x; cases y) (auto simp: fun_eq_iff better_image_def)
qed

lemma kept_hint_key: "kept_hint h = Some e \<Longrightarrow> fst e = fst h \<and> fst e \<noteq> ''image-data''"
  by (cases h) (auto simp: kept_hint_def passed_hints_def split: if_splits variant.splits)

lemma kept_hints_distinct:
  assumes "distinct (map fst hs)"
  shows "distinct (map fst (List.map_filter kept_hint hs)) \<and> ''image-data'' \<notin> set (map fst (List.map_filter kept_hint hs)) \<and>
    set (map fst (List.map_filter kept_hint hs)) \<subseteq> set (map fst hs)"
  using assms
proof (induction hs)
  case (Cons h hs)
  then have "fst h \<notin> set (map fst (List.map_filter kept_hint hs))" by auto
  with Cons kept_hint_key [of h] show ?case by (cases "kept_hint h") (auto simp: map_filter_simps)
qed (simp add: map_filter_simps)

lemma convertHints_perm:
  assumes "distinct (map fst hs)" "mset hs = mset hs'"
  shows "convertHints hs = convertHints hs' \<or>
    (\<exists>rs rs'. convertHints hs = Inr rs \<and> convertHints hs' = Inr rs' \<and> distinct (map fst rs) \<and> mset rs = mset rs')"
proof (cases "MaxHints < length hs")
  case True
  then show ?thesis using mset_eq_length [OF assms(2)] by (simp add: convertHints_def)
next
  case False
  let ?r = "List.map_filter kept_hint hs" and ?r' = "List.map_filter kept_hint hs'"
  obtain best p where b: "fold better_image hs (VOther, 3) = (best, p)" by (cases "fold better_image hs (VOther, 3)")
  define x where "x = (if p < 3 then (case convertImageData best of Some img \<Rightarrow> [(''image-data'', HRawImage img)] | None \<Rightarrow> []) else [])"
  have "convertHints hs = Inr (?r @ x)" "convertHints hs' = Inr (?r' @ x)"
    using False b mset_eq_length [OF assms(2)] fold_better_image_perm [OF assms]
    by (auto simp: convertHints_def fold_convert_hint x_def split: option.splits)
  moreover have "distinct (map fst (?r @ x))"
    using kept_hints_distinct [OF assms(1)] by (cases "p < 3"; cases "convertImageData best") (simp_all add: x_def)
  moreover have "mset ?r = mset ?r'" using assms(2) by (simp add: map_filter_def mset_map mset_filter)
  ultimately show ?thesis by auto
qed

text \<open>
  C34: The order in which the program ranges over the hints of a call, which Go leaves open, does not matter: whatever
  the hints, for every order of them \<open>Notify\<close> prepares the same candidate and the same history image, or fails
  with the same error.
\<close>

theorem hint_order_is_irrelevant:
  assumes "distinct (map fst hs)" "mset hs = mset hs'"
  shows "prepareCall c b (n\<lparr>call_hints := hs\<rparr>) = prepareCall c b (n\<lparr>call_hints := hs'\<rparr>)"
proof -
  have req: "request_of b (n\<lparr>call_hints := hs\<rparr>) rs = (request_of b n [])\<lparr>req_Hints := rs\<rparr>" for hs rs
    by (simp add: request_of_def Let_def)
  from convertHints_perm [OF assms] show ?thesis
  proof
    assume "convertHints hs = convertHints hs'"
    then show ?thesis by (cases "convertHints hs'") (simp_all add: prepareCall_def req)
  next
    assume "\<exists>rs rs'. convertHints hs = Inr rs \<and> convertHints hs' = Inr rs' \<and> distinct (map fst rs) \<and> mset rs = mset rs'"
    then obtain rs rs' where r: "convertHints hs = Inr rs" "convertHints hs' = Inr rs'" "distinct (map fst rs)" "mset rs = mset rs'"
      by blast
    show ?thesis using r(1,2) Normalize_perm [OF r(3,4)] by (simp add: prepareCall_def req)
  qed
qed

theorem hint_order_is_irrelevant_witness:
  "prepareCall one_pixel_codec ex_bus (ex_call\<lparr>call_hints := [(''transient'', VBool True), (''icon_data'', VOther)]\<rparr>) =
   prepareCall one_pixel_codec ex_bus (ex_call\<lparr>call_hints := [(''icon_data'', VOther), (''transient'', VBool True)]\<rparr>)"
  by (rule hint_order_is_irrelevant) simp_all

text \<open>
  A legacy \<open>icon_data\<close> hint hides the \<open>image-path\<close> of the same call, in either order: the image is taken from the
  icon data and the path does not become the icon. The precedence that the list of capabilities states, image
  data before image path before icon data, is not the one the code applies.
\<close>

theorem icon_data_hides_image_path:
  assumes "normalizeImage c raw = Some (Inr img)"
    and "hs \<in> {[(''image-path'', VText path), (''icon_data'', VImage raw)], [(''icon_data'', VImage raw), (''image-path'', VText path)]}"
  shows "\<exists>rs. convertHints hs = Inr rs \<and> applyImageHints c rs cand = Some (cand\<lparr>cand_Image := Some img, cand_AppIcon := []\<rparr>)"
  using assms
  by (auto simp: convertHints_def passed_hints_def MaxHints_def convertImageData_def applyImageHints_def Let_def)

definition ex_raw :: RawImage where
  "ex_raw = \<lparr>raw_Width = 1, raw_Height = 1, raw_RowStride = 3, raw_HasAlpha = False, raw_BitsPerSample = 8, raw_Channels = 3,
     raw_Data = ''RGB''\<rparr>"

lemma ex_raw_image:
  "normalizeImage one_pixel_codec ex_raw =
     Some (Inr \<lparr>img_MediaType = ''image/png'', img_Width = 1, img_Height = 1, img_Data = ''PNG''\<rparr>)"
  by (simp add: normalizeImage_def RawImage_Validate_def ex_raw_def Let_def one_pixel_codec_def resample_def pixel_at_def
      byte_at_def scaled_def MaxSourceImageDimension_def MaxSourceImageBytes_def MaxWireImageLongEdge_def MaxWireImageBytes_def)

theorem icon_data_hides_image_path_witness:
  "\<exists>rs. convertHints [(''image-path'', VText ''/a.png''), (''icon_data'', VImage ex_raw)] = Inr rs \<and>
    applyImageHints one_pixel_codec rs zero_Candidate = Some (zero_Candidate\<lparr>cand_Image :=
      Some \<lparr>img_MediaType = ''image/png'', img_Width = 1, img_Height = 1, img_Data = ''PNG''\<rparr>, cand_AppIcon := []\<rparr>)"
  by (rule icon_data_hides_image_path [OF ex_raw_image, of _ "''/a.png''"]) simp

subsection \<open>Emitting the queued signals (server.go, emitLoop)\<close>

text \<open>
  What each turn of the loop does: stop, or take the oldest signal and emit it, with the error of the bus, which is only
  logged. A turn that finds the queue empty takes nothing. The results are the signals handed to the bus and the queue.
\<close>

datatype emitTurn = EmitStop | EmitNext error

fun emitLoop :: "emitTurn list \<Rightarrow> queuedSignal list \<Rightarrow> queuedSignal list \<times> queuedSignal list" where
  "emitLoop [] queue = ([], queue)"
| "emitLoop (EmitStop # turns) queue = ([], queue)"
| "emitLoop (EmitNext err # turns) [] = emitLoop turns []"
| "emitLoop (EmitNext err # turns) (sig # queue) = (let (emitted, rest) = emitLoop turns queue in (sig # emitted, rest))"

text \<open>Signals leave in the order of the queue, each once, whatever errors the bus gives.\<close>

lemma emitLoop_in_order: "emitLoop turns queue = (emitted, rest) \<Longrightarrow> emitted @ rest = queue"
  by (induction turns queue arbitrary: emitted rule: emitLoop.induct) (auto split: prod.splits)

lemma emitLoop_drains: "EmitStop \<notin> set turns \<Longrightarrow> length queue \<le> length turns \<Longrightarrow> emitLoop turns queue = (queue, [])"
  by (induction turns queue rule: emitLoop.induct) auto

end
