(* ===== verification/Frame.thy ===== *)
theory Frame
  imports Protocol
begin

text \<open>
  \<open>protocol/frame.go\<close>: the length-prefixed framing of messages and the strict JSON reader that rejects an
  object with the same key twice. A reader is the bytes it still delivers before its end; a writer is the
  function \<open>Write\<close> of an \<open>io.Writer\<close> on a state of its own, and may accept a part of the bytes only. The
  token stream of \<open>json.Decoder\<close> is a list of tokens; \<open>More\<close> looks at the next one.
\<close>

definition MaxFrameSize :: u32 where "MaxFrameSize = 16 * 2 ^ 20"

subsection \<open>The header\<close>

text \<open>\<open>binary.BigEndian.PutUint32\<close> and \<open>Uint32\<close>.\<close>

definition PutUint32 :: "u32 \<Rightarrow> bytes" where
  "PutUint32 n = map (\<lambda>k. char_of (unat n div 2 ^ k)) [24, 16, 8, 0]"

fun Uint32 :: "bytes \<Rightarrow> u32" where
  "Uint32 (a # b # c # d # _) =
     of_nat (of_char a * 2 ^ 24 + of_char b * 2 ^ 16 + of_char c * 2 ^ 8 + of_char d)"
| "Uint32 _ = 0"

lemma length_PutUint32 [simp]: "length (PutUint32 n) = 4"
  by (simp add: PutUint32_def)

lemma split_byte: "(m :: nat) div 256 * 256 + m mod 256 = m"
  by simp

lemma bytes_of_nat:
  assumes "(n :: nat) < 4294967296"
  shows "n div 16777216 mod 256 * 16777216 + n div 65536 mod 256 * 65536 + n div 256 mod 256 * 256 + n mod 256 = n"
proof -
  have "n div 16777216 < 256" using assms by (simp add: less_mult_imp_div_less)
  then have a: "n div 16777216 mod 256 = n div 16777216" by simp
  have b: "n div 65536 = n div 16777216 * 256 + n div 65536 mod 256"
    using split_byte [of "n div 65536"] div_mult2_eq [of n 65536 256] by simp
  have c: "n div 256 = n div 65536 * 256 + n div 256 mod 256"
    using split_byte [of "n div 256"] div_mult2_eq [of n 256 256] by simp
  have d: "n = n div 256 * 256 + n mod 256" by (rule split_byte [symmetric])
  from a b c d show ?thesis by linarith
qed

lemma Uint32_PutUint32 [simp]: "Uint32 (PutUint32 n @ r) = n"
proof -
  have "Uint32 (PutUint32 n @ r) = of_nat (unat n div 16777216 mod 256 * 16777216 + unat n div 65536 mod 256 * 65536 +
      unat n div 256 mod 256 * 256 + unat n mod 256)"
    by (simp add: PutUint32_def del: of_nat_add of_nat_mult)
  also have "\<dots> = n" unfolding bytes_of_nat [OF unat_u32_less [of n]] by simp
  finally show ?thesis .
qed

lemmas Uint32_PutUint32_Nil [simp] = Uint32_PutUint32 [of n "[]" for n, unfolded append_Nil2]

subsection \<open>Reading and writing (frame.go)\<close>

text \<open>\<open>io.ReadFull\<close>: all of the bytes asked for, or an error that says whether there were any.\<close>

definition ReadFull :: "nat \<Rightarrow> bytes \<Rightarrow> err + bytes \<times> bytes" where
  "ReadFull n r =
     (if n \<le> length r then Inr (take n r, drop n r)
      else if r = [] then Inl (Err ''EOF'') else Inl (Err ''unexpected EOF''))"

definition ReadFrame :: "bytes \<Rightarrow> err + bytes \<times> bytes" where
  "ReadFrame r =
     (case ReadFull 4 r of
        Inl e \<Rightarrow> Inl (Wrap ''protocol: read frame length'' e)
      | Inr (header, r1) \<Rightarrow>
          (let n = Uint32 header in
           if n = 0 \<or> MaxFrameSize < n then Inl (Err ''protocol: invalid frame length'')
           else case ReadFull (unat n) r1 of
                  Inl e \<Rightarrow> Inl (Wrap ''protocol: read frame payload'' e)
                | Inr (payload, r2) \<Rightarrow> Inr (payload, r2)))"

text \<open>
  The result of \<open>Write\<close> is the number of bytes it took and its error. \<open>None\<close> is the panic of slicing past
  the end when a writer claims to have taken more than it was given.
\<close>

type_synonym 's io_writer = "bytes \<Rightarrow> 's \<Rightarrow> nat \<times> error \<times> 's"

function writeAll :: "'s io_writer \<Rightarrow> bytes \<Rightarrow> 's \<Rightarrow> (error \<times> 's) option" where
  "writeAll wr p s =
     (if p = [] then Some (None, s)
      else case wr p s of
        (n, Some e, t) \<Rightarrow> Some (Some e, t)
      | (n, None, t) \<Rightarrow>
          if n = 0 then Some (Some (Err ''short write''), t)
          else if length p < n then None
          else writeAll wr (drop n p) t)"
  by pat_completeness auto
termination
  by (relation "measure (\<lambda>(wr, p, s). length p)") auto

declare writeAll.simps [simp del]

lemma writeAll_Nil [simp]: "writeAll wr [] s = Some (None, s)"
  by (simp add: writeAll.simps)

definition WriteFrame :: "'s io_writer \<Rightarrow> bytes \<Rightarrow> 's \<Rightarrow> (error \<times> 's) option" where
  "WriteFrame wr payload s =
     (if payload = [] \<or> unat MaxFrameSize < length payload
      then Some (Some (Err ''protocol: invalid frame length''), s)
      else case writeAll wr (PutUint32 (of_nat (length payload))) s of
        None \<Rightarrow> None
      | Some (Some e, t) \<Rightarrow> Some (Some (Wrap ''protocol: write frame length'' e), t)
      | Some (None, t) \<Rightarrow>
          (case writeAll wr payload t of
             None \<Rightarrow> None
           | Some (Some e, u) \<Rightarrow> Some (Some (Wrap ''protocol: write frame payload'' e), u)
           | Some (None, u) \<Rightarrow> Some (None, u)))"

text \<open>
  What \<open>io.Writer\<close> asks of a writer: it takes a prefix of the bytes and says how long that prefix is.
  \<open>sent\<close> reads off what has gone out.
\<close>

definition honest :: "'s io_writer \<Rightarrow> ('s \<Rightarrow> bytes) \<Rightarrow> bool" where
  "honest wr sent \<longleftrightarrow> (\<forall>p s n e t. wr p s = (n, e, t) \<longrightarrow> n \<le> length p \<and> sent t = sent s @ take n p)"

lemma honestD:
  "honest wr sent \<Longrightarrow> wr p s = (n, e, t) \<Longrightarrow> n \<le> length p"
  "honest wr sent \<Longrightarrow> wr p s = (n, e, t) \<Longrightarrow> sent t = sent s @ take n p"
  by (auto simp: honest_def)

lemma writeAll_honest:
  assumes "honest wr sent"
  shows "\<exists>e t k. writeAll wr p s = Some (e, t) \<and> sent t = sent s @ take k p \<and> (e = None \<longrightarrow> length p \<le> k)"
proof (induction "length p" arbitrary: p s rule: less_induct)
  case less
  obtain n e t where w: "wr p s = (n, e, t)" by (cases "wr p s")
  note h = honestD [OF assms w]
  show ?case
  proof (cases "p \<noteq> [] \<and> e = None \<and> n \<noteq> 0")
    case True
    then obtain e' u k where r: "writeAll wr (drop n p) t = Some (e', u)" "sent u = sent t @ take k (drop n p)"
      "e' = None \<longrightarrow> length (drop n p) \<le> k"
      using less.hyps [of "drop n p" t] by auto
    have "take n p @ take k (drop n p) = take (n + k) p" by (simp add: take_add)
    then show ?thesis
      using True w h r by (intro exI [of _ e'] exI [of _ u] exI [of _ "n + k"]) (auto simp: writeAll.simps [of wr p s])
  next
    case False
    then show ?thesis
      using w h by (cases "p = []"; cases e) (auto simp: writeAll.simps [of wr p s])
  qed
qed

text \<open>A writer that always takes something and reports no error is given everything.\<close>

definition steady :: "'s io_writer \<Rightarrow> bool" where
  "steady wr \<longleftrightarrow> (\<forall>p s n e t. p \<noteq> [] \<longrightarrow> wr p s = (n, e, t) \<longrightarrow> e = None \<and> n \<noteq> 0)"

lemma writeAll_steady:
  assumes "honest wr sent" "steady wr"
  shows "\<exists>t. writeAll wr p s = Some (None, t)"
proof (induction "length p" arbitrary: p s rule: less_induct)
  case less
  obtain n e t where w: "wr p s = (n, e, t)" by (cases "wr p s")
  show ?case
  proof (cases "p = []")
    case False
    then have "e = None \<and> n \<noteq> 0" "n \<le> length p"
      using assms(2) w honestD(1) [OF assms(1) w] unfolding steady_def by blast+
    with less.hyps [of "drop n p" t] False w show ?thesis by (simp add: writeAll.simps [of wr p s])
  qed simp
qed

subsection \<open>Round trips\<close>

text \<open>The bytes of one frame.\<close>

definition frame_bytes :: "bytes \<Rightarrow> bytes" where
  "frame_bytes payload = PutUint32 (of_nat (length payload)) @ payload"

definition frame_sized :: "bytes \<Rightarrow> bool" where
  "frame_sized payload \<longleftrightarrow> payload \<noteq> [] \<and> length payload \<le> unat MaxFrameSize"

lemma unat_MaxFrameSize: "unat MaxFrameSize = 16777216"
  by (simp add: MaxFrameSize_def)

lemma frame_sizedD:
  assumes "frame_sized payload"
  shows "unat (of_nat (length payload) :: u32) = length payload" "(of_nat (length payload) :: u32) \<noteq> 0"
    "(of_nat (length payload) :: u32) \<le> MaxFrameSize"
proof -
  have l: "length payload < 4294967296" "length payload \<noteq> 0" using assms by (auto simp: frame_sized_def unat_MaxFrameSize)
  then show u: "unat (of_nat (length payload) :: u32) = length payload" by (simp add: unat_of_nat)
  with l show "(of_nat (length payload) :: u32) \<noteq> 0" by auto
  show "(of_nat (length payload) :: u32) \<le> MaxFrameSize"
    using assms u by (simp add: word_le_nat_alt frame_sized_def)
qed

lemma ReadFrame_frame_bytes:
  assumes "frame_sized payload"
  shows "ReadFrame (frame_bytes payload @ rest) = Inr (payload, rest)"
  using frame_sizedD [OF assms] by (simp add: ReadFrame_def ReadFull_def frame_bytes_def Let_def not_less)

lemma ReadFrame_prefix:
  assumes "frame_sized payload" "k < length (frame_bytes payload)"
  shows "\<exists>e. ReadFrame (take k (frame_bytes payload)) = Inl e"
proof (cases "k < 4")
  case True
  then show ?thesis by (auto simp: ReadFrame_def ReadFull_def frame_bytes_def)
next
  case False
  have t: "take k (frame_bytes payload) = PutUint32 (of_nat (length payload)) @ take (k - 4) payload"
    using False by (simp add: frame_bytes_def)
  have "k - 4 < length payload" using assms(2) False by (simp add: frame_bytes_def)
  then show ?thesis
    using frame_sizedD [OF assms(1)] unfolding t by (auto simp: ReadFrame_def ReadFull_def Let_def not_less)
qed

lemma WriteFrame_honest:
  assumes h: "honest wr sent" and f: "frame_sized payload"
  shows "\<exists>e t k. WriteFrame wr payload s = Some (e, t) \<and> sent t = sent s @ take k (frame_bytes payload) \<and>
    (e = None \<longrightarrow> length (frame_bytes payload) \<le> k)"
proof -
  let ?h = "PutUint32 (of_nat (length payload))"
  have sz: "payload \<noteq> []" "\<not> unat MaxFrameSize < length payload" using f by (auto simp: frame_sized_def)
  obtain e t k where 1: "writeAll wr ?h s = Some (e, t)" "sent t = sent s @ take k ?h" "e = None \<longrightarrow> 4 \<le> k"
    using writeAll_honest [OF h, of ?h s] by auto
  show ?thesis
  proof (cases e)
    case (Some x)
    then have "WriteFrame wr payload s = Some (Some (Wrap ''protocol: write frame length'' x), t)"
      using 1 sz by (simp add: WriteFrame_def)
    moreover have "sent t = sent s @ take (min k 4) (frame_bytes payload)"
      using 1 by (simp add: frame_bytes_def min_def)
    ultimately show ?thesis by blast
  next
    case None
    then have t: "sent t = sent s @ ?h" using 1 by simp
    obtain e' u j where 2: "writeAll wr payload t = Some (e', u)" "sent u = sent t @ take j payload"
      "e' = None \<longrightarrow> length payload \<le> j"
      using writeAll_honest [OF h, of payload t] by auto
    have "\<exists>e. WriteFrame wr payload s = Some (e, u) \<and> (e = None \<longrightarrow> e' = None)"
      using 1(1) 2(1) None sz by (cases e') (simp_all add: WriteFrame_def)
    moreover have "sent u = sent s @ take (4 + j) (frame_bytes payload)" using 2 t by (simp add: frame_bytes_def)
    ultimately show ?thesis using 2(3) by (fastforce simp: frame_bytes_def)
  qed
qed

lemma WriteFrame_sized: "WriteFrame wr payload s = Some (None, t) \<Longrightarrow> frame_sized payload"
  by (auto simp: WriteFrame_def frame_sized_def not_less split: if_splits)

text \<open>Frames written one after the other, and as many frames read.\<close>

fun WriteFrames :: "'s io_writer \<Rightarrow> bytes list \<Rightarrow> 's \<Rightarrow> (error \<times> 's) option" where
  "WriteFrames wr [] s = Some (None, s)"
| "WriteFrames wr (p # ps) s =
     (case WriteFrame wr p s of Some (None, t) \<Rightarrow> WriteFrames wr ps t | r \<Rightarrow> r)"

fun ReadFrames :: "nat \<Rightarrow> bytes \<Rightarrow> err + bytes list \<times> bytes" where
  "ReadFrames 0 r = Inr ([], r)"
| "ReadFrames (Suc n) r =
     (case ReadFrame r of
        Inl e \<Rightarrow> Inl e
      | Inr (p, r1) \<Rightarrow> (case ReadFrames n r1 of Inl e \<Rightarrow> Inl e | Inr (ps, r2) \<Rightarrow> Inr (p # ps, r2)))"

lemma ReadFrames_concat:
  assumes "\<forall>p\<in>set ps. frame_sized p"
  shows "ReadFrames (length ps) (concat (map frame_bytes ps) @ rest) = Inr (ps, rest)"
  using assms by (induction ps) (simp_all add: ReadFrame_frame_bytes)

lemma WriteFrames_honest:
  assumes h: "honest wr sent"
  shows "\<exists>e t w. WriteFrames wr ps s = Some (e, t) \<and> sent t = sent s @ w \<and>
    (e = None \<longrightarrow> (\<forall>p\<in>set ps. frame_sized p) \<and> w = concat (map frame_bytes ps))"
proof (induction ps arbitrary: s)
  case Nil
  then show ?case by simp
next
  case (Cons p ps)
  show ?case
  proof (cases "frame_sized p")
    case False
    then have "WriteFrame wr p s = Some (Some (Err ''protocol: invalid frame length''), s)"
      by (auto simp: WriteFrame_def frame_sized_def)
    then show ?thesis by simp
  next
    case True
    obtain e t k where 1: "WriteFrame wr p s = Some (e, t)" "sent t = sent s @ take k (frame_bytes p)"
      "e = None \<longrightarrow> length (frame_bytes p) \<le> k"
      using WriteFrame_honest [OF h True] by blast
    show ?thesis
    proof (cases e)
      case None
      with 1 True Cons.IH [of t] show ?thesis by fastforce
    qed (use 1 in auto)
  qed
qed

lemma WriteFrames_steady:
  assumes "honest wr sent" "steady wr" "list_all frame_sized ps"
  shows "\<exists>t. WriteFrames wr ps s = Some (None, t)"
  using assms(3)
proof (induction ps arbitrary: s)
  case (Cons p ps)
  then have "p \<noteq> []" "\<not> unat MaxFrameSize < length p" by (auto simp: frame_sized_def)
  moreover obtain t u where "writeAll wr (PutUint32 (of_nat (length p))) s = Some (None, t)" "writeAll wr p t = Some (None, u)"
    using writeAll_steady [OF assms(1,2)] by blast
  ultimately have "WriteFrame wr p s = Some (None, u)" by (simp add: WriteFrame_def)
  with Cons show ?case by simp
qed simp

text \<open>
  C38: Whatever a sequence of \<open>WriteFrame\<close> calls that all succeed has sent over an honest writer, however small
  the parts it takes, as many \<open>ReadFrame\<close> calls on the other side return exactly the same payloads, in their
  order, and leave what follows them unread. \<open>WriteFrame\<close> always returns and never panics, and over a writer that
  keeps taking bytes the calls succeed exactly if each payload has between one byte and 16 MiB.
\<close>

theorem frames_round_trip:
  assumes "honest wr sent"
  shows "\<exists>e t w. WriteFrames wr ps s = Some (e, t) \<and> sent t = sent s @ w \<and>
    (e \<noteq> None \<or> (\<forall>rest. ReadFrames (length ps) (w @ rest) = Inr (ps, rest))) \<and>
    (steady wr \<longrightarrow> (e = None \<longleftrightarrow> list_all frame_sized ps))"
proof -
  obtain e t w where w: "WriteFrames wr ps s = Some (e, t)" "sent t = sent s @ w"
    "e = None \<longrightarrow> (\<forall>p\<in>set ps. frame_sized p) \<and> w = concat (map frame_bytes ps)"
    using WriteFrames_honest [OF assms] by blast
  moreover have "steady wr \<Longrightarrow> e = None \<longleftrightarrow> list_all frame_sized ps"
    using w WriteFrames_steady [OF assms, of ps s] by (auto simp: list_all_iff)
  ultimately show ?thesis using ReadFrames_concat by (cases e) auto
qed

text \<open>A writer that takes at most three bytes at a time and keeps what it was given.\<close>

definition slow_writer :: "bytes io_writer" where
  "slow_writer p s = (min 3 (length p), None, s @ take 3 p)"

lemma slow_writer_honest: "honest slow_writer id"
  by (auto simp: honest_def slow_writer_def min_def)

lemma slow_writer_steady: "steady slow_writer"
  by (auto simp: steady_def slow_writer_def)

lemma slow_writer_sends:
  "WriteFrames slow_writer [''hello'', ''ok''] [] =
     Some (None, [CHR 0x00, CHR 0x00, CHR 0x00, CHR 0x05] @ ''hello'' @ [CHR 0x00, CHR 0x00, CHR 0x00, CHR 0x02] @ ''ok'')"
  by (simp add: WriteFrame_def unat_MaxFrameSize writeAll.simps slow_writer_def PutUint32_def char_of_def bit_0)

theorem frames_round_trip_witness:
  "\<exists>w. WriteFrames slow_writer [''hello'', ''ok''] [] = Some (None, w) \<and>
     ReadFrames 2 (w @ ''next'') = Inr ([''hello'', ''ok''], ''next'')"
  using frames_round_trip [OF slow_writer_honest, of "[''hello'', ''ok'']" "[]"] slow_writer_sends
  by (auto simp: numeral_2_eq_2)

subsection \<open>Strict JSON (frame.go)\<close>

text \<open>
  The tokens that \<open>json.Decoder.Token\<close> returns, in the order of the input; an input that is not JSON has an
  error at the place where it stops being JSON. The end of the list is \<open>io.EOF\<close>.
\<close>

datatype token = TDelim char | TString string | TScalar

type_synonym json_decoder = "(err + token) list"

fun Token :: "json_decoder \<Rightarrow> err + token \<times> json_decoder" where
  "Token [] = Inl (Err ''EOF'')"
| "Token (Inl e # r) = Inl e"
| "Token (Inr t # r) = Inr (t, r)"

definition More :: "json_decoder \<Rightarrow> bool" where
  "More d \<longleftrightarrow> d \<noteq> [] \<and> hd d \<noteq> Inr (TDelim (CHR '']'')) \<and> hd d \<noteq> Inr (TDelim (CHR ''}''))"

abbreviation duplicate_key :: err where
  "duplicate_key \<equiv> Err ''duplicate object key''"

text \<open>
  The recursive scan, with a bound on its depth and length: \<open>None\<close> is running out of it. The list \<open>seen\<close> is
  the key set of \<open>scanJSONValue\<close>.
\<close>

fun scan_value :: "nat \<Rightarrow> json_decoder \<Rightarrow> (err + json_decoder) option"
  and scan_object :: "nat \<Rightarrow> string list \<Rightarrow> json_decoder \<Rightarrow> (err + json_decoder) option"
  and scan_array :: "nat \<Rightarrow> json_decoder \<Rightarrow> (err + json_decoder) option" where
  "scan_value 0 d = None"
| "scan_value (Suc n) d =
     (case Token d of
        Inl e \<Rightarrow> Some (Inl e)
      | Inr (TDelim c, r) \<Rightarrow>
          if c = CHR ''{'' then scan_object n [] r
          else if c = CHR ''['' then scan_array n r
          else Some (Inl (Err ''unexpected delimiter''))
      | Inr (_, r) \<Rightarrow> Some (Inr r))"
| "scan_object 0 seen d = None"
| "scan_object (Suc n) seen d =
     (if \<not> More d then case Token d of Inl e \<Rightarrow> Some (Inl e) | Inr (_, r) \<Rightarrow> Some (Inr r)
      else case Token d of
        Inl e \<Rightarrow> Some (Inl e)
      | Inr (TString key, r) \<Rightarrow>
          if key \<in> set seen then Some (Inl duplicate_key)
          else (case scan_value n r of Some (Inr r1) \<Rightarrow> scan_object n (key # seen) r1 | x \<Rightarrow> x)
      | Inr (_, r) \<Rightarrow> Some (Inl (Err ''object key is not a string'')))"
| "scan_array 0 d = None"
| "scan_array (Suc n) d =
     (if \<not> More d then case Token d of Inl e \<Rightarrow> Some (Inl e) | Inr (_, r) \<Rightarrow> Some (Inr r)
      else case scan_value n d of Some (Inr r) \<Rightarrow> scan_array n r | x \<Rightarrow> x)"

definition scanJSONValue :: "json_decoder \<Rightarrow> (err + json_decoder) option" where
  "scanJSONValue d = scan_value (2 * length d + 1) d"

definition requireEOF :: "json_decoder \<Rightarrow> error" where
  "requireEOF d =
     (case Token d of
        Inr _ \<Rightarrow> Some (Err ''protocol: trailing JSON value'')
      | Inl e \<Rightarrow> if e = Err ''EOF'' then None else Some (Wrap ''protocol: trailing JSON'' e))"

definition rejectDuplicateKeys :: "json_decoder \<Rightarrow> error option" where
  "rejectDuplicateKeys d =
     (case scanJSONValue d of
        None \<Rightarrow> None
      | Some (Inl e) \<Rightarrow> Some (Some (Wrap ''protocol: scan JSON'' e))
      | Some (Inr r) \<Rightarrow> Some (requireEOF r))"

text \<open>
  \<open>tokens\<close> is the token stream of the data, and \<open>decode\<close> is \<open>Decode\<close> of \<open>encoding/json\<close> into the destination
  with \<open>DisallowUnknownFields\<close>: the value and the tokens after it, or its error.
\<close>

definition DecodeStrict :: "(bytes \<Rightarrow> json_decoder) \<Rightarrow> (json_decoder \<Rightarrow> err + 'a \<times> json_decoder) \<Rightarrow> bytes \<Rightarrow> (err + 'a) option" where
  "DecodeStrict tokens decode data =
     (if \<not> utf8_ValidString data then Some (Inl (Err ''protocol: JSON is not valid UTF-8''))
      else case rejectDuplicateKeys (tokens data) of
        None \<Rightarrow> None
      | Some (Some e) \<Rightarrow> Some (Inl e)
      | Some None \<Rightarrow>
          (case decode (tokens data) of
             Inl e \<Rightarrow> Some (Inl (Wrap ''protocol: decode JSON'' e))
           | Inr (v, r) \<Rightarrow> (case requireEOF r of Some e \<Rightarrow> Some (Inl e) | None \<Rightarrow> Some (Inr v))))"

text \<open>The bound is enough: every scan ends, and behind what it has read.\<close>

lemma Token_length: "Token d = Inr (t, r) \<Longrightarrow> length d = Suc (length r)"
  by (cases d rule: Token.cases) auto

definition ends :: "json_decoder \<Rightarrow> (err + json_decoder) option \<Rightarrow> bool" where
  "ends d x \<longleftrightarrow> (case x of None \<Rightarrow> False | Some (Inl e) \<Rightarrow> True | Some (Inr r) \<Rightarrow> length r < length d)"

lemma ends_simps [simp]: "ends d (Some (Inl e))" "ends d (Some (Inr r)) = (length r < length d)" "\<not> ends d None"
  by (simp_all add: ends_def)

lemma ends_Some: "ends d x \<Longrightarrow> \<exists>y. x = Some y"
  by (auto simp: ends_def split: option.splits)

lemma ends_mono: "ends r x \<Longrightarrow> length r \<le> length d \<Longrightarrow> ends d x"
  by (auto simp: ends_def split: option.splits sum.splits)

lemma ends_bind:
  assumes "ends r x" "length r \<le> length d" "\<And>r1. x = Some (Inr r1) \<Longrightarrow> length r1 < length r \<Longrightarrow> ends d (f r1)"
  shows "ends d (case x of Some (Inr r1) \<Rightarrow> f r1 | y \<Rightarrow> y)"
  using assms by (auto simp: ends_def split: option.splits sum.splits)

lemma scan_ends:
  "(2 * length d + 1 \<le> n \<longrightarrow> ends d (scan_value n d)) \<and> (2 * length d + 1 \<le> n \<longrightarrow> ends d (scan_object n seen d)) \<and>
   (2 * length d + 2 \<le> n \<longrightarrow> ends d (scan_array n d))"
proof (induction n arbitrary: d seen)
  case 0
  then show ?case by simp
next
  case (Suc n)
  have v: "ends d (scan_value n d)" "ends d (scan_object n seen d)" if "2 * length d + 1 \<le> n" for d seen
    using Suc.IH [of d seen] that by auto
  have a: "ends d (scan_array n d)" if "2 * length d + 2 \<le> n" for d
    using Suc.IH [of d seen] that by auto
  have close: "ends d (case Token d of Inl e \<Rightarrow> Some (Inl e) | Inr (x, r) \<Rightarrow> Some (Inr r))"
    by (auto dest: Token_length split: sum.splits)
  have "ends d (scan_value (Suc n) d)" if "2 * length d + 1 \<le> Suc n"
    using that by (auto dest!: Token_length intro!: ends_mono [OF v(2)] ends_mono [OF a] split: sum.splits token.splits)
  moreover have "ends d (scan_object (Suc n) seen d)" if "2 * length d + 1 \<le> Suc n"
    using that close
    by (auto dest!: Token_length intro!: ends_bind [OF v(1)] ends_mono [OF v(2)] split: sum.splits token.splits)
  moreover have "ends d (scan_array (Suc n) d)" if "2 * length d + 2 \<le> Suc n"
    using that close by (auto intro!: ends_bind [OF v(1)] ends_mono [OF a])
  ultimately show ?case by blast
qed

lemma rejectDuplicateKeys_ends: "\<exists>e. rejectDuplicateKeys d = Some e"
  using scan_ends [of d "2 * length d + 1" "[]"]
  by (auto simp: rejectDuplicateKeys_def scanJSONValue_def dest: ends_Some split: option.splits sum.splits)

subsection \<open>What the scan decides\<close>

text \<open>A JSON value, the tokens of its text, and whether no object in it has the same key twice.\<close>

datatype json = JObject "(string \<times> json) list" | JArray "json list" | JString string | JScalar

fun tokens_of :: "json \<Rightarrow> token list" where
  "tokens_of (JObject kvs) = TDelim (CHR ''{'') # concat (map (\<lambda>(k, v). TString k # tokens_of v) kvs) @ [TDelim (CHR ''}'')]"
| "tokens_of (JArray vs) = TDelim (CHR ''['') # concat (map tokens_of vs) @ [TDelim (CHR '']'')]"
| "tokens_of (JString s) = [TString s]"
| "tokens_of JScalar = [TScalar]"

fun unique_keys :: "json \<Rightarrow> bool" where
  "unique_keys (JObject kvs) \<longleftrightarrow> distinct (map fst kvs) \<and> (\<forall>(k, v)\<in>set kvs. unique_keys v)"
| "unique_keys (JArray vs) \<longleftrightarrow> (\<forall>v\<in>set vs. unique_keys v)"
| "unique_keys (JString s) \<longleftrightarrow> True"
| "unique_keys JScalar \<longleftrightarrow> True"

definition scans :: "json \<Rightarrow> bool" where
  "scans v \<longleftrightarrow> (\<forall>n rest. 2 * length (map Inr (tokens_of v) @ rest) + 1 \<le> n \<longrightarrow>
     scan_value n (map Inr (tokens_of v) @ rest) = Some (if unique_keys v then Inr rest else Inl duplicate_key))"

lemma tokens_start: "\<exists>t ts. tokens_of v = t # ts \<and> t \<noteq> TDelim (CHR '']'') \<and> t \<noteq> TDelim (CHR ''}'')"
  by (cases v) simp_all

abbreviation member_tokens :: "string \<times> json \<Rightarrow> token list" where
  "member_tokens kv \<equiv> TString (fst kv) # tokens_of (snd kv)"

lemma scan_object_members:
  assumes "\<forall>kv\<in>set kvs. scans (snd kv)"
    "2 * length (map Inr (concat (map member_tokens kvs)) @ Inr (TDelim (CHR ''}'')) # rest) + 1 \<le> n"
  shows "scan_object n seen (map Inr (concat (map member_tokens kvs)) @ Inr (TDelim (CHR ''}'')) # rest) =
    Some (if distinct (map fst kvs) \<and> fst ` set kvs \<inter> set seen = {} \<and> (\<forall>kv\<in>set kvs. unique_keys (snd kv))
          then Inr rest else Inl duplicate_key)"
  using assms
proof (induction kvs arbitrary: n seen)
  case Nil
  then show ?case by (cases n) (simp_all add: More_def)
next
  case (Cons kv kvs)
  obtain k where n: "n = Suc k" using Cons.prems(2) by (cases n) auto
  let ?r = "map Inr (concat (map member_tokens kvs)) @ Inr (TDelim (CHR ''}'')) # rest"
  have "scan_value k (map Inr (tokens_of (snd kv)) @ ?r) = Some (if unique_keys (snd kv) then Inr ?r else Inl duplicate_key)"
    using Cons.prems n by (simp add: scans_def)
  moreover have "scan_object k (fst kv # seen) ?r = Some (if distinct (map fst kvs) \<and> fst ` set kvs \<inter> set (fst kv # seen) = {} \<and>
      (\<forall>kv\<in>set kvs. unique_keys (snd kv)) then Inr rest else Inl duplicate_key)"
    using Cons.prems n by (intro Cons.IH) auto
  ultimately show ?case using n by (auto simp: More_def)
qed

lemma scan_array_elements:
  assumes "\<forall>v\<in>set vs. scans v"
    "2 * length (map Inr (concat (map tokens_of vs)) @ Inr (TDelim (CHR '']'')) # rest) + 2 \<le> n"
  shows "scan_array n (map Inr (concat (map tokens_of vs)) @ Inr (TDelim (CHR '']'')) # rest) =
    Some (if \<forall>v\<in>set vs. unique_keys v then Inr rest else Inl duplicate_key)"
  using assms
proof (induction vs arbitrary: n)
  case Nil
  then show ?case by (cases n) (simp_all add: More_def)
next
  case (Cons v vs)
  obtain k where n: "n = Suc k" using Cons.prems(2) by (cases n) auto
  let ?r = "map Inr (concat (map tokens_of vs)) @ Inr (TDelim (CHR '']'')) # rest"
  obtain t ts where t: "tokens_of v = t # ts" "t \<noteq> TDelim (CHR '']'')" "t \<noteq> TDelim (CHR ''}'')"
    using tokens_start by blast
  have "scan_value k (map Inr (tokens_of v) @ ?r) = Some (if unique_keys v then Inr ?r else Inl duplicate_key)"
    using Cons.prems n by (simp add: scans_def)
  moreover have "scan_array k ?r = Some (if \<forall>v\<in>set vs. unique_keys v then Inr rest else Inl duplicate_key)"
    using Cons.prems n t(1) by (intro Cons.IH) auto
  moreover have "More (map Inr (tokens_of v) @ ?r)" using t by (simp add: More_def)
  ultimately show ?case using n by auto
qed

lemma scan_value_scalar:
  "0 < n \<Longrightarrow> scan_value n (Inr (TString x) # r) = Some (Inr r)" "0 < n \<Longrightarrow> scan_value n (Inr TScalar # r) = Some (Inr r)"
  by (cases n; simp)+

lemma all_scan: "scans v"
proof (induction v)
  case (JObject kvs)
  have ih: "\<forall>kv\<in>set kvs. scans (snd kv)" using JObject by (auto simp: snds.simps)
  have m: "concat (map (\<lambda>(k, v). TString k # tokens_of v) kvs) = concat (map member_tokens kvs)"
    by (simp add: case_prod_unfold)
  show ?case unfolding scans_def
  proof (intro allI impI)
    fix n :: nat and rest :: json_decoder
    assume n: "2 * length (map Inr (tokens_of (JObject kvs)) @ rest) + 1 \<le> n"
    then obtain k where k: "n = Suc k" by (cases n) auto
    show "scan_value n (map Inr (tokens_of (JObject kvs)) @ rest) =
        Some (if unique_keys (JObject kvs) then Inr rest else Inl duplicate_key)"
      using scan_object_members [OF ih, of rest k "[]"] n k by (simp add: m case_prod_unfold)
  qed
next
  case (JArray vs)
  show ?case unfolding scans_def
  proof (intro allI impI)
    fix n :: nat and rest :: json_decoder
    assume n: "2 * length (map Inr (tokens_of (JArray vs)) @ rest) + 1 \<le> n"
    then obtain k where k: "n = Suc k" by (cases n) auto
    show "scan_value n (map Inr (tokens_of (JArray vs)) @ rest) =
        Some (if unique_keys (JArray vs) then Inr rest else Inl duplicate_key)"
      using scan_array_elements [of vs rest k] JArray n k by simp
  qed
qed (auto simp: scans_def scan_value_scalar)

text \<open>
  C39: The strict reader accepts exactly the JSON texts without ambiguity: for every JSON value, of any depth, the
  scan ends and \<open>rejectDuplicateKeys\<close> returns no error if and only if no object in it, at any depth, has the
  same key twice; a text with a second value after the first is refused too.
\<close>

theorem duplicate_keys_are_rejected:
  "(rejectDuplicateKeys (map Inr (tokens_of v)) = Some None \<longleftrightarrow> unique_keys v) \<and>
   (\<exists>e. rejectDuplicateKeys (map Inr (tokens_of v @ tokens_of w)) = Some (Some e))"
proof
  have "scanJSONValue (map Inr (tokens_of v) @ rest) = Some (if unique_keys v then Inr rest else Inl duplicate_key)" for rest
    unfolding scanJSONValue_def using all_scan [of v, unfolded scans_def] by blast
  note s = this this [of "[]", unfolded append_Nil2]
  show "rejectDuplicateKeys (map Inr (tokens_of v)) = Some None \<longleftrightarrow> unique_keys v"
    by (simp add: rejectDuplicateKeys_def s requireEOF_def)
  obtain t ts where "tokens_of w = t # ts" using tokens_start by blast
  then show "\<exists>e. rejectDuplicateKeys (map Inr (tokens_of v @ tokens_of w)) = Some (Some e)"
    by (simp add: rejectDuplicateKeys_def s requireEOF_def)
qed

end
