(* ===== verification/Wire.thy ===== *)
theory Wire
  imports Json Frame
begin

text \<open>
  The frames the presenter socket carries (\<open>internal/presenter/server.go\<close>, \<open>connection.go\<close> and the JSON tags of
  \<open>protocol/types.go\<close>): how \<open>json.Marshal\<close> writes the protocol types, the envelope around them, and how a
  snapshot is made to fit one frame by leaving out its oldest images.

  The text of a timestamp depends on the time zone of the process, so \<open>time.Time.MarshalJSON\<close> is the parameter
  \<open>tj\<close>; \<open>None\<close> is an error of \<open>json.Marshal\<close>. An empty slice that the program has built by appending to nil is
  nil, which is written as \<open>null\<close>.
\<close>

subsection \<open>JSON of the protocol types (types.go)\<close>

definition dec_field :: "string \<Rightarrow> 'a::len word \<Rightarrow> string" where
  "dec_field k w = json_field k (dec (uint w))"

definition dec_field_omit :: "string \<Rightarrow> 'a::len word \<Rightarrow> string list" where
  "dec_field_omit k w = (if w = 0 then [] else [dec_field k w])"

definition json_nil_array :: "string list \<Rightarrow> string" where
  "json_nil_array xs = (if xs = [] then ''null'' else json_array xs)"

definition json_bytes :: "bytes \<Rightarrow> string" where
  "json_bytes d = (if d = [] then ''null'' else quote # base64 d @ [quote])"

definition marshal_Action :: "Action \<Rightarrow> string" where
  "marshal_Action a = json_object (string_field ''key'' (act_Key a) @ string_field ''label'' (act_Label a))"

definition marshal_Process :: "Process \<Rightarrow> string" where
  "marshal_Process p = json_object [dec_field ''pid'' (proc_PID p), dec_field ''start_time'' (proc_StartTime p)]"

definition marshal_Image :: "Image \<Rightarrow> string" where
  "marshal_Image i = json_object (string_field ''media_type'' (img_MediaType i) @
     [dec_field ''width'' (img_Width i), dec_field ''height'' (img_Height i), json_field ''data'' (json_bytes (img_Data i))])"

definition image_field :: "Image option \<Rightarrow> string list" where
  "image_field i = (case i of None \<Rightarrow> [] | Some img \<Rightarrow> [json_field ''image'' (marshal_Image img)])"

definition marshal_Lifetime :: "Lifetime \<Rightarrow> string" where
  "marshal_Lifetime l = json_object [dec_field ''id'' (l_ID l), dec_field ''duration_ms'' (l_DurationMS l),
     dec_field ''remaining_ms'' (l_RemainingMS l), json_field ''running'' (json_bool (l_Running l))]"

definition notification_head :: "Notification \<Rightarrow> string \<Rightarrow> string list" where
  "notification_head n ts =
     dec_field ''id'' (n_ID n) # string_field_omit ''app_name'' (n_AppName n) @ string_field_omit ''app_icon'' (n_AppIcon n) @
     string_field_omit ''desktop_entry'' (n_DesktopEntry n) @ string_field ''summary'' (n_Summary n) @
     string_field_omit ''body'' (n_Body n) @
     (if n_Actions n = [] then [] else [json_field ''actions'' (json_array (map marshal_Action (n_Actions n)))]) @
     [dec_field ''urgency'' (n_Urgency n)] @ string_field_omit ''category'' (n_Category n) @
     [json_field ''timestamp'' ts, json_field ''expire_timeout_ms'' (dec_int (sint (n_ExpireTimeoutMS n)))]"

definition notification_tail :: "Notification \<Rightarrow> string list" where
  "notification_tail n =
     (case n_Value n of None \<Rightarrow> [] | Some v \<Rightarrow> [json_field ''value'' (dec_int (sint v))]) @
     (if n_InlineReply n then [json_field ''inline_reply'' (json_bool True)] else []) @
     string_field_omit ''reply_placeholder'' (n_ReplyPlaceholder n) @
     (if n_SenderLineage n = [] then []
      else [json_field ''sender_lineage'' (json_array (map marshal_Process (n_SenderLineage n)))])"

type_synonym time_encoder = "time \<Rightarrow> string option"

definition marshal_Notification :: "time_encoder \<Rightarrow> Notification \<Rightarrow> string option" where
  "marshal_Notification tj n =
     map_option (\<lambda>ts. json_object (notification_head n ts @ image_field (n_Image n) @ notification_tail n)) (tj (n_Timestamp n))"

definition history_head :: "HistoryEntry \<Rightarrow> string \<Rightarrow> string list" where
  "history_head e ts =
     dec_field ''id'' (h_ID e) # json_field ''seen'' (json_bool (h_Seen e)) #
     string_field_omit ''app_name'' (h_AppName e) @ string_field_omit ''app_icon'' (h_AppIcon e) @
     string_field_omit ''desktop_entry'' (h_DesktopEntry e) @ string_field ''summary'' (h_Summary e) @
     string_field_omit ''body'' (h_Body e) @ [dec_field ''urgency'' (h_Urgency e)] @
     string_field_omit ''category'' (h_Category e) @ [json_field ''timestamp'' ts]"

definition marshal_HistoryEntry :: "time_encoder \<Rightarrow> HistoryEntry \<Rightarrow> string option" where
  "marshal_HistoryEntry tj e =
     map_option (\<lambda>ts. json_object (history_head e ts @ image_field (h_Image e))) (tj (h_Timestamp e))"

definition marshal_Snapshot :: "time_encoder \<Rightarrow> Snapshot \<Rightarrow> string option" where
  "marshal_Snapshot tj s =
     do {
       active \<leftarrow> those (map (marshal_Notification tj) (snap_Active s));
       history \<leftarrow> those (map (marshal_HistoryEntry tj) (snap_History s));
       Some (json_object [dec_field ''sequence'' (snap_Sequence s), json_field ''active'' (json_nil_array active),
         json_field ''lifetimes'' (json_array (map marshal_Lifetime (snap_Lifetimes s))),
         json_field ''history'' (json_nil_array history)])
     }"

fun delta_kind_text :: "DeltaKind \<Rightarrow> string" where
  "delta_kind_text DeltaAdded = ''added''"
| "delta_kind_text DeltaReplaced = ''replaced''"
| "delta_kind_text DeltaClosed = ''closed''"
| "delta_kind_text DeltaHistoryAdded = ''history-added''"
| "delta_kind_text DeltaHistoryRemoved = ''history-removed''"
| "delta_kind_text DeltaHistorySeen = ''history-seen''"
| "delta_kind_text DeltaHistoryCleared = ''history-cleared''"
| "delta_kind_text (OtherDelta s) = s"

definition optional_field :: "string \<Rightarrow> ('a \<Rightarrow> string option) \<Rightarrow> 'a option \<Rightarrow> string list option" where
  "optional_field k f x = (case x of None \<Rightarrow> Some [] | Some v \<Rightarrow> map_option (\<lambda>j. [json_field k j]) (f v))"

definition marshal_Delta :: "time_encoder \<Rightarrow> Delta \<Rightarrow> string option" where
  "marshal_Delta tj d =
     do {
       notification \<leftarrow> optional_field ''notification'' (marshal_Notification tj) (d_Notification d);
       history \<leftarrow> optional_field ''history'' (marshal_HistoryEntry tj) (d_History d);
       Some (json_object (string_field ''kind'' (delta_kind_text (d_Kind d)) @ notification @
         (case d_Lifetime d of None \<Rightarrow> [] | Some l \<Rightarrow> [json_field ''lifetime'' (marshal_Lifetime l)]) @ history @
         dec_field_omit ''id'' (d_ID d) @
         (if d_IDs d = [] then [] else [json_field ''ids'' (json_array (map (\<lambda>i. dec (uint i)) (d_IDs d)))]) @
         dec_field_omit ''close_reason'' (d_CloseReason d)))
     }"

text \<open>
  The payload of an envelope is written as it is: it is the output of \<open>json.Marshal\<close>, which compacting leaves alone.
\<close>

definition marshalEnvelope :: "string \<Rightarrow> u64 \<Rightarrow> u64 \<Rightarrow> string option \<Rightarrow> string option" where
  "marshalEnvelope kind requestID sequence payload =
     map_option (\<lambda>raw. json_object (string_field ''kind'' kind @ dec_field_omit ''request_id'' requestID @
       dec_field_omit ''sequence'' sequence @ [json_field ''payload'' raw])) payload"

subsection \<open>The cost of an image (server.go)\<close>

text \<open>The media type is marshalled without an error, so the length is that of the escaped string.\<close>

definition escapedJSONLen :: "string \<Rightarrow> int" where
  "escapedJSONLen s = int (length (json_string s)) - 2"

definition objectOverhead :: int where
  "objectOverhead = int (length ('','' @ [quote] @ ''image'' @ [quote] @ '':{'' @ [quote] @ ''media_type'' @ [quote] @ '':'' @ [quote, quote] @
     '','' @ [quote] @ ''width'' @ [quote] @ '':,'' @ [quote] @ ''height'' @ [quote] @ '':,'' @ [quote] @ ''data'' @ [quote] @ '':'' @
     [quote, quote] @ ''}''))"

definition wireImageCost :: "Image \<Rightarrow> int" where
  "wireImageCost i =
     objectOverhead + escapedJSONLen (img_MediaType i) + int (length (dec (uint (img_Width i)))) +
     int (length (dec (uint (img_Height i)))) + int (base64_EncodedLen (length (img_Data i)))"

subsection \<open>A snapshot in one frame (server.go)\<close>

record wireImage =
  wi_image :: Image
  wi_active :: int
  wi_history :: int

definition set_active_image :: "nat \<Rightarrow> Image option \<Rightarrow> Snapshot \<Rightarrow> Snapshot" where
  "set_active_image i img s = s\<lparr>snap_Active := (snap_Active s)[i := (snap_Active s ! i)\<lparr>n_Image := img\<rparr>]\<rparr>"

definition set_history_image :: "nat \<Rightarrow> Image option \<Rightarrow> Snapshot \<Rightarrow> Snapshot" where
  "set_history_image i img s = s\<lparr>snap_History := (snap_History s)[i := (snap_History s ! i)\<lparr>h_Image := img\<rparr>]\<rparr>"

definition put_image :: "wireImage \<Rightarrow> Image option \<Rightarrow> Snapshot \<Rightarrow> Snapshot" where
  "put_image w img s =
     (if 0 \<le> wi_active w then set_active_image (nat (wi_active w)) img s else set_history_image (nat (wi_history w)) img s)"

definition without_images :: "Snapshot \<Rightarrow> Snapshot" where
  "without_images s = s\<lparr>snap_Active := map (\<lambda>n. n\<lparr>n_Image := None\<rparr>) (snap_Active s),
     snap_History := map (\<lambda>e. e\<lparr>h_Image := None\<rparr>) (snap_History s)\<rparr>"

definition wire_images :: "Snapshot \<Rightarrow> wireImage list" where
  "wire_images s =
     List.map_filter (\<lambda>i. map_option (\<lambda>img. \<lparr>wi_image = img, wi_active = int i, wi_history = - 1\<rparr>) (n_Image (snap_Active s ! i)))
       [0..<length (snap_Active s)] @
     List.map_filter (\<lambda>i. map_option (\<lambda>img. \<lparr>wi_image = img, wi_active = - 1, wi_history = int i\<rparr>) (h_Image (snap_History s ! i)))
       [0..<length (snap_History s)]"

text \<open>The images from the newest on, as long as they fit the budget.\<close>

fun keep_newest :: "(Image \<Rightarrow> int) \<Rightarrow> int \<Rightarrow> wireImage list \<Rightarrow> wireImage list" where
  "keep_newest cost budget [] = []"
| "keep_newest cost budget (w # ws) =
     (if budget < cost (wi_image w) then [] else w # keep_newest cost (budget - cost (wi_image w)) ws)"

text \<open>The backstop: as long as the frame is too large the oldest image that is kept is given up.\<close>

fun backstop :: "(Snapshot \<Rightarrow> string option) \<Rightarrow> int \<Rightarrow> string \<Rightarrow> wireImage list \<Rightarrow> Snapshot \<Rightarrow> string option" where
  "backstop frame_of limit frame [] bodies = Some frame"
| "backstop frame_of limit frame (oldest # kept) bodies =
     (if int (length frame) \<le> limit then Some frame
      else
        (let bodies' = put_image oldest None bodies in
         case frame_of bodies' of
           None \<Rightarrow> None
         | Some frame' \<Rightarrow> backstop frame_of limit frame' kept bodies'))"

definition marshalSnapshotWithinCost :: "time_encoder \<Rightarrow> Snapshot \<Rightarrow> int \<Rightarrow> (Image \<Rightarrow> int) \<Rightarrow> err + string" where
  "marshalSnapshotWithinCost tj snapshot limit cost =
     (let frame_of = (\<lambda>b. marshalEnvelope ''snapshot'' 0 (snap_Sequence snapshot) (marshal_Snapshot tj b));
          bodies = without_images snapshot in
      case frame_of bodies of
        None \<Rightarrow> Inl (Err ''json: unsupported value'')
      | Some base \<Rightarrow>
          if limit < int (length base) then Inl (Err ''presenter: snapshot exceeds frame size without images'')
          else
            (let kept = rev (keep_newest cost (limit - int (length base)) (rev (wire_images snapshot)));
                 bodies1 = fold (\<lambda>w. put_image w (Some (wi_image w))) kept bodies in
             case frame_of bodies1 of
               None \<Rightarrow> Inl (Err ''json: unsupported value'')
             | Some frame \<Rightarrow>
                 (case backstop frame_of limit frame kept bodies1 of
                    None \<Rightarrow> Inl (Err ''json: unsupported value'')
                  | Some frame1 \<Rightarrow>
                      if limit < int (length frame1)
                      then Inl (Err ''presenter: snapshot exceeds frame size without images'') else Inr frame1)))"

definition marshalSnapshotWithin :: "time_encoder \<Rightarrow> Snapshot \<Rightarrow> int \<Rightarrow> err + string" where
  "marshalSnapshotWithin tj snapshot limit = marshalSnapshotWithinCost tj snapshot limit wireImageCost"

definition marshalSnapshot :: "time_encoder \<Rightarrow> Snapshot \<Rightarrow> err + string" where
  "marshalSnapshot tj snapshot = marshalSnapshotWithin tj snapshot (int (unat MaxFrameSize))"

end
