(* ===== verification/Commands.thy ===== *)
theory Commands
  imports Wire Fdo
begin

text \<open>
  The commands of a presenter (\<open>readLoop\<close> and \<open>executeCommandForConnection\<close> of \<open>internal/presenter/connection.go\<close>,
  \<open>readHello\<close> and \<open>hasCapability\<close> of \<open>server.go\<close>): from the bytes on the socket to the request of the owner and
  the reply.

  Parameters: \<open>Error\<close> is the text of an error (\<open>err.Error()\<close>), and a \<open>decoder\<close> is what \<open>encoding/json\<close> makes of the
  bytes of a frame. The courses of the calls of the owner and whether \<open>enqueue\<close> takes a reply are given by request.
\<close>

subsection \<open>Executing a command (connection.go)\<close>

definition errorReply :: "ErrorCode \<Rightarrow> string \<Rightarrow> Reply" where
  "errorReply code message = \<lparr>r_OK = False, r_Error = Some \<lparr>pe_Code = code, pe_Message = message\<rparr>, r_Lifetimes = [], r_ID = 0,
     r_Replaced = False\<rparr>"

definition stateCommand_of :: "u64 \<Rightarrow> Command \<Rightarrow> StateCommand" where
  "stateCommand_of generation command =
     (let sc = zero_StateCommand\<lparr>sc_ID := c_ID command, sc_ActionKey := c_ActionKey command, sc_ReplyText := c_Text command,
                 sc_IDs := c_IDs command, sc_Generation := generation\<rparr> in
      case c_Kind command of
        CommandPresentationRenew \<Rightarrow> sc\<lparr>sc_Kind := KPresentationRenew, sc_Presentations := c_Presentations command\<rparr>
      | CommandAction \<Rightarrow> sc\<lparr>sc_Kind := KInvokeAction\<rparr>
      | CommandDismiss \<Rightarrow> sc\<lparr>sc_Kind := KDismiss\<rparr>
      | CommandReply \<Rightarrow> sc\<lparr>sc_Kind := KSubmitReply\<rparr>
      | CommandHistoryClear \<Rightarrow> sc\<lparr>sc_Kind := KHistoryClear\<rparr>
      | CommandHistoryRemove \<Rightarrow> sc\<lparr>sc_Kind := KHistoryRemove\<rparr>
      | CommandHistoryMarkSeen \<Rightarrow> sc\<lparr>sc_Kind := KHistoryMarkSeen\<rparr>
      | CommandDismissAll \<Rightarrow> sc\<lparr>sc_Kind := KDismissAll\<rparr>
      | CommandProducerPublish \<Rightarrow> sc\<lparr>sc_Kind := KProducerPublish, sc_Producer := c_Producer command\<rparr>
      | CommandProducerClose \<Rightarrow> sc\<lparr>sc_Kind := KProducerClose, sc_Producer := c_Producer command\<rparr>
      | OtherCommand _ \<Rightarrow> sc)"

definition replyCode :: "err \<Rightarrow> ErrorCode" where
  "replyCode e =
     (if errors_Is e ErrNotFound then ErrorNotFound
      else if errors_Is e ErrStale then ErrorStale
      else if errors_Is e ErrContext then ErrorUnavailable
      else ErrorInvalid)"

definition executeCommandForConnection ::
  "(err \<Rightarrow> string) \<Rightarrow> course \<Rightarrow> u64 \<Rightarrow> bool \<Rightarrow> Command \<Rightarrow> ownerState \<Rightarrow> (Reply \<times> ownerState) option" where
  "executeCommandForConnection Error how generation producer command s =
     (if c_Kind command \<in> {CommandProducerPublish, CommandProducerClose} \<and> \<not> producer
      then Some (errorReply ErrorUnavailable ''producer capability was not negotiated'', s)
      else
        (case Owner_Do how (stateCommand_of generation command) s of
           None \<Rightarrow> None
         | Some (Inr result, t) \<Rightarrow>
             Some (\<lparr>r_OK = True, r_Error = None, r_Lifetimes = res_Lifetimes result, r_ID = res_ID result,
                    r_Replaced = res_Replaced result\<rparr>, t)
         | Some (Inl e, t) \<Rightarrow> Some (errorReply (replyCode e) (Error e), t)))"

subsection \<open>Reading (connection.go, server.go)\<close>

record decoder =
  de_tokens :: "bytes \<Rightarrow> json_decoder"
  de_valid :: "bytes \<Rightarrow> bool"
  de_envelope :: "json_decoder \<Rightarrow> err + Envelope \<times> json_decoder"
  de_command :: "json_decoder \<Rightarrow> err + Command \<times> json_decoder"
  de_hello :: "json_decoder \<Rightarrow> err + Hello \<times> json_decoder"

definition hasCapability :: "string list \<Rightarrow> string \<Rightarrow> bool" where
  "hasCapability capabilities required = list_ex (\<lambda>c. c = required) capabilities"

definition readHello :: "decoder \<Rightarrow> bytes \<Rightarrow> (err + Hello \<times> bytes) option" where
  "readHello de input =
     (case ReadFrame input of
        Inl e \<Rightarrow> Some (Inl e)
      | Inr (frame, rest) \<Rightarrow>
          (case DecodeStrict (de_tokens de) (de_envelope de) frame of
             None \<Rightarrow> None
           | Some (Inl e) \<Rightarrow> Some (Inl e)
           | Some (Inr envelope) \<Rightarrow>
               if Envelope_Validate (de_valid de) envelope \<noteq> None \<or> env_Kind envelope \<noteq> ''hello''
               then Some (Inl (Err ''presenter: expected hello''))
               else
                 (case DecodeStrict (de_tokens de) (de_hello de) (env_Payload envelope) of
                    None \<Rightarrow> None
                  | Some (Inl e) \<Rightarrow> Some (Inl e)
                  | Some (Inr hello) \<Rightarrow>
                      (case Hello_Validate hello RolePresenter of
                         Some e \<Rightarrow> Some (Inl e)
                       | None \<Rightarrow> Some (Inr (hello, rest))))))"

text \<open>One command: its request ID and the command, or the end of the loop.\<close>

definition readCommand :: "decoder \<Rightarrow> u64 \<Rightarrow> bytes \<Rightarrow> ((u64 \<times> Command \<times> bytes) option) option" where
  "readCommand de lastRequestID input =
     (case ReadFrame input of
        Inl e \<Rightarrow> Some None
      | Inr (frame, rest) \<Rightarrow>
          (case DecodeStrict (de_tokens de) (de_envelope de) frame of
             None \<Rightarrow> None
           | Some (Inl e) \<Rightarrow> Some None
           | Some (Inr envelope) \<Rightarrow>
               if Envelope_Validate (de_valid de) envelope \<noteq> None \<or> env_Kind envelope \<noteq> ''command'' then Some None
               else if env_RequestID envelope \<le> lastRequestID then Some None
               else
                 (case DecodeStrict (de_tokens de) (de_command de) (env_Payload envelope) of
                    None \<Rightarrow> None
                  | Some (Inl e) \<Rightarrow> Some None
                  | Some (Inr command) \<Rightarrow>
                      if Command_Validate command \<noteq> None then Some None
                      else Some (Some (env_RequestID envelope, command, rest)))))"

lemma ReadFrame_rest: "ReadFrame input = Inr (frame, rest) \<Longrightarrow> length rest < length input"
  by (auto simp: ReadFrame_def ReadFull_def Let_def split: if_splits)

lemma readCommand_rest: "readCommand de q input = Some (Some (i, command, rest)) \<Longrightarrow> length rest < length input"
  by (auto simp: readCommand_def dest: ReadFrame_rest split: sum.splits option.splits if_splits)

subsection \<open>Replies on the wire (types.go)\<close>

fun error_code_text :: "ErrorCode \<Rightarrow> string" where
  "error_code_text ErrorInvalid = ''invalid''"
| "error_code_text ErrorNotFound = ''not_found''"
| "error_code_text ErrorStale = ''stale''"
| "error_code_text ErrorBusy = ''busy''"
| "error_code_text ErrorUnavailable = ''unavailable''"
| "error_code_text (OtherCode s) = s"

definition marshal_ProtocolError :: "ProtocolError \<Rightarrow> string" where
  "marshal_ProtocolError e =
     json_object (string_field ''code'' (error_code_text (pe_Code e)) @ string_field_omit ''message'' (pe_Message e))"

definition marshal_Reply :: "Reply \<Rightarrow> string" where
  "marshal_Reply r = json_object ([json_field ''ok'' (json_bool (r_OK r))] @
     (case r_Error r of None \<Rightarrow> [] | Some e \<Rightarrow> [json_field ''error'' (marshal_ProtocolError e)]) @
     (if r_Lifetimes r = [] then [] else [json_field ''lifetimes'' (json_array (map marshal_Lifetime (r_Lifetimes r)))]) @
     dec_field_omit ''id'' (r_ID r) @ (if r_Replaced r then [json_field ''replaced'' (json_bool True)] else []))"

subsection \<open>The read loop (connection.go)\<close>

text \<open>
  \<open>accepts\<close> is the result of \<open>enqueue\<close> for the reply to a request. The result is what was handed to \<open>enqueue\<close>, in
  order, and the owner in the end.
\<close>

record served =
  sv_request :: u64
  sv_reply :: Reply
  sv_frame :: bytes

function readLoop ::
  "decoder \<Rightarrow> (err \<Rightarrow> string) \<Rightarrow> u64 \<Rightarrow> bool \<Rightarrow> (u64 \<Rightarrow> course) \<Rightarrow> (u64 \<Rightarrow> bool) \<Rightarrow> u64 \<Rightarrow> bytes \<Rightarrow> ownerState \<Rightarrow>
   (served list \<times> ownerState) option" where
  "readLoop de Error generation producer how accepts lastRequestID input s =
     (case readCommand de lastRequestID input of
        None \<Rightarrow> None
      | Some None \<Rightarrow> Some ([], s)
      | Some (Some (i, command, rest)) \<Rightarrow>
          (case executeCommandForConnection Error (how i) generation producer command s of
             None \<Rightarrow> None
           | Some (reply, t) \<Rightarrow>
               (case marshalEnvelope ''reply'' i 0 (Some (marshal_Reply reply)) of
                  None \<Rightarrow> Some ([], t)
                | Some payload \<Rightarrow>
                    (let sv = \<lparr>sv_request = i, sv_reply = reply, sv_frame = payload\<rparr> in
                     if \<not> accepts i then Some ([sv], t)
                     else map_option (\<lambda>(svs, u). (sv # svs, u)) (readLoop de Error generation producer how accepts i rest t)))))"
  by pat_completeness auto
termination
  by (relation "measure (\<lambda>(de, Error, generation, producer, how, accepts, lastRequestID, input, s). length input)")
    (auto dest: readCommand_rest)

declare readLoop.simps [simp del]

end
