(* ===== verification/WireProps.thy ===== *)
theory WireProps
  imports Wire OwnerLoop
begin

text \<open>
  The cost model of the snapshot frame is exact: leaving out images shortens the frame by exactly what they were
  priced at, so the frame that is chosen fits, is the largest one that does, and the backstop never runs.
\<close>

subsection \<open>The images of a snapshot as one list\<close>

definition slots :: "Snapshot \<Rightarrow> Image option list" where
  "slots s = map n_Image (snap_Active s) @ map h_Image (snap_History s)"

definition with_slots :: "Image option list \<Rightarrow> Snapshot \<Rightarrow> Snapshot" where
  "with_slots xs s = s\<lparr>snap_Active := map2 (\<lambda>n i. n\<lparr>n_Image := i\<rparr>) (snap_Active s) (take (length (snap_Active s)) xs),
     snap_History := map2 (\<lambda>e i. e\<lparr>h_Image := i\<rparr>) (snap_History s) (drop (length (snap_Active s)) xs)\<rparr>"

text \<open>The reference: the snapshot without its \<open>k\<close> oldest images, active before history.\<close>

fun drop_images :: "nat \<Rightarrow> Image option list \<Rightarrow> Image option list" where
  "drop_images k [] = []"
| "drop_images k (None # xs) = None # drop_images k xs"
| "drop_images 0 (Some i # xs) = Some i # drop_images 0 xs"
| "drop_images (Suc k) (Some i # xs) = None # drop_images k xs"

definition drop_oldest :: "nat \<Rightarrow> Snapshot \<Rightarrow> Snapshot" where
  "drop_oldest k s = with_slots (drop_images k (slots s)) s"

definition cost_sum :: "Image option list \<Rightarrow> int" where
  "cost_sum xs = (\<Sum>x\<leftarrow>xs. case x of None \<Rightarrow> 0 | Some i \<Rightarrow> wireImageCost i)"

definition snapshot_frame :: "time_encoder \<Rightarrow> Snapshot \<Rightarrow> string option" where
  "snapshot_frame tj s = marshalEnvelope ''snapshot'' 0 (snap_Sequence s) (marshal_Snapshot tj s)"

lemma cost_sum_simps [simp]:
  "cost_sum [] = 0" "cost_sum (None # xs) = cost_sum xs" "cost_sum (Some i # xs) = wireImageCost i + cost_sum xs"
  "cost_sum (xs @ ys) = cost_sum xs + cost_sum ys"
  by (simp_all add: cost_sum_def)

lemma length_drop_images [simp]: "length (drop_images k xs) = length xs"
  by (induction k xs rule: drop_images.induct) simp_all

subsection \<open>The length of a frame\<close>

lemma length_json_object: "length (json_object fs) = 2 + (\<Sum>x\<leftarrow>fs. length x) + (length fs - 1)"
  by (simp add: json_object_def length_join_comma)

lemma length_image_field:
  assumes "img_Data i \<noteq> []"
  shows "int (length (json_field ''image'' (marshal_Image i))) + 1 = wireImageCost i"
  using assms
  by (simp add: wireImageCost_def objectOverhead_def escapedJSONLen_def marshal_Image_def length_json_field length_json_object
      string_field_def dec_field_def json_bytes_def length_base64 json_string_def)

lemma wireImageCost_pos: "0 < wireImageCost i"
  by (simp add: wireImageCost_def objectOverhead_def escapedJSONLen_def json_string_def)

definition data_ok :: "Image option \<Rightarrow> bool" where
  "data_ok x = (case x of None \<Rightarrow> True | Some i \<Rightarrow> img_Data i \<noteq> [])"

lemma length_with_image:
  assumes "data_ok i" "fs \<noteq> []"
  shows "int (length (json_object (fs @ image_field i @ gs))) = int (length (json_object (fs @ gs))) + cost_sum [i]"
proof (cases i)
  case (Some a)
  with assms length_image_field [of a] show ?thesis
    by (cases fs) (auto simp: length_json_object image_field_def data_ok_def)
qed (simp add: image_field_def)

lemma marshal_Notification_image:
  assumes "data_ok (n_Image n)" "marshal_Notification tj (n\<lparr>n_Image := None\<rparr>) = Some x"
  shows "\<exists>y. marshal_Notification tj n = Some y \<and> int (length y) = int (length x) + cost_sum [n_Image n]"
proof -
  have h: "notification_head (n\<lparr>n_Image := None\<rparr>) ts = notification_head n ts" "notification_tail (n\<lparr>n_Image := None\<rparr>) = notification_tail n"
    "notification_head n ts \<noteq> []" for ts
    by (simp_all add: notification_head_def notification_tail_def)
  show ?thesis
    using assms(2) length_with_image [OF assms(1) h(3), of _ "notification_tail n"]
    by (auto simp: marshal_Notification_def h image_field_def)
qed

lemma marshal_HistoryEntry_image:
  assumes "data_ok (h_Image e)" "marshal_HistoryEntry tj (e\<lparr>h_Image := None\<rparr>) = Some x"
  shows "\<exists>y. marshal_HistoryEntry tj e = Some y \<and> int (length y) = int (length x) + cost_sum [h_Image e]"
proof -
  have h: "history_head (e\<lparr>h_Image := None\<rparr>) ts = history_head e ts" "history_head e ts \<noteq> []" for ts
    by (simp_all add: history_head_def)
  show ?thesis
    using assms(2) length_with_image [OF assms(1) h(2), of _ "[]"]
    by (auto simp: marshal_HistoryEntry_def h image_field_def)
qed

text \<open>Element-wise, for the active notifications and for the history.\<close>

lemma those_image:
  assumes "\<forall>n\<in>set ns. data_ok (img n)"
    and "\<And>n x. data_ok (img n) \<Longrightarrow> f (clear n) = Some x \<Longrightarrow> \<exists>y. f n = Some y \<and> int (length y) = int (length x) + cost_sum [img n]"
    and "those (map f (map clear ns)) = Some xs"
  shows "\<exists>ys. those (map f ns) = Some ys \<and> length ys = length xs \<and>
    int (\<Sum>y\<leftarrow>ys. length y) = int (\<Sum>x\<leftarrow>xs. length x) + cost_sum (map img ns)"
  using assms(1,3)
proof (induction ns arbitrary: xs)
  case (Cons n ns)
  then obtain x xs' where x: "f (clear n) = Some x" "those (map f (map clear ns)) = Some xs'" "xs = x # xs'"
    by (auto split: option.splits)
  obtain y where "f n = Some y" "int (length y) = int (length x) + cost_sum [img n]"
    using assms(2) [OF _ x(1)] Cons.prems(1) by auto
  moreover obtain ys where "those (map f ns) = Some ys" "length ys = length xs'"
    "int (\<Sum>y\<leftarrow>ys. length y) = int (\<Sum>x\<leftarrow>xs'. length x) + cost_sum (map img ns)"
    using Cons.IH [OF _ x(2)] Cons.prems(1) by auto
  ultimately show ?case using x(3) by (cases "img n") auto
qed simp

lemma length_nil_array:
  "length ys = length xs \<Longrightarrow> int (\<Sum>y\<leftarrow>ys. length y) = int (\<Sum>x\<leftarrow>xs. length x) + c \<Longrightarrow>
   int (length (json_nil_array ys)) = int (length (json_nil_array xs)) + (if xs = [] then 0 else c)"
  by (auto simp: json_nil_array_def length_json_array)

text \<open>The frame around given active and history entries.\<close>

definition frame_around :: "Snapshot \<Rightarrow> string list \<Rightarrow> string list \<Rightarrow> string" where
  "frame_around s active history =
     json_object (string_field ''kind'' ''snapshot'' @ dec_field_omit ''sequence'' (snap_Sequence s) @
       [json_field ''payload'' (json_object [dec_field ''sequence'' (snap_Sequence s),
         json_field ''active'' (json_nil_array active),
         json_field ''lifetimes'' (json_array (map marshal_Lifetime (snap_Lifetimes s))),
         json_field ''history'' (json_nil_array history)])])"

lemma snapshot_frame_eq:
  "snapshot_frame tj s = do { active \<leftarrow> those (map (marshal_Notification tj) (snap_Active s));
     history \<leftarrow> those (map (marshal_HistoryEntry tj) (snap_History s)); Some (frame_around s active history) }"
  by (cases "those (map (marshal_Notification tj) (snap_Active s))"; cases "those (map (marshal_HistoryEntry tj) (snap_History s))")
    (simp_all add: snapshot_frame_def marshalEnvelope_def marshal_Snapshot_def frame_around_def dec_field_omit_def)

lemma length_frame_around:
  "int (length (frame_around s active history)) - int (length (frame_around s active' history')) =
     int (length (json_nil_array active)) - int (length (json_nil_array active')) +
     int (length (json_nil_array history)) - int (length (json_nil_array history'))"
  by (simp add: frame_around_def length_json_object length_json_field)

lemma frame_length:
  assumes "\<forall>x\<in>set (slots s). data_ok x" "snapshot_frame tj (without_images s) = Some base"
  shows "\<exists>f. snapshot_frame tj s = Some f \<and> int (length f) = int (length base) + cost_sum (slots s)"
proof -
  have ok: "\<forall>n\<in>set (snap_Active s). data_ok (n_Image n)" "\<forall>e\<in>set (snap_History s). data_ok (h_Image e)"
    using assms(1) by (auto simp: slots_def)
  obtain xs hs where x: "those (map (marshal_Notification tj) (map (\<lambda>n. n\<lparr>n_Image := None\<rparr>) (snap_Active s))) = Some xs"
    "those (map (marshal_HistoryEntry tj) (map (\<lambda>e. e\<lparr>h_Image := None\<rparr>) (snap_History s))) = Some hs"
    "base = frame_around (without_images s) xs hs"
    using assms(2) unfolding snapshot_frame_eq bind_eq_Some_conv by (auto simp: without_images_def [of s] simp del: map_map)
  obtain ys where y: "those (map (marshal_Notification tj) (snap_Active s)) = Some ys" "length ys = length xs"
    "int (\<Sum>y\<leftarrow>ys. length y) = int (\<Sum>x\<leftarrow>xs. length x) + cost_sum (map n_Image (snap_Active s))"
    using those_image [OF _ marshal_Notification_image x(1)] ok by blast
  obtain gs where g: "those (map (marshal_HistoryEntry tj) (snap_History s)) = Some gs" "length gs = length hs"
    "int (\<Sum>y\<leftarrow>gs. length y) = int (\<Sum>x\<leftarrow>hs. length x) + cost_sum (map h_Image (snap_History s))"
    using those_image [OF _ marshal_HistoryEntry_image x(2)] ok by blast
  have "xs = [] \<longrightarrow> cost_sum (map n_Image (snap_Active s)) = 0" "hs = [] \<longrightarrow> cost_sum (map h_Image (snap_History s)) = 0"
    using y(2,3) g(2,3) by auto
  then have "int (length (json_nil_array ys)) = int (length (json_nil_array xs)) + cost_sum (map n_Image (snap_Active s))"
    "int (length (json_nil_array gs)) = int (length (json_nil_array hs)) + cost_sum (map h_Image (snap_History s))"
    using length_nil_array [OF y(2,3)] length_nil_array [OF g(2,3)] by auto
  moreover have "frame_around (without_images s) xs hs = frame_around s xs hs"
    by (simp add: frame_around_def without_images_def)
  ultimately have "int (length (frame_around s ys gs)) = int (length base) + cost_sum (slots s)"
    using length_frame_around [of s ys gs xs hs] x(3) by (simp add: slots_def)
  moreover have "snapshot_frame tj s = Some (frame_around s ys gs)" using y(1) g(1) by (simp add: snapshot_frame_eq)
  ultimately show ?thesis by blast
qed

subsection \<open>Which images are kept\<close>

lemma keep_newest_spec:
  assumes "0 \<le> budget"
  shows "\<exists>j\<le>length ws. keep_newest cost budget ws = take j ws \<and> (\<Sum>w\<leftarrow>take j ws. cost (wi_image w)) \<le> budget \<and>
    (j < length ws \<longrightarrow> budget < (\<Sum>w\<leftarrow>take (Suc j) ws. cost (wi_image w)))"
  using assms
proof (induction ws arbitrary: budget)
  case (Cons w ws)
  show ?case
  proof (cases "budget < cost (wi_image w)")
    case False
    then obtain j where "j \<le> length ws" "keep_newest cost (budget - cost (wi_image w)) ws = take j ws"
      "(\<Sum>w\<leftarrow>take j ws. cost (wi_image w)) \<le> budget - cost (wi_image w)"
      "j < length ws \<longrightarrow> budget - cost (wi_image w) < (\<Sum>w\<leftarrow>take (Suc j) ws. cost (wi_image w))"
      using Cons.IH [of "budget - cost (wi_image w)"] by auto
    with False show ?thesis by (intro exI [of _ "Suc j"]) auto
  qed (use Cons.prems in auto)
qed simp

text \<open>The images with their places in the list of slots.\<close>

definition entries :: "Image option list \<Rightarrow> (nat \<times> Image) list" where
  "entries xs = List.map_filter (\<lambda>p. map_option (Pair p) (xs ! p)) [0..<length xs]"

lemma map_filter_append: "List.map_filter f (xs @ ys) = List.map_filter f xs @ List.map_filter f ys"
  by (simp add: List.map_filter_def)

lemma map_filter_comp: "List.map_filter f (map g xs) = List.map_filter (f \<circ> g) xs"
  by (induction xs) (simp_all add: map_filter_simps split: option.splits)

lemma map_map_filter: "map g (List.map_filter f xs) = List.map_filter (\<lambda>x. map_option g (f x)) xs"
  by (induction xs) (simp_all add: map_filter_simps split: option.splits)

lemma map_filter_cong: "(\<And>x. x \<in> set xs \<Longrightarrow> f x = g x) \<Longrightarrow> List.map_filter f xs = List.map_filter g xs"
  by (induction xs) (simp_all add: map_filter_simps split: option.splits)

lemma entries_Cons:
  "entries (x # xs) = (case x of None \<Rightarrow> [] | Some i \<Rightarrow> [(0, i)]) @ map (map_prod Suc id) (entries xs)"
proof -
  have "[0..<length (x # xs)] = 0 # map Suc [0..<length xs]" by (simp add: map_Suc_upt upt_conv_Cons del: upt_Suc)
  then show ?thesis
    by (cases x) (simp_all add: entries_def map_filter_simps map_filter_comp comp_def map_map_filter option.map_comp)
qed

definition set_slots :: "(nat \<times> Image) list \<Rightarrow> Image option list \<Rightarrow> Image option list" where
  "set_slots es xs = fold (\<lambda>(p, i) ys. ys[p := Some i]) es xs"

lemma set_slots_Suc: "set_slots (map (map_prod Suc id) es) (y # ys) = y # set_slots es ys"
  unfolding set_slots_def by (induction es arbitrary: ys) auto

lemma set_slots_drop: "set_slots (drop k (entries xs)) (map (\<lambda>_. None) xs) = drop_images k xs"
proof (induction k xs rule: drop_images.induct)
  case (1 k)
  then show ?case by (simp add: entries_def set_slots_def map_filter_simps)
next
  case (3 i xs)
  then show ?case by (simp add: entries_Cons) (simp add: set_slots_def [of "(0, i) # _"] set_slots_Suc flip: set_slots_def)
qed (simp_all add: entries_Cons drop_map set_slots_Suc)

lemma cost_sum_drop: "cost_sum (drop_images k xs) = (\<Sum>e\<leftarrow>drop k (entries xs). wireImageCost (snd e))"
proof (induction k xs rule: drop_images.induct)
  case (1 k)
  then show ?case by (simp add: entries_def map_filter_simps)
qed (simp_all add: entries_Cons drop_map comp_def)

lemma drop_images_all: "length (entries xs) \<le> k \<Longrightarrow> drop_images k xs = map (\<lambda>_. None) xs"
  using set_slots_drop [of k xs] by (simp add: set_slots_def)

definition placed :: "Snapshot \<Rightarrow> wireImage \<Rightarrow> bool" where
  "placed s w \<longleftrightarrow>
     (if 0 \<le> wi_active w then nat (wi_active w) < length (snap_Active s) else nat (wi_history w) < length (snap_History s))"

definition place :: "Snapshot \<Rightarrow> wireImage \<Rightarrow> nat" where
  "place s w = (if 0 \<le> wi_active w then nat (wi_active w) else length (snap_Active s) + nat (wi_history w))"

lemma put_image_lengths [simp]:
  "length (snap_Active (put_image w i s)) = length (snap_Active s)"
  "length (snap_History (put_image w i s)) = length (snap_History s)"
  by (simp_all add: put_image_def set_active_image_def set_history_image_def)

lemma slots_put_image: "placed s w \<Longrightarrow> slots (put_image w i s) = (slots s)[place s w := i]"
  by (simp add: placed_def place_def slots_def put_image_def set_active_image_def set_history_image_def map_update list_update_append)

lemma map_clear_update: "f (xs ! i) = y \<Longrightarrow> i < length xs \<Longrightarrow> (map f xs)[i := y] = map f xs"
  by (metis length_map list_update_id nth_map)

lemma without_images_put_image: "placed s w \<Longrightarrow> without_images (put_image w i s) = without_images s"
  by (simp add: placed_def without_images_def put_image_def set_active_image_def set_history_image_def map_update map_clear_update
      split: if_splits)

lemma put_images:
  assumes "\<forall>w\<in>set ws. placed s w"
  shows "slots (fold (\<lambda>w. put_image w (Some (wi_image w))) ws s) = set_slots (map (\<lambda>w. (place s w, wi_image w)) ws) (slots s) \<and>
    without_images (fold (\<lambda>w. put_image w (Some (wi_image w))) ws s) = without_images s"
  using assms
proof (induction ws arbitrary: s)
  case (Cons w ws)
  let ?t = "put_image w (Some (wi_image w)) s"
  have "placed ?t = placed s" "place ?t = place s" by (simp_all add: placed_def place_def fun_eq_iff)
  with Cons.IH [of ?t] Cons.prems slots_put_image [of s w] without_images_put_image [of s w] show ?case
    by (simp add: set_slots_def)
qed (simp add: set_slots_def)

lemma entries_slots:
  "map (\<lambda>w. (place s w, wi_image w)) (wire_images s) = entries (slots s)"
proof -
  let ?a = "length (snap_Active s)" and ?h = "length (snap_History s)"
  have "[0..<length (slots s)] = [0..<?a] @ map (\<lambda>i. i + ?a) [0..<?h]"
    using upt_add_eq_append [of 0 ?a ?h] map_add_upt [of ?a ?h] by (simp add: slots_def add.commute)
  then show ?thesis
    by (auto simp: entries_def wire_images_def map_filter_append map_filter_comp map_map_filter option.map_comp comp_def place_def
        slots_def nth_append add.commute [of "length (snap_Active s)"] intro!: map_filter_cong arg_cong2 [where f = "(@)"])
qed

lemma wire_images_placed: "w \<in> set (wire_images s) \<Longrightarrow> placed s w"
  by (auto simp: wire_images_def placed_def List.map_filter_def)

lemma snapshot_with_slots:
  assumes "without_images t = without_images s"
  shows "t = with_slots (slots t) s"
proof -
  have l: "length (snap_Active t) = length (snap_Active s)" "length (snap_History t) = length (snap_History s)"
    using arg_cong [OF assms, of "\<lambda>s. length (snap_Active s)"] arg_cong [OF assms, of "\<lambda>s. length (snap_History s)"]
    by (simp_all add: without_images_def)
  have "(snap_Active t ! i)\<lparr>n_Image := None\<rparr> = (snap_Active s ! i)\<lparr>n_Image := None\<rparr>" if "i < length (snap_Active s)" for i
    using arg_cong [OF assms, of "\<lambda>s. snap_Active s ! i"] that l by (simp add: without_images_def)
  then have a: "(snap_Active s ! i)\<lparr>n_Image := n_Image (snap_Active t ! i)\<rparr> = snap_Active t ! i" if "i < length (snap_Active s)" for i
    using that by (metis Notification.surjective Notification.update_convs(12))
  have "(snap_History t ! i)\<lparr>h_Image := None\<rparr> = (snap_History s ! i)\<lparr>h_Image := None\<rparr>" if "i < length (snap_History s)" for i
    using arg_cong [OF assms, of "\<lambda>s. snap_History s ! i"] that l by (simp add: without_images_def)
  then have h: "(snap_History s ! i)\<lparr>h_Image := h_Image (snap_History t ! i)\<rparr> = snap_History t ! i" if "i < length (snap_History s)" for i
    using that by (metis HistoryEntry.surjective HistoryEntry.update_convs(11))
  have "snap_Active t = map2 (\<lambda>n i. n\<lparr>n_Image := i\<rparr>) (snap_Active s) (map n_Image (snap_Active t))"
    "snap_History t = map2 (\<lambda>e i. e\<lparr>h_Image := i\<rparr>) (snap_History s) (map h_Image (snap_History t))"
    using a h l by (auto intro!: nth_equalityI)
  moreover have "snap_Sequence t = snap_Sequence s" "snap_Lifetimes t = snap_Lifetimes s"
    using arg_cong [OF assms, of snap_Sequence] arg_cong [OF assms, of snap_Lifetimes] by (simp_all add: without_images_def)
  ultimately show ?thesis using l by (simp add: with_slots_def slots_def)
qed

subsection \<open>A snapshot fits its frame\<close>

lemma backstop_fits: "int (length frame) \<le> limit \<Longrightarrow> backstop frame_of limit frame kept bodies = Some frame"
  by (cases kept) simp_all

lemma drop_images_data_ok: "\<forall>x\<in>set xs. data_ok x \<Longrightarrow> \<forall>x\<in>set (drop_images k xs). data_ok x"
  by (induction k xs rule: drop_images.induct) (auto simp: data_ok_def)

lemma slots_drop_oldest: "slots (drop_oldest k s) = drop_images k (slots s)"
proof -
  have m: "map n_Image (map2 (\<lambda>n i. n\<lparr>n_Image := i\<rparr>) ns xs) = xs" if "length xs = length ns" for ns xs
    using that by (induction ns xs rule: list_induct2') auto
  have h: "map h_Image (map2 (\<lambda>n i. n\<lparr>h_Image := i\<rparr>) ns xs) = xs" if "length xs = length ns" for ns xs
    using that by (induction ns xs rule: list_induct2') auto
  show ?thesis
    by (simp add: drop_oldest_def with_slots_def slots_def m h del: map_map)
qed

lemma without_images_drop_oldest: "without_images (drop_oldest k s) = without_images s"
proof -
  have m: "map (\<lambda>n. n\<lparr>n_Image := None\<rparr>) (map2 (\<lambda>n i. n\<lparr>n_Image := i\<rparr>) ns xs) = map (\<lambda>n. n\<lparr>n_Image := None\<rparr>) ns"
    if "length xs = length ns" for ns xs
    using that by (induction ns xs rule: list_induct2') auto
  have h: "map (\<lambda>n. n\<lparr>h_Image := None\<rparr>) (map2 (\<lambda>n i. n\<lparr>h_Image := i\<rparr>) ns xs) = map (\<lambda>n. n\<lparr>h_Image := None\<rparr>) ns"
    if "length xs = length ns" for ns xs
    using that by (induction ns xs rule: list_induct2') auto
  show ?thesis
    by (simp add: drop_oldest_def with_slots_def without_images_def slots_def m h del: map_map)
qed

text \<open>The frame of a snapshot without its oldest images, and what it weighs.\<close>

lemma drop_oldest_frame:
  assumes "\<forall>x\<in>set (slots s). data_ok x" "snapshot_frame tj (without_images s) = Some base"
  shows "\<exists>f. snapshot_frame tj (drop_oldest k s) = Some f \<and>
    int (length f) = int (length base) + (\<Sum>e\<leftarrow>drop k (entries (slots s)). wireImageCost (snd e))"
  using frame_length [of "drop_oldest k s" tj base] drop_images_data_ok [OF assms(1), of k] assms(2)
  by (simp add: slots_drop_oldest without_images_drop_oldest cost_sum_drop)

lemma those_map_None: "those (map f xs) = None \<longleftrightarrow> (\<exists>x\<in>set xs. f x = None)"
  by (induction xs) (auto split: option.splits)

lemma snapshot_frame_None:
  "snapshot_frame tj s = None \<longleftrightarrow>
     (\<exists>n\<in>set (snap_Active s). tj (n_Timestamp n) = None) \<or> (\<exists>e\<in>set (snap_History s). tj (h_Timestamp e) = None)"
  by (auto simp: snapshot_frame_eq bind_eq_None_conv those_map_None marshal_Notification_def marshal_HistoryEntry_def
      dest: those_map_None [THEN iffD2])

lemma snapshot_frame_without_images: "snapshot_frame tj (without_images s) = None \<longleftrightarrow> snapshot_frame tj s = None"
  by (simp add: snapshot_frame_None without_images_def)

lemma kept_images:
  assumes "0 \<le> budget"
  shows "\<exists>k. rev (keep_newest cost budget (rev ws)) = drop k ws \<and> (\<Sum>w\<leftarrow>drop k ws. cost (wi_image w)) \<le> budget \<and>
    (k \<noteq> 0 \<longrightarrow> budget < (\<Sum>w\<leftarrow>drop (k - 1) ws. cost (wi_image w)))"
proof -
  obtain j where j: "j \<le> length ws" "keep_newest cost budget (rev ws) = take j (rev ws)"
    "(\<Sum>w\<leftarrow>take j (rev ws). cost (wi_image w)) \<le> budget"
    "j < length ws \<longrightarrow> budget < (\<Sum>w\<leftarrow>take (Suc j) (rev ws). cost (wi_image w))"
    using keep_newest_spec [OF assms, of "rev ws" cost] by auto
  have t: "take i (rev ws) = rev (drop (length ws - i) ws)" for i by (simp add: take_rev)
  have r: "(\<Sum>w\<leftarrow>rev xs. cost (wi_image w)) = (\<Sum>w\<leftarrow>xs. cost (wi_image w))" for xs by (simp add: rev_map [symmetric] sum_list_rev)
  from j show ?thesis by (intro exI [of _ "length ws - j"]) (auto simp: t r)
qed

lemma marshalSnapshotWithin_spec:
  assumes ok: "\<forall>x\<in>set (slots s). data_ok x"
  shows "case marshalSnapshotWithin tj s limit of
     Inl e \<Rightarrow> (\<forall>k. case snapshot_frame tj (drop_oldest k s) of None \<Rightarrow> True | Some f \<Rightarrow> limit < int (length f))
   | Inr frame \<Rightarrow> (\<exists>k. snapshot_frame tj (drop_oldest k s) = Some frame \<and> int (length frame) \<le> limit \<and>
       (k = 0 \<or> (\<exists>f. snapshot_frame tj (drop_oldest (k - 1) s) = Some f \<and> limit < int (length f))))"
proof -
  define frame_of where "frame_of = (\<lambda>b. marshalEnvelope ''snapshot'' 0 (snap_Sequence s) (marshal_Snapshot tj b))"
  have fo: "frame_of b = snapshot_frame tj b" if "snap_Sequence b = snap_Sequence s" for b
    using that by (simp add: frame_of_def snapshot_frame_def)
  have base: "frame_of (without_images s) = snapshot_frame tj (without_images s)" by (rule fo) (simp add: without_images_def)
  note unfold = marshalSnapshotWithin_def marshalSnapshotWithinCost_def frame_of_def [symmetric] Let_def
  show ?thesis
  proof (cases "snapshot_frame tj (without_images s)")
    case None
    then have "snapshot_frame tj (drop_oldest k s) = None" for k
      using snapshot_frame_without_images [of tj "drop_oldest k s"] by (simp add: without_images_drop_oldest)
    with None base show ?thesis by (simp add: unfold)
  next
    case (Some b)
    let ?c = "\<lambda>k. \<Sum>e\<leftarrow>drop k (entries (slots s)). wireImageCost (snd e)"
    have w: "(\<Sum>w\<leftarrow>drop k (wire_images s). wireImageCost (wi_image w)) = ?c k" for k
      by (simp add: entries_slots [symmetric] drop_map comp_def)
    show ?thesis
    proof (cases "limit < int (length b)")
      case True
      have "0 \<le> ?c k" for k using wireImageCost_pos by (intro sum_list_nonneg) (auto intro: less_imp_le)
      then have "case snapshot_frame tj (drop_oldest k s) of None \<Rightarrow> True | Some f \<Rightarrow> limit < int (length f)" for k
        using drop_oldest_frame [OF ok Some, of k] True by (fastforce intro: less_le_trans)
      with True Some base show ?thesis by (simp add: unfold)
    next
      case False
      obtain k where k: "rev (keep_newest wireImageCost (limit - int (length b)) (rev (wire_images s))) = drop k (wire_images s)"
        "?c k \<le> limit - int (length b)" "k \<noteq> 0 \<longrightarrow> limit - int (length b) < ?c (k - 1)"
        using kept_images [of "limit - int (length b)" wireImageCost "wire_images s"] False w by auto
      define t where "t = fold (\<lambda>w. put_image w (Some (wi_image w))) (drop k (wire_images s)) (without_images s)"
      have pl: "placed (without_images s) = placed s" "place (without_images s) = place s"
        by (simp_all add: placed_def place_def without_images_def fun_eq_iff)
      have "slots (without_images s) = map (\<lambda>_. None) (slots s)" by (simp add: slots_def without_images_def comp_def)
      then have "slots t = drop_images k (slots s)" "without_images t = without_images s"
        using put_images [of "drop k (wire_images s)" "without_images s"] wire_images_placed [OF in_set_dropD]
          set_slots_drop [of k "slots s"]
        by (auto simp: t_def pl drop_map [symmetric] entries_slots) (simp_all add: without_images_def comp_def)
      then have t: "t = drop_oldest k s" using snapshot_with_slots [of t s] by (simp add: drop_oldest_def)
      obtain f where f: "snapshot_frame tj t = Some f" "int (length f) \<le> limit"
        using drop_oldest_frame [OF ok Some, of k] k(2) t by auto
      have "frame_of t = Some f" using fo [of t] f(1) by (simp add: t drop_oldest_def with_slots_def)
      moreover have "\<exists>g. snapshot_frame tj (drop_oldest (k - 1) s) = Some g \<and> limit < int (length g)" if "k \<noteq> 0"
        using drop_oldest_frame [OF ok Some, of "k - 1"] k(3) that by auto
      ultimately show ?thesis
        using False Some base k(1) f t t_def backstop_fits [OF f(2)] by (auto simp: unfold)
    qed
  qed
qed

lemma uint_MaxFrameSize: "uint MaxFrameSize = 16777216"
  by (simp add: MaxFrameSize_def)

lemma snapshot_data_ok:
  assumes "Snapshot_Validate s = None"
  shows "\<forall>x\<in>set (slots s). data_ok x"
proof -
  have i: "data_ok i" if "image_option_Validate i = None" for i
    using that by (auto simp: image_option_Validate_def Image_Validate_def data_ok_def split: option.splits)
  have "image_option_Validate (n_Image n) = None" if "Notification_Validate n = None" for n
    using that by (simp add: Notification_Validate_def)
  moreover have "image_option_Validate (h_Image e) = None" if "HistoryEntry_Validate e = None" for e
    using that by (simp add: HistoryEntry_Validate_def)
  ultimately show ?thesis using assms i by (auto simp: Snapshot_Validate_def slots_def)
qed


definition ex_wire_snapshot :: Snapshot where
  "ex_wire_snapshot = \<lparr>snap_Sequence = 7, snap_Active = [], snap_Lifetimes = [], snap_History = []\<rparr>"

lemma ex_wire_valid: "Snapshot_Validate ex_wire_snapshot = None"
  by (simp add: ex_wire_snapshot_def Snapshot_Validate_def)

lemma ex_wire_frame: "\<exists>f. snapshot_frame tj (drop_oldest 0 ex_wire_snapshot) = Some f \<and> length f \<le> 1000"
  using length_json_string [of "''snapshot''"] length_dec_le [of 7 1]
  by (simp add: ex_wire_snapshot_def drop_oldest_def with_slots_def slots_def snapshot_frame_eq frame_around_def length_json_object
      length_json_field string_field_def dec_field_omit_def dec_field_def json_nil_array_def length_json_array)


subsection \<open>Snapshots that fit no frame\<close>

definition big_text :: string where
  "big_text = replicate 16384 (CHR ''<'')"

definition big_notification :: "u32 \<Rightarrow> Notification" where
  "big_notification i = \<lparr>n_ID = i, n_AppName = [], n_AppIcon = [], n_DesktopEntry = [], n_Summary = big_text, n_Body = big_text,
     n_Actions = [], n_Urgency = 1, n_Category = [], n_Timestamp = 5, n_ExpireTimeoutMS = 0, n_Image = None, n_Value = None,
     n_InlineReply = False, n_ReplyPlaceholder = [], n_SenderLineage = []\<rparr>"

definition full_snapshot :: Snapshot where
  "full_snapshot = \<lparr>snap_Sequence = 128, snap_Active = map (\<lambda>i. big_notification (of_nat (Suc i))) [0..<128],
     snap_Lifetimes = map (\<lambda>i. \<lparr>l_ID = of_nat (Suc i), l_DurationMS = 0, l_RemainingMS = 0, l_Running = False\<rparr>) [0..<128],
     snap_History = []\<rparr>"

lemma length_escape_big: "length (json_escape (replicate n (CHR ''<''))) = 6 * n"
proof (induction n)
  case (Suc n)
  have "json_escape (replicate (Suc n) (CHR ''<'')) = escape_ascii (CHR ''<'') @ json_escape (replicate n (CHR ''<''))"
    by (subst json_escape.simps) simp
  with Suc show ?case by (simp add: escape_ascii_def Let_def)
qed simp

lemma big_notification_size:
  assumes "marshal_Notification (\<lambda>_. Some ts) (big_notification i) = Some x"
  shows "196608 \<le> length x"
  using assms length_escape_big [of 16384]
  by (auto simp: marshal_Notification_def notification_head_def big_notification_def length_json_object string_field_def
      string_field_omit_def length_json_field json_string_def big_text_def)

lemma big_notification_valid: "i \<noteq> 0 \<Longrightarrow> Notification_Validate (big_notification i) = None"
  by (simp add: Notification_Validate_def big_notification_def validateText_def big_text_def utf8_ascii limit_defs Urgency_valid_def
      UrgencyCritical_def time_IsZero_def image_option_Validate_def value_in_range_def)

lemma unat_small: "i < 128 \<Longrightarrow> unat (of_nat (Suc i) :: u32) = Suc i"
  by (simp add: unat_of_nat del: of_nat_Suc)

lemma full_snapshot_valid: "Snapshot_Validate full_snapshot = None"
proof -
  let ?ids = "map (\<lambda>i. of_nat (Suc i) :: u32) [0..<128]"
  have d: "distinct ?ids"
    by (auto simp: distinct_map inj_on_def simp del: of_nat_Suc) (metis Suc_inject unat_small)
  have nz: "(of_nat (Suc i) :: u32) \<noteq> 0" if "i < 128" for i using unat_small [OF that] by (metis nat.distinct(1) unat_0)
  have ids: "map n_ID (snap_Active full_snapshot) = ?ids" "map l_ID (snap_Lifetimes full_snapshot) = ?ids"
    by (simp_all add: full_snapshot_def big_notification_def comp_def del: of_nat_Suc upt_Suc upt_conv_Cons_Cons upt_rec_numeral)
  have v: "\<forall>n\<in>set (snap_Active full_snapshot). Notification_Validate n = None"
    using big_notification_valid [OF nz] by (auto simp: full_snapshot_def simp del: of_nat_Suc upt_rec_numeral)
  have l: "\<forall>l\<in>set (snap_Lifetimes full_snapshot). Lifetime_Validate l = None"
    using nz by (auto simp: full_snapshot_def Lifetime_Validate_def simp del: of_nat_Suc upt_rec_numeral)
  have n: "length (snap_Active full_snapshot) = 128" "length (snap_Lifetimes full_snapshot) = 128" "snap_History full_snapshot = []"
    by (simp_all add: full_snapshot_def del: upt_rec_numeral)
  have "validate_lifetimes (map n_ID (snap_Active full_snapshot)) (snap_Lifetimes full_snapshot) = None"
    by (rule validate_lifetimes_ok [OF l]) (simp_all only: ids d)
  then show ?thesis
    using v d n ids by (simp add: Snapshot_Validate_def MaxActiveNotifications_def del: of_nat_Suc upt_rec_numeral)
qed

lemma sum_list_ge: "(\<And>x. x \<in> set xs \<Longrightarrow> c \<le> length x) \<Longrightarrow> length xs * c \<le> (\<Sum>x\<leftarrow>xs. length x)"
  by (induction xs) (simp_all add: add_mono)

lemma those_members: "those (map f xs) = Some ys \<Longrightarrow> length ys = length xs \<and> (\<forall>y\<in>set ys. \<exists>x\<in>set xs. f x = Some y)"
  by (induction xs arbitrary: ys) (simp, fastforce split: option.splits)

text \<open>
  C23: There are valid snapshots that fit no frame, with or without images: 128 notifications whose summaries and bodies
  are as long as senders may make them and consist of characters that JSON escapes. No presenter can connect
  while they are shown, although the framing is meant to give up images until the snapshot fits, so that the
  records still arrive.
\<close>

theorem full_snapshot_has_no_frame:
  "Snapshot_Validate full_snapshot = None \<and>
   marshalSnapshot (\<lambda>_. Some ts) full_snapshot = Inl (Err ''presenter: snapshot exceeds frame size without images'')"
proof -
  let ?tj = "\<lambda>_. Some ts"
  have w: "without_images full_snapshot = full_snapshot"
    by (simp add: without_images_def full_snapshot_def big_notification_def comp_def del: of_nat_Suc upt_rec_numeral)
  obtain f where f: "snapshot_frame ?tj full_snapshot = Some f"
    using snapshot_frame_None [of ?tj full_snapshot] by (cases "snapshot_frame ?tj full_snapshot") auto
  then obtain xs where xs: "those (map (marshal_Notification ?tj) (snap_Active full_snapshot)) = Some xs"
    "f = frame_around full_snapshot xs []"
    by (auto simp: snapshot_frame_eq bind_eq_Some_conv full_snapshot_def simp del: of_nat_Suc upt_rec_numeral)
  have "length xs = 128 \<and> (\<forall>x\<in>set xs. 196608 \<le> length x)"
    using those_members [OF xs(1)] big_notification_size
    by (fastforce simp: full_snapshot_def simp del: of_nat_Suc upt_rec_numeral)
  then have "128 * 196608 \<le> (\<Sum>x\<leftarrow>xs. length x)" using sum_list_ge [of xs 196608] by auto
  also have "\<dots> \<le> length f"
    by (simp add: xs(2) frame_around_def length_json_object length_json_field json_nil_array_def length_json_array)
  finally have "uint MaxFrameSize < int (length f)" by (simp add: uint_MaxFrameSize)
  moreover have "marshalEnvelope ''snapshot'' 0 (snap_Sequence full_snapshot) (marshal_Snapshot ?tj full_snapshot) = Some f"
    using f by (simp add: snapshot_frame_def)
  ultimately show ?thesis
    using full_snapshot_valid w
    by (simp add: marshalSnapshot_def marshalSnapshotWithin_def marshalSnapshotWithinCost_def Let_def)
qed

end
