(* ===== verification/PresenterServer.thy ===== *)
theory PresenterServer
  imports Connection Wire OwnerGenerations
begin

text \<open>
  The presenter server (\<open>internal/presenter/server.go\<close>): publishing the owner's events to the connection in its
  handshake and to the current one, asking for a new snapshot when a slow reader has fallen behind, the stages
  of a connection's handler from the accept to its end, and closing.

  Connections live in a store (\<open>ps_heap\<close>) under the numbers of their handlers, because the server and several
  goroutines share them. A step relation interleaves the handlers, the owner goroutine, the goroutines that ask
  for a snapshot, the readers and writers of the connections, and \<open>Close\<close>. The owner publishes its events while
  it serves a request, one call of \<open>Publish\<close> after the other; \<open>w_todo\<close> holds those still to come, and the owner
  takes no request before they are published.
\<close>

subsection \<open>State (server.go)\<close>

record presenterServer =
  ps_current :: "nat option"
  ps_preparing :: "nat option"
  ps_nextGen :: u64
  ps_closing :: bool
  ps_conns :: "nat list"
  ps_heap :: "nat \<Rightarrow> connection"
  ps_resyncs :: "u64 list"

definition NewPresenter :: presenterServer where
  "NewPresenter = \<lparr>ps_current = None, ps_preparing = None, ps_nextGen = 0, ps_closing = False, ps_conns = [],
     ps_heap = (\<lambda>_. newConnection 0), ps_resyncs = []\<rparr>"

definition put :: "nat \<Rightarrow> connection \<Rightarrow> presenterServer \<Rightarrow> presenterServer" where
  "put i c s = s\<lparr>ps_heap := (ps_heap s)(i := c)\<rparr>"

subsection \<open>Publishing (server.go)\<close>

definition publishSnapshot :: "time_encoder \<Rightarrow> u64 \<Rightarrow> Snapshot \<Rightarrow> presenterServer \<Rightarrow> bool \<times> presenterServer" where
  "publishSnapshot tj generation snap s =
     (case marshalSnapshot tj snap of
        Inl e \<Rightarrow> (False, s)
      | Inr frame \<Rightarrow>
          (case ps_current s of
             None \<Rightarrow> (True, s)
           | Some i \<Rightarrow>
               if generation \<noteq> 0 \<and> c_generation (ps_heap s i) \<noteq> generation then (True, s)
               else (let (ok, c) = enqueueSnapshot frame (snap_Sequence snap) (ps_heap s i) in (ok, put i c s))))"

definition prepare_delta :: "outbound \<Rightarrow> presenterServer \<Rightarrow> bool \<times> presenterServer" where
  "prepare_delta m s =
     (case ps_preparing s of
        None \<Rightarrow> (True, s)
      | Some i \<Rightarrow> (let (ok, c) = prepare m (ps_heap s i) in (ok, put i c s)))"

definition publish_delta :: "outbound \<Rightarrow> presenterServer \<Rightarrow> bool \<times> presenterServer" where
  "publish_delta m s =
     (case ps_current s of
        None \<Rightarrow> (True, s)
      | Some i \<Rightarrow>
          (let (ok, resync, c) = enqueueDelta m (ps_heap s i); t = put i c s in
           (ok, if resync \<and> \<not> ps_closing s then t\<lparr>ps_resyncs := ps_resyncs t @ [c_generation c]\<rparr> else t)))"

definition presenter_Publish :: "time_encoder \<Rightarrow> Event \<Rightarrow> presenterServer \<Rightarrow> bool \<times> presenterServer" where
  "presenter_Publish tj ev s =
     (case ev_Snapshot ev of
        Some snap \<Rightarrow> publishSnapshot tj (ev_Generation ev) snap s
      | None \<Rightarrow>
          (case ev_Delta ev of
             None \<Rightarrow> (True, s)
           | Some d \<Rightarrow>
               if ev_Sequence ev = 0 \<or> Delta_Validate d \<noteq> None then (False, s)
               else
                 (case marshalEnvelope (delta_kind_text (d_Kind d)) 0 (ev_Sequence ev) (marshal_Delta tj d) of
                    None \<Rightarrow> (False, s)
                  | Some payload \<Rightarrow>
                      (let m = \<lparr>ob_data = payload, ob_sequence = ev_Sequence ev\<rparr>;
                           (prepared, s1) = prepare_delta m s;
                           (published, s2) = publish_delta m s1
                       in (prepared \<and> published, s2)))))"

text \<open>\<open>ps_resyncs\<close> are the goroutines of \<open>requestResync\<close> that have yet to ask the owner; one of them asks.\<close>

definition resyncAsked :: "u64 \<Rightarrow> presenterServer \<Rightarrow> presenterServer" where
  "resyncAsked generation s = s\<lparr>ps_resyncs := remove1 generation (ps_resyncs s)\<rparr>"

text \<open>The end of \<open>requestResync\<close> when the owner has refused: the connection is given up.\<close>

definition resyncRefused :: "u64 \<Rightarrow> presenterServer \<Rightarrow> presenterServer" where
  "resyncRefused generation s =
     (case ps_current s of
        None \<Rightarrow> s
      | Some i \<Rightarrow> if c_generation (ps_heap s i) = generation then put i (fail (ps_heap s i)) s else s)"

subsection \<open>The stages of a handler (server.go, handle)\<close>

text \<open>The result says whether the handler goes on.\<close>

definition handle_register :: "nat \<Rightarrow> presenterServer \<Rightarrow> bool \<times> presenterServer" where
  "handle_register i s =
     (if ps_closing s then (False, s) else (True, put i (newConnection 0) (s\<lparr>ps_conns := i # ps_conns s\<rparr>)))"

definition nextGeneration :: "u64 \<Rightarrow> u64" where
  "nextGeneration g = (if g + 1 = 0 then g + 1 + 1 else g + 1)"

definition handle_prepare :: "bool \<Rightarrow> nat \<Rightarrow> presenterServer \<Rightarrow> bool \<times> presenterServer" where
  "handle_prepare producer i s =
     (let s1 = put i ((ps_heap s i)\<lparr>c_producer := producer\<rparr>) s in
      if ps_closing s \<or> ps_preparing s \<noteq> None then (False, s1)
      else
        (let g = nextGeneration (ps_nextGen s) in
         (True, put i ((ps_heap s1 i)\<lparr>c_generation := g\<rparr>) (s1\<lparr>ps_nextGen := g, ps_preparing := Some i\<rparr>))))"

text \<open>The handler goes on with a snapshot that is valid and has a frame; it keeps the frame to write it after the hand-over.\<close>

definition handle_snapshot :: "time_encoder \<Rightarrow> Snapshot \<Rightarrow> (u64 \<times> bytes) option" where
  "handle_snapshot tj sn =
     (if Snapshot_Validate sn \<noteq> None then None
      else case marshalSnapshot tj sn of Inl e \<Rightarrow> None | Inr frame \<Rightarrow> Some (snap_Sequence sn, frame))"

definition handle_activate :: "u64 \<Rightarrow> nat \<Rightarrow> presenterServer \<Rightarrow> bool \<times> presenterServer" where
  "handle_activate sequence i s =
     (if ps_closing s \<or> ps_preparing s \<noteq> Some i
      then (False, if ps_preparing s = Some i then s\<lparr>ps_preparing := None\<rparr> else s)
      else
        (let (ok, c) = activate sequence (ps_heap s i); s1 = put i c s in
         (ok, if ok then s1\<lparr>ps_current := Some i, ps_preparing := None\<rparr> else s1\<lparr>ps_preparing := None\<rparr>)))"

definition handle_retire :: "nat option \<Rightarrow> presenterServer \<Rightarrow> u64 \<times> presenterServer" where
  "handle_retire old s =
     (case old of
        None \<Rightarrow> (0, s)
      | Some o' \<Rightarrow> (c_generation (ps_heap s o'), put o' (fail (ps_heap s o')) s))"

definition presenterLostCommand :: "u64 \<Rightarrow> u64 \<Rightarrow> StateCommand" where
  "presenterLostCommand generation nextGeneration' =
     zero_StateCommand\<lparr>sc_Kind := KPresenterLost, sc_Generation := generation, sc_NextGeneration := nextGeneration'\<rparr>"

definition resyncCommand :: "u64 \<Rightarrow> StateCommand" where
  "resyncCommand generation = zero_StateCommand\<lparr>sc_Kind := KPresenterResync, sc_Generation := generation\<rparr>"

definition connectionDone :: "nat \<Rightarrow> presenterServer \<Rightarrow> bool \<times> presenterServer" where
  "connectionDone i s =
     (ps_current s = Some i,
      s\<lparr>ps_conns := removeAll i (ps_conns s),
        ps_current := (if ps_current s = Some i then None else ps_current s),
        ps_preparing := (if ps_preparing s = Some i then None else ps_preparing s)\<rparr>)"

definition presenter_Close :: "presenterServer \<Rightarrow> presenterServer" where
  "presenter_Close s = s\<lparr>ps_closing := True, ps_heap := (\<lambda>i. if i \<in> set (ps_conns s) then fail (ps_heap s i) else ps_heap s i)\<rparr>"

subsection \<open>Interleaving\<close>

datatype stage =
    Absent | Handshake | Prepared | Snapshotted u64 | Swapped "nat option" | Retired u64 | Serving
  | Ending | Finishing u64 | Gone

definition live :: "stage \<Rightarrow> bool" where
  "live st = (case st of Absent \<Rightarrow> False | Gone \<Rightarrow> False | Finishing g \<Rightarrow> False | _ \<Rightarrow> True)"

text \<open>
  \<open>w_frame\<close> is the local variable \<open>snapshotFrame\<close> of each handler. \<open>w_refused\<close> are the calls of \<open>requestResync\<close> that have got an error
  from the owner and have yet to give up their connection.
\<close>

record world =
  w_server :: presenterServer
  w_owner :: ownerState
  w_todo :: "Event list"
  w_stage :: "nat \<Rightarrow> stage"
  w_frame :: "nat \<Rightarrow> bytes"
  w_refused :: "u64 list"

abbreviation at_stage :: "nat \<Rightarrow> stage \<Rightarrow> world \<Rightarrow> world" where
  "at_stage i st w \<equiv> w\<lparr>w_stage := (w_stage w)(i := st)\<rparr>"

text \<open>The owner serves a request: it publishes what is new among its events.\<close>

definition owner_serves_request :: "request \<Rightarrow> world \<Rightarrow> world \<Rightarrow> bool" where
  "owner_serves_request q w w' \<longleftrightarrow> w_todo w = [] \<and> request_ok q \<and> ready q (w_owner w) \<and>
     (\<exists>s. serve q (w_owner w) = Some s \<and>
        w' = w\<lparr>w_owner := s, w_todo := drop (length (os_events (w_owner w))) (os_events s)\<rparr>)"

text \<open>
  What the reader and the writer of a connection do to it, once the handler has written its snapshot and started them:
  the writer takes its turns, and the reader queues replies, whose wake-up may come late, and notes request IDs.
\<close>

definition connection_moves :: "connection \<Rightarrow> connection \<Rightarrow> bool" where
  "connection_moves c c' \<longleftrightarrow> c_writer c \<noteq> Unstarted \<and>
     (write_step c c' \<or> (\<exists>m b. ob_sequence m = 0 \<and> enqueue m c = Some (b, c')) \<or>
      c' = c\<lparr>c_wake := True\<rparr> \<or> (\<exists>q. c' = c\<lparr>c_lastRequestID := q\<rparr>))"

text \<open>A snapshot that cannot be published is an error of the command that asked for it.\<close>

definition resyncErrors :: "time_encoder \<Rightarrow> Event \<Rightarrow> presenterServer \<Rightarrow> u64 list" where
  "resyncErrors tj ev s = (if ev_Snapshot ev = None \<or> fst (presenter_Publish tj ev s) then [] else [ev_Generation ev])"

inductive presenter_step :: "time_encoder \<Rightarrow> world \<Rightarrow> world \<Rightarrow> bool" for tj where
  request: "owner_serves_request q w w' \<Longrightarrow> presenter_step tj w w'"
| deliver: "w_todo w = ev # evs \<Longrightarrow>
    presenter_step tj w (w\<lparr>w_todo := evs, w_server := snd (presenter_Publish tj ev (w_server w)),
      w_refused := w_refused w @ resyncErrors tj ev (w_server w)\<rparr>)"
| resync: "g \<in> set (ps_resyncs (w_server w)) \<Longrightarrow>
    owner_serves_request (CommandRequest (resyncCommand g)) (w\<lparr>w_server := resyncAsked g (w_server w)\<rparr>) w' \<Longrightarrow>
    presenter_step tj w w'"
| resync_refused: "g \<in> set (w_refused w) \<Longrightarrow>
    presenter_step tj w (w\<lparr>w_server := resyncRefused g (w_server w), w_refused := remove1 g (w_refused w)\<rparr>)"
| resync_closed: "g \<in> set (ps_resyncs (w_server w)) \<Longrightarrow>
    presenter_step tj w (w\<lparr>w_server := resyncRefused g (resyncAsked g (w_server w))\<rparr>)"
| accept: "w_stage w i = Absent \<Longrightarrow> handle_register i (w_server w) = (ok, s) \<Longrightarrow>
    presenter_step tj w (at_stage i (if ok then Handshake else Gone) (w\<lparr>w_server := s\<rparr>))"
| hello: "w_stage w i = Handshake \<Longrightarrow> handle_prepare producer i (w_server w) = (ok, s) \<Longrightarrow>
    presenter_step tj w (at_stage i (if ok then Prepared else Ending) (w\<lparr>w_server := s\<rparr>))"
| snapshot: "w_stage w i = Prepared \<Longrightarrow> owner_serves_request SnapshotRequest w w' \<Longrightarrow>
    snapshot (w_owner w) = Some (sn, s) \<Longrightarrow> handle_snapshot tj sn = Some (q, frame) \<Longrightarrow>
    presenter_step tj w (at_stage i (Snapshotted q) (w'\<lparr>w_frame := (w_frame w)(i := frame)\<rparr>))"
| no_frame: "w_stage w i = Prepared \<Longrightarrow> owner_serves_request SnapshotRequest w w' \<Longrightarrow>
    snapshot (w_owner w) = Some (sn, s) \<Longrightarrow> handle_snapshot tj sn = None \<Longrightarrow>
    presenter_step tj w (at_stage i Ending w')"
| swap: "w_stage w i = Snapshotted q \<Longrightarrow> handle_activate q i (w_server w) = (ok, s) \<Longrightarrow>
    presenter_step tj w (at_stage i (if ok then Swapped (ps_current (w_server w)) else Ending) (w\<lparr>w_server := s\<rparr>))"
| retire: "w_stage w i = Swapped old \<Longrightarrow> handle_retire old (w_server w) = (g, s) \<Longrightarrow>
    presenter_step tj w (at_stage i (Retired g) (w\<lparr>w_server := s\<rparr>))"
| bind: "w_stage w i = Retired g \<Longrightarrow>
    owner_serves_request (CommandRequest (presenterLostCommand g (c_generation (ps_heap (w_server w) i)))) w w' \<Longrightarrow>
    presenter_step tj w (at_stage i Serving w')"
| greet: "w_stage w i = Serving \<Longrightarrow> c_writer (ps_heap (w_server w) i) = Unstarted \<Longrightarrow>
    presenter_step tj w (w\<lparr>w_server := put i (greet (w_frame w i) (ps_heap (w_server w) i)) (w_server w)\<rparr>)"
| move: "w_stage w i = Serving \<Longrightarrow> connection_moves (ps_heap (w_server w) i) c \<Longrightarrow>
    presenter_step tj w (w\<lparr>w_server := put i c (w_server w)\<rparr>)"
| failure: "live (w_stage w i) \<Longrightarrow> presenter_step tj w (w\<lparr>w_server := put i (fail (ps_heap (w_server w) i)) (w_server w)\<rparr>)"
| give_up: "w_stage w i \<in> {Handshake, Prepared, Serving} \<union> range Snapshotted \<Longrightarrow>
    presenter_step tj w (at_stage i Ending w)"
| finish: "w_stage w i = Ending \<Longrightarrow> s = put i (fail (ps_heap (w_server w) i)) (w_server w) \<Longrightarrow> connectionDone i s = (wasCurrent, t) \<Longrightarrow>
    presenter_step tj w (at_stage i (if wasCurrent then Finishing (c_generation (ps_heap s i)) else Gone) (w\<lparr>w_server := t\<rparr>))"
| lost: "w_stage w i = Finishing g \<Longrightarrow> owner_serves_request (CommandRequest (presenterLostCommand g 0)) w w' \<Longrightarrow>
    presenter_step tj w (at_stage i Gone w')"
| close: "presenter_step tj w (w\<lparr>w_server := presenter_Close (w_server w)\<rparr>)"

definition presenter_initial :: "world \<Rightarrow> bool" where
  "presenter_initial w \<longleftrightarrow> w_server w = NewPresenter \<and> owner_initial (w_owner w) \<and> w_todo w = [] \<and> w_stage w = (\<lambda>_. Absent) \<and> w_refused w = []"

subsection \<open>What the operations of a connection keep\<close>

definition keeps :: "connection \<Rightarrow> connection \<Rightarrow> bool" where
  "keeps c c' \<longleftrightarrow> c_generation c' = c_generation c \<and> (c_failed c \<longrightarrow> c_failed c')"

lemma keeps_refl [simp]: "keeps c c"
  by (simp add: keeps_def)

lemma keeps_fail [simp]: "keeps c (fail c)"
  by (simp add: keeps_def fail_def)

lemma keeps_prepare: "keeps c (snd (prepare m c))"
  by (auto simp: keeps_def prepare_def fail_def reserve_def split: option.splits)

lemma keeps_enqueueDelta: "keeps c (snd (snd (enqueueDelta m c)))"
  by (auto simp: keeps_def enqueueDelta_def fail_def reserve_def reserveTail_def release_def beginResyncLocked_def Let_def
      split: option.splits)

lemma keeps_enqueueSnapshot: "keeps c (snd (enqueueSnapshot frame q c))"
  by (simp add: keeps_def enqueueSnapshot_def)

lemma keeps_activate: "keeps c (snd (activate q c))"
proof -
  have l: "c_generation (snd (activate_loop q ms d)) = c_generation d \<and> (c_failed d \<longrightarrow> c_failed (snd (activate_loop q ms d)))" for ms d
    by (induction q ms d rule: activate_loop.induct) (auto simp: release_def fail_def)
  show ?thesis using l [of "c_pending c" "c\<lparr>c_lastSequence := q, c_base := q\<rparr>"]
    by (auto simp: keeps_def activate_def Let_def split: prod.splits)
qed

lemma keeps_greet: "keeps c (greet frame c)"
  by (simp add: keeps_def greet_def)

lemma keeps_enqueue: "enqueue m c = Some (b, c') \<Longrightarrow> keeps c c'"
  by (auto simp: keeps_def enqueue_def fail_def reserve_def release_def Let_def split: option.splits if_splits)

lemma keeps_write_step: "write_step c c' \<Longrightarrow> keeps c c'"
  by (erule write_step.cases) (auto simp: keeps_def fail_def release_def takeReply_def takeResync_Some)

lemma keeps_moves:
  assumes "connection_moves c c'"
  shows "keeps c c'"
proof -
  have "keeps c (c\<lparr>c_wake := True\<rparr>)" "keeps c (c\<lparr>c_lastRequestID := q\<rparr>)" for q by (simp_all add: keeps_def)
  with assms keeps_write_step keeps_enqueue show ?thesis unfolding connection_moves_def by blast
qed

definition similar :: "presenterServer \<Rightarrow> presenterServer \<Rightarrow> bool" where
  "similar s t \<longleftrightarrow> ps_current t = ps_current s \<and> ps_preparing t = ps_preparing s \<and> ps_closing t = ps_closing s \<and>
     ps_conns t = ps_conns s \<and> (\<forall>i. keeps (ps_heap s i) (ps_heap t i))"

lemma similar_refl [simp]: "similar s s"
  by (simp add: similar_def)

lemma similar_trans: "similar s t \<Longrightarrow> similar t u \<Longrightarrow> similar s u"
  unfolding similar_def keeps_def by auto

lemma similar_put: "keeps (ps_heap s i) c \<Longrightarrow> similar s (put i c s)"
  by (simp add: similar_def put_def)

lemma similar_prepare_delta: "similar s (snd (prepare_delta m s))"
  using keeps_prepare [of "ps_heap s _" m] by (auto simp: prepare_delta_def Let_def intro!: similar_put split: option.splits prod.splits) (metis snd_conv)

lemma similar_publish_delta: "similar s (snd (publish_delta m s))"
proof (cases "ps_current s")
  case (Some i)
  let ?c = "snd (snd (enqueueDelta m (ps_heap s i)))"
  have "similar s (put i ?c s)" by (rule similar_put [OF keeps_enqueueDelta])
  moreover have "similar s (t\<lparr>ps_resyncs := gs\<rparr>)" if "similar s t" for t gs using that by (simp add: similar_def)
  ultimately show ?thesis using Some by (cases "enqueueDelta m (ps_heap s i)") (simp add: publish_delta_def Let_def)
qed (simp add: publish_delta_def)

lemma similar_publishSnapshot: "similar s (snd (publishSnapshot tj g snap s))"
proof -
  have "similar s (snd (let (ok, c) = enqueueSnapshot frame q (ps_heap s i) in (ok, put i c s)))" for frame q i
    using similar_put [OF keeps_enqueueSnapshot [of "ps_heap s i" frame q]] by (cases "enqueueSnapshot frame q (ps_heap s i)") simp
  then show ?thesis by (simp add: publishSnapshot_def split: sum.split option.split)
qed

lemma similar_Publish: "similar s (snd (presenter_Publish tj ev s))"
proof -
  have "similar s (snd (let (prepared, s1) = prepare_delta m s; (published, s2) = publish_delta m s1 in (prepared \<and> published, s2)))" for m
    using similar_trans [OF similar_prepare_delta similar_publish_delta] by (simp add: Let_def split: prod.split) (metis snd_conv)
  then show ?thesis
    using similar_publishSnapshot by (simp add: presenter_Publish_def Let_def split: option.split)
qed

lemma similar_resyncRefused: "similar s (resyncRefused g s)"
  by (auto simp: resyncRefused_def intro: similar_put split: option.split)

subsection \<open>The invariant\<close>

text \<open>
  The handlers and the registrations of the server agree: the registered connections are those of the handlers that
  have not ended, the current and the preparing connection are two of them, and only a handler between its hello
  and its hand-over holds the place of the preparing one. A handler that serves commands has bound its generation,
  and once the server is closing every registered connection has failed.
\<close>

definition may_be_current :: "stage \<Rightarrow> bool" where
  "may_be_current st = (case st of Swapped old \<Rightarrow> True | Retired g \<Rightarrow> True | Serving \<Rightarrow> True | Ending \<Rightarrow> True | _ \<Rightarrow> False)"

definition is_preparing :: "stage \<Rightarrow> bool" where
  "is_preparing st = (case st of Prepared \<Rightarrow> True | Snapshotted q \<Rightarrow> True | _ \<Rightarrow> False)"

definition registry_ok :: "(nat \<Rightarrow> stage) \<Rightarrow> presenterServer \<Rightarrow> bool" where
  "registry_ok stg s \<longleftrightarrow> distinct (ps_conns s) \<and> (\<forall>i. i \<in> set (ps_conns s) \<longleftrightarrow> live (stg i)) \<and>
     (\<forall>i. ps_current s = Some i \<longrightarrow> may_be_current (stg i) \<and> ps_preparing s \<noteq> Some i) \<and>
     (\<forall>i. ps_preparing s = Some i \<longrightarrow> is_preparing (stg i) \<or> stg i = Ending) \<and>
     (\<forall>i. is_preparing (stg i) \<longrightarrow> ps_preparing s = Some i)"

definition bound_ok :: "(nat \<Rightarrow> stage) \<Rightarrow> presenterServer \<Rightarrow> ownerState \<Rightarrow> bool" where
  "bound_ok stg s o' \<longleftrightarrow> (\<forall>i. stg i = Serving \<longrightarrow> c_generation (ps_heap s i) \<le> os_acceptedGeneration o')"

definition closing_ok :: "presenterServer \<Rightarrow> bool" where
  "closing_ok s \<longleftrightarrow> (ps_closing s \<longrightarrow> (\<forall>i\<in>set (ps_conns s). c_failed (ps_heap s i)))"

definition world_ok :: "world \<Rightarrow> bool" where
  "world_ok w \<longleftrightarrow> owner_ok (w_owner w) \<and> registry_ok (w_stage w) (w_server w) \<and>
     bound_ok (w_stage w) (w_server w) (w_owner w) \<and> closing_ok (w_server w)"

lemma registry_similar: "similar s t \<Longrightarrow> registry_ok stg t = registry_ok stg s"
  by (simp add: similar_def registry_ok_def)

lemma bound_similar: "similar s t \<Longrightarrow> bound_ok stg s o' \<Longrightarrow> bound_ok stg t o'"
  by (simp add: similar_def bound_ok_def keeps_def)

lemma closing_similar: "similar s t \<Longrightarrow> closing_ok s \<Longrightarrow> closing_ok t"
  by (simp add: similar_def closing_ok_def keeps_def)

lemma world_similar: "world_ok w \<Longrightarrow> similar (w_server w) t \<Longrightarrow> world_ok (w\<lparr>w_server := t\<rparr>)"
  using registry_similar bound_similar closing_similar unfolding world_ok_def by auto

lemma world_todo [simp]: "world_ok (w\<lparr>w_todo := evs\<rparr>) = world_ok w" "world_ok (w\<lparr>w_frame := fs\<rparr>) = world_ok w" "world_ok (w\<lparr>w_refused := gs\<rparr>) = world_ok w"
  by (simp_all add: world_ok_def)

lemma accepted_mono:
  assumes "owner_ok s" "request_ok q" "serve q s = Some t"
  shows "os_acceptedGeneration s \<le> os_acceptedGeneration t"
  using gen_rank_serve [OF assms] by (simp add: gen_rank_def word_le_nat_alt split: if_splits)

lemma request_ok_world:
  assumes ok: "world_ok w" and q: "owner_serves_request q w w'"
  shows "world_ok w'" "os_acceptedGeneration (w_owner w) \<le> os_acceptedGeneration (w_owner w')"
    "w_server w' = w_server w" "w_stage w' = w_stage w"
proof -
  obtain s where s: "request_ok q" "ready q (w_owner w)" "serve q (w_owner w) = Some s"
    "w' = w\<lparr>w_owner := s, w_todo := drop (length (os_events (w_owner w))) (os_events s)\<rparr>"
    using q by (auto simp: owner_serves_request_def)
  have o: "owner_ok (w_owner w)" using ok by (simp add: world_ok_def)
  have "owner_turn (w_owner w) s" using s by (auto simp: owner_turn_def)
  then have o': "owner_ok s" using owner_machine.step_inv [OF o] by blast
  note m = accepted_mono [OF o s(1,3)]
  show "os_acceptedGeneration (w_owner w) \<le> os_acceptedGeneration (w_owner w')" "w_server w' = w_server w" "w_stage w' = w_stage w"
    using m s(4) by simp_all
  show "world_ok w'" using ok o' m s(4) by (auto simp: world_ok_def bound_ok_def intro: order_trans)
qed

lemma bind_accepts:
  assumes ok: "owner_ok s" and t: "serve (CommandRequest (presenterLostCommand g n)) s = Some t"
  shows "n \<le> os_acceptedGeneration t"
proof -
  let ?c = "presenterLostCommand g n"
  have k: "sc_Kind ?c = KPresenterLost" "sc_NextGeneration ?c = n" by (simp_all add: presenterLostCommand_def)
  obtain res u where u: "do_command ?c s = Some (res, u)" "resetTimer u = Some t"
    using t by (auto simp: serve_def bind_eq_Some_conv)
  have "presenterLost ?c (os_clock s (os_reads s)) (s\<lparr>os_reads := Suc (os_reads s)\<rparr>) = Some u"
    using u(1) k by (auto simp: do_command_def gatePresenter_def clock_Now_def dispatch_def)
  from gens_presenterLost [OF owner_ok_read [OF ok] this] k have "n \<le> os_acceptedGeneration u"
    by (auto simp: gens_def split: if_splits)
  then show ?thesis using gens_resetTimer [OF u(2)] by (simp add: gens_def)
qed

lemma stage_simps [simp]:
  "\<not> live Absent" "live Handshake" "live Prepared" "live (Snapshotted q)" "live (Swapped old)" "live (Retired g)" "live Serving"
  "live Ending" "\<not> live (Finishing g)" "\<not> live Gone"
  "\<not> may_be_current Absent" "\<not> may_be_current Handshake" "\<not> may_be_current Prepared" "\<not> may_be_current (Snapshotted q)"
  "may_be_current (Swapped old)" "may_be_current (Retired g)" "may_be_current Serving" "may_be_current Ending"
  "\<not> may_be_current (Finishing g)" "\<not> may_be_current Gone"
  "\<not> is_preparing Absent" "\<not> is_preparing Handshake" "is_preparing Prepared" "is_preparing (Snapshotted q)"
  "\<not> is_preparing (Swapped old)" "\<not> is_preparing (Retired g)" "\<not> is_preparing Serving" "\<not> is_preparing Ending"
  "\<not> is_preparing (Finishing g)" "\<not> is_preparing Gone"
  by (simp_all add: live_def may_be_current_def is_preparing_def)

text \<open>A handler moves to another stage and the registrations stay.\<close>

lemma registry_stage:
  assumes "registry_ok stg s" "live (stg i)" "live st" "may_be_current (stg i) \<longrightarrow> may_be_current st"
    "is_preparing st = is_preparing (stg i) \<or> st = Ending"
    "stg i = Ending \<longrightarrow> st = Ending"
  shows "registry_ok (stg(i := st)) s"
  using assms unfolding registry_ok_def by (auto split: if_splits)

lemma bound_stage: "bound_ok stg s o' \<Longrightarrow> (st = Serving \<longrightarrow> c_generation (ps_heap s i) \<le> os_acceptedGeneration o') \<Longrightarrow> bound_ok (stg(i := st)) s o'"
  by (simp add: bound_ok_def)

lemma world_stage:
  assumes "world_ok w" "live (w_stage w i)" "live st" "may_be_current (w_stage w i) \<longrightarrow> may_be_current st"
    "is_preparing st = is_preparing (w_stage w i) \<or> st = Ending" "w_stage w i = Ending \<longrightarrow> st = Ending"
    "st = Serving \<longrightarrow> c_generation (ps_heap (w_server w) i) \<le> os_acceptedGeneration (w_owner w)"
  shows "world_ok (at_stage i st w)"
  using assms registry_stage bound_stage unfolding world_ok_def by simp

lemma world_okI:
  "owner_ok (w_owner w) \<Longrightarrow> registry_ok (w_stage w) (w_server w) \<Longrightarrow> bound_ok (w_stage w) (w_server w) (w_owner w) \<Longrightarrow>
   closing_ok (w_server w) \<Longrightarrow> world_ok w"
  by (simp add: world_ok_def)

lemma world_okD:
  "world_ok w \<Longrightarrow> owner_ok (w_owner w)" "world_ok w \<Longrightarrow> registry_ok (w_stage w) (w_server w)"
  "world_ok w \<Longrightarrow> bound_ok (w_stage w) (w_server w) (w_owner w)" "world_ok w \<Longrightarrow> closing_ok (w_server w)"
  by (simp_all add: world_ok_def)

lemma registryD:
  assumes "registry_ok stg s"
  shows "distinct (ps_conns s)" "i \<in> set (ps_conns s) \<longleftrightarrow> live (stg i)" "ps_current s = Some i \<Longrightarrow> may_be_current (stg i)"
    "ps_current s = Some i \<Longrightarrow> ps_preparing s \<noteq> Some i" "ps_preparing s = Some i \<Longrightarrow> is_preparing (stg i) \<or> stg i = Ending"
    "is_preparing (stg i) \<Longrightarrow> ps_preparing s = Some i"
  using assms by (simp_all add: registry_ok_def)

lemma registryI:
  assumes "distinct (ps_conns s)" "\<And>i. i \<in> set (ps_conns s) \<longleftrightarrow> live (stg i)" "\<And>i. ps_current s = Some i \<Longrightarrow> may_be_current (stg i)"
    "\<And>i. ps_current s = Some i \<Longrightarrow> ps_preparing s \<noteq> Some i"
    "\<And>i. ps_preparing s = Some i \<Longrightarrow> is_preparing (stg i) \<or> stg i = Ending"
    "\<And>i. is_preparing (stg i) \<Longrightarrow> ps_preparing s = Some i"
  shows "registry_ok stg s"
  using assms by (simp add: registry_ok_def)

lemma accept_ok:
  assumes ok: "world_ok w" and st: "w_stage w i = Absent" and s: "handle_register i (w_server w) = (go, s)"
  shows "world_ok (at_stage i (if go then Handshake else Gone) (w\<lparr>w_server := s\<rparr>))"
proof -
  note r = registryD [OF world_okD(2) [OF ok]]
  have i: "i \<notin> set (ps_conns (w_server w))" "ps_current (w_server w) \<noteq> Some i" "ps_preparing (w_server w) \<noteq> Some i"
    using r(2,3,5) [of i] st by auto
  have f: "ps_current s = ps_current (w_server w)" "ps_preparing s = ps_preparing (w_server w)"
    "ps_conns s = (if go then i # ps_conns (w_server w) else ps_conns (w_server w))"
    using s by (auto simp: handle_register_def put_def split: if_splits)
  have "registry_ok ((w_stage w)(i := if go then Handshake else Gone)) s"
  proof (rule registryI)
    show "distinct (ps_conns s)" using f(3) r(1) i(1) by simp
    show "j \<in> set (ps_conns s) \<longleftrightarrow> live (((w_stage w)(i := if go then Handshake else Gone)) j)" for j
      using f(3) r(2) [of j] i(1) by auto
    show "may_be_current (((w_stage w)(i := if go then Handshake else Gone)) j)" "ps_preparing s \<noteq> Some j" if "ps_current s = Some j" for j
      using that f(1,2) i(2) r(3,4) [of j] by auto
    show "is_preparing (((w_stage w)(i := if go then Handshake else Gone)) j) \<or> ((w_stage w)(i := if go then Handshake else Gone)) j = Ending"
      if "ps_preparing s = Some j" for j using that f(2) i(3) r(5) [of j] by auto
    show "ps_preparing s = Some j" if "is_preparing (((w_stage w)(i := if go then Handshake else Gone)) j)" for j
      using that f(2) r(6) [of j] by (auto split: if_splits)
  qed
  moreover have "bound_ok ((w_stage w)(i := if go then Handshake else Gone)) s (w_owner w)"
    using s world_okD(3) [OF ok] by (auto simp: handle_register_def put_def bound_ok_def split: if_splits)
  moreover have "closing_ok s"
    using s world_okD(4) [OF ok] by (auto simp: handle_register_def put_def closing_ok_def split: if_splits)
  ultimately show ?thesis using world_okD(1) [OF ok] by (intro world_okI) simp_all
qed

lemma hello_ok:
  assumes ok: "world_ok w" and st: "w_stage w i = Handshake" and s: "handle_prepare producer i (w_server w) = (go, s)"
  shows "world_ok (at_stage i (if go then Prepared else Ending) (w\<lparr>w_server := s\<rparr>))"
proof -
  note r = registryD [OF world_okD(2) [OF ok]]
  have i: "ps_current (w_server w) \<noteq> Some i" using r(3) [of i] st by auto
  have f: "ps_current s = ps_current (w_server w)" "ps_conns s = ps_conns (w_server w)" "ps_closing s = ps_closing (w_server w)"
    "ps_preparing s = (if go then Some i else ps_preparing (w_server w))" "go \<longrightarrow> ps_preparing (w_server w) = None"
    "\<forall>j. j \<noteq> i \<longrightarrow> ps_heap s j = ps_heap (w_server w) j" "c_failed (ps_heap s i) = c_failed (ps_heap (w_server w) i)"
    using s by (auto simp: handle_prepare_def put_def Let_def split: if_splits)
  have "registry_ok ((w_stage w)(i := if go then Prepared else Ending)) s"
  proof (rule registryI)
    show "distinct (ps_conns s)" using f(2) r(1) by simp
    show "j \<in> set (ps_conns s) \<longleftrightarrow> live (((w_stage w)(i := if go then Prepared else Ending)) j)" for j
      using f(2) r(2) [of j] st by auto
    show "may_be_current (((w_stage w)(i := if go then Prepared else Ending)) j)" "ps_preparing s \<noteq> Some j" if "ps_current s = Some j" for j
      using that f(1,4) i r(3,4) [of j] by auto
    show "is_preparing (((w_stage w)(i := if go then Prepared else Ending)) j) \<or> ((w_stage w)(i := if go then Prepared else Ending)) j = Ending"
      if "ps_preparing s = Some j" for j using that f(4) r(5) [of j] by (auto split: if_splits)
    show "ps_preparing s = Some j" if "is_preparing (((w_stage w)(i := if go then Prepared else Ending)) j)" for j
      using that f(4,5) r(6) [of j] by (auto split: if_splits)
  qed
  moreover have "bound_ok ((w_stage w)(i := if go then Prepared else Ending)) s (w_owner w)"
    using f(6) world_okD(3) [OF ok] by (simp add: bound_ok_def)
  moreover have "closing_ok s" using f(2,3,6,7) world_okD(4) [OF ok] by (auto simp: closing_ok_def)
  ultimately show ?thesis using world_okD(1) [OF ok] by (intro world_okI) simp_all
qed

lemma swap_ok:
  assumes ok: "world_ok w" and st: "w_stage w i = Snapshotted q" and a: "handle_activate q i (w_server w) = (go, s)"
  shows "world_ok (at_stage i (if go then Swapped (ps_current (w_server w)) else Ending) (w\<lparr>w_server := s\<rparr>))"
proof -
  let ?s = "w_server w"
  let ?t = "put i (snd (activate q (ps_heap ?s i))) ?s"
  have p: "ps_preparing ?s = Some i" using ok st by (simp add: world_ok_def registry_ok_def)
  have t: "similar ?s ?t" by (rule similar_put [OF keeps_activate])
  have "similar ?s u \<Longrightarrow> world_ok (w\<lparr>w_server := u\<rparr>)" for u using world_similar [OF ok] .
  note w1 = this [OF t] and w0 = this [OF similar_refl]
  show ?thesis
  proof (cases "ps_closing ?s")
    case True
    then have "go = False" "s = ?s\<lparr>ps_preparing := None\<rparr>" using a p by (auto simp: handle_activate_def)
    with w0 st p show ?thesis by (auto simp: world_ok_def registry_ok_def bound_ok_def closing_ok_def)
  next
    case False
    then have "go = fst (activate q (ps_heap ?s i))"
      "s = (if go then ?t\<lparr>ps_current := Some i, ps_preparing := None\<rparr> else ?t\<lparr>ps_preparing := None\<rparr>)"
      using a p by (auto simp: handle_activate_def Let_def split: prod.splits)
    moreover have "ps_preparing ?t = Some i" "ps_current ?t = ps_current ?s" using p by (simp_all add: put_def)
    ultimately show ?thesis using w1 st by (auto simp: world_ok_def registry_ok_def bound_ok_def closing_ok_def)
  qed
qed

lemma finish_ok:
  assumes ok: "world_ok w" and st: "w_stage w i = Ending" and s: "s = put i (fail (ps_heap (w_server w) i)) (w_server w)"
    and d: "connectionDone i s = (wasCurrent, t)"
  shows "world_ok (at_stage i (if wasCurrent then Finishing (c_generation (ps_heap s i)) else Gone) (w\<lparr>w_server := t\<rparr>))"
proof -
  have w1: "world_ok (w\<lparr>w_server := s\<rparr>)" unfolding s by (rule world_similar [OF ok similar_put [OF keeps_fail]])
  have t: "t = s\<lparr>ps_conns := removeAll i (ps_conns s), ps_current := (if ps_current s = Some i then None else ps_current s),
      ps_preparing := (if ps_preparing s = Some i then None else ps_preparing s)\<rparr>"
    using d unfolding connectionDone_def by blast
  show ?thesis
    using w1 st unfolding t
    by (auto simp: world_ok_def registry_ok_def bound_ok_def closing_ok_def distinct_removeAll split: if_splits)
qed

lemma presenter_close_ok: "world_ok w \<Longrightarrow> world_ok (w\<lparr>w_server := presenter_Close (w_server w)\<rparr>)"
  by (auto simp: world_ok_def presenter_Close_def registry_ok_def bound_ok_def closing_ok_def fail_def)

lemma presenter_step_ok:
  assumes "world_ok w" "presenter_step tj w w'"
  shows "world_ok w'"
  using assms(2)
proof cases
  case (request q)
  then show ?thesis using request_ok_world(1) [OF assms(1)] by blast
next
  case (deliver ev evs)
  have "world_ok (w\<lparr>w_server := snd (presenter_Publish tj ev (w_server w)), w_todo := evs\<rparr>)"
    using world_similar [OF assms(1) similar_Publish] by simp
  then show ?thesis unfolding deliver(1) by (simp add: world_ok_def)
next
  case (resync g)
  have "similar (w_server w) (resyncAsked g (w_server w))" by (simp add: similar_def resyncAsked_def)
  from request_ok_world(1) [OF world_similar [OF assms(1) this]] resync show ?thesis by blast
next
  case (resync_refused g)
  then show ?thesis using world_similar [OF assms(1) similar_resyncRefused] by simp
next
  case (resync_closed g)
  have "similar (w_server w) (resyncAsked g (w_server w))" by (simp add: similar_def resyncAsked_def)
  from world_similar [OF assms(1) similar_trans [OF this similar_resyncRefused]] resync_closed show ?thesis by simp
next
  case (snapshot i w1 sn s q frame)
  note r = request_ok_world [OF assms(1) snapshot(3)]
  have "world_ok (w1\<lparr>w_frame := (w_frame w)(i := frame)\<rparr>)" using r(1) by simp
  from world_stage [OF this, of i "Snapshotted q"] show ?thesis unfolding snapshot(1) using r(4) snapshot(2) by auto
next
  case (no_frame i w1 sn s)
  note r = request_ok_world [OF assms(1) no_frame(3)]
  show ?thesis unfolding no_frame(1) by (rule world_stage [OF r(1)]) (use r(4) no_frame(2) in auto)
next
  case (greet i)
  then show ?thesis using world_similar [OF assms(1) similar_put [OF keeps_greet]] by simp
next
  case (retire i old g s)
  have "similar (w_server w) s"
    using retire by (auto simp: handle_retire_def intro: similar_put split: option.splits)
  from world_similar [OF assms(1) this] have "world_ok (w\<lparr>w_server := s\<rparr>)" .
  then show ?thesis unfolding retire(1) by (rule world_stage) (use retire in auto)
next
  case (bind i g w1)
  note r = request_ok_world [OF assms(1) bind(3)]
  have o: "owner_ok (w_owner w)" using assms(1) by (simp add: world_ok_def)
  have "c_generation (ps_heap (w_server w) i) \<le> os_acceptedGeneration (w_owner w1)"
    using bind(3) bind_accepts [OF o] by (auto simp: owner_serves_request_def)
  then show ?thesis unfolding bind(1) by (intro world_stage [OF r(1)]) (use r(3,4) bind(2) in auto)
next
  case (move i c)
  then show ?thesis using world_similar [OF assms(1) similar_put [OF keeps_moves]] by blast
next
  case (failure i)
  then show ?thesis using world_similar [OF assms(1) similar_put [OF keeps_fail]] by simp
next
  case (give_up i)
  then show ?thesis unfolding give_up(1) by (intro world_stage [OF assms(1)]) auto
next
  case (lost i g w1)
  note r = request_ok_world [OF assms(1) lost(3)]
  show ?thesis unfolding lost(1)
    using r lost(2) by (auto simp: world_ok_def registry_ok_def bound_ok_def split: if_splits)
qed (use assms(1) accept_ok hello_ok swap_ok finish_ok presenter_close_ok in blast)+

lemma presenter_initial_ok: "presenter_initial w \<Longrightarrow> world_ok w"
  using owner_machine.initial_inv
  by (auto simp: presenter_initial_def world_ok_def NewPresenter_def registry_ok_def bound_ok_def closing_ok_def)

interpretation presenter_machine: guarded_machine presenter_initial "presenter_step tj" world_ok for tj
  by unfold_locales (use presenter_initial_ok presenter_step_ok in blast)+

text \<open>The owner is a part of this machine: whatever the handlers and connections do, it takes only turns of its own.\<close>

lemma served_turn: "owner_serves_request q w w' \<Longrightarrow> owner_turn\<^sup>*\<^sup>* (w_owner w) (w_owner w')"
  by (auto simp: owner_serves_request_def owner_turn_def intro!: r_into_rtranclp)

lemma presenter_step_owner: "presenter_step tj w w' \<Longrightarrow> owner_turn\<^sup>*\<^sup>* (w_owner w) (w_owner w')"
  by (induction rule: presenter_step.induct) (use served_turn in fastforce)+

interpretation presenter_owner: composed_machine presenter_initial "presenter_step tj" world_ok owner_initial owner_turn w_owner for tj
  by unfold_locales (use presenter_step_owner in \<open>auto simp: presenter_initial_def\<close>)

text \<open>What a delta does to the connections, and that a connection which begins to want a snapshot has asked for it.\<close>

lemma published_delta:
  assumes d: "ps_preparing s = None \<or> ps_preparing s \<noteq> ps_current s"
  shows "ps_current (snd (publish_delta m (snd (prepare_delta m s)))) = ps_current s"
    "ps_heap (snd (publish_delta m (snd (prepare_delta m s)))) i = (if ps_preparing s = Some i then snd (prepare m (ps_heap s i))
       else if ps_current s = Some i then snd (snd (enqueueDelta m (ps_heap s i))) else ps_heap s i)"
    "set (ps_resyncs s) \<subseteq> set (ps_resyncs (snd (publish_delta m (snd (prepare_delta m s)))))"
    "ps_current s = Some i \<Longrightarrow> fst (snd (enqueueDelta m (ps_heap s i))) \<Longrightarrow> \<not> ps_closing s \<Longrightarrow>
       c_generation (ps_heap s i) \<in> set (ps_resyncs (snd (publish_delta m (snd (prepare_delta m s)))))"
    "ps_preparing (snd (publish_delta m (snd (prepare_delta m s)))) = ps_preparing s"
  using d keeps_enqueueDelta [of "ps_heap s i" m]
  by (auto simp: prepare_delta_def publish_delta_def put_def Let_def case_prod_beta keeps_def split: option.splits)

lemma may_be_current_stage: "may_be_current st \<Longrightarrow> \<not> is_preparing st \<and> st \<noteq> Handshake"
  by (cases st) simp_all

end
