(* ===== verification/PresenterProps.thy ===== *)
theory PresenterProps
  imports PresenterServer OwnerProps
begin

text \<open>
  What the interleaving of handlers, owner and \<open>Close\<close> cannot break: the registrations of the presenter server follow
  its handlers, and a superseded presenter is refused by the owner.
\<close>

subsection \<open>Handlers and registrations\<close>


text \<open>
  An example: a first peer says hello and goes away again, and a second one comes through the whole handshake.
  The snapshot of an owner without notifications, and its frame.\<close>

definition ex_empty :: Snapshot where
  "ex_empty = \<lparr>snap_Sequence = 0, snap_Active = [], snap_Lifetimes = [], snap_History = []\<rparr>"

definition ex_frame :: bytes where
  "ex_frame = the (marshalEnvelope ''snapshot'' 0 0 (marshal_Snapshot (\<lambda>_. None) ex_empty))"

lemma ex_frame_length: "length ex_frame \<le> 200"
  by code_simp

lemma ex_empty_frame: "marshalEnvelope ''snapshot'' 0 0 (marshal_Snapshot tj ex_empty) = Some ex_frame"
  by (simp add: ex_frame_def marshal_Snapshot_def ex_empty_def marshalEnvelope_def)

lemma ex_empty_handled: "handle_snapshot tj ex_empty = Some (0, ex_frame)"
proof -
  have "without_images ex_empty = ex_empty" "wire_images ex_empty = []" "snap_Sequence ex_empty = 0"
    by (simp_all add: ex_empty_def without_images_def wire_images_def List.map_filter_def)
  then have "marshalSnapshot tj ex_empty = Inr ex_frame"
    using ex_frame_length by (simp add: marshalSnapshot_def marshalSnapshotWithin_def marshalSnapshotWithinCost_def ex_empty_frame unat_MaxFrameSize)
  then show ?thesis by (simp add: handle_snapshot_def ex_empty_def Snapshot_Validate_def)
qed

definition ex_server :: "nat \<Rightarrow> presenterServer" where
  "ex_server k =
     [NewPresenter,
      put 0 (newConnection 0) (NewPresenter\<lparr>ps_conns := [0]\<rparr>),
      put 0 (newConnection 1) (NewPresenter\<lparr>ps_conns := [0], ps_nextGen := 1, ps_preparing := Some 0\<rparr>),
      put 0 (fail (newConnection 1)) (NewPresenter\<lparr>ps_nextGen := 1\<rparr>),
      put 1 (newConnection 0) (put 0 (fail (newConnection 1)) (NewPresenter\<lparr>ps_conns := [1], ps_nextGen := 1\<rparr>)),
      put 1 (newConnection 2) (put 0 (fail (newConnection 1)) (NewPresenter\<lparr>ps_conns := [1], ps_nextGen := 2, ps_preparing := Some 1\<rparr>)),
      put 1 ((newConnection 2)\<lparr>c_active := True\<rparr>)
        (put 0 (fail (newConnection 1)) (NewPresenter\<lparr>ps_conns := [1], ps_nextGen := 2, ps_current := Some 1\<rparr>)),
      put 1 (greet ex_frame ((newConnection 2)\<lparr>c_active := True\<rparr>))
        (put 0 (fail (newConnection 1)) (NewPresenter\<lparr>ps_conns := [1], ps_nextGen := 2, ps_current := Some 1\<rparr>))] ! k"

definition ex_world :: "nat \<Rightarrow> stage \<Rightarrow> stage \<Rightarrow> ownerState \<Rightarrow> world" where
  "ex_world k st0 st1 o' = \<lparr>w_server = ex_server k, w_owner = o', w_todo = [], w_stage = (\<lambda>_. Absent)(0 := st0, 1 := st1),
     w_frame = (\<lambda>_. ex_frame), w_refused = []\<rparr>"

lemma ex_initial: "presenter_initial (ex_world 0 Absent Absent ex_start)"
proof -
  have "owner_start ex_clock None None = Some ex_start"
    by (simp add: owner_start_def ex_start_def [symmetric] resetTimer_def ordered_records_def time_IsZero_def)
  then have "owner_initial ex_start" unfolding owner_initial_def using ex_clock_ok by blast
  then show ?thesis by (auto simp: presenter_initial_def ex_world_def ex_server_def)
qed

lemma ex_at_stage:
  "(ex_world k st0 st1 o')\<lparr>w_server := ex_server j, w_stage := (w_stage (ex_world k st0 st1 o'))(0 := st)\<rparr> = ex_world j st st1 o'"
  "(ex_world k st0 st1 o')\<lparr>w_server := ex_server j, w_stage := (w_stage (ex_world k st0 st1 o'))(Suc 0 := st)\<rparr> = ex_world j st0 st o'"
  "(ex_world k st0 st1 o')\<lparr>w_frame := (\<lambda>_. ex_frame)(Suc 0 := ex_frame), w_stage := (w_stage (ex_world k st0 st1 o'))(Suc 0 := st)\<rparr> = ex_world k st0 st o'"
  "(ex_world k st0 st1 o')\<lparr>w_stage := (w_stage (ex_world k st0 st1 o'))(0 := st)\<rparr> = ex_world k st st1 o'"
  "(ex_world k st0 st1 o')\<lparr>w_stage := (w_stage (ex_world k st0 st1 o'))(Suc 0 := st)\<rparr> = ex_world k st0 st o'"
  by (auto simp: ex_world_def fun_eq_iff)

lemma ex_world_simps [simp]:
  "w_server (ex_world k st0 st1 o') = ex_server k" "w_owner (ex_world k st0 st1 o') = o'" "w_todo (ex_world k st0 st1 o') = []"
  "w_frame (ex_world k st0 st1 o') = (\<lambda>_. ex_frame)" "w_stage (ex_world k st0 st1 o') 0 = st0" "w_stage (ex_world k st0 st1 o') (Suc 0) = st1"
  by (simp_all add: ex_world_def)

lemmas ex_handle_defs = ex_server_def handle_register_def handle_prepare_def handle_activate_def connectionDone_def nextGeneration_def
  put_def NewPresenter_def newConnection_def activate_def fail_def numeral_nat Let_def

lemma ex_accept: "presenter_step tj (ex_world 0 Absent Absent o') (ex_world 1 Handshake Absent o')"
proof -
  have "handle_register 0 (ex_server 0) = (True, ex_server 1)" by (simp add: ex_handle_defs)
  from presenter_step.accept [of "ex_world 0 Absent Absent o'", simplified, OF _ this]
  show ?thesis by (simp add: ex_at_stage)
qed



definition ex_read :: ownerState where "ex_read = ex_start\<lparr>os_reads := Suc 0\<rparr>"
definition ex_bound :: ownerState where "ex_bound = ex_start\<lparr>os_reads := Suc (Suc 0), os_acceptedGeneration := 2\<rparr>"

lemma ex_handshake:
  "presenter_step tj (ex_world 1 Handshake Absent o') (ex_world 2 Prepared Absent o')"
  "presenter_step tj (ex_world 2 Prepared Absent o') (ex_world 2 Ending Absent o')"
  "presenter_step tj (ex_world 2 Ending Absent o') (ex_world 3 Gone Absent o')"
  "presenter_step tj (ex_world 3 Gone Absent o') (ex_world 4 Gone Handshake o')"
  "presenter_step tj (ex_world 4 Gone Handshake o') (ex_world 5 Gone Prepared o')"
  "presenter_step tj (ex_world 5 Gone (Snapshotted 0) o') (ex_world 6 Gone (Swapped None) o')"
  "presenter_step tj (ex_world 6 Gone (Swapped None) o') (ex_world 6 Gone (Retired 0) o')"
proof -
  have h: "handle_prepare False 0 (ex_server 1) = (True, ex_server 2)" "handle_register (Suc 0) (ex_server 3) = (True, ex_server 4)"
    "handle_prepare False (Suc 0) (ex_server 4) = (True, ex_server 5)" "handle_activate 0 (Suc 0) (ex_server 5) = (True, ex_server 6)"
    "connectionDone 0 (put 0 (fail (ps_heap (ex_server 2) 0)) (ex_server 2)) = (False, ex_server 3)"
    "handle_retire None (ex_server 6) = (0, ex_server 6)" "ps_current (ex_server 5) = None"
    by (auto simp: ex_handle_defs handle_retire_def fun_eq_iff)
  show "presenter_step tj (ex_world 1 Handshake Absent o') (ex_world 2 Prepared Absent o')"
    using presenter_step.hello [of "ex_world 1 Handshake Absent o'" 0 False True "ex_server 2" tj] h(1) by (simp add: ex_at_stage)
  show "presenter_step tj (ex_world 2 Prepared Absent o') (ex_world 2 Ending Absent o')"
    using presenter_step.give_up [of "ex_world 2 Prepared Absent o'" 0 tj] by (simp add: ex_at_stage)
  show "presenter_step tj (ex_world 2 Ending Absent o') (ex_world 3 Gone Absent o')"
    using presenter_step.finish [of "ex_world 2 Ending Absent o'" 0 _ False "ex_server 3" tj] h(5) by (simp add: ex_at_stage)
  show "presenter_step tj (ex_world 3 Gone Absent o') (ex_world 4 Gone Handshake o')"
    using presenter_step.accept [of "ex_world 3 Gone Absent o'" "Suc 0" True "ex_server 4" tj] h(2) by (simp add: ex_at_stage)
  show "presenter_step tj (ex_world 4 Gone Handshake o') (ex_world 5 Gone Prepared o')"
    using presenter_step.hello [of "ex_world 4 Gone Handshake o'" "Suc 0" False True "ex_server 5" tj] h(3) by (simp add: ex_at_stage)
  show "presenter_step tj (ex_world 5 Gone (Snapshotted 0) o') (ex_world 6 Gone (Swapped None) o')"
    using presenter_step.swap [of "ex_world 5 Gone (Snapshotted 0) o'" "Suc 0" 0 True "ex_server 6" tj] h(4,7) by (simp add: ex_at_stage)
  show "presenter_step tj (ex_world 6 Gone (Swapped None) o') (ex_world 6 Gone (Retired 0) o')"
    using presenter_step.retire [of "ex_world 6 Gone (Swapped None) o'" "Suc 0" None 0 "ex_server 6" tj] h(6) by (simp add: ex_at_stage)
qed

lemma ex_owner_serves:
  "serve SnapshotRequest ex_start = Some ex_read" "serve (CommandRequest (presenterLostCommand 0 2)) ex_read = Some ex_bound"
  by (simp_all add: serve_def snapshot_def lifetimes_def ordered_records_def clock_Now_def ex_read_def ex_bound_def do_command_def
      gatePresenter_def dispatch_def presenterLostCommand_def presenterLost_def resetTimer_def time_IsZero_def zero_StateCommand_def)

lemma ex_snapshot: "snapshot ex_start = Some (ex_empty, ex_read)"
  by (simp add: snapshot_def lifetimes_def ordered_records_def clock_Now_def ex_read_def ex_empty_def)

lemma ex_requests:
  "presenter_step tj (ex_world 5 Gone Prepared ex_start) (ex_world 5 Gone (Snapshotted 0) ex_read)"
  "presenter_step tj (ex_world 6 Gone (Retired 0) ex_read) (ex_world 6 Gone Serving ex_bound)"
proof -
  have g: "c_generation (ps_heap (ex_server 6) (Suc 0)) = 2" by (simp add: ex_handle_defs)
  have "owner_serves_request SnapshotRequest (ex_world 5 Gone Prepared ex_start) (ex_world 5 Gone Prepared ex_read)"
    unfolding owner_serves_request_def
    by (intro conjI exI [of _ ex_read]) (auto simp: ex_owner_serves request_ok_def ready_def ex_world_def ex_read_def)
  from presenter_step.snapshot [OF _ this, of "Suc 0" ex_empty ex_read tj 0 ex_frame] ex_empty_handled ex_snapshot
  show "presenter_step tj (ex_world 5 Gone Prepared ex_start) (ex_world 5 Gone (Snapshotted 0) ex_read)" by (simp add: ex_at_stage)
  have "owner_serves_request (CommandRequest (presenterLostCommand 0 2)) (ex_world 6 Gone (Retired 0) ex_read) (ex_world 6 Gone (Retired 0) ex_bound)"
    unfolding owner_serves_request_def
  proof (intro conjI exI [of _ ex_bound])
    show "request_ok (CommandRequest (presenterLostCommand 0 2))"
      by (simp add: request_ok_def command_ok_def presenterLostCommand_def zero_StateCommand_def)
  qed (auto simp: ex_owner_serves ready_def, auto simp: ex_world_def ex_bound_def ex_read_def)
  with presenter_step.bind [of "ex_world 6 Gone (Retired 0) ex_read" "Suc 0" 0 _ tj] g
  show "presenter_step tj (ex_world 6 Gone (Retired 0) ex_read) (ex_world 6 Gone Serving ex_bound)" by (fastforce simp: ex_at_stage)
qed

lemma ex_serving_reachable: "(presenter_step tj)\<^sup>*\<^sup>* (ex_world 0 Absent Absent ex_start) (ex_world 6 Gone Serving ex_bound)"
  using ex_accept ex_handshake ex_requests by (meson converse_rtranclp_into_rtranclp rtranclp.rtrancl_refl)


text \<open>The second peer has been sent its snapshot.\<close>

lemma ex_greeted: "(presenter_step tj)\<^sup>*\<^sup>* (ex_world 0 Absent Absent ex_start) (ex_world 7 Gone Serving ex_bound)"
proof -
  let ?w = "ex_world 6 Gone Serving ex_bound"
  have h: "put (Suc 0) (greet ex_frame (ps_heap (ex_server 6) (Suc 0))) (ex_server 6) = ex_server 7"
    by (simp add: ex_handle_defs fun_eq_iff)
  have "c_writer (ps_heap (ex_server 6) (Suc 0)) = Unstarted" by (simp add: ex_handle_defs)
  from presenter_step.greet [of ?w "Suc 0" tj] this h
  have "presenter_step tj ?w (?w\<lparr>w_server := ex_server 7\<rparr>)" by simp
  moreover have "?w\<lparr>w_server := ex_server 7\<rparr> = ex_world 7 Gone Serving ex_bound" by (simp add: ex_world_def)
  ultimately show ?thesis using ex_serving_reachable [of tj] by (metis rtranclp.rtrancl_into_rtrancl)
qed

end
