(* ===== verification/PresenterView.thy ===== *)
theory PresenterView
  imports PresenterProps ConnectionProps WireProps
begin

text \<open>
  From the owner to the presenter: the frames that a connection has written are read back as messages, and what a presenter shows
  that applies them in their order is the state of the owner at the sequence of the last one, except for
  images that did not fit a snapshot. The owner, the handlers, publishing, resyncs and the writers of all connections are
  interleaved as in theory PresenterServer; the connection in its handshake and the current one are fed as in ConnectionProps.
\<close>

subsection \<open>What a presenter reads and shows\<close>

datatype message = SnapshotMessage Snapshot | DeltaMessage u64 Delta | ReplyMessage

definition delta_frame :: "time_encoder \<Rightarrow> u64 \<Rightarrow> Delta \<Rightarrow> bytes option" where
  "delta_frame tj q d = marshalEnvelope (delta_kind_text (d_Kind d)) 0 q (marshal_Delta tj d)"

text \<open>The frame on the wire is that of the message.\<close>

fun carries :: "time_encoder \<Rightarrow> sent \<Rightarrow> message \<Rightarrow> bool" where
  "carries tj (SentSnapshot q f) (SnapshotMessage sn) \<longleftrightarrow> snap_Sequence sn = q \<and> snapshot_frame tj sn = Some f"
| "carries tj (SentDelta q f) (DeltaMessage p d) \<longleftrightarrow> p = q \<and> delta_frame tj q d = Some f"
| "carries tj (SentReply r) ReplyMessage \<longleftrightarrow> True"
| "carries tj x y \<longleftrightarrow> False"

fun show_message :: "message \<Rightarrow> view \<Rightarrow> view" where
  "show_message (SnapshotMessage sn) v = snapshot_view sn"
| "show_message (DeltaMessage q d) v = apply_delta d v"
| "show_message ReplyMessage v = v"

text \<open>One view is another one some images of which are missing.\<close>

definition lacks_image :: "Notification \<Rightarrow> Notification \<Rightarrow> bool" where
  "lacks_image n m \<longleftrightarrow> n = m \<or> n = m\<lparr>n_Image := None\<rparr>"

definition entry_lacks_image :: "HistoryEntry \<Rightarrow> HistoryEntry \<Rightarrow> bool" where
  "entry_lacks_image e f \<longleftrightarrow> e = f \<or> e = f\<lparr>h_Image := None\<rparr>"

definition resembles :: "view \<Rightarrow> view \<Rightarrow> bool" where
  "resembles v w \<longleftrightarrow> list_all2 lacks_image (v_active v) (v_active w) \<and> list_all2 entry_lacks_image (v_history v) (v_history w)"

lemma lacks_image_refl [simp]: "lacks_image n n" "entry_lacks_image e e"
  by (simp_all add: lacks_image_def entry_lacks_image_def)

lemma lacks_image_ID: "lacks_image n m \<Longrightarrow> n_ID n = n_ID m" "entry_lacks_image e f \<Longrightarrow> h_ID e = h_ID f"
  by (auto simp: lacks_image_def entry_lacks_image_def)

lemma resembles_refl [simp]: "resembles v v"
  by (simp add: resembles_def list_all2_refl)

lemma list_all2_filter: "list_all2 R xs ys \<Longrightarrow> (\<And>x y. R x y \<Longrightarrow> P x = Q y) \<Longrightarrow> list_all2 R (filter P xs) (filter Q ys)"
  by (induction rule: list_all2_induct) auto

lemma list_all2_map_same: "list_all2 R xs ys \<Longrightarrow> (\<And>x y. R x y \<Longrightarrow> R (f x) (g y)) \<Longrightarrow> list_all2 R (map f xs) (map g ys)"
  by (induction rule: list_all2_induct) auto

lemma seen_lacks: "entry_lacks_image e f \<Longrightarrow>
    entry_lacks_image (if h_ID e \<in> I then e\<lparr>h_Seen := True\<rparr> else e) (if h_ID f \<in> I then f\<lparr>h_Seen := True\<rparr> else f)"
  by (auto simp: entry_lacks_image_def)

lemma resembles_apply: "resembles v w \<Longrightarrow> resembles (apply_delta d v) (apply_delta d w)"
  by (cases "d_Kind d")
    (auto simp: apply_delta.simps resembles_def hist_remove_def hist_seen_def lacks_image_ID
      intro!: list_all2_filter list_all2_map_same seen_lacks list_all2_appendI)

lemma drop_images_each: "i < length xs \<Longrightarrow> drop_images k xs ! i \<in> {xs ! i, None}"
proof (induction k xs arbitrary: i rule: drop_images.induct)
  case (2 k xs)
  then show ?case by (cases i) auto
next
  case (3 j xs)
  then show ?case by (cases i) auto
next
  case (4 k j xs)
  then show ?case by (cases i) auto
qed simp

text \<open>What is framed of a snapshot shows the same as the snapshot itself, apart from images.\<close>

lemma drop_oldest_resembles: "resembles (snapshot_view (drop_oldest k sn)) (snapshot_view sn)"
proof -
  let ?xs = "drop_images k (slots sn)" let ?n = "length (snap_Active sn)"
  have "lacks_image ((snap_Active sn ! i)\<lparr>n_Image := ?xs ! i\<rparr>) (snap_Active sn ! i)" if "i < ?n" for i
    using drop_images_each [of i "slots sn" k] that by (auto simp: slots_def nth_append lacks_image_def)
  moreover have "entry_lacks_image ((snap_History sn ! i)\<lparr>h_Image := ?xs ! (?n + i)\<rparr>) (snap_History sn ! i)"
    if "i < length (snap_History sn)" for i
    using drop_images_each [of "?n + i" "slots sn" k] that by (auto simp: slots_def nth_append entry_lacks_image_def)
  ultimately show ?thesis
    by (simp add: resembles_def drop_oldest_def with_slots_def list_all2_conv_all_nth) (simp add: slots_def)
qed

subsection \<open>What belongs on the wire\<close>

text \<open>The owner's view after its first \<open>q\<close> deltas.\<close>

definition view_at :: "view \<Rightarrow> Event list \<Rightarrow> u64 \<Rightarrow> view" where
  "view_at v0 evs q = fold apply_delta (take (unat q) (deltas_of evs)) v0"

text \<open>A frame that may be sent: that of the delta with its number, or of a snapshot that shows the view at its number.\<close>

fun sent_ok :: "time_encoder \<Rightarrow> view \<Rightarrow> Event list \<Rightarrow> sent \<Rightarrow> bool" where
  "sent_ok tj v0 evs (SentDelta q f) \<longleftrightarrow> 0 < unat q \<and> unat q \<le> length (deltas_of evs) \<and>
     delta_frame tj q (deltas_of evs ! (unat q - 1)) = Some f"
| "sent_ok tj v0 evs (SentSnapshot q f) \<longleftrightarrow> unat q \<le> length (deltas_of evs) \<and>
     (\<exists>sn. Snapshot_Validate sn = None \<and> snap_Sequence sn = q \<and> marshalSnapshot tj sn = Inr f \<and> snapshot_view sn = view_at v0 evs q)"
| "sent_ok tj v0 evs (SentReply r) \<longleftrightarrow> True"

lemma sent_ok_mono: "sent_ok tj v0 evs x \<Longrightarrow> sent_ok tj v0 (evs @ fs) x"
  by (cases x) (auto simp: view_at_def nth_append)

lemma snapshot_read:
  assumes "sent_ok tj v0 evs (SentSnapshot q f)"
  shows "\<exists>sn. carries tj (SentSnapshot q f) (SnapshotMessage sn) \<and> resembles (snapshot_view sn) (view_at v0 evs q)"
proof -
  obtain sn where sn: "Snapshot_Validate sn = None" "snap_Sequence sn = q" "marshalSnapshot tj sn = Inr f" "snapshot_view sn = view_at v0 evs q"
    using assms by auto
  obtain k where k: "snapshot_frame tj (drop_oldest k sn) = Some f"
    using marshalSnapshotWithin_spec [OF snapshot_data_ok [OF sn(1)], where tj = tj and limit = "int (unat MaxFrameSize)"] sn(3)
    by (auto simp: marshalSnapshot_def)
  have "snap_Sequence (drop_oldest k sn) = q" using sn(2) by (simp add: drop_oldest_def with_slots_def)
  with k drop_oldest_resembles [of k sn] sn(4) show ?thesis by (intro exI [of _ "drop_oldest k sn"]) simp
qed

text \<open>A stream without a gap is read as the owner's view at the sequence it has reached.\<close>

lemma stream_read:
  assumes "follows b xs = Some q" "\<forall>x\<in>set xs. sent_ok tj v0 evs x" "resembles v (view_at v0 evs b)" "unat b \<le> length (deltas_of evs)"
  shows "\<exists>ms. list_all2 (carries tj) xs ms \<and> resembles (fold show_message ms v) (view_at v0 evs q) \<and> unat q \<le> length (deltas_of evs)"
  using assms
proof (induction b xs arbitrary: v rule: follows.induct)
  case (2 b p f xs)
  then have p: "b \<noteq> - 1" "p = b + 1" "follows p xs = Some q" by (auto simp: ValidateNextSequence_None split: if_splits)
  have "b + 1 \<noteq> 0" using p(1) by (metis add_eq_0_iff2)
  then have n: "unat p = Suc (unat b)" using p(2) unat_succ by simp
  let ?d = "deltas_of evs ! unat b"
  have f: "unat b < length (deltas_of evs)" "delta_frame tj p ?d = Some f" using 2(3) n by auto
  have "view_at v0 evs p = apply_delta ?d (view_at v0 evs b)" using f(1) n by (simp add: view_at_def take_Suc_conv_app_nth)
  then have "resembles (apply_delta ?d v) (view_at v0 evs p)" using resembles_apply [OF 2(4)] by simp
  then obtain ms where "list_all2 (carries tj) xs ms" "resembles (fold show_message ms (apply_delta ?d v)) (view_at v0 evs q)"
    "unat q \<le> length (deltas_of evs)" using 2(1) [OF _ p(3)] 2(3) f(1) n p by (auto simp: ValidateNextSequence_None)
  with f(2) show ?case by (intro exI [of _ "DeltaMessage p ?d # ms"]) simp
next
  case (3 b r xs)
  then obtain ms where "list_all2 (carries tj) xs ms" "resembles (fold show_message ms v) (view_at v0 evs q)"
    "unat q \<le> length (deltas_of evs)" by auto
  then show ?case by (intro exI [of _ "ReplyMessage # ms"]) simp
next
  case (4 b p f xs)
  obtain sn where sn: "carries tj (SentSnapshot p f) (SnapshotMessage sn)" "resembles (snapshot_view sn) (view_at v0 evs p)"
    using snapshot_read [of tj v0 evs p f] 4(3) by auto
  obtain ms where "list_all2 (carries tj) xs ms" "resembles (fold show_message ms (snapshot_view sn)) (view_at v0 evs q)"
    "unat q \<le> length (deltas_of evs)" using 4(1) [OF _ _ sn(2)] 4(2,3) by auto
  with sn(1) show ?case by (intro exI [of _ "SnapshotMessage sn # ms"]) simp
qed auto

lemma greeted_read:
  assumes "greeted xs" "follows b xs = Some q" "\<forall>x\<in>set xs. sent_ok tj v0 evs x"
  shows "\<exists>ms. list_all2 (carries tj) xs ms \<and> resembles (fold show_message ms v) (view_at v0 evs q) \<and> unat q \<le> length (deltas_of evs)"
proof -
  obtain p f ys where xs: "xs = SentSnapshot p f # ys" using assms(1) by (cases xs rule: greeted.cases) auto
  obtain sn where sn: "carries tj (SentSnapshot p f) (SnapshotMessage sn)" "resembles (snapshot_view sn) (view_at v0 evs p)"
    using snapshot_read [of tj v0 evs p f] assms(3) xs by auto
  obtain ms where "list_all2 (carries tj) ys ms" "resembles (fold show_message ms (snapshot_view sn)) (view_at v0 evs q)"
    "unat q \<le> length (deltas_of evs)" using stream_read [of p ys q tj v0 evs "snapshot_view sn"] assms(2,3) sn(2) xs by auto
  with sn(1) xs show ?thesis by (intro exI [of _ "SnapshotMessage sn # ms"]) simp
qed

end
