(* ===== verification/PresenterStream.thy ===== *)
theory PresenterStream
  imports PresenterView
begin

text \<open>
  The invariant of owner, presenter server and connections together that carries what theory PresenterView states of one wire:
  whatever a connection has written, holds or buffers is a frame that belongs there, and the current connection and the
  one in its handshake are feeds of the owner's deltas in the sense of ConnectionProps.
\<close>

subsection \<open>What a connection carries\<close>

definition carried :: "connection \<Rightarrow> sent list" where
  "carried c = c_wire c @ map sent_as (unsent c @ c_pending c @ c_resyncTail c) @
     (case c_resyncFrame c of None \<Rightarrow> [] | Some f \<Rightarrow> [SentSnapshot (c_resyncSeq c) f])"

text \<open>
  An operation on a connection that adds only frames of \<open>A\<close>, and leaves its activity and its base alone. Replies do not matter.
\<close>

definition adds :: "sent set \<Rightarrow> connection \<Rightarrow> connection \<Rightarrow> bool" where
  "adds A c c' \<longleftrightarrow> set (carried c') \<subseteq> set (carried c) \<union> A \<union> range SentReply"

definition calm :: "connection \<Rightarrow> connection \<Rightarrow> bool" where
  "calm c c' \<longleftrightarrow> c_active c' = c_active c \<and> c_base c' = c_base c \<and> (c_writer c' = Unstarted \<longrightarrow> c_writer c = Unstarted)"

lemma calm_refl [simp]: "calm c c" "adds A c c"
  by (auto simp: calm_def adds_def)

lemma sent_as_reply: "ob_sequence m = 0 \<Longrightarrow> sent_as m \<in> range SentReply"
  by simp

lemma fail_simps [simp]:
  "carried (fail c) = carried c" "c_active (fail c) = c_active c" "c_base (fail c) = c_base c" "c_writer (fail c) = c_writer c"
  "c_pending (fail c) = c_pending c" "c_failed (fail c)"
  by (simp_all add: fail_def carried_def split: option.split)

lemma fail_calm: "calm c (fail c)" "adds A c (fail c)"
  by (auto simp: calm_def adds_def)

lemma prepare_calm: "calm c (snd (prepare m c))" "adds {sent_as m} c (snd (prepare m c))"
  by (auto simp: prepare_def calm_def adds_def fail_def carried_def reserve_Some unsent_def split: option.splits)

lemma enqueueDelta_calm: "calm c (snd (snd (enqueueDelta m c)))" "adds {sent_as m} c (snd (snd (enqueueDelta m c)))"
proof -
  have "calm c (snd (snd (enqueueDelta m c))) \<and> adds {sent_as m} c (snd (snd (enqueueDelta m c)))"
  proof (cases "c_resyncNeeded c")
    case True
    show ?thesis
    proof (cases "reserveTail m c")
      case None
      with True show ?thesis by (auto simp: enqueueDelta_def calm_def adds_def)
    next
      case (Some c1)
      then have "c1 = c\<lparr>c_resyncTailBytes := c_resyncTailBytes c + len m\<rparr>" by (simp add: reserveTail_Some)
      with True Some show ?thesis by (auto simp: enqueueDelta_def calm_def adds_def) (auto simp: carried_def)
    qed
  next
    case False
    show ?thesis
    proof (cases "reserve m c")
      case None
      with False show ?thesis by (auto simp: enqueueDelta_def beginResyncLocked_def calm_def adds_def) (auto simp: carried_def)
    next
      case (Some c1)
      then have "c1 = c\<lparr>c_queuedMessages := c_queuedMessages c + 1, c_queuedBytes := c_queuedBytes c + len m\<rparr>" by (simp add: reserve_Some)
      with False Some show ?thesis
        by (auto simp: enqueueDelta_def beginResyncLocked_def release_def calm_def adds_def Let_def) (auto simp: carried_def unsent_def)
    qed
  qed
  then show "calm c (snd (snd (enqueueDelta m c)))" "adds {sent_as m} c (snd (snd (enqueueDelta m c)))" by simp_all
qed

lemma enqueueSnapshot_calm:
  "calm c (snd (enqueueSnapshot f q c))" "adds {SentSnapshot q f} c (snd (enqueueSnapshot f q c))"
  by (auto simp: enqueueSnapshot_def calm_def adds_def carried_def)

lemma enqueue_calm:
  assumes "enqueue m c = Some (b, c')" "ob_sequence m = 0"
  shows "calm c c'" "adds {} c c'"
proof -
  have "calm c c' \<and> adds {} c c'"
  proof (cases "reserve m c")
    case None
    then show ?thesis using assms(1) by (auto simp: enqueue_def calm_def adds_def fail_def carried_def split: if_splits)
  next
    case (Some c1)
    then have "c1 = c\<lparr>c_queuedMessages := c_queuedMessages c + 1, c_queuedBytes := c_queuedBytes c + len m\<rparr>" by (simp add: reserve_Some)
    with Some show ?thesis
      using assms by (auto simp: enqueue_def calm_def adds_def fail_def carried_def unsent_def release_def split: if_splits)
  qed
  then show "calm c c'" "adds {} c c'" by simp_all
qed

lemma write_step_calm:
  assumes "write_step c c'"
  shows "calm c c'" "adds {} c c'"
proof -
  have "calm c c' \<and> adds {} c c'"
    using assms
  proof cases
    case (write_resync frame d)
    then show ?thesis by (auto simp: calm_def adds_def carried_def takeResync_Some unsent_def)
  next
    case (resync_error frame d)
    then show ?thesis by (auto simp: calm_def adds_def carried_def takeResync_Some unsent_def fail_def)
  next
    case (dequeue m ms)
    then show ?thesis by (auto simp: calm_def adds_def carried_def unsent_def)
  next
    case (written m)
    then show ?thesis by (auto simp: calm_def adds_def carried_def unsent_def release_def)
  qed (auto simp: calm_def adds_def carried_def takeReply_def fail_def)
  then show "calm c c'" "adds {} c c'" by simp_all
qed

lemma greet_carried: "adds {SentSnapshot (c_base c) f} c (greet f c)"
  by (auto simp: adds_def carried_def greet_def)

lemma activate_loop_carried:
  "set (carried (snd (activate_loop q ms c))) \<subseteq> set (carried c) \<union> sent_as ` set ms"
proof (induction q ms c rule: activate_loop.induct)
  case (2 q m ms c)
  have r: "carried (release m c) = carried c" by (simp add: carried_def release_def unsent_def split: option.split)
  have s: "set (carried (c\<lparr>c_lastSequence := ob_sequence m, c_queue := c_queue c @ [m]\<rparr>)) = insert (sent_as m) (set (carried c))"
    by (auto simp: carried_def unsent_def)
  show ?case using 2 unfolding activate_loop.simps r s by auto
qed simp

lemma activate_carried: "adds {} c (snd (activate q c))"
proof -
  let ?d = "c\<lparr>c_lastSequence := q, c_base := q\<rparr>"
  have d: "set (carried ?d) = set (carried c)" "sent_as ` set (c_pending c) \<subseteq> set (carried c)" by (auto simp: carried_def)
  have e: "set (carried (e\<lparr>c_pending := [], c_active := True\<rparr>)) \<subseteq> set (carried e)" for e by (auto simp: carried_def)
  show ?thesis
    using activate_loop_carried [of q "c_pending c" ?d] d e [of "snd (activate_loop q (c_pending c) ?d)"]
    unfolding adds_def activate_def Let_def case_prod_beta by (simp split: if_split) blast
qed

lemma activate_base:
  assumes "fst (activate q c)"
  shows "c_active (snd (activate q c))" "c_base (snd (activate q c)) = q" "c_writer (snd (activate q c)) = c_writer c"
  using assms by (auto simp: activate_def Let_def case_prod_beta split: if_splits)

subsection \<open>The connections of the server\<close>

abbreviation feed_at :: "u64 \<Rightarrow> u64 option \<Rightarrow> connection \<Rightarrow> bool" where
  "feed_at q snap c \<equiv> feed_ok \<lparr>f_sequence = q, f_snapshot = snap, f_conn = c\<rparr>"

definition taken :: "stage \<Rightarrow> u64 option" where
  "taken st = (case st of Snapshotted q \<Rightarrow> Some q | _ \<Rightarrow> None)"

text \<open>
  The handler and its connection: it is active from the hand-over on, and until the writer is started the handler holds the
  frame of the snapshot that the connection is based on.
\<close>

definition ready_to_greet :: "(sent \<Rightarrow> bool) \<Rightarrow> bytes \<Rightarrow> connection \<Rightarrow> bool" where
  "ready_to_greet P frame c \<longleftrightarrow> c_active c \<and> (c_writer c = Unstarted \<longrightarrow> P (SentSnapshot (c_base c) frame))"

definition handler_ok :: "(sent \<Rightarrow> bool) \<Rightarrow> stage \<Rightarrow> bytes \<Rightarrow> connection \<Rightarrow> bool" where
  "handler_ok P st frame c =
     (case st of
        Handshake \<Rightarrow> \<not> c_active c \<and> c_pending c = []
      | Prepared \<Rightarrow> \<not> c_active c
      | Snapshotted q \<Rightarrow> \<not> c_active c \<and> P (SentSnapshot q frame)
      | Swapped old \<Rightarrow> ready_to_greet P frame c
      | Retired g \<Rightarrow> ready_to_greet P frame c
      | Serving \<Rightarrow> ready_to_greet P frame c
      | _ \<Rightarrow> True)"

definition each_ok :: "(sent \<Rightarrow> bool) \<Rightarrow> stage \<Rightarrow> bytes \<Rightarrow> connection \<Rightarrow> bool" where
  "each_ok P st frame c \<longleftrightarrow> conn_ok c \<and> (\<forall>x\<in>set (carried c). P x) \<and> handler_ok P st frame c"

definition streams :: "(sent \<Rightarrow> bool) \<Rightarrow> u64 \<Rightarrow> world \<Rightarrow> bool" where
  "streams P q w \<longleftrightarrow> (\<forall>i. each_ok P (w_stage w i) (w_frame w i) (ps_heap (w_server w) i)) \<and>
     (\<forall>i. ps_current (w_server w) = Some i \<longrightarrow> c_active (ps_heap (w_server w) i) \<and> feed_at q None (ps_heap (w_server w) i)) \<and>
     (\<forall>i. ps_preparing (w_server w) = Some i \<longrightarrow>
        \<not> c_active (ps_heap (w_server w) i) \<and> feed_at q (taken (w_stage w i)) (ps_heap (w_server w) i))"

lemma streamsD:
  assumes "streams P q w"
  shows "each_ok P (w_stage w i) (w_frame w i) (ps_heap (w_server w) i)"
    "ps_current (w_server w) = Some i \<Longrightarrow> c_active (ps_heap (w_server w) i) \<and> feed_at q None (ps_heap (w_server w) i)"
    "ps_preparing (w_server w) = Some i \<Longrightarrow> \<not> c_active (ps_heap (w_server w) i) \<and> feed_at q (taken (w_stage w i)) (ps_heap (w_server w) i)"
  using assms by (simp_all add: streams_def)

lemma each_okD:
  assumes "each_ok P st frame c"
  shows "conn_ok c" "x \<in> set (carried c) \<Longrightarrow> P x" "handler_ok P st frame c"
  using assms by (simp_all add: each_ok_def)

lemma handler_simps [simp]:
  "handler_ok P Absent frame c" "handler_ok P Ending frame c" "handler_ok P (Finishing g) frame c" "handler_ok P Gone frame c"
  "handler_ok P Handshake frame c \<longleftrightarrow> \<not> c_active c \<and> c_pending c = []" "handler_ok P Prepared frame c \<longleftrightarrow> \<not> c_active c"
  "handler_ok P (Snapshotted n) frame c \<longleftrightarrow> \<not> c_active c \<and> P (SentSnapshot n frame)"
  "handler_ok P (Swapped old) frame c \<longleftrightarrow> ready_to_greet P frame c" "handler_ok P (Retired g) frame c \<longleftrightarrow> ready_to_greet P frame c"
  "handler_ok P Serving frame c \<longleftrightarrow> ready_to_greet P frame c"
  by (simp_all add: handler_ok_def)

lemma taken_simps [simp]: "taken Prepared = None" "taken (Snapshotted n) = Some n" "taken Ending = None"
  by (simp_all add: taken_def)

lemma handler_mono: "handler_ok P st frame c \<Longrightarrow> (\<And>x. P x \<Longrightarrow> Q x) \<Longrightarrow> handler_ok Q st frame c"
  by (auto simp: handler_ok_def ready_to_greet_def split: stage.splits)

lemma each_mono: "each_ok P st frame c \<Longrightarrow> (\<And>x. P x \<Longrightarrow> Q x) \<Longrightarrow> each_ok Q st frame c"
  using handler_mono by (auto simp: each_ok_def)

lemma each_calm:
  assumes "each_ok P st frame c" "conn_ok c'" "calm c c'" "adds A c c'" "\<And>x. x \<in> A \<Longrightarrow> P x" "\<And>r. P (SentReply r)"
    "st = Handshake \<Longrightarrow> c_pending c' = c_pending c"
  shows "each_ok P st frame c'"
proof -
  have "\<forall>x\<in>set (carried c'). P x" using assms(1,4,5,6) by (auto simp: each_ok_def adds_def)
  moreover have "handler_ok P st frame c'"
    using each_okD(3) [OF assms(1)] assms(3,7) by (auto simp: handler_ok_def ready_to_greet_def calm_def split: stage.splits)
  ultimately show ?thesis using assms(2) by (simp add: each_ok_def)
qed

lemma feed_at_conn: "feed_at q snap c \<Longrightarrow> conn_ok c"
  by (simp add: feed_ok_def)

lemma feed_at_active: "c_active c \<Longrightarrow> feed_at q snap c = feed_at q snap' c"
  by (simp add: feed_ok_def)

lemma feed_at_weaken: "feed_at q snap c \<Longrightarrow> feed_at q None c"
  by (auto simp: feed_ok_def waiting_def)

lemma feed_at_fail: "feed_at q snap c \<Longrightarrow> feed_at q snap (fail c)"
  using feed_step_ok [OF _ feed_step.failure] by fastforce

lemma streams_owner [simp]:
  "streams P q (w\<lparr>w_owner := o'\<rparr>) = streams P q w" "streams P q (w\<lparr>w_todo := evs\<rparr>) = streams P q w"
  "streams P q (w\<lparr>w_refused := gs\<rparr>) = streams P q w"
  by (simp_all add: streams_def)

text \<open>One connection changes and the registrations stay.\<close>

lemma streams_put:
  assumes w: "streams P q w" and c: "each_ok P (w_stage w i) (w_frame w i) c"
    and "ps_current (w_server w) = Some i \<Longrightarrow> c_active c \<and> feed_at q None c"
    and "ps_preparing (w_server w) = Some i \<Longrightarrow> \<not> c_active c \<and> feed_at q (taken (w_stage w i)) c"
  shows "streams P q (w\<lparr>w_server := put i c (w_server w)\<rparr>)"
  using assms by (simp add: streams_def put_def)

lemma streams_change:
  assumes w: "streams P q w" and c: "calm (ps_heap (w_server w) i) c" "adds A (ps_heap (w_server w) i) c" "conn_ok c"
    and P: "\<And>x. x \<in> A \<Longrightarrow> P x" "\<And>r. P (SentReply r)"
    and st: "w_stage w i = Handshake \<Longrightarrow> c_pending c = c_pending (ps_heap (w_server w) i)"
    and f: "\<And>snap. feed_at q snap (ps_heap (w_server w) i) \<Longrightarrow> feed_at q snap c"
  shows "streams P q (w\<lparr>w_server := put i c (w_server w)\<rparr>)"
proof (rule streams_put [OF w])
  show "each_ok P (w_stage w i) (w_frame w i) c" by (rule each_calm [OF streamsD(1) [OF w] c(3,1,2)]) (use P st in auto)
qed (use streamsD(2,3) [OF w] c(1) f in \<open>auto simp: calm_def\<close>)

text \<open>Some connections fail.\<close>

lemma streams_fails:
  assumes w: "streams P q w" and s: "ps_current s = ps_current (w_server w)" "ps_preparing s = ps_preparing (w_server w)"
    and h: "\<And>i. ps_heap s i \<in> {ps_heap (w_server w) i, fail (ps_heap (w_server w) i)}"
  shows "streams P q (w\<lparr>w_server := s\<rparr>)"
proof -
  have "each_ok P (w_stage w i) (w_frame w i) (fail (ps_heap (w_server w) i))" for i
    using streamsD(1) [OF w, of i] fail_ok by (auto simp: each_ok_def handler_ok_def ready_to_greet_def split: stage.splits)
  then have "each_ok P (w_stage w i) (w_frame w i) (ps_heap s i)" for i using h [of i] streamsD(1) [OF w, of i] by auto
  moreover have "c_active (ps_heap s i) = c_active (ps_heap (w_server w) i)" for i using h [of i] by auto
  moreover have "feed_at q snap (ps_heap s i)" if "feed_at q snap (ps_heap (w_server w) i)" for i snap
    using h [of i] that feed_at_fail by auto
  ultimately show ?thesis using streamsD(2,3) [OF w] s by (simp add: streams_def)
qed

lemma streams_fail: "streams P q w \<Longrightarrow> streams P q (w\<lparr>w_server := put i (fail (ps_heap (w_server w) i)) (w_server w)\<rparr>)"
  by (rule streams_fails) (auto simp: put_def)

lemma streams_stage:
  assumes w: "streams P q w" and h: "handler_ok P st (w_frame w i) (ps_heap (w_server w) i)"
    and p: "ps_preparing (w_server w) = Some i \<Longrightarrow> feed_at q (taken st) (ps_heap (w_server w) i)"
  shows "streams P q (at_stage i st w)"
  using assms by (auto simp: streams_def each_ok_def)

lemma streams_mono:
  assumes "streams P q w" "\<And>x. P x \<Longrightarrow> Q x"
  shows "streams Q q w"
  using assms each_mono unfolding streams_def by blast

subsection \<open>The steps of handlers and connections\<close>

lemma new_connection_ok: "conn_ok (newConnection g)" "carried (newConnection g) = []" "\<not> c_active (newConnection g)"
  "c_pending (newConnection g) = []"
  using conn_initial_ok [OF conn_initial_new] by (simp_all add: carried_def newConnection_def unsent_def)

lemma streams_accept:
  assumes w: "streams P q w" "world_ok w" and st: "w_stage w i = Absent" and s: "handle_register i (w_server w) = (go, s)"
  shows "streams P q (at_stage i (if go then Handshake else Gone) (w\<lparr>w_server := s\<rparr>))"
proof -
  note r = registryD [OF world_okD(2) [OF w(2)]]
  have i: "ps_current (w_server w) \<noteq> Some i" "ps_preparing (w_server w) \<noteq> Some i" using r(3,5) [of i] st by auto
  have "each_ok P Handshake (w_frame w i) (newConnection 0)" using new_connection_ok by (simp add: each_ok_def)
  moreover have "each_ok P Gone (w_frame w i) (ps_heap (w_server w) i)" using streamsD(1) [OF w(1), of i] by (simp add: each_ok_def)
  ultimately show ?thesis using w(1) s i by (auto simp: handle_register_def streams_def put_def split: if_splits)
qed

lemma conn_frame [simp]:
  "conn_ok (c\<lparr>c_generation := g\<rparr>) = conn_ok c" "conn_ok (c\<lparr>c_producer := b\<rparr>) = conn_ok c" "conn_ok (c\<lparr>c_lastRequestID := n\<rparr>) = conn_ok c"
  "carried (c\<lparr>c_generation := g\<rparr>) = carried c" "carried (c\<lparr>c_producer := b\<rparr>) = carried c" "carried (c\<lparr>c_lastRequestID := n\<rparr>) = carried c"
  "carried (c\<lparr>c_wake := b\<rparr>) = carried c"
  by (simp_all add: conn_ok_def counted_def tail_ok_def position_ok_def stream_ok_def continues_def wake_ok_def unsent_def carried_def
      split: option.split)

lemma streams_hello:
  assumes w: "streams P q w" "world_ok w" and st: "w_stage w i = Handshake" and s: "handle_prepare producer i (w_server w) = (go, s)"
  shows "streams P q (at_stage i (if go then Prepared else Ending) (w\<lparr>w_server := s\<rparr>))"
proof -
  let ?c = "ps_heap (w_server w) i"
  note r = registryD [OF world_okD(2) [OF w(2)]]
  have i: "ps_current (w_server w) \<noteq> Some i" "ps_preparing (w_server w) \<noteq> Some i" using r(3,5) [of i] st by auto
  have c: "conn_ok ?c" "\<forall>x\<in>set (carried ?c). P x" "\<not> c_active ?c" "c_pending ?c = []"
    using streamsD(1) [OF w(1), of i] st by (simp_all add: each_ok_def)
  have "feed_at q None (?c\<lparr>c_producer := b, c_generation := g\<rparr>)" for b g
    using c(1,3,4) by (simp add: feed_ok_def waiting_def)
  moreover have "each_ok P Prepared (w_frame w i) (?c\<lparr>c_producer := b, c_generation := g\<rparr>)" "each_ok P Ending (w_frame w i) (?c\<lparr>c_producer := b\<rparr>)"
    for b g using c by (simp_all add: each_ok_def)
  ultimately show ?thesis
    using w(1) s i c(3) by (auto simp: handle_prepare_def streams_def put_def Let_def split: if_splits)
qed

lemma streams_swap:
  assumes w: "streams P q w" "world_ok w" and st: "w_stage w i = Snapshotted n" and a: "handle_activate n i (w_server w) = (go, s)"
    and P: "\<And>r. P (SentReply r)"
  shows "streams P q (at_stage i (if go then Swapped (ps_current (w_server w)) else Ending) (w\<lparr>w_server := s\<rparr>))"
proof -
  let ?c = "ps_heap (w_server w) i" let ?d = "snd (activate n ?c)"
  have p: "ps_preparing (w_server w) = Some i" using registryD(6) [OF world_okD(2) [OF w(2)], of i] st by simp
  have c: "\<not> c_active ?c" "feed_at q (Some n) ?c" using streamsD(3) [OF w(1) p] st by simp_all
  have e: "conn_ok ?c" "\<forall>x\<in>set (carried ?c). P x" "P (SentSnapshot n (w_frame w i))"
    using streamsD(1) [OF w(1), of i] st by (simp_all add: each_ok_def)
  have d: "feed_at q (Some n) ?d" using feed_step_ok [OF c(2) feed_step.hand_over] c(1) by simp
  have carried: "\<forall>x\<in>set (carried ?d). P x" using activate_carried [of ?c n] e(2) P by (auto simp: adds_def)
  show ?thesis
  proof (cases "ps_closing (w_server w)")
    case True
    with a p have "go = False" "s = (w_server w)\<lparr>ps_preparing := None\<rparr>" by (simp_all add: handle_activate_def)
    with w(1) p show ?thesis by (auto simp: streams_def each_ok_def)
  next
    case False
    with a p have g: "go = fst (activate n ?c)"
      "s = (if go then (put i ?d (w_server w))\<lparr>ps_current := Some i, ps_preparing := None\<rparr> else (put i ?d (w_server w))\<lparr>ps_preparing := None\<rparr>)"
      by (auto simp: handle_activate_def Let_def case_prod_beta)
    show ?thesis
    proof (cases go)
      case True
      note b = activate_base [of n ?c]
      have "each_ok P (Swapped (ps_current (w_server w))) (w_frame w i) ?d"
        using feed_at_conn [OF d] carried b e(3) True g(1) by (simp add: each_ok_def ready_to_greet_def)
      moreover have "feed_at q None ?d" "c_active ?d" using feed_at_weaken [OF d] b(1) True g(1) by simp_all
      ultimately show ?thesis using w(1) True g(2) by (simp add: streams_def put_def)
    next
      case False
      have "each_ok P Ending (w_frame w i) ?d" using feed_at_conn [OF d] carried by (simp add: each_ok_def)
      moreover have "ps_current (w_server w) \<noteq> Some i" using registryD(4) [OF world_okD(2) [OF w(2)]] p by blast
      ultimately show ?thesis using w(1) False g(2) by (simp add: streams_def put_def)
    qed
  qed
qed

lemma feed_at_turn: "write_step c c' \<Longrightarrow> feed_at q snap c \<Longrightarrow> feed_at q snap c'"
  using feed_step_ok [OF _ feed_step.turn] by fastforce

lemma feed_at_reply: "enqueue m c = Some (b, c') \<Longrightarrow> ob_sequence m = 0 \<Longrightarrow> feed_at q snap c \<Longrightarrow> feed_at q snap c'"
  using feed_step_ok [OF _ feed_step.reply] by fastforce

lemma feed_at_greet: "c_active c \<Longrightarrow> c_writer c = Unstarted \<Longrightarrow> feed_at q snap c \<Longrightarrow> feed_at q snap (greet frame c)"
  using feed_step_ok [OF _ feed_step.start] by fastforce

lemma streams_move:
  assumes w: "streams P q w" and st: "w_stage w i = Serving" and m: "connection_moves (ps_heap (w_server w) i) c"
    and P: "\<And>r. P (SentReply r)"
  shows "streams P q (w\<lparr>w_server := put i c (w_server w)\<rparr>)"
proof -
  let ?c = "ps_heap (w_server w) i"
  have ok: "conn_ok ?c" using streamsD(1) [OF w, of i] by (simp add: each_ok_def)
  have wake: "conn_ok (?c\<lparr>c_wake := True\<rparr>)" by (rule conn_step_ok [OF ok conn_step.late_wake])
  have f: "feed_at q snap ?c \<Longrightarrow> feed_at q snap (?c\<lparr>c_wake := True\<rparr>)" "feed_at q snap ?c \<Longrightarrow> feed_at q snap (?c\<lparr>c_lastRequestID := n\<rparr>)"
    for snap n using wake by (auto simp: feed_ok_def in_step_def waiting_def split: if_splits)
  note change = streams_change [OF w, of i c "{}", OF _ _ _ _ P]
  from m consider (turn) "write_step ?c c" | (reply) e b where "enqueue e ?c = Some (b, c)" "ob_sequence e = 0"
    | (wake) "c = ?c\<lparr>c_wake := True\<rparr>" | (id) n where "c = ?c\<lparr>c_lastRequestID := n\<rparr>"
    by (auto simp: connection_moves_def)
  then show ?thesis
  proof cases
    case turn
    show ?thesis by (rule change) (use write_step_calm [OF turn] write_step_ok [OF ok turn] feed_at_turn [OF turn] st in auto)
  next
    case reply
    show ?thesis by (rule change) (use enqueue_calm [OF reply] enqueue_ok [OF ok reply(2,1)] feed_at_reply [OF reply] st in auto)
  next
    case wake
    show ?thesis by (rule change) (use wake \<open>conn_ok (?c\<lparr>c_wake := True\<rparr>)\<close> f(1) st in \<open>auto simp: calm_def adds_def\<close>)
  next
    case id
    show ?thesis by (rule change) (use id ok f(2) st in \<open>auto simp: calm_def adds_def\<close>)
  qed
qed

lemma streams_greet:
  assumes w: "streams P q w" and st: "w_stage w i = Serving" and u: "c_writer (ps_heap (w_server w) i) = Unstarted"
    and P: "\<And>r. P (SentReply r)"
  shows "streams P q (w\<lparr>w_server := put i (greet (w_frame w i) (ps_heap (w_server w) i)) (w_server w)\<rparr>)"
proof -
  let ?c = "ps_heap (w_server w) i"
  have c: "conn_ok ?c" "c_active ?c" "P (SentSnapshot (c_base ?c) (w_frame w i))"
    using streamsD(1) [OF w, of i] st u by (simp_all add: each_ok_def ready_to_greet_def)
  show ?thesis
    by (rule streams_change [OF w _ greet_carried greet_ok [OF c(1,2) u] _ P])
      (use c(3) st feed_at_greet [OF c(2) u] in \<open>auto simp: calm_def greet_def\<close>)
qed

lemma streams_finish:
  assumes w: "streams P q w" and s: "s = put i (fail (ps_heap (w_server w) i)) (w_server w)" and d: "connectionDone i s = (wasCurrent, t)"
  shows "streams P q (at_stage i (if wasCurrent then Finishing g else Gone) (w\<lparr>w_server := t\<rparr>))"
proof -
  have "streams P q (w\<lparr>w_server := s\<rparr>)" unfolding s by (rule streams_fail [OF w])
  moreover have "t = s\<lparr>ps_conns := removeAll i (ps_conns s), ps_current := (if ps_current s = Some i then None else ps_current s),
      ps_preparing := (if ps_preparing s = Some i then None else ps_preparing s)\<rparr>"
    using d unfolding connectionDone_def by blast
  ultimately show ?thesis by (auto simp: streams_def each_ok_def)
qed

lemma streams_close: "streams P q w \<Longrightarrow> streams P q (w\<lparr>w_server := presenter_Close (w_server w)\<rparr>)"
  by (rule streams_fails) (auto simp: presenter_Close_def)

lemma streams_refused: "streams P q w \<Longrightarrow> streams P q (w\<lparr>w_server := resyncRefused g (w_server w)\<rparr>)"
  by (rule streams_fails) (auto simp: resyncRefused_def put_def split: option.split)

lemma streams_asked: "streams P q w \<Longrightarrow> streams P q (w\<lparr>w_server := resyncAsked g (w_server w)\<rparr>)"
  by (simp add: streams_def resyncAsked_def)

lemma streams_retire: "streams P q w \<Longrightarrow> handle_retire old (w_server w) = (g, s) \<Longrightarrow> streams P q (w\<lparr>w_server := s\<rparr>)"
  by (rule streams_fails) (auto simp: handle_retire_def put_def split: option.splits)

subsection \<open>Publishing\<close>

text \<open>What \<open>time.Time.MarshalJSON\<close> promises for the timestamps of a clock: it writes them (the years 0 to 9999).\<close>

definition writes_times :: "time_encoder \<Rightarrow> bool" where
  "writes_times tj \<longleftrightarrow> (\<forall>t. tj t \<noteq> None)"

lemma delta_frame_total:
  assumes "writes_times tj"
  shows "\<exists>f. delta_frame tj q d = Some f"
proof -
  have "\<exists>x. marshal_Notification tj n = Some x" "\<exists>x. marshal_HistoryEntry tj e = Some x" for n e
    using assms by (auto simp: writes_times_def marshal_Notification_def marshal_HistoryEntry_def)
  then have "\<exists>x. optional_field k (marshal_Notification tj) n = Some x" "\<exists>x. optional_field k (marshal_HistoryEntry tj) e = Some x" for k n e
    by (auto simp: optional_field_def split: option.split)
  then obtain x y where "optional_field ''notification'' (marshal_Notification tj) (d_Notification d) = Some x"
    "optional_field ''history'' (marshal_HistoryEntry tj) (d_History d) = Some y" by blast
  then show ?thesis by (simp add: delta_frame_def marshalEnvelope_def marshal_Delta_def)
qed

lemma streams_delta:
  assumes w: "streams P q w" "world_ok w" and m: "ob_sequence m = q + 1" "ob_sequence m \<noteq> 0"
    and P: "P (sent_as m)" "\<And>r. P (SentReply r)"
  shows "streams P (q + 1) (w\<lparr>w_server := snd (publish_delta m (snd (prepare_delta m (w_server w))))\<rparr>)"
proof -
  let ?s = "w_server w"
  note r = registryD [OF world_okD(2) [OF w(2)]]
  have d: "ps_preparing ?s = None \<or> ps_preparing ?s \<noteq> ps_current ?s" using r(4) [of "the (ps_preparing ?s)"] by (cases "ps_preparing ?s") auto
  note t = published_delta(1,2,5) [OF d, where m = m]
  have fp: "feed_at (q + 1) (taken (w_stage w i)) (snd (prepare m (ps_heap ?s i)))" if "ps_preparing ?s = Some i" for i
    using deliver_ok [of "\<lparr>f_sequence = q, f_snapshot = taken (w_stage w i), f_conn = ps_heap ?s i\<rparr>" m] streamsD(3) [OF w(1) that] m
    by (simp add: deliver_def)
  have fc: "feed_at (q + 1) None (snd (snd (enqueueDelta m (ps_heap ?s i))))" if "ps_current ?s = Some i" for i
    using deliver_ok [of "\<lparr>f_sequence = q, f_snapshot = None, f_conn = ps_heap ?s i\<rparr>" m] streamsD(2) [OF w(1) that] m
    by (simp add: deliver_def case_prod_beta)
  have hp: "w_stage w i \<noteq> Handshake" if "ps_preparing ?s = Some i \<or> ps_current ?s = Some i" for i using that r(3,5) [of i] by auto
  have "each_ok P (w_stage w i) (w_frame w i) (snd (prepare m (ps_heap ?s i)))" if "ps_preparing ?s = Some i" for i
    using each_calm [OF streamsD(1) [OF w(1)] feed_at_conn [OF fp [OF that]] prepare_calm] hp P that by auto
  moreover have "each_ok P (w_stage w i) (w_frame w i) (snd (snd (enqueueDelta m (ps_heap ?s i))))" if "ps_current ?s = Some i" for i
    using each_calm [OF streamsD(1) [OF w(1)] feed_at_conn [OF fc [OF that]] enqueueDelta_calm] hp P that by auto
  moreover have "c_active (snd (prepare m c)) = c_active c" "c_active (snd (snd (enqueueDelta m c))) = c_active c" for c
    using prepare_calm enqueueDelta_calm by (simp_all add: calm_def)
  moreover have "ps_preparing ?s \<noteq> Some i" if "ps_current ?s = Some i" for i using that r(4) by blast
  ultimately show ?thesis
    using streamsD(1-3) [OF w(1)] fp fc unfolding streams_def by (simp add: t)
qed

lemma streams_snapshot:
  assumes w: "streams P q w" "world_ok w" and sn: "snap_Sequence sn = q" "\<And>f. marshalSnapshot tj sn = Inr f \<Longrightarrow> P (SentSnapshot q f)"
    and P: "\<And>r. P (SentReply r)"
  shows "streams P q (w\<lparr>w_server := snd (publishSnapshot tj g sn (w_server w))\<rparr>)"
proof (cases "marshalSnapshot tj sn")
  case (Inl e)
  then show ?thesis using w(1) by (simp add: publishSnapshot_def)
next
  case (Inr frame)
  have c: "streams P q (w\<lparr>w_server := put i (snd (enqueueSnapshot frame q (ps_heap (w_server w) i))) (w_server w)\<rparr>)"
    if i: "ps_current (w_server w) = Some i" for i
  proof -
    let ?c = "ps_heap (w_server w) i"
    have ok: "conn_ok (snd (enqueueSnapshot frame q ?c))" using enqueueSnapshot_ok streamsD(1) [OF w(1), of i] by (simp add: each_ok_def)
    have "w_stage w i \<noteq> Handshake" using registryD(3) [OF world_okD(2) [OF w(2)] i] by auto
    moreover have "feed_at q snap ?c \<Longrightarrow> feed_at q snap (snd (enqueueSnapshot frame q ?c))" for snap
      using feed_step_ok [OF _ feed_step.resync, of "\<lparr>f_sequence = q, f_snapshot = snap, f_conn = ?c\<rparr>" frame] by simp
    ultimately show ?thesis
      by (intro streams_change [OF w(1) enqueueSnapshot_calm ok _ P]) (use sn(2) [OF Inr] in auto)
  qed
  with Inr w(1) sn(1) show ?thesis by (auto simp: publishSnapshot_def Let_def case_prod_beta split: option.split)
qed

subsection \<open>Owner, server and connections together\<close>

text \<open>The owner's events since its start account for its sequence and its view.\<close>

definition owner_log :: "view \<Rightarrow> ownerState \<Rightarrow> bool" where
  "owner_log v0 s \<longleftrightarrow> wf_events 0 v0 (os_events s) \<and> os_sequence s = of_nat (length (deltas_of (os_events s))) \<and>
     view_of s = fold apply_delta (deltas_of (os_events s)) v0"

lemma owner_log_advances:
  assumes "owner_log v0 s" "advances s t"
  shows "owner_log v0 t \<and> (\<exists>evs. os_events t = os_events s @ evs)"
proof -
  obtain evs where "os_events t = os_events s @ evs" "wf_events (os_sequence s) (view_of s) evs"
    "os_sequence t = os_sequence s + of_nat (length (deltas_of evs))" "view_of t = fold apply_delta (deltas_of evs) (view_of s)"
    using assms(2) by (auto simp: advances_def tracks_def)
  then show ?thesis using assms(1) by (auto simp: owner_log_def wf_events_append)
qed

lemma owner_turns_log:
  assumes "owner_turn\<^sup>*\<^sup>* s t" "owner_ok s" "owner_log v0 s"
  shows "owner_log v0 t \<and> (\<exists>evs. os_events t = os_events s @ evs)"
  using assms(1)
proof (induction rule: rtranclp_induct)
  case base
  show ?case using assms(3) by simp
next
  case (step t u)
  have "owner_ok t" by (rule owner_machine.steps_inv [OF step.hyps(1) assms(2)])
  from owner_log_advances [OF _ owner_turn_advances [OF this step.hyps(2)], of v0] step.IH show ?case by auto
qed

lemma owner_initial_log:
  assumes "owner_initial s"
  shows "os_events s = []" "owner_log (view_of s) s"
proof -
  obtain clk sink store where "owner_start clk sink store = Some s" using assms by (auto simp: owner_initial_def)
  then have "os_events s = [] \<and> os_sequence s = 0"
    by (auto simp: owner_start_def resetTimer_def initial_state_def ordered_records_def clock_Now_def Let_def split: option.splits if_splits)
  then show "os_events s = []" "owner_log (view_of s) s" by (simp_all add: owner_log_def)
qed

text \<open>\<open>w_todo\<close> are the events that are still to be published; the connections carry what has been.\<close>

definition fed_world :: "time_encoder \<Rightarrow> view \<Rightarrow> world \<Rightarrow> bool" where
  "fed_world tj v0 w \<longleftrightarrow> (\<exists>del. os_events (w_owner w) = del @ w_todo w \<and> streams (sent_ok tj v0 del) (of_nat (length (deltas_of del))) w)"

definition few_deltas :: "world \<Rightarrow> bool" where
  "few_deltas w \<longleftrightarrow> length (deltas_of (os_events (w_owner w))) < 2 ^ 64"

definition view_ok :: "time_encoder \<Rightarrow> view \<Rightarrow> world \<Rightarrow> bool" where
  "view_ok tj v0 w \<longleftrightarrow> world_ok w \<and> owner_log v0 (w_owner w) \<and> (writes_times tj \<and> few_deltas w \<longrightarrow> fed_world tj v0 w)"

lemma unat_small_nat: "n < 2 ^ 64 \<Longrightarrow> unat (of_nat n :: u64) = n"
  by (simp add: unat_of_nat take_bit_nat_eq_self)

lemma fed_request:
  assumes w: "fed_world tj v0 w" "world_ok w" "owner_log v0 (w_owner w)" and q: "owner_serves_request q w w'"
  shows "streams (sent_ok tj v0 (os_events (w_owner w))) (os_sequence (w_owner w)) w'" "fed_world tj v0 w'"
proof -
  obtain s where s: "w_todo w = []" "request_ok q" "serve q (w_owner w) = Some s"
    "w' = w\<lparr>w_owner := s, w_todo := drop (length (os_events (w_owner w))) (os_events s)\<rparr>"
    using q by (auto simp: owner_serves_request_def)
  have "advances (w_owner w) s" using serve_advances [OF world_okD(1) [OF w(2)] s(2)] s(3) by auto
  then obtain evs where e: "os_events s = os_events (w_owner w) @ evs" using owner_log_advances [OF w(3)] by blast
  obtain del where "os_events (w_owner w) = del @ w_todo w" "streams (sent_ok tj v0 del) (of_nat (length (deltas_of del))) w"
    using w(1) by (auto simp: fed_world_def)
  then have "streams (sent_ok tj v0 (os_events (w_owner w))) (of_nat (length (deltas_of (os_events (w_owner w))))) w'" using s(1,4) by simp
  then show "streams (sent_ok tj v0 (os_events (w_owner w))) (os_sequence (w_owner w)) w'" "fed_world tj v0 w'"
    using w(3) s(4) e by (auto simp: owner_log_def fed_world_def)
qed

lemma fed_stage:
  assumes w: "fed_world tj v0 w" and st: "\<And>P. handler_ok P (w_stage w i) (w_frame w i) (ps_heap (w_server w) i) \<Longrightarrow> handler_ok P st (w_frame w i) (ps_heap (w_server w) i)"
    "taken st = None"
  shows "fed_world tj v0 (at_stage i st w)"
proof -
  obtain del where d: "os_events (w_owner w) = del @ w_todo w" "streams (sent_ok tj v0 del) (of_nat (length (deltas_of del))) w"
    using w by (auto simp: fed_world_def)
  have "streams (sent_ok tj v0 del) (of_nat (length (deltas_of del))) (at_stage i st w)"
    using streamsD [OF d(2), of i] st by (intro streams_stage [OF d(2)]) (auto simp: each_ok_def intro: feed_at_weaken)
  with d(1) show ?thesis by (auto simp: fed_world_def)
qed

lemma fed_server:
  assumes "fed_world tj v0 w" "\<And>del. streams (sent_ok tj v0 del) (of_nat (length (deltas_of del))) w \<Longrightarrow>
      streams (sent_ok tj v0 del) (of_nat (length (deltas_of del))) (w\<lparr>w_server := s, w_stage := stg\<rparr>)"
  shows "fed_world tj v0 (w\<lparr>w_server := s, w_stage := stg\<rparr>)"
  using assms by (auto simp: fed_world_def)

lemma fed_snapshot:
  assumes w: "fed_world tj v0 w" "world_ok w" "owner_log v0 (w_owner w)" "few_deltas w" and st: "w_stage w i = Prepared"
    and q: "owner_serves_request SnapshotRequest w w'" and sn: "snapshot (w_owner w) = Some (sn, s)" "handle_snapshot tj sn = Some (n, frame)"
  shows "fed_world tj v0 (at_stage i (Snapshotted n) (w'\<lparr>w_frame := (w_frame w)(i := frame)\<rparr>))"
proof -
  let ?E = "os_events (w_owner w)" let ?P = "sent_ok tj v0 ?E"
  note f = fed_request [OF w(1-3) q]
  have ok: "owner_ok (w_owner w)" by (rule world_okD(1) [OF w(2)])
  obtain sn' where "snapshot (w_owner w) = Some (sn', (w_owner w)\<lparr>os_reads := Suc (os_reads (w_owner w))\<rparr>)" "Snapshot_Validate sn' = None"
    "snap_Sequence sn' = os_sequence (w_owner w)" "snapshot_view sn' = view_of (w_owner w)" using snapshot_valid [OF ok] .
  with sn(1) have v: "Snapshot_Validate sn = None" "snap_Sequence sn = os_sequence (w_owner w)" "snapshot_view sn = view_of (w_owner w)" by auto
  have n: "n = os_sequence (w_owner w)" "marshalSnapshot tj sn = Inr frame"
    using sn(2) v(2) by (auto simp: handle_snapshot_def split: if_splits sum.splits)
  have u: "unat n = length (deltas_of ?E)" using w(3,4) n(1) by (simp add: owner_log_def few_deltas_def unat_small_nat)
  then have P: "?P (SentSnapshot n frame)" using v n w(3) by (auto simp: view_at_def owner_log_def)
  have w': "w_server w' = w_server w" "w_stage w' = w_stage w" "w_frame w' = w_frame w" "w_todo w = []"
    "os_events (w_owner w') = ?E @ w_todo w'"
  proof -
    obtain t where t: "serve SnapshotRequest (w_owner w) = Some t" "w_todo w = []"
      "w' = w\<lparr>w_owner := t, w_todo := drop (length ?E) (os_events t)\<rparr>" using q by (auto simp: owner_serves_request_def)
    then have "os_events t = ?E" using sn(1) ok by (auto simp: serve_def snapshot_def clock_Now_def bind_eq_Some_conv)
    with t show "w_server w' = w_server w" "w_stage w' = w_stage w" "w_frame w' = w_frame w" "w_todo w = []"
      "os_events (w_owner w') = ?E @ w_todo w'" by simp_all
  qed
  have pr: "ps_preparing (w_server w) = Some i" using registryD(6) [OF world_okD(2) [OF w(2)], of i] st by simp
  have c: "\<not> c_active (ps_heap (w_server w) i)" "feed_at n None (ps_heap (w_server w) i)"
    using streamsD(3) [OF f(1)] pr st w' n by (simp_all)
  have "feed_at n (Some n) (ps_heap (w_server w) i)" using feed_step_ok [OF c(2) feed_step.take_snapshot] by simp
  moreover have "streams ?P n (w'\<lparr>w_frame := (w_frame w)(i := frame)\<rparr>)"
    using f(1) w' st n(1) c(1) by (auto simp: streams_def each_ok_def)
  ultimately have "streams ?P n (at_stage i (Snapshotted n) (w'\<lparr>w_frame := (w_frame w)(i := frame)\<rparr>))"
    using c(1) P w' by (intro streams_stage) simp_all
  moreover have "n = of_nat (length (deltas_of ?E))" using w(3) n(1) by (simp add: owner_log_def)
  ultimately show ?thesis using w'(5) by (auto simp: fed_world_def)
qed

lemma fed_deliver:
  assumes w: "fed_world tj v0 w" "world_ok w" "owner_log v0 (w_owner w)" "few_deltas w" and tj: "writes_times tj" and ev: "w_todo w = ev # evs"
  shows "fed_world tj v0 (w\<lparr>w_todo := evs, w_server := snd (presenter_Publish tj ev (w_server w))\<rparr>)"
proof -
  obtain del where d: "os_events (w_owner w) = del @ ev # evs" "streams (sent_ok tj v0 del) (of_nat (length (deltas_of del))) w"
    using w(1) ev by (auto simp: fed_world_def)
  let ?n = "length (deltas_of del)" let ?q = "of_nat ?n :: u64" let ?P = "sent_ok tj v0 (del @ [ev])"
  have wf: "wf_events ?q (fold apply_delta (deltas_of del) v0) (ev # evs)" using w(3) d(1) by (simp add: owner_log_def wf_events_append)
  have st: "streams ?P ?q w" by (rule streams_mono [OF d(2) sent_ok_mono])
  have "streams ?P (of_nat (length (deltas_of (del @ [ev])))) (w\<lparr>w_server := snd (presenter_Publish tj ev (w_server w))\<rparr>)"
  proof (cases "ev_Delta ev")
    case (Some dl)
    obtain f where f: "delta_frame tj (?q + 1) dl = Some f" using delta_frame_total [OF tj] by blast
    have e: "ev_Sequence ev = ?q + 1" "ev_Snapshot ev = None" "Delta_Validate dl = None" using wf Some by simp_all
    have n: "Suc ?n < 2 ^ 64" using w(4) d(1) Some by (simp add: few_deltas_def)
    then have u: "unat (?q + 1) = Suc ?n" using unat_small_nat [OF n] by (simp add: add.commute)
    then have nz: "?q + 1 \<noteq> 0" by (metis nat.distinct(1) unat_0)
    let ?m = "\<lparr>ob_data = f, ob_sequence = ?q + 1\<rparr>"
    have "?P (sent_as ?m)" using nz u f Some by (simp add: nth_append)
    from streams_delta [OF st w(2) _ _ this] nz
    have "streams ?P (?q + 1) (w\<lparr>w_server := snd (publish_delta ?m (snd (prepare_delta ?m (w_server w))))\<rparr>)" by simp
    then show ?thesis
      using e f nz Some by (simp add: presenter_Publish_def delta_frame_def Let_def case_prod_beta add.commute)
  next
    case None
    show ?thesis
    proof (cases "ev_Snapshot ev")
      case (Some sn)
      have sn: "snap_Sequence sn = ?q" "Snapshot_Validate sn = None" "snapshot_view sn = fold apply_delta (deltas_of del) v0"
        using wf None Some by simp_all
      have "?n < 2 ^ 64" using w(4) d(1) by (simp add: few_deltas_def)
      from unat_small_nat [OF this] have "?P (SentSnapshot ?q f)" if "marshalSnapshot tj sn = Inr f" for f
        using that sn None by (auto simp: view_at_def)
      from streams_snapshot [OF st w(2) sn(1) this] show ?thesis using None Some by (simp add: presenter_Publish_def)
    next
      case None
      with \<open>ev_Delta ev = None\<close> st show ?thesis by (simp add: presenter_Publish_def)
    qed
  qed
  then have "streams ?P (of_nat (length (deltas_of (del @ [ev])))) (w\<lparr>w_todo := evs, w_server := snd (presenter_Publish tj ev (w_server w))\<rparr>)"
    by (simp add: streams_def)
  with d(1) show ?thesis unfolding fed_world_def by (intro exI [of _ "del @ [ev]"]) simp
qed

lemma fed_step:
  assumes w: "fed_world tj v0 w" "world_ok w" "owner_log v0 (w_owner w)" "few_deltas w" "writes_times tj" and st: "presenter_step tj w w'"
  shows "fed_world tj v0 w'"
proof -
  note server = fed_server [OF w(1), where stg = "w_stage w", simplified]
  from st show ?thesis
  proof cases
    case (request q)
    then show ?thesis using fed_request(2) [OF w(1-3)] by blast
  next
    case (deliver ev evs)
    then show ?thesis using fed_deliver [OF w deliver(2)] by (simp add: fed_world_def)
  next
    case (resync g)
    let ?w = "w\<lparr>w_server := resyncAsked g (w_server w)\<rparr>"
    have "fed_world tj v0 ?w" by (rule server [OF streams_asked])
    moreover have "world_ok ?w" by (rule world_similar [OF w(2)]) (simp add: similar_def resyncAsked_def)
    ultimately show ?thesis using fed_request(2) [of tj v0 ?w] w(3) resync by simp
  next
    case (resync_refused g)
    have "fed_world tj v0 (w\<lparr>w_server := resyncRefused g (w_server w)\<rparr>)" by (rule server [OF streams_refused])
    then show ?thesis unfolding resync_refused(1) by (simp add: fed_world_def)
  next
    case (resync_closed g)
    from streams_refused [OF streams_asked] show ?thesis unfolding resync_closed(1) by (intro server) simp
  next
    case (accept i go s)
    show ?thesis unfolding accept using fed_server [OF w(1) streams_accept [OF _ w(2) accept(2,3)]] by simp
  next
    case (hello i producer go s)
    show ?thesis unfolding hello using fed_server [OF w(1) streams_hello [OF _ w(2) hello(2,3)]] by simp
  next
    case (snapshot i w1 sn s q frame)
    then show ?thesis using fed_snapshot [OF w(1-4)] by blast
  next
    case (no_frame i w1 sn s)
    then show ?thesis using fed_stage [OF fed_request(2) [OF w(1-3) no_frame(3)], of i Ending] by simp
  next
    case (swap i q go s)
    show ?thesis unfolding swap using fed_server [OF w(1) streams_swap [OF _ w(2) swap(2,3)]] by simp
  next
    case (retire i old g s)
    have "fed_world tj v0 (w\<lparr>w_server := s\<rparr>)" by (rule server [OF streams_retire [OF _ retire(3)]])
    from fed_stage [OF this, of i "Retired g"] show ?thesis using retire(1,2) by (simp add: taken_def)
  next
    case (bind i g w1)
    have "w_stage w1 i = Retired g" using request_ok_world(4) [OF w(2) bind(3)] bind(2) by simp
    then show ?thesis unfolding bind(1) using fed_stage [OF fed_request(2) [OF w(1-3) bind(3)], of i Serving] by (simp add: taken_def)
  next
    case (greet i)
    show ?thesis unfolding greet(1) by (rule server [OF streams_greet [OF _ greet(2,3)]]) simp_all
  next
    case (move i c)
    show ?thesis unfolding move(1) by (rule server [OF streams_move [OF _ move(2,3)]]) simp_all
  next
    case (failure i)
    show ?thesis unfolding failure(1) by (rule server [OF streams_fail])
  next
    case (give_up i)
    then show ?thesis using fed_stage [OF w(1), of i Ending] by simp
  next
    case (finish i s wasCurrent t)
    show ?thesis unfolding finish(1) using fed_server [OF w(1) streams_finish [OF _ finish(3,4)]] by simp
  next
    case (lost i g w1)
    then show ?thesis using fed_stage [OF fed_request(2) [OF w(1-3) lost(3)], of i Gone] by (simp add: taken_def)
  next
    case close
    show ?thesis unfolding close by (rule server [OF streams_close])
  qed
qed

lemma view_step:
  assumes v: "view_ok tj v0 w" and st: "presenter_step tj w w'"
  shows "view_ok tj v0 w'"
proof -
  have w: "world_ok w" "owner_log v0 (w_owner w)" using v by (simp_all add: view_ok_def)
  note l = owner_turns_log [OF presenter_step_owner [OF st] world_okD(1) [OF w(1)] w(2)]
  have "few_deltas w" if "few_deltas w'" using that l by (auto simp: few_deltas_def)
  then show ?thesis using v l presenter_step_ok [OF w(1) st] fed_step [OF _ w _ _ st] by (auto simp: view_ok_def)
qed

lemma view_initial:
  assumes "presenter_initial w"
  shows "view_ok tj (view_of (w_owner w)) w"
proof -
  have o: "owner_initial (w_owner w)" and i: "w_server w = NewPresenter" "w_todo w = []" "w_stage w = (\<lambda>_. Absent)"
    using assms by (simp_all add: presenter_initial_def)
  have "streams P 0 w" for P using new_connection_ok by (simp add: streams_def i NewPresenter_def each_ok_def)
  then have "fed_world tj (view_of (w_owner w)) w" using owner_initial_log(1) [OF o] i(2) by (auto simp: fed_world_def)
  then show ?thesis using presenter_initial_ok [OF assms] owner_initial_log(2) [OF o] by (simp add: view_ok_def)
qed

interpretation presenter_view: guarded_machine "\<lambda>w. presenter_initial w \<and> view_of (w_owner w) = v0" "presenter_step tj" "view_ok tj v0" for v0 tj
  by unfold_locales (use view_initial view_step in auto)

subsection \<open>A presenter shows the state of the owner\<close>

lemma wire_read:
  assumes c: "conn_ok c" "\<forall>x\<in>set (carried c). sent_ok tj v0 evs x" and x: "c_wire c \<noteq> []"
  shows "\<exists>ms q. follows (c_base c) (c_wire c) = Some q \<and> list_all2 (carries tj) (c_wire c) ms \<and>
    resembles (fold show_message ms v) (view_at v0 evs q) \<and> unat q \<le> length (deltas_of evs)"
proof -
  have "greeted (c_wire c)" using conn_okD(5) [OF c(1)] x by (auto simp: position_ok_def split: if_splits)
  moreover obtain q where "follows (c_base c) (c_wire c) = Some q" using conn_okD(6) [OF c(1)] by (auto simp: stream_ok_def)
  moreover have "\<forall>x\<in>set (c_wire c). sent_ok tj v0 evs x" using c(2) by (simp add: carried_def)
  ultimately show ?thesis using greeted_read by blast
qed

text \<open>The current connection that owes nothing has reached the sequence of the last delta that was published.\<close>

lemma idle_sequence:
  assumes f: "feed_at q None c" and c: "c_active c" "\<not> c_failed c" "\<not> c_resyncNeeded c" "unsent c = []"
  shows "follows (c_base c) (c_wire c) = Some q"
proof -
  have ok: "conn_ok c" by (rule feed_at_conn [OF f])
  have "c_lastSequence c = q" using f c by (simp add: feed_ok_def in_step_def)
  with active_okD(4) [OF ok c(1,2)] c show ?thesis by (auto simp: continues_def)
qed

text \<open>
  C3: Owner, presenter server, handlers, readers and writers of all connections are interleaved in any way, with queues that
  overflow, snapshots that replace a backlog, peers that fail and presenters that take over. At every moment the frames that a
  connection has written are those of messages which, applied in their order, show the owner's state as it was after some number of
  its deltas, with the active notifications in order and the history, except for images that a snapshot had no room for. And the
  presenter is up to date: once the current connection has nothing left to send, it shows the state of the owner as it is. The
  owner must have published fewer than \<open>2 ^ 64\<close> deltas, and every timestamp must have a text.
\<close>

theorem presenter_shows_the_owners_state:
  assumes "presenter_initial w0" "(presenter_step tj)\<^sup>*\<^sup>* w0 w" "writes_times tj" "length (deltas_of (os_events (w_owner w))) < 2 ^ 64"
    and "c = ps_heap (w_server w) i" "c_wire c \<noteq> []"
  shows "\<exists>ms. list_all2 (carries tj) (c_wire c) ms \<and>
    (\<exists>k\<le>length (deltas_of (os_events (w_owner w))).
       resembles (fold show_message ms v) (fold apply_delta (take k (deltas_of (os_events (w_owner w)))) (view_of (w_owner w0)))) \<and>
    (ps_current (w_server w) = Some i \<and> \<not> c_failed c \<and> \<not> c_resyncNeeded c \<and> unsent c = [] \<and> w_todo w = [] \<longrightarrow>
       resembles (fold show_message ms v) (view_of (w_owner w)))"
proof -
  let ?v0 = "view_of (w_owner w0)" let ?ds = "deltas_of (os_events (w_owner w))"
  have ok: "view_ok tj ?v0 w" using presenter_view.reachable_inv [OF _ assms(2), of ?v0] assms(1) by simp
  then have log: "owner_log ?v0 (w_owner w)" by (simp add: view_ok_def)
  obtain del where d: "os_events (w_owner w) = del @ w_todo w" "streams (sent_ok tj ?v0 del) (of_nat (length (deltas_of del))) w"
    using ok assms(3,4) by (auto simp: view_ok_def fed_world_def few_deltas_def)
  have "conn_ok c" "\<forall>x\<in>set (carried c). sent_ok tj ?v0 del x" using streamsD(1) [OF d(2), of i] assms(5) by (simp_all add: each_ok_def)
  from wire_read [OF this assms(6)] obtain ms q where ms: "follows (c_base c) (c_wire c) = Some q" "list_all2 (carries tj) (c_wire c) ms"
    "resembles (fold show_message ms v) (view_at ?v0 del q)" "unat q \<le> length (deltas_of del)" by blast
  have "view_at ?v0 del q = fold apply_delta (take (unat q) ?ds) ?v0" "unat q \<le> length ?ds" using d(1) ms(4) by (simp_all add: view_at_def)
  with ms(3) have some: "\<exists>k\<le>length ?ds. resembles (fold show_message ms v) (fold apply_delta (take k ?ds) ?v0)" by metis
  have "resembles (fold show_message ms v) (view_of (w_owner w))"
    if now: "ps_current (w_server w) = Some i" "\<not> c_failed c" "\<not> c_resyncNeeded c" "unsent c = []" "w_todo w = []"
  proof -
    have "c_active c" "feed_at (of_nat (length (deltas_of del))) None c" using streamsD(2) [OF d(2) now(1)] assms(5) by simp_all
    from idle_sequence [OF this(2,1) now(2-4)] ms(1) have q: "q = of_nat (length (deltas_of del))" by simp
    have "del = os_events (w_owner w)" using d(1) now(5) by simp
    with q have "view_at ?v0 del q = view_of (w_owner w)" using log assms(4) by (simp add: owner_log_def view_at_def unat_small_nat)
    with ms(3) show ?thesis by simp
  qed
  with ms(2) some show ?thesis by blast
qed

text \<open>The example: a snapshot has been written and nothing has happened since.\<close>

theorem presenter_shows_the_owners_state_witness:
  "(presenter_step (\<lambda>_. Some ''0''))\<^sup>*\<^sup>* (ex_world 0 Absent Absent ex_start) (ex_world 7 Gone Serving ex_bound) \<and>
   (\<exists>ms. list_all2 (carries (\<lambda>_. Some ''0'')) [SentSnapshot 0 ex_frame] ms \<and>
      resembles (fold show_message ms \<lparr>v_active = [], v_history = []\<rparr>) (view_of ex_bound))"
proof -
  let ?c = "greet ex_frame ((newConnection 2)\<lparr>c_active := True\<rparr>)"
  have c: "?c = ps_heap (w_server (ex_world 7 Gone Serving ex_bound)) 1" by (simp add: ex_handle_defs)
  have p: "ps_current (ex_server 7) = Some 1" "c_wire ?c = [SentSnapshot 0 ex_frame]" "\<not> c_failed ?c" "\<not> c_resyncNeeded ?c" "unsent ?c = []"
    by (simp_all add: ex_handle_defs greet_def unsent_def)
  have "length (deltas_of (os_events (w_owner (ex_world 7 Gone Serving ex_bound)))) < 2 ^ 64" by (simp add: ex_bound_def)
  moreover have "writes_times (\<lambda>_. Some ''0'')" by (simp add: writes_times_def)
  ultimately show ?thesis
    using presenter_shows_the_owners_state [OF ex_initial ex_greeted _ _ c, where v = "\<lparr>v_active = [], v_history = []\<rparr>"] p ex_greeted
    by simp metis
qed

end
