(* ===== verification/PresenterResync.thy ===== *)
theory PresenterResync
  imports PresenterStream
begin

text \<open>
  Resyncs of the presenter server: a connection whose queue has overflowed drops every further delta until a new snapshot arrives. It
  asks for that snapshot only once, through a goroutine, the owner and \<open>Publish\<close>, and any of them may fail. What is shown is that the
  request is never lost on the way, so that no presenter is left behind for good.
\<close>

subsection \<open>Connections that want a snapshot\<close>

definition wants :: "connection \<Rightarrow> bool" where
  "wants c \<longleftrightarrow> \<not> c_failed c \<and> c_resyncNeeded c \<and> c_resyncFrame c = None"

text \<open>A resync is scheduled exactly if it is needed, and never before the hand-over.\<close>

definition armed_ok :: "stage \<Rightarrow> connection \<Rightarrow> bool" where
  "armed_ok st c \<longleftrightarrow> c_resyncScheduled c = c_resyncNeeded c \<and> (is_preparing st \<or> st = Handshake \<longrightarrow> \<not> c_resyncNeeded c)"

text \<open>An operation that makes no connection want a snapshot.\<close>

definition modest :: "connection \<Rightarrow> connection \<Rightarrow> bool" where
  "modest c c' \<longleftrightarrow> c_generation c' = c_generation c \<and> (wants c' \<longrightarrow> wants c) \<and> (c_resyncNeeded c' \<longrightarrow> c_resyncNeeded c) \<and>
     (c_resyncScheduled c = c_resyncNeeded c \<longrightarrow> c_resyncScheduled c' = c_resyncNeeded c')"

lemmas modest_defs = modest_def wants_def

lemma modest_armed: "modest c c' \<Longrightarrow> armed_ok st c \<Longrightarrow> armed_ok st c'"
  by (auto simp: modest_def armed_ok_def)

lemma modest_refl [simp]: "modest c c"
  by (simp add: modest_def)

lemma modest_fail [simp]: "modest c (fail c)"
  by (simp add: modest_defs fail_def)

lemma modest_prepare: "modest c (snd (prepare m c))"
  by (auto simp: modest_defs prepare_def fail_def reserve_Some split: option.splits)

lemma modest_enqueueSnapshot: "modest c (snd (enqueueSnapshot f q c))"
  by (auto simp: modest_defs enqueueSnapshot_def)

lemma modest_enqueue: "enqueue m c = Some (b, c') \<Longrightarrow> modest c c'"
  by (auto simp: modest_defs enqueue_def fail_def reserve_def release_def Let_def split: option.splits if_splits)

lemma modest_write_step: "write_step c c' \<Longrightarrow> modest c c'"
  by (erule write_step.cases) (auto simp: modest_defs fail_def release_def takeReply_def takeResync_Some)

lemma modest_greet: "modest c (greet f c)"
  by (simp add: modest_defs greet_def)

lemma modest_moves:
  assumes "connection_moves c c'"
  shows "modest c c'"
proof -
  have "modest c (c\<lparr>c_wake := True\<rparr>)" "modest c (c\<lparr>c_lastRequestID := q\<rparr>)" for q by (simp_all add: modest_defs)
  with assms modest_write_step modest_enqueue show ?thesis unfolding connection_moves_def by blast
qed

lemma activate_keeps_resync:
  "c_resyncNeeded (snd (activate q c)) = c_resyncNeeded c" "c_resyncScheduled (snd (activate q c)) = c_resyncScheduled c"
proof -
  have "c_resyncScheduled (snd (activate_loop q ms d)) = c_resyncScheduled d" for ms d
    by (induction q ms d rule: activate_loop.induct) (simp_all add: release_def fail_def)
  then show "c_resyncNeeded (snd (activate q c)) = c_resyncNeeded c" "c_resyncScheduled (snd (activate q c)) = c_resyncScheduled c"
    by (auto simp: activate_def Let_def case_prod_beta)
qed

text \<open>Only a delta makes a connection want one, and then \<open>Publish\<close> is told to ask for it.\<close>

lemma enqueueDelta_asks:
  assumes "armed_ok st c" "\<not> is_preparing st" "st \<noteq> Handshake"
  shows "armed_ok st (snd (snd (enqueueDelta m c)))" "c_generation (snd (snd (enqueueDelta m c))) = c_generation c"
    "wants (snd (snd (enqueueDelta m c))) \<Longrightarrow> wants c \<or> fst (snd (enqueueDelta m c))"
  using assms
  by (auto simp: armed_ok_def wants_def enqueueDelta_def fail_def reserve_def reserveTail_def release_def beginResyncLocked_def Let_def
      split: option.splits if_splits)

subsection \<open>Where the request is\<close>

definition asks_snapshot :: "u64 \<Rightarrow> Event \<Rightarrow> bool" where
  "asks_snapshot g ev \<longleftrightarrow> ev_Snapshot ev \<noteq> None \<and> ev_Generation ev = g"

definition underway :: "world \<Rightarrow> u64 \<Rightarrow> bool" where
  "underway w g \<longleftrightarrow> g \<in> set (ps_resyncs (w_server w)) \<or> (\<exists>ev\<in>set (w_todo w). asks_snapshot g ev) \<or> g \<in> set (w_refused w)"

definition resync_ok :: "world \<Rightarrow> bool" where
  "resync_ok w \<longleftrightarrow> world_ok w \<and> (\<forall>i. armed_ok (w_stage w i) (ps_heap (w_server w) i)) \<and>
     (\<forall>i. ps_current (w_server w) = Some i \<and> wants (ps_heap (w_server w) i) \<longrightarrow> underway w (c_generation (ps_heap (w_server w) i)))"

lemma resync_okD:
  assumes "resync_ok w"
  shows "world_ok w" "armed_ok (w_stage w i) (ps_heap (w_server w) i)"
    "ps_current (w_server w) = Some i \<Longrightarrow> wants (ps_heap (w_server w) i) \<Longrightarrow> underway w (c_generation (ps_heap (w_server w) i))"
  using assms by (simp_all add: resync_ok_def)

text \<open>
  The current connection stays or goes, it does not begin to want a snapshot, and no request is lost.
\<close>

lemma resync_modest:
  assumes w: "resync_ok w" and ok: "world_ok w'"
    and h: "\<And>i. armed_ok (w_stage w' i) (ps_heap (w_server w') i)"
    and c: "\<And>i. ps_current (w_server w') = Some i \<Longrightarrow> wants (ps_heap (w_server w') i) \<Longrightarrow>
      ps_current (w_server w) = Some i \<and> modest (ps_heap (w_server w) i) (ps_heap (w_server w') i)"
    and u: "\<And>i. ps_current (w_server w') = Some i \<Longrightarrow> wants (ps_heap (w_server w') i) \<Longrightarrow>
      underway w (c_generation (ps_heap (w_server w) i)) \<Longrightarrow> underway w' (c_generation (ps_heap (w_server w) i))"
  shows "resync_ok w'"
proof -
  have "underway w' (c_generation (ps_heap (w_server w') i))"
    if "ps_current (w_server w') = Some i" "wants (ps_heap (w_server w') i)" for i
    using c [OF that] u [OF that] resync_okD(3) [OF w, of i] that(2) by (auto simp: modest_def)
  then show ?thesis using ok h by (simp add: resync_ok_def)
qed

lemma resync_server:
  assumes w: "resync_ok w" and ok: "world_ok (w\<lparr>w_server := s\<rparr>)"
    and h: "\<And>i. modest (ps_heap (w_server w) i) (ps_heap s i)" and s: "ps_current s = ps_current (w_server w)" "ps_resyncs s = ps_resyncs (w_server w)"
  shows "resync_ok (w\<lparr>w_server := s\<rparr>)"
  by (rule resync_modest [OF w ok]) (use h s modest_armed [OF h resync_okD(2) [OF w]] in \<open>auto simp: underway_def\<close>)

lemma resync_put:
  assumes "resync_ok w" "modest (ps_heap (w_server w) i) c" "keeps (ps_heap (w_server w) i) c"
  shows "resync_ok (w\<lparr>w_server := put i c (w_server w)\<rparr>)"
  by (rule resync_server [OF assms(1) world_similar [OF resync_okD(1) [OF assms(1)] similar_put [OF assms(3)]]])
    (use assms(2) in \<open>simp_all add: put_def\<close>)

lemma resync_stage:
  assumes w: "resync_ok w" and ok: "world_ok (at_stage i st w)" and st: "is_preparing st \<or> st = Handshake \<Longrightarrow> is_preparing (w_stage w i) \<or> w_stage w i = Handshake"
  shows "resync_ok (at_stage i st w)"
proof (rule resync_modest [OF w ok])
  show "armed_ok (w_stage (at_stage i st w) j) (ps_heap (w_server (at_stage i st w)) j)" for j
    using resync_okD(2) [OF w, of j] st by (auto simp: armed_ok_def)
qed (simp_all add: underway_def)

lemma resync_request:
  assumes w: "resync_ok w" and q: "owner_serves_request q w w'"
  shows "resync_ok w'"
proof -
  have s: "w_server w' = w_server w" "w_stage w' = w_stage w" "w_todo w = []" "w_refused w' = w_refused w"
    using q by (auto simp: owner_serves_request_def)
  show ?thesis
    by (rule resync_modest [OF w request_ok_world(1) [OF resync_okD(1) [OF w] q]]) (use s resync_okD(2) [OF w] in \<open>auto simp: underway_def\<close>)
qed

text \<open>The turn of the owner for a resync publishes the snapshot for the generation that asked.\<close>

lemma resync_turn:
  assumes ok: "owner_ok s" and t: "serve (CommandRequest (resyncCommand g)) s = Some t"
  shows "\<exists>ev\<in>set (drop (length (os_events s)) (os_events t)). asks_snapshot g ev"
proof -
  let ?c = "resyncCommand g" let ?s1 = "s\<lparr>os_reads := Suc (os_reads s)\<rparr>"
  have k: "sc_Kind ?c = KPresenterResync" "sc_Generation ?c = g" by (simp_all add: resyncCommand_def)
  obtain res u where u: "do_command ?c s = Some (res, u)" "resetTimer u = Some t" using t by (auto simp: serve_def bind_eq_Some_conv)
  have d: "presenterResync ?c ?s1 = Some (res, u)"
    using u(1) k by (auto simp: do_command_def gatePresenter_def clock_Now_def dispatch_def)
  obtain sn where "snapshot ?s1 = Some (sn, ?s1\<lparr>os_reads := Suc (os_reads ?s1)\<rparr>)" using snapshot_valid [OF owner_ok_read [OF ok]] by blast
  with d k have e: "os_events u = os_events s @ [zero_Event\<lparr>ev_Generation := g, ev_Sequence := snap_Sequence sn, ev_Snapshot := Some sn\<rparr>]"
    by (auto simp: presenterResync_def publish_def)
  have "owner_ok u" using presenterResync_advances [OF owner_ok_read [OF ok], of ?c] d advances_ok by auto
  then obtain evs where "os_events t = os_events u @ evs" using resetTimer_spec [of u] u(2) by (auto simp: advances_def tracks_def)
  with e show ?thesis by (simp add: asks_snapshot_def)
qed

subsection \<open>The steps keep it\<close>

text \<open>A snapshot reaches the connection that wants it, or its request is answered with an error.\<close>

lemma publishSnapshot_modest: "modest (ps_heap s i) (ps_heap (snd (publishSnapshot tj g sn s)) i)"
  using modest_enqueueSnapshot by (auto simp: publishSnapshot_def put_def Let_def case_prod_beta split: sum.splits option.splits)

lemma publishSnapshot_fields:
  "ps_current (snd (publishSnapshot tj g sn s)) = ps_current s" "ps_resyncs (snd (publishSnapshot tj g sn s)) = ps_resyncs s"
  by (auto simp: publishSnapshot_def put_def Let_def case_prod_beta split: sum.splits option.splits)

lemma enqueueSnapshot_serves: "fst (enqueueSnapshot f q c) \<Longrightarrow> \<not> wants (snd (enqueueSnapshot f q c))"
  by (auto simp: enqueueSnapshot_def wants_def)

lemma deliver_snapshot:
  assumes w: "resync_ok w" and t: "w_todo w = ev # evs" and sn: "ev_Snapshot ev = Some sn"
  shows "resync_ok (w\<lparr>w_todo := evs, w_server := snd (presenter_Publish tj ev (w_server w)), w_refused := w_refused w @ resyncErrors tj ev (w_server w)\<rparr>)"
    (is "resync_ok ?w'")
proof -
  let ?p = "publishSnapshot tj (ev_Generation ev) sn (w_server w)"
  have p: "presenter_Publish tj ev (w_server w) = ?p" using sn by (simp add: presenter_Publish_def)
  have "world_ok (w\<lparr>w_server := snd ?p\<rparr>)" using world_similar [OF resync_okD(1) [OF w] similar_publishSnapshot] .
  then have ok: "world_ok ?w'" by (simp add: p world_ok_def)
  show ?thesis
  proof (rule resync_modest [OF w ok])
    show "armed_ok (w_stage ?w' i) (ps_heap (w_server ?w') i)" for i
      using modest_armed [OF publishSnapshot_modest resync_okD(2) [OF w]] by (simp add: p)
    show "ps_current (w_server w) = Some i \<and> modest (ps_heap (w_server w) i) (ps_heap (w_server ?w') i)"
      if "ps_current (w_server ?w') = Some i" for i using that publishSnapshot_modest by (simp add: p publishSnapshot_fields)
    fix i assume c: "ps_current (w_server ?w') = Some i" "wants (ps_heap (w_server ?w') i)"
    let ?c = "ps_heap (w_server w) i"
    assume u: "underway w (c_generation ?c)"
    have cur: "ps_current (w_server w) = Some i" using c(1) by (simp add: p publishSnapshot_fields)
    have "\<not> fst ?p" if "ev_Generation ev = c_generation ?c"
      using c(2) that cur enqueueSnapshot_serves by (auto simp: p publishSnapshot_def put_def Let_def case_prod_beta split: sum.splits)
    then have "c_generation ?c \<in> set (resyncErrors tj ev (w_server w))" if "asks_snapshot (c_generation ?c) ev"
      using that sn by (simp add: asks_snapshot_def resyncErrors_def p)
    with u t show "underway ?w' (c_generation ?c)" by (auto simp: underway_def p publishSnapshot_fields)
  qed
qed

lemma deliver_delta:
  assumes w: "resync_ok w" and t: "w_todo w = ev # evs" and sn: "ev_Snapshot ev = None"
  shows "resync_ok (w\<lparr>w_todo := evs, w_server := snd (presenter_Publish tj ev (w_server w)), w_refused := w_refused w @ resyncErrors tj ev (w_server w)\<rparr>)"
    (is "resync_ok ?w'")
proof -
  let ?s = "w_server w"
  note r = registryD [OF world_okD(2) [OF resync_okD(1) [OF w]]]
  have keep: "underway w g \<Longrightarrow> underway (w\<lparr>w_todo := evs\<rparr>) g" for g using t sn by (auto simp: underway_def asks_snapshot_def)
  then have same: "resync_ok (w\<lparr>w_todo := evs\<rparr>)"
    by (intro resync_modest [OF w]) (use resync_okD(1,2) [OF w] in simp_all)
  have e: "resyncErrors tj ev ?s = []" using sn by (simp add: resyncErrors_def)
  show ?thesis
  proof (cases "snd (presenter_Publish tj ev ?s) = ?s")
    case True
    then show ?thesis using same e by simp
  next
    case False
    then obtain m where m: "snd (presenter_Publish tj ev ?s) = snd (publish_delta m (snd (prepare_delta m ?s)))"
      using sn by (auto simp: presenter_Publish_def Let_def case_prod_beta split: option.splits if_splits)
    let ?t = "snd (publish_delta m (snd (prepare_delta m ?s)))"
    have d: "ps_preparing ?s = None \<or> ps_preparing ?s \<noteq> ps_current ?s" using r(4) [of "the (ps_preparing ?s)"] by (cases "ps_preparing ?s") auto
    note h = published_delta [OF d, where m = m]
    have g: "\<exists>i. ps_current ?s = Some i \<and> c_failed (ps_heap ?s i)" if "ps_closing ?s" "ps_current ?s \<noteq> None"
      using that r(2,3) world_okD(4) [OF resync_okD(1) [OF w]] by (fastforce simp: closing_ok_def may_be_current_def live_def split: stage.splits)
    have "world_ok (w\<lparr>w_server := ?t\<rparr>)" using world_similar [OF resync_okD(1) [OF w] similar_Publish [of _ tj ev]] m by simp
    then have ok: "world_ok ?w'" by (simp add: m world_ok_def)
    have a: "armed_ok (w_stage w i) (ps_heap ?t i)" for i
      using h(2) [of i] resync_okD(2) [OF w, of i] modest_armed [OF modest_prepare] r(3) [of i] may_be_current_stage [of "w_stage w i"] enqueueDelta_asks(1) [OF resync_okD(2) [OF w], of i m]
      by auto
    have "underway ?w' (c_generation (ps_heap ?t i))" if c: "ps_current ?t = Some i" "wants (ps_heap ?t i)" for i
    proof -
      have cur: "ps_current ?s = Some i" "\<not> is_preparing (w_stage w i)" "w_stage w i \<noteq> Handshake" using c(1) h(1) r(3) [of i] may_be_current_stage [of "w_stage w i"] by auto
      have hi: "ps_heap ?t i = snd (snd (enqueueDelta m (ps_heap ?s i)))" using h(2) [of i] cur(1) r(4) [of i] by simp
      note q = enqueueDelta_asks [OF resync_okD(2) [OF w] cur(2,3), of m]
      have "\<not> ps_closing ?s" if "fst (snd (enqueueDelta m (ps_heap ?s i)))" using that g cur(1) by (auto simp: enqueueDelta_def)
      then show ?thesis
        using q(2,3) c(2) hi h(4) [OF cur(1)] resync_okD(3) [OF w cur(1)] keep h(3) by (auto simp: underway_def m e)
    qed
    with ok a show ?thesis by (simp add: resync_ok_def m)
  qed
qed

lemma resync_asked:
  assumes w: "resync_ok w" and q: "owner_serves_request (CommandRequest (resyncCommand g)) (w\<lparr>w_server := resyncAsked g (w_server w)\<rparr>) w'"
  shows "resync_ok w'"
proof -
  let ?w = "w\<lparr>w_server := resyncAsked g (w_server w)\<rparr>"
  have "world_ok ?w" by (rule world_similar [OF resync_okD(1) [OF w]]) (simp add: similar_def resyncAsked_def)
  note ok = request_ok_world(1) [OF this q]
  obtain s where s: "w_todo w = []" "serve (CommandRequest (resyncCommand g)) (w_owner w) = Some s"
    "w' = ?w\<lparr>w_owner := s, w_todo := drop (length (os_events (w_owner w))) (os_events s)\<rparr>" using q by (auto simp: owner_serves_request_def)
  note ev = resync_turn [OF world_okD(1) [OF resync_okD(1) [OF w]] s(2)]
  show ?thesis
  proof (rule resync_modest [OF w ok])
    fix i
    show "underway w' (c_generation (ps_heap (w_server w) i))" if "underway w (c_generation (ps_heap (w_server w) i))"
      using that s ev by (cases "c_generation (ps_heap (w_server w) i) = g") (auto simp: underway_def resyncAsked_def)
  qed (use resync_okD(2) [OF w] s in \<open>auto simp: resyncAsked_def\<close>)
qed

lemma resyncRefused_fields:
  "ps_current (resyncRefused g s) = ps_current s" "ps_resyncs (resyncRefused g s) = ps_resyncs s"
  "ps_heap (resyncRefused g s) i \<in> {ps_heap s i, fail (ps_heap s i)}"
  "ps_current s = Some i \<Longrightarrow> c_generation (ps_heap s i) = g \<Longrightarrow> \<not> wants (ps_heap (resyncRefused g s) i)"
  by (auto simp: resyncRefused_def put_def wants_def fail_def split: option.splits)

lemma resync_given_up:
  assumes w: "resync_ok w" and ok: "world_ok w'" and s: "w_server w' = resyncRefused g s" "w_stage w' = w_stage w" "w_todo w' = w_todo w"
    and t: "ps_current s = ps_current (w_server w)" "ps_heap s = ps_heap (w_server w)"
    and u: "\<And>h. h \<noteq> g \<Longrightarrow> underway w h \<Longrightarrow> underway w' h"
  shows "resync_ok w'"
proof (rule resync_modest [OF w ok])
  have m: "modest (ps_heap (w_server w) i) (ps_heap (w_server w') i)" for i using resyncRefused_fields(3) [of g s i] s(1) t(2) by auto
  show "armed_ok (w_stage w' i) (ps_heap (w_server w') i)" for i using modest_armed [OF m resync_okD(2) [OF w]] s(2) by simp
  show "ps_current (w_server w) = Some i \<and> modest (ps_heap (w_server w) i) (ps_heap (w_server w') i)"
    if "ps_current (w_server w') = Some i" for i using that m s(1) t(1) by (simp add: resyncRefused_fields)
  show "underway w' (c_generation (ps_heap (w_server w) i))"
    if "ps_current (w_server w') = Some i" "wants (ps_heap (w_server w') i)" "underway w (c_generation (ps_heap (w_server w) i))" for i
    using resyncRefused_fields(4) [of s i g] that s(1) t u by (auto simp: resyncRefused_fields(1))
qed

lemma resync_fresh:
  assumes w: "resync_ok w" and ok: "world_ok w'" and i: "ps_current (w_server w') = ps_current (w_server w) \<or> ps_current (w_server w') = Some i"
    and c: "\<not> c_resyncNeeded (ps_heap (w_server w') i)" "\<not> c_resyncScheduled (ps_heap (w_server w') i)"
    and j: "\<And>j. j \<noteq> i \<Longrightarrow> ps_heap (w_server w') j = ps_heap (w_server w) j \<and> w_stage w' j = w_stage w j"
    and u: "ps_resyncs (w_server w') = ps_resyncs (w_server w)" "w_todo w' = w_todo w" "w_refused w' = w_refused w"
  shows "resync_ok w'"
proof (rule resync_modest [OF w ok])
  show "armed_ok (w_stage w' k) (ps_heap (w_server w') k)" for k using j [of k] c resync_okD(2) [OF w, of k] by (cases "k = i") (auto simp: armed_ok_def)
  show "ps_current (w_server w) = Some k \<and> modest (ps_heap (w_server w) k) (ps_heap (w_server w') k)"
    if "ps_current (w_server w') = Some k" "wants (ps_heap (w_server w') k)" for k
    using that i j [of k] c(1) by (cases "k = i") (auto simp: wants_def)
qed (use u in \<open>simp add: underway_def\<close>)

lemma resync_step:
  assumes w: "resync_ok w" and st: "presenter_step tj w w'"
  shows "resync_ok w'"
proof -
  have ok: "world_ok w'" by (rule presenter_step_ok [OF resync_okD(1) [OF w] st])
  from st show ?thesis
  proof cases
    case (request q)
    then show ?thesis using resync_request [OF w] by blast
  next
    case (deliver ev evs)
    then show ?thesis using deliver_snapshot [OF w] deliver_delta [OF w] by (cases "ev_Snapshot ev") auto
  next
    case (resync g)
    then show ?thesis using resync_asked [OF w] by blast
  next
    case (resync_refused g)
    show ?thesis by (rule resync_given_up [OF w ok, of g "w_server w"]) (use resync_refused in \<open>auto simp: underway_def resyncRefused_fields\<close>)
  next
    case (resync_closed g)
    show ?thesis by (rule resync_given_up [OF w ok, of g "resyncAsked g (w_server w)"])
      (use resync_closed in \<open>auto simp: underway_def resyncRefused_fields resyncAsked_def\<close>)
  next
    case (accept i go s)
    show ?thesis
    proof (cases go)
      case True
      show ?thesis by (rule resync_fresh [OF w ok, of i]) (use accept True in \<open>auto simp: handle_register_def put_def newConnection_def split: if_splits\<close>)
    next
      case False
      then have "w' = at_stage i Gone w" using accept by (auto simp: handle_register_def split: if_splits)
      then show ?thesis using resync_stage [OF w, of i Gone] ok by simp
    qed
  next
    case (hello i producer go s)
    have "\<not> c_resyncNeeded (ps_heap (w_server w) i)" "\<not> c_resyncScheduled (ps_heap (w_server w) i)"
      using resync_okD(2) [OF w, of i] hello(2) by (simp_all add: armed_ok_def)
    then show ?thesis by (intro resync_fresh [OF w ok, of i]) (use hello in \<open>auto simp: handle_prepare_def put_def Let_def split: if_splits\<close>)
  next
    case (snapshot i w1 sn s q frame)
    let ?w1 = "w1\<lparr>w_frame := (w_frame w)(i := frame)\<rparr>"
    have w1: "resync_ok w1" by (rule resync_request [OF w snapshot(3)])
    then have "resync_ok ?w1" by (simp add: resync_ok_def underway_def)
    moreover have "w_stage w1 i = Prepared" using request_ok_world(4) [OF resync_okD(1) [OF w] snapshot(3)] snapshot(2) by simp
    ultimately show ?thesis unfolding snapshot(1) using ok snapshot(1) by (intro resync_stage) simp_all
  next
    case (no_frame i w1 sn s)
    then show ?thesis using resync_stage [OF resync_request [OF w no_frame(3)], of i Ending] ok by simp
  next
    case (swap i q go s)
    have "\<not> c_resyncNeeded (ps_heap (w_server w) i)" "\<not> c_resyncScheduled (ps_heap (w_server w) i)"
      using resync_okD(2) [OF w, of i] swap(2) by (simp_all add: armed_ok_def)
    then show ?thesis
      by (intro resync_fresh [OF w ok, of i])
        (use swap in \<open>auto simp: handle_activate_def put_def activate_keeps_resync Let_def case_prod_beta split: if_splits\<close>)
  next
    case (retire i old g s)
    have "resync_ok (w\<lparr>w_server := s\<rparr>)"
      using retire(3) resync_put [OF w modest_fail keeps_fail] w by (auto simp: handle_retire_def split: option.splits)
    then show ?thesis using resync_stage [of "w\<lparr>w_server := s\<rparr>" i "Retired g"] ok retire(1) by simp
  next
    case (bind i g w1)
    then show ?thesis using resync_stage [OF resync_request [OF w bind(3)], of i Serving] ok by simp
  next
    case (greet i)
    then show ?thesis using resync_put [OF w modest_greet keeps_greet] by simp
  next
    case (move i c)
    then show ?thesis using resync_put [OF w modest_moves keeps_moves] by blast
  next
    case (failure i)
    then show ?thesis using resync_put [OF w modest_fail keeps_fail] by simp
  next
    case (give_up i)
    then show ?thesis using resync_stage [OF w, of i Ending] ok by simp
  next
    case (finish i s wasCurrent t)
    have s: "resync_ok (w\<lparr>w_server := s\<rparr>)" using finish(3) resync_put [OF w modest_fail keeps_fail] by simp
    have t: "ps_heap t = ps_heap s" "ps_resyncs t = ps_resyncs s" "\<And>j. ps_current t = Some j \<Longrightarrow> ps_current s = Some j"
      using finish(4) by (auto simp: connectionDone_def split: if_splits)
    show ?thesis
    proof (rule resync_modest [OF s ok])
      show "armed_ok (w_stage w' j) (ps_heap (w_server w') j)" for j
        using resync_okD(2) [OF s, of j] finish(1) t(1) by (auto simp: armed_ok_def split: if_splits)
    qed (use finish(1) t in \<open>auto simp: underway_def split: if_splits\<close>)
  next
    case (lost i g w1)
    then show ?thesis using resync_stage [OF resync_request [OF w lost(3)], of i Gone] ok by simp
  next
    case close
    show ?thesis unfolding close
      by (rule resync_server [OF w]) (use ok close in \<open>auto simp: presenter_Close_def\<close>)
  qed
qed

lemma resync_initial: "presenter_initial w \<Longrightarrow> resync_ok w"
  using presenter_initial_ok by (auto simp: resync_ok_def presenter_initial_def NewPresenter_def newConnection_def armed_ok_def)

interpretation presenter_resyncs: guarded_machine presenter_initial "presenter_step tj" resync_ok for tj
  by unfold_locales (use resync_initial resync_step in blast)+

subsection \<open>No presenter is left behind\<close>


text \<open>
  An example: the queue of the second peer is full with a reply that it does not read, a notification is added, and its delta finds no room.
\<close>

definition ex_reply :: outbound where
  "ex_reply = \<lparr>ob_data = replicate MaxPresenterDecodedBytes CHR ''x'', ob_sequence = 0\<rparr>"

definition ex_full :: connection where
  "ex_full = (greet ex_frame ((newConnection 2)\<lparr>c_active := True\<rparr>))
     \<lparr>c_queuedMessages := 1, c_queuedBytes := int MaxPresenterDecodedBytes, c_queue := [ex_reply]\<rparr>"

lemma ex_second: "ps_heap (ex_server 7) 1 = greet ex_frame ((newConnection 2)\<lparr>c_active := True\<rparr>)" "ps_current (ex_server 7) = Some 1"
  "ps_preparing (ex_server 7) = None" "\<not> ps_closing (ex_server 7)"
  by (simp_all add: ex_handle_defs)

lemma ex_fills: "connection_moves (ps_heap (ex_server 7) 1) ex_full"
proof -
  have "enqueue ex_reply (ps_heap (ex_server 7) 1) = Some (True, ex_full)"
    unfolding ex_second(1) by (simp add: enqueue_def greet_def newConnection_def ex_full_def reserve_def ex_reply_def len_def MaxPresenterQueueMessages_def)
  moreover have "ob_sequence ex_reply = 0" "c_writer (ps_heap (ex_server 7) 1) \<noteq> Unstarted"
    unfolding ex_second(1) by (simp_all add: ex_reply_def greet_def)
  ultimately show ?thesis unfolding connection_moves_def by blast
qed

definition ex_asked :: ownerState where "ex_asked = ex_bound\<lparr>os_reads := Suc (os_reads ex_bound)\<rparr>"

lemma ex_asked_fields [simp]:
  "os_records ex_asked = Map.empty" "os_order ex_asked = []" "os_nextID ex_asked = 1" "os_sequence ex_asked = 0" "os_events ex_asked = []"
  "os_history ex_asked = None" "os_producerIDs ex_asked = Map.empty"
  by (simp_all add: ex_asked_def ex_bound_def)

lemma ex_bound_adds: "\<exists>t d. serve ex_add ex_bound = Some t \<and> os_events t = delta_events 0 [d] \<and> Delta_Validate d = None"
proof -
  let ?now = "ex_clock 2" let ?s = ex_asked
  have now: "?now = 7000000000" by (simp add: ex_clock_def Second_def)
  have valid: "validateCandidate ex_candidate ?now = None"
    using ex_valid by (simp add: validateCandidate_def Notification_Validate_def notificationFromCandidate_def now ex_now_def time_IsZero_def split: if_splits)
  have c: "cand_ReplacesID ex_candidate = 0" by (simp add: ex_candidate_def zero_Candidate_def)
  have b: "burstDuplicate ex_candidate ?now ?s = 0" "takenIDs ?s = (\<lambda>_. False)" "ex_candidate\<lparr>cand_ReplacesID := 0\<rparr> = ex_candidate"
    using c by (simp_all add: burstDuplicate_def takenIDs_def fun_eq_iff)
  let ?r = "startDeadline ?now (newRecord ex_candidate [] None ?now 1)"
  have d: "0 < rec_duration (newRecord ex_candidate [] None ?now 1)" by (simp add: newRecord_def ex_duration)
  obtain res u where u: "add ex_candidate None ?now ?s = Some (res, u)" "os_events u = delta_events 0 [notificationDelta DeltaAdded ?r ?now]"
    unfolding add_def addWithProducerKey_def
    using d by (simp add: c b valid ex_resolve MaxActiveNotifications_def insertRecord_def publishDelta_emit emit_def Let_def)
  have do: "do_command (zero_StateCommand\<lparr>sc_Kind := KAdd, sc_Candidate := ex_candidate\<rparr>) ex_bound = Some (res, u)"
    using u(1) by (simp add: do_command_def gatePresenter_def dispatch_def clock_Now_def zero_StateCommand_def ex_bound_def ex_asked_def numeral_2_eq_2)
  have ok: "owner_ok ex_bound" using world_okD(1) [OF presenter_machine.reachable_inv [OF ex_initial ex_serving_reachable]] by simp
  have q: "request_ok ex_add" by (simp add: request_ok_def ex_add_def command_ok_def zero_StateCommand_def)
  obtain t where t: "serve ex_add ex_bound = Some t" "advances ex_bound t" using serve_advances [OF ok q] by blast
  then have "resetTimer u = Some t" using do by (simp add: serve_def ex_add_def)
  then have e: "os_events t = delta_events 0 [notificationDelta DeltaAdded ?r ?now]" using u(2) by (simp add: resetTimer_events)
  with t(2) have "Delta_Validate (notificationDelta DeltaAdded ?r ?now) = None"
    by (auto simp: advances_def tracks_def ex_bound_def)
  with t(1) e show ?thesis by blast
qed

text \<open>The delta finds the queue full, and a resync is asked for.\<close>

lemma ex_overflows:
  assumes "Delta_Validate d = None"
  shows "\<exists>s. s = snd (presenter_Publish (\<lambda>_. Some ''0'') (zero_Event\<lparr>ev_Sequence := 1, ev_Delta := Some d\<rparr>) (put 1 ex_full (ex_server 7))) \<and>
    ps_current s = Some 1 \<and> ps_heap s 1 = snd (beginResyncLocked ex_full) \<and> ps_resyncs s = [2]"
proof -
  let ?s = "put 1 ex_full (ex_server 7)"
  have "writes_times (\<lambda>_. Some ''0'')" by (simp add: writes_times_def)
  from delta_frame_total [OF this, of 1 d] obtain f
    where f: "marshalEnvelope (delta_kind_text (d_Kind d)) 0 1 (marshal_Delta (\<lambda>_. Some ''0'') d) = Some f" unfolding delta_frame_def by blast
  then have "f \<noteq> []" by (auto simp: marshalEnvelope_def json_object_def)
  let ?m = "\<lparr>ob_data = f, ob_sequence = 1\<rparr>"
  have s: "ps_current ?s = Some 1" "ps_preparing ?s = None" "\<not> ps_closing ?s" "ps_heap ?s 1 = ex_full" "ps_resyncs ?s = []"
    using ex_second by (simp_all add: put_def ex_server_def NewPresenter_def)
  have e: "enqueueDelta ?m ex_full = (True, True, snd (beginResyncLocked ex_full))" "c_generation (snd (beginResyncLocked ex_full)) = 2"
    using \<open>f \<noteq> []\<close> by (simp_all add: enqueueDelta_def ex_full_def greet_def newConnection_def reserve_def beginResyncLocked_def len_def
        ValidateNextSequence_def fail_if_def)
  have "snd (presenter_Publish (\<lambda>_. Some ''0'') (zero_Event\<lparr>ev_Sequence := 1, ev_Delta := Some d\<rparr>) ?s) =
      snd (publish_delta ?m (snd (prepare_delta ?m ?s)))"
    using f assms by (simp add: presenter_Publish_def zero_Event_def case_prod_beta Let_def)
  with s e show ?thesis by (simp add: prepare_delta_def publish_delta_def put_def)
qed


end
