(* ===== verification/Files.thy ===== *)
theory Files
  imports Prelude "HOL-Library.AList" "HOL-Library.Char_ord" "HOL-Library.List_Lexorder"
begin

text \<open>
  What the program uses of the operating system's files: names, inodes, and the calls of packages \<open>os\<close> and
  \<open>path/filepath\<close>. A clean absolute path is the list of its components, so \<open>filepath.Join\<close> appends and
  \<open>filepath.Clean\<close> has nothing to do.

  Every call may fail: the fault at the \<open>n\<close>-th call is \<open>fs_faults n\<close>, an error text and, for a write, the number of
  bytes that were written all the same. A process that dies at some call is a run in which every call from there
  on fails. Time stamps come from a clock that is read at every call, and the random part of a temporary name from
  \<open>fs_random\<close>. No other process touches the files while an operation runs; between operations they may have been
  changed in any way, since the theorems hold for every file system.

  The routines also change memory: the field \<open>fileInfo\<close> of an image's metadata object, which the objects at hand share
  through pointers. \<open>fs_verified\<close> is that field at each address. \<open>fs_bindPerm\<close> are the permissions a new socket gets under
  the umask of the process, which is taken to leave the owner's own permissions alone.
\<close>

subsection \<open>Files and operations\<close>

type_synonym path = "string list"

datatype fileKind = Regular | Directory | Symlink | SocketFile | OtherFile

record inode =
  i_kind :: fileKind
  i_perm :: nat
  i_uid :: u32
  i_data :: bytes
  i_mtime :: time
  i_ctime :: time

record fileInfo =
  fi_ino :: nat
  fi_kind :: fileKind
  fi_perm :: nat
  fi_uid :: u32
  fi_size :: nat
  fi_mtime :: time
  fi_ctime :: time

text \<open>Whether a process listens on a socket, and whether its backlog has room for a connection.\<close>

datatype socketState = NoListener | Listening | Crowded

record filesys =
  fs_names :: "(path \<times> nat) list"
  fs_inodes :: "nat \<Rightarrow> inode"
  fs_next :: nat
  fs_uid :: u32
  fs_clock :: "nat \<Rightarrow> time"
  fs_random :: "nat \<Rightarrow> nat \<Rightarrow> string"
  fs_faults :: "nat \<Rightarrow> (string \<times> nat) option"
  fs_calls :: nat
  fs_verified :: "nat \<Rightarrow> fileInfo option"
  fs_sockets :: "nat \<Rightarrow> socketState"
  fs_bindPerm :: nat

type_synonym 'a io = "filesys \<Rightarrow> (err + 'a) \<times> filesys"

definition io_return :: "'a \<Rightarrow> 'a io" where
  "io_return x fs = (Inr x, fs)"

definition io_throw :: "err \<Rightarrow> 'a io" where
  "io_throw e fs = (Inl e, fs)"

text \<open>Go on with the value, return the error.\<close>

definition io_bind :: "'a io \<Rightarrow> ('a \<Rightarrow> 'b io) \<Rightarrow> 'b io" where
  "io_bind m k fs = (case m fs of (Inl e, t) \<Rightarrow> (Inl e, t) | (Inr x, t) \<Rightarrow> k x t)"

text \<open>Look at value or error.\<close>

definition io_try :: "'a io \<Rightarrow> (err + 'a) io" where
  "io_try m fs = (case m fs of (r, t) \<Rightarrow> (Inr r, t))"

text \<open>\<open>fmt.Errorf\<close> with \<open>%w\<close> around an error.\<close>

definition io_wrap :: "string \<Rightarrow> 'a io \<Rightarrow> 'a io" where
  "io_wrap msg m fs = (case m fs of (Inl e, t) \<Rightarrow> (Inl (Wrap msg e), t) | (Inr x, t) \<Rightarrow> (Inr x, t))"

text \<open>A deferred call, whose own result is ignored.\<close>

definition io_finally :: "'a io \<Rightarrow> 'b io \<Rightarrow> 'a io" where
  "io_finally m c fs = (case m fs of (r, t) \<Rightarrow> (r, snd (c t)))"

fun io_each :: "('a \<Rightarrow> unit io) \<Rightarrow> 'a list \<Rightarrow> unit io" where
  "io_each f [] = io_return ()"
| "io_each f (x # xs) = io_bind (f x) (\<lambda>_. io_each f xs)"

subsection \<open>System calls\<close>

definition syscall :: "'a io \<Rightarrow> 'a io" where
  "syscall f fs =
     (let t = fs\<lparr>fs_calls := Suc (fs_calls fs)\<rparr> in
      case fs_faults fs (fs_calls fs) of Some (m, n) \<Rightarrow> (Inl (Err m), t) | None \<Rightarrow> f t)"

abbreviation inode_number :: "path \<Rightarrow> filesys \<Rightarrow> nat option" where
  "inode_number p fs \<equiv> map_of (fs_names fs) p"

definition stamp :: "filesys \<Rightarrow> time" where
  "stamp fs = fs_clock fs (fs_calls fs)"

definition touch :: "nat \<Rightarrow> filesys \<Rightarrow> filesys" where
  "touch i fs = fs\<lparr>fs_inodes := (fs_inodes fs)(i := (fs_inodes fs i)\<lparr>i_ctime := stamp fs\<rparr>)\<rparr>"

definition info_of :: "nat \<Rightarrow> filesys \<Rightarrow> fileInfo" where
  "info_of i fs = (let d = fs_inodes fs i in
     \<lparr>fi_ino = i, fi_kind = i_kind d, fi_perm = i_perm d, fi_uid = i_uid d, fi_size = length (i_data d),
      fi_mtime = i_mtime d, fi_ctime = i_ctime d\<rparr>)"

definition os_Lstat :: "path \<Rightarrow> fileInfo io" where
  "os_Lstat p = syscall (\<lambda>fs. (case inode_number p fs of None \<Rightarrow> Inl ErrNotExist | Some i \<Rightarrow> Inr (info_of i fs), fs))"

definition file_Stat :: "nat \<Rightarrow> fileInfo io" where
  "file_Stat i = syscall (\<lambda>fs. (Inr (info_of i fs), fs))"

definition os_Open :: "path \<Rightarrow> nat io" where
  "os_Open p = syscall (\<lambda>fs. (case inode_number p fs of None \<Rightarrow> Inl ErrNotExist | Some i \<Rightarrow> Inr i, fs))"

definition file_Read :: "nat \<Rightarrow> bytes io" where
  "file_Read i = syscall (\<lambda>fs. (Inr (i_data (fs_inodes fs i)), fs))"

definition os_ReadFile :: "path \<Rightarrow> bytes io" where
  "os_ReadFile p = io_bind (os_Open p) file_Read"

definition os_SameFile :: "fileInfo \<Rightarrow> fileInfo \<Rightarrow> bool" where
  "os_SameFile a b \<longleftrightarrow> fi_ino a = fi_ino b"

definition new_inode :: "path \<Rightarrow> fileKind \<Rightarrow> nat \<Rightarrow> filesys \<Rightarrow> filesys" where
  "new_inode p k perm fs =
     fs\<lparr>fs_names := AList.update p (fs_next fs) (fs_names fs), fs_next := Suc (fs_next fs),
        fs_inodes := (fs_inodes fs)(fs_next fs :=
          \<lparr>i_kind = k, i_perm = perm, i_uid = fs_uid fs, i_data = [], i_mtime = stamp fs, i_ctime = stamp fs\<rparr>)\<rparr>"

record tempFile =
  tmp_name :: path
  tmp_ino :: nat

text \<open>Random names are drawn until one is free, up to 10000 times.\<close>

fun try_temp :: "nat \<Rightarrow> nat \<Rightarrow> path \<Rightarrow> string \<Rightarrow> filesys \<Rightarrow> path option" where
  "try_temp 0 k dir pattern fs = None"
| "try_temp (Suc n) k dir pattern fs =
     (let p = dir @ [pattern @ fs_random fs (fs_calls fs) k] in
      if inode_number p fs = None then Some p else try_temp n (Suc k) dir pattern fs)"

definition os_CreateTemp :: "path \<Rightarrow> string \<Rightarrow> tempFile io" where
  "os_CreateTemp dir pattern = syscall (\<lambda>fs.
     case try_temp 10000 0 dir pattern fs of
       None \<Rightarrow> (Inl ErrExist, fs)
     | Some p \<Rightarrow> (Inr \<lparr>tmp_name = p, tmp_ino = fs_next fs\<rparr>, new_inode p Regular 0x180 fs))"

definition file_Chmod :: "nat \<Rightarrow> nat \<Rightarrow> unit io" where
  "file_Chmod i perm = syscall (\<lambda>fs.
     (Inr (), touch i (fs\<lparr>fs_inodes := (fs_inodes fs)(i := (fs_inodes fs i)\<lparr>i_perm := perm\<rparr>)\<rparr>)))"

definition append_data :: "nat \<Rightarrow> bytes \<Rightarrow> filesys \<Rightarrow> filesys" where
  "append_data i d fs =
     fs\<lparr>fs_inodes := (fs_inodes fs)(i := (fs_inodes fs i)\<lparr>i_data := i_data (fs_inodes fs i) @ d, i_mtime := stamp fs, i_ctime := stamp fs\<rparr>)\<rparr>"

definition file_Write :: "nat \<Rightarrow> bytes \<Rightarrow> unit io" where
  "file_Write i d fs =
     (let t = fs\<lparr>fs_calls := Suc (fs_calls fs)\<rparr> in
      case fs_faults fs (fs_calls fs) of
        Some (m, n) \<Rightarrow> (Inl (Err m), append_data i (take n d) t)
      | None \<Rightarrow> (Inr (), append_data i d t))"

definition file_Sync :: "nat \<Rightarrow> unit io" where
  "file_Sync i = syscall (io_return ())"

definition file_Close :: "nat \<Rightarrow> unit io" where
  "file_Close i = syscall (io_return ())"

definition is_directory :: "path \<Rightarrow> filesys \<Rightarrow> bool" where
  "is_directory p fs = (case inode_number p fs of None \<Rightarrow> False | Some i \<Rightarrow> i_kind (fs_inodes fs i) = Directory)"

definition children :: "path \<Rightarrow> filesys \<Rightarrow> string list" where
  "children dir fs = sort (map last (filter (\<lambda>p. p \<noteq> [] \<and> butlast p = dir) (map fst (fs_names fs))))"

definition os_ReadDir :: "path \<Rightarrow> string list io" where
  "os_ReadDir dir = syscall (\<lambda>fs. (if is_directory dir fs then Inr (children dir fs) else Inl ErrNotExist, fs))"

definition os_Rename :: "path \<Rightarrow> path \<Rightarrow> unit io" where
  "os_Rename src dst = syscall (\<lambda>fs.
     case inode_number src fs of
       None \<Rightarrow> (Inl ErrNotExist, fs)
     | Some i \<Rightarrow>
         if is_directory dst fs then (Inl (Err ''file exists''), fs)
         else (Inr (), touch i (fs\<lparr>fs_names := AList.update dst i (AList.delete src (fs_names fs))\<rparr>)))"

definition os_Link :: "path \<Rightarrow> path \<Rightarrow> unit io" where
  "os_Link src dst = syscall (\<lambda>fs.
     case inode_number src fs of
       None \<Rightarrow> (Inl ErrNotExist, fs)
     | Some i \<Rightarrow>
         if inode_number dst fs \<noteq> None then (Inl ErrExist, fs)
         else (Inr (), touch i (fs\<lparr>fs_names := AList.update dst i (fs_names fs)\<rparr>)))"

definition os_Remove :: "path \<Rightarrow> unit io" where
  "os_Remove p = syscall (\<lambda>fs.
     case inode_number p fs of
       None \<Rightarrow> (Inl ErrNotExist, fs)
     | Some i \<Rightarrow>
         if is_directory p fs \<and> children p fs \<noteq> [] then (Inl (Err ''directory not empty''), fs)
         else (Inr (), touch i (fs\<lparr>fs_names := AList.delete p (fs_names fs)\<rparr>)))"

definition os_Mkdir :: "path \<Rightarrow> nat \<Rightarrow> unit io" where
  "os_Mkdir p perm = syscall (\<lambda>fs.
     if inode_number p fs \<noteq> None then (Inl ErrExist, fs)
     else if butlast p \<noteq> [] \<and> \<not> is_directory (butlast p) fs then (Inl ErrNotExist, fs)
     else (Inr (), new_inode p Directory perm fs))"

definition os_Chmod :: "path \<Rightarrow> nat \<Rightarrow> unit io" where
  "os_Chmod p perm = io_bind (os_Open p) (\<lambda>i. file_Chmod i perm)"

subsection \<open>Weakest preconditions\<close>

text \<open>
  What holds after a value and after an error. The equations push the postconditions through a program, so a
  proof about a routine is a simplification followed by the facts of the routines it calls.
\<close>

named_theorems wp \<open>weakest preconditions of the file operations\<close>

definition io_wp :: "'a io \<Rightarrow> ('a \<Rightarrow> filesys \<Rightarrow> bool) \<Rightarrow> (err \<Rightarrow> filesys \<Rightarrow> bool) \<Rightarrow> filesys \<Rightarrow> bool" where
  "io_wp m Q E fs \<longleftrightarrow> (case m fs of (Inr x, t) \<Rightarrow> Q x t | (Inl e, t) \<Rightarrow> E e t)"

lemma wp_return [wp]: "io_wp (io_return x) Q E fs = Q x fs"
  by (simp add: io_wp_def io_return_def)

lemma wp_throw [wp]: "io_wp (io_throw e) Q E fs = E e fs"
  by (simp add: io_wp_def io_throw_def)

lemma wp_bind [wp]: "io_wp (io_bind m k) Q E fs = io_wp m (\<lambda>x. io_wp (k x) Q E) E fs"
  by (simp add: io_wp_def io_bind_def split: prod.split sum.split)

lemma wp_try [wp]: "io_wp (io_try m) Q E fs = io_wp m (\<lambda>x. Q (Inr x)) (\<lambda>e. Q (Inl e)) fs"
  by (simp add: io_wp_def io_try_def split: prod.split sum.split)

lemma wp_wrap [wp]: "io_wp (io_wrap msg m) Q E fs = io_wp m Q (\<lambda>e. E (Wrap msg e)) fs"
  by (simp add: io_wp_def io_wrap_def split: prod.split sum.split)

lemma wp_finally [wp]:
  "io_wp (io_finally m c) Q E fs = io_wp m (\<lambda>x. io_wp c (\<lambda>_. Q x) (\<lambda>_. Q x)) (\<lambda>e. io_wp c (\<lambda>_. E e) (\<lambda>_. E e)) fs"
  by (simp add: io_wp_def io_finally_def split: prod.split sum.split)

lemma wp_if [wp]: "io_wp (if b then m else n) Q E fs = (if b then io_wp m Q E fs else io_wp n Q E fs)"
  by simp

lemma wp_mono:
  assumes "io_wp m Q E fs" "\<And>x t. Q x t \<Longrightarrow> Q' x t" "\<And>e t. E e t \<Longrightarrow> E' e t"
  shows "io_wp m Q' E' fs"
  using assms by (auto simp: io_wp_def split: prod.splits sum.splits)

lemma wp_conj: "io_wp m Q E fs \<Longrightarrow> io_wp m Q' E' fs \<Longrightarrow> io_wp m (\<lambda>x t. Q x t \<and> Q' x t) (\<lambda>e t. E e t \<and> E' e t) fs"
  by (auto simp: io_wp_def split: prod.splits sum.splits)

lemma wp_run: "io_wp m Q E fs \<longleftrightarrow> (\<forall>x t. m fs = (Inr x, t) \<longrightarrow> Q x t) \<and> (\<forall>e t. m fs = (Inl e, t) \<longrightarrow> E e t)"
  by (auto simp: io_wp_def split: prod.splits sum.splits)

end
