(* ===== verification/HistoryFiles.thy ===== *)
theory HistoryFiles
  imports History Files
begin

unbundle bit_operations_syntax

text \<open>
  The history on disk (\<open>internal/history/store.go\<close>, \<open>schema.go\<close>, \<open>image.go\<close>): writing the document and its image
  sidecars, reading them back, putting an unusable document aside, and opening the store.

  Parameters: the PNG codec and SHA-256 (\<open>codec\<close>), what \<open>encoding/json\<close> reads (\<open>docDecoder\<close>), the text of a time in
  the name of a quarantined file, and \<open>adr\<close>, the address of the metadata object of an entry.
\<close>

subsection \<open>Private files (image.go, store.go)\<close>

definition privateRegularFileInfo :: "path \<Rightarrow> fileInfo io" where
  "privateRegularFileInfo p =
     io_bind (os_Lstat p) (\<lambda>info.
       if fi_kind info \<noteq> Regular \<or> fi_perm info \<noteq> 0x180 then io_throw (Err ''history: unsafe file'') else io_return info)"

definition tooLarge :: err where
  "tooLarge = Wrap ''file exceeds limit'' ErrTooLarge"

definition readPrivateRegularFile :: "path \<Rightarrow> nat \<Rightarrow> bytes io" where
  "readPrivateRegularFile p limit =
     io_bind (privateRegularFileInfo p) (\<lambda>info. if limit < fi_size info then io_throw tooLarge else os_ReadFile p)"

definition syncDirectory :: "path \<Rightarrow> unit io" where
  "syncDirectory p =
     io_bind (io_wrap ''history: open directory for sync'' (os_Open p))
       (\<lambda>d. io_finally (io_wrap ''history: sync directory'' (file_Sync d)) (file_Close d))"

definition sameFileChangeTime :: "fileInfo \<Rightarrow> fileInfo \<Rightarrow> bool" where
  "sameFileChangeTime a b \<longleftrightarrow> fi_ctime a = fi_ctime b"

definition sameSidecarInfo :: "fileInfo option \<Rightarrow> fileInfo \<Rightarrow> bool" where
  "sameSidecarInfo verified current =
     (case verified of
        None \<Rightarrow> False
      | Some v \<Rightarrow> os_SameFile v current \<and> fi_size v = fi_size current \<and> fi_mtime v = fi_mtime current \<and>
          sameFileChangeTime v current)"

definition hashPrivateRegularFile :: "codec \<Rightarrow> path \<Rightarrow> nat \<Rightarrow> (256 word \<times> fileInfo) io" where
  "hashPrivateRegularFile c p limit =
     io_bind (privateRegularFileInfo p) (\<lambda>info.
       if limit < fi_size info then io_throw tooLarge
       else io_bind (os_Open p) (\<lambda>file. io_finally
         (io_bind (file_Stat file) (\<lambda>opened.
            if fi_kind opened \<noteq> Regular \<or> fi_perm opened \<noteq> 0x180 \<or> \<not> os_SameFile info opened
            then io_throw (Err ''history: unsafe file'')
            else io_bind (file_Read file) (\<lambda>contents.
              let taken = take (limit + 1) contents in
              if limit < length taken then io_throw tooLarge
              else io_bind (file_Stat file) (\<lambda>current.
                io_bind (privateRegularFileInfo p) (\<lambda>pathInfo.
                  if fi_size current \<noteq> fi_size opened \<or> fi_mtime current \<noteq> fi_mtime opened \<or>
                     \<not> sameFileChangeTime opened current \<or> \<not> os_SameFile current pathInfo \<or>
                     fi_size pathInfo \<noteq> fi_size current \<or> fi_mtime pathInfo \<noteq> fi_mtime current \<or>
                     \<not> sameFileChangeTime current pathInfo
                  then io_throw (Err ''history: image sidecar changed during verification'')
                  else io_return (sha256_Sum256 c taken, pathInfo))))))
         (file_Close file)))"

subsection \<open>Image sidecars (image.go)\<close>

definition get_verified :: "nat \<Rightarrow> fileInfo option io" where
  "get_verified a fs = (Inr (fs_verified fs a), fs)"

definition set_verified :: "nat \<Rightarrow> fileInfo \<Rightarrow> unit io" where
  "set_verified a info fs = (Inr (), fs\<lparr>fs_verified := (fs_verified fs)(a := Some info)\<rparr>)"

definition sidecar :: "path \<Rightarrow> string \<Rightarrow> path" where
  "sidecar dir digest = dir @ [digest @ ''.png'']"

text \<open>The mode, the contents, the sync and the close of a temporary file.\<close>

definition fillTemporary :: "string \<Rightarrow> tempFile \<Rightarrow> bytes \<Rightarrow> unit io" where
  "fillTemporary what tmp contents =
     io_bind (io_wrap (''history: secure '' @ what) (file_Chmod (tmp_ino tmp) 0x180)) (\<lambda>_.
     io_bind (io_wrap (''history: write '' @ what) (file_Write (tmp_ino tmp) contents)) (\<lambda>_.
     io_bind (io_wrap (''history: sync '' @ what) (file_Sync (tmp_ino tmp))) (\<lambda>_.
     io_wrap (''history: close '' @ what) (file_Close (tmp_ino tmp)))))"

definition dropTemporary :: "tempFile \<Rightarrow> unit io" where
  "dropTemporary tmp = io_bind (io_try (file_Close (tmp_ino tmp))) (\<lambda>_. os_Remove (tmp_name tmp))"

definition noteSidecar :: "path \<Rightarrow> path \<Rightarrow> nat \<Rightarrow> unit io" where
  "noteSidecar dir p a =
     io_bind (syncDirectory dir) (\<lambda>_. io_bind (privateRegularFileInfo p) (set_verified a))"

text \<open>The second half of \<open>writeImage\<close>; \<open>again\<close> is its recursive call.\<close>

definition placeImage :: "unit io \<Rightarrow> path \<Rightarrow> path \<Rightarrow> nat \<Rightarrow> bool \<Rightarrow> tempFile \<Rightarrow> unit io" where
  "placeImage again dir p a replace tmp =
     (if replace
      then io_bind (io_wrap ''history: restore image sidecar'' (os_Rename (tmp_name tmp) p)) (\<lambda>_. noteSidecar dir p a)
      else io_bind (io_try (os_Link (tmp_name tmp) p)) (\<lambda>r.
        case r of
          Inl e \<Rightarrow> if errors_Is e ErrExist then again else io_throw (Wrap ''history: commit image'' e)
        | Inr _ \<Rightarrow>
            io_bind (io_wrap ''history: remove image temporary file'' (os_Remove (tmp_name tmp))) (\<lambda>_. noteSidecar dir p a)))"

definition storeImage :: "unit io \<Rightarrow> path \<Rightarrow> path \<Rightarrow> bytes \<Rightarrow> nat \<Rightarrow> bool \<Rightarrow> unit io" where
  "storeImage again dir p contents a replace =
     io_bind (io_wrap ''history: create image temporary file'' (os_CreateTemp dir ''.image.tmp-'')) (\<lambda>tmp. io_finally
       (io_bind (fillTemporary ''image temporary file'' tmp contents) (\<lambda>_. placeImage again dir p a replace tmp))
       (dropTemporary tmp))"

text \<open>
  The recursion goes on while another process creates the sidecar in between. The fuel bounds it; without such a
  process the first round is the last, and what is proved of \<open>writeImage\<close> holds for every positive fuel.
\<close>

fun writeImage :: "nat \<Rightarrow> codec \<Rightarrow> path \<Rightarrow> Image option \<Rightarrow> imageMeta option \<Rightarrow> nat \<Rightarrow> unit io" where
  "writeImage 0 c dir source meta a = io_throw (Err ''writeImage: too many rounds'')"
| "writeImage (Suc n) c dir source meta a =
     (case (source, meta) of
        (Some src, Some m) \<Rightarrow>
          (let p = sidecar dir (im_digest m); store = storeImage (writeImage n c dir source meta a) dir p (img_Data src) a in
           io_bind (io_try (privateRegularFileInfo p)) (\<lambda>r.
             case r of
               Inr info \<Rightarrow>
                 io_bind (get_verified a) (\<lambda>verified.
                   if sameSidecarInfo verified info then io_return ()
                   else io_bind (io_try (hashPrivateRegularFile c p MaxWireImageBytes)) (\<lambda>h.
                     case h of
                       Inr (digest, verifiedInfo) \<Rightarrow>
                         if hex_EncodeToString digest = im_digest m then set_verified a verifiedInfo else store True
                     | Inl e \<Rightarrow>
                         if errors_Is e ErrTooLarge then store True
                         else if \<not> errors_Is e ErrNotExist then io_throw (Wrap ''history: inspect image sidecar'' e)
                         else store False))
             | Inl e \<Rightarrow>
                 if \<not> errors_Is e ErrNotExist then io_throw (Wrap ''history: inspect image sidecar'' e) else store False))
      | _ \<Rightarrow> io_return ())"

definition filepath_Ext :: "string \<Rightarrow> string" where
  "filepath_Ext name =
     (if CHR ''.'' \<in> set name then CHR ''.'' # rev (takeWhile (\<lambda>ch. ch \<noteq> CHR ''.'') (rev name)) else [])"

definition sidecar_names :: "retained list \<Rightarrow> string list" where
  "sidecar_names entries = map (\<lambda>m. im_digest m @ ''.png'') (List.map_filter rt_meta entries)"

definition cleanupImages :: "path \<Rightarrow> retained list \<Rightarrow> unit io" where
  "cleanupImages dir entries =
     io_bind (io_wrap ''history: list image directory'' (os_ReadDir dir)) (\<lambda>items.
       let orphans = filter (\<lambda>name. filepath_Ext name = ''.png'' \<and> name \<notin> set (sidecar_names entries)) items in
       io_bind (io_each (\<lambda>name. io_wrap ''history: remove orphan image'' (os_Remove (dir @ [name]))) orphans)
         (\<lambda>_. if orphans = [] then io_return () else syncDirectory dir))"

subsection \<open>Committing (store.go)\<close>

abbreviation historyFilename :: string where
  "historyFilename \<equiv> ''history.json''"

definition write_entry :: "codec \<Rightarrow> (retained \<Rightarrow> nat) \<Rightarrow> path \<Rightarrow> retained \<Rightarrow> unit io" where
  "write_entry c adr dir r = (case rt_meta r of
     None \<Rightarrow> io_return ()
   | Some m \<Rightarrow> io_wrap ''history: write image'' (writeImage 2 c dir (h_Image (rt_entry r)) (Some m) (adr r)))"

definition finishCommit :: "path \<Rightarrow> path \<Rightarrow> retained list \<Rightarrow> tempFile \<Rightarrow> unit io" where
  "finishCommit dir imageDir entries tmp =
     io_finally (io_bind (syncDirectory dir) (\<lambda>_. cleanupImages imageDir entries)) (file_Close (tmp_ino tmp))"

definition writeDocument :: "path \<Rightarrow> path \<Rightarrow> retained list \<Rightarrow> bytes \<Rightarrow> unit io" where
  "writeDocument dir imageDir entries contents =
     io_bind (io_wrap ''history: create temporary file'' (os_CreateTemp dir ''.history.json.tmp-'')) (\<lambda>tmp.
     io_bind (io_try (io_bind (fillTemporary ''temporary file'' tmp contents)
         (\<lambda>_. io_wrap ''history: commit'' (os_Rename (tmp_name tmp) (dir @ [historyFilename]))))) (\<lambda>r.
       case r of
         Inl e \<Rightarrow> io_finally (io_throw e) (dropTemporary tmp)
       | Inr _ \<Rightarrow> finishCommit dir imageDir entries tmp))"

definition commit :: "codec \<Rightarrow> (retained \<Rightarrow> nat) \<Rightarrow> path \<Rightarrow> path \<Rightarrow> retained list \<Rightarrow> unit io" where
  "commit c adr dir imageDir entries =
     io_bind (io_each (write_entry c adr imageDir) entries) (\<lambda>_.
       case marshal_document (encodeDocument entries) of
         None \<Rightarrow> io_throw (Err ''history: encode'')
       | Some contents \<Rightarrow> writeDocument dir imageDir entries (contents @ [CHR 0x0A]))"

subsection \<open>Reading (image.go, schema.go)\<close>

fun hex_value :: "char \<Rightarrow> nat option" where
  "hex_value ch =
     (let n = of_char ch :: nat in
      if 48 \<le> n \<and> n \<le> 57 then Some (n - 48)
      else if 97 \<le> n \<and> n \<le> 102 then Some (n - 87)
      else if 65 \<le> n \<and> n \<le> 70 then Some (n - 55) else None)"

definition hex_DecodeString :: "string \<Rightarrow> 256 word option" where
  "hex_DecodeString s =
     map_option (foldl (\<lambda>w d. push_bit 4 w OR of_nat d) 0) (those (map hex_value s))"

definition loadImage :: "codec \<Rightarrow> path \<Rightarrow> diskImage option \<Rightarrow> (Image \<times> imageMeta \<times> fileInfo) option io" where
  "loadImage c dir reference =
     (case reference of
        None \<Rightarrow> io_return None
      | Some ref \<Rightarrow>
          if length (di_SHA256 ref) \<noteq> 64 \<or> di_Width ref = 0 \<or> di_Height ref = 0 \<or>
             historyImageLongEdge < unat (di_Width ref) \<or> historyImageLongEdge < unat (di_Height ref)
          then io_throw (Err ''invalid image reference'')
          else
            (case hex_DecodeString (di_SHA256 ref) of
               None \<Rightarrow> io_throw (Err ''invalid image digest'')
             | Some digest \<Rightarrow>
                 if hex_EncodeToString digest \<noteq> di_SHA256 ref then io_throw (Err ''invalid image digest'')
                 else
                   io_bind (readPrivateRegularFile (sidecar dir (di_SHA256 ref)) MaxWireImageBytes) (\<lambda>contents.
                     if sha256_Sum256 c contents \<noteq> digest then io_throw (Err ''image digest mismatch'')
                     else
                       (let result = \<lparr>img_MediaType = ''image/png'', img_Width = di_Width ref, img_Height = di_Height ref,
                                      img_Data = contents\<rparr> in
                        case png_Decode c contents of
                          None \<Rightarrow> io_throw (Err ''decode sidecar'')
                        | Some pic \<Rightarrow>
                            if pic_Dx pic \<noteq> unat (di_Width ref) \<or> pic_Dy pic \<noteq> unat (di_Height ref)
                            then io_throw (Err ''sidecar dimensions do not match reference'')
                            else
                              (case Image_Validate result of
                                 Some e \<Rightarrow> io_throw e
                               | None \<Rightarrow>
                                   io_bind (privateRegularFileInfo (sidecar dir (di_SHA256 ref))) (\<lambda>info.
                                     io_return (Some (result,
                                       \<lparr>im_digest = di_SHA256 ref, im_width = di_Width ref, im_height = di_Height ref\<rparr>, info))))))))"

definition note_loaded :: "(retained \<Rightarrow> nat) \<Rightarrow> retained \<Rightarrow> fileInfo option \<Rightarrow> unit io" where
  "note_loaded adr r info = (case info of None \<Rightarrow> io_return () | Some i \<Rightarrow> set_verified (adr r) i)"

text \<open>The entry of a document with the image that was loaded for it.\<close>

definition historyOf :: "diskEntry \<Rightarrow> Image option \<Rightarrow> HistoryEntry" where
  "historyOf e img =
     \<lparr>h_ID = de_ID e, h_Seen = de_Seen e, h_AppName = de_AppName e, h_AppIcon = de_AppIcon e,
      h_DesktopEntry = de_DesktopEntry e, h_Summary = de_Summary e, h_Body = de_Body e, h_Urgency = de_Urgency e,
      h_Category = de_Category e, h_Timestamp = de_Timestamp e, h_Image = img\<rparr>"

fun decode_entries :: "codec \<Rightarrow> (retained \<Rightarrow> nat) \<Rightarrow> path \<Rightarrow> u32 list \<Rightarrow> diskEntry list \<Rightarrow> retained list io" where
  "decode_entries c adr imageDir ids [] = io_return []"
| "decode_entries c adr imageDir ids (e # es) =
     io_bind (io_try (loadImage c imageDir (de_Image e))) (\<lambda>r.
       let loaded = (case r of Inl _ \<Rightarrow> None | Inr x \<Rightarrow> x); history = historyOf e (map_option fst loaded) in
       case HistoryEntry_Validate history of
         Some err \<Rightarrow> io_throw (Wrap ''history: entry'' err)
       | None \<Rightarrow>
           if de_ID e \<in> set ids then io_throw (Err ''history: duplicate ID'')
           else
             (case newRetained history (map_option (\<lambda>(_, m, _). m) loaded) of
                Inl err \<Rightarrow> io_throw err
              | Inr rt \<Rightarrow>
                  io_bind (note_loaded adr rt (map_option (\<lambda>(_, _, i). i) loaded)) (\<lambda>_.
                    io_bind (decode_entries c adr imageDir (de_ID e # ids) es) (\<lambda>rts. io_return (rt # rts)))))"

definition decodeDocument :: "codec \<Rightarrow> (retained \<Rightarrow> nat) \<Rightarrow> document \<Rightarrow> path \<Rightarrow> retained list io" where
  "decodeDocument c adr doc imageDir =
     (if doc_Version doc \<noteq> schemaVersion then io_throw (Err ''history: unsupported schema version'')
      else if MaxHistoryEntries < length (doc_Entries doc) then io_throw (Err ''history: too many entries'')
      else decode_entries c adr imageDir [] (doc_Entries doc))"

subsection \<open>Opening the store (store.go)\<close>

datatype extra = AtEOF | BadValue err | AnotherValue

text \<open>What \<open>encoding/json\<close> makes of the file: the document and the rest of the input, and what the rest holds.\<close>

record docDecoder =
  dd_document :: "bytes \<Rightarrow> err + document \<times> bytes"
  dd_extra :: "bytes \<Rightarrow> extra"

definition history_requireEOF :: "docDecoder \<Rightarrow> bytes \<Rightarrow> error" where
  "history_requireEOF dd rest =
     (case dd_extra dd rest of AtEOF \<Rightarrow> None | BadValue e \<Rightarrow> Some e | AnotherValue \<Rightarrow> Some (Err ''history: trailing JSON value''))"

fun makePath_from :: "path \<Rightarrow> path \<Rightarrow> unit io" where
  "makePath_from current [] = io_return ()"
| "makePath_from current (component # rest) =
     (let here = current @ [component] in
      io_bind (io_try (os_Lstat here)) (\<lambda>r.
      io_bind (case r of
          Inr info \<Rightarrow> io_return info
        | Inl e \<Rightarrow>
            if \<not> errors_Is e ErrNotExist then io_throw (Wrap ''history: inspect'' e)
            else io_bind (io_try (os_Mkdir here 0x1C0)) (\<lambda>made.
              case made of
                Inl e' \<Rightarrow> if errors_Is e' ErrExist then io_wrap ''history: inspect'' (os_Lstat here) else io_throw (Wrap ''history: create'' e')
              | Inr _ \<Rightarrow> io_wrap ''history: inspect'' (os_Lstat here))) (\<lambda>info.
        if fi_kind info = Symlink \<or> fi_kind info \<noteq> Directory then io_throw (Err ''history: unsafe path component'')
        else makePath_from here rest)))"

definition makePath :: "path \<Rightarrow> unit io" where
  "makePath p = makePath_from [] p"

definition rand_Read :: "string io" where
  "rand_Read = syscall (\<lambda>fs. (Inr (fs_random fs (fs_calls fs) 0), fs))"

definition quarantine :: "(time \<Rightarrow> string) \<Rightarrow> path \<Rightarrow> time \<Rightarrow> string io" where
  "quarantine time_text dir now =
     io_bind (io_wrap ''history: generate quarantine name'' rand_Read) (\<lambda>random.
       let name = ''history.quarantine-'' @ time_text now @ ''-'' @ random @ ''.json'' in
       io_bind (io_wrap ''history: quarantine invalid file'' (os_Rename (dir @ [historyFilename]) (dir @ [name]))) (\<lambda>_.
         io_bind (io_wrap ''history: quarantine moved file'' (syncDirectory dir)) (\<lambda>_. io_return name)))"

definition newStore :: "codec \<Rightarrow> retained list \<Rightarrow> Store" where
  "newStore c entries =
     \<lparr>st_codec = c, st_entries = entries, st_dirty = False, st_writeGen = 0, st_workerGen = 0, st_closed = False,
      st_lastErr = None, st_wake = False\<rparr>"

definition unusable :: "codec \<Rightarrow> (time \<Rightarrow> string) \<Rightarrow> path \<Rightarrow> time \<Rightarrow> err \<Rightarrow> Store io" where
  "unusable c time_text dir now e =
     io_bind (io_try (quarantine time_text dir now)) (\<lambda>q.
       case q of
         Inl qe \<Rightarrow> io_throw (Joined [Wrap ''history: invalid committed file'' e, qe])
       | Inr name \<Rightarrow> io_return (newStore c []))"

definition readDocument :: "codec \<Rightarrow> docDecoder \<Rightarrow> (retained \<Rightarrow> nat) \<Rightarrow> path \<Rightarrow> bytes \<Rightarrow> retained list io" where
  "readDocument c dd adr imageDir contents =
     (case dd_document dd contents of
        Inl e \<Rightarrow> io_throw e
      | Inr (doc, rest) \<Rightarrow>
          (case history_requireEOF dd rest of Some e \<Rightarrow> io_throw e | None \<Rightarrow> decodeDocument c adr doc imageDir))"

definition openStore :: "codec \<Rightarrow> docDecoder \<Rightarrow> (time \<Rightarrow> string) \<Rightarrow> (retained \<Rightarrow> nat) \<Rightarrow> path \<Rightarrow> path \<Rightarrow> time \<Rightarrow> Store io" where
  "openStore c dd time_text adr dir imageDir now =
     io_bind (io_try (readPrivateRegularFile (dir @ [historyFilename]) maxHistoryJSONBytes)) (\<lambda>r.
       case r of
         Inl e \<Rightarrow>
           if errors_Is e ErrNotExist then io_return (newStore c [])
           else if \<not> errors_Is e ErrTooLarge then io_throw (Wrap ''history: read'' e)
           else unusable c time_text dir now e
       | Inr contents \<Rightarrow>
           io_bind (io_try (readDocument c dd adr imageDir contents)) (\<lambda>d.
             case d of
               Inl e \<Rightarrow> unusable c time_text dir now e
             | Inr entries \<Rightarrow>
                 (let kept = retain entries now in
                  if length kept \<noteq> length entries
                  then io_bind (commit c adr dir imageDir kept) (\<lambda>_. io_return (newStore c kept))
                  else io_bind (cleanupImages imageDir entries) (\<lambda>_. io_return (newStore c entries)))))"

definition OpenAt :: "codec \<Rightarrow> docDecoder \<Rightarrow> (time \<Rightarrow> string) \<Rightarrow> (retained \<Rightarrow> nat) \<Rightarrow> path \<Rightarrow> time \<Rightarrow> Store io" where
  "OpenAt c dd time_text adr stateHome now =
     (let dir = stateHome @ [''sysc-notify'']; imageDir = dir @ [''images''] in
      io_bind (makePath stateHome) (\<lambda>_.
      io_bind (makePath dir) (\<lambda>_.
      io_bind (io_wrap ''history: secure state directory'' (os_Chmod dir 0x1C0)) (\<lambda>_.
      io_bind (makePath imageDir) (\<lambda>_.
      io_bind (io_wrap ''history: secure image directory'' (os_Chmod imageDir 0x1C0)) (\<lambda>_.
      openStore c dd time_text adr dir imageDir now))))))"

end
