(* ===== verification/HistoryFilesProps.thy ===== *)
theory HistoryFilesProps
  imports HistoryFiles
begin

text \<open>
  Facts about the file operations of the history: what reading and writing calls change, how a temporary file comes to
  its name, and that writing the image sidecars, wherever it stops, spoils none that holds what its name says.
\<close>

subsection \<open>Files without their time stamps\<close>

definition look :: "path \<Rightarrow> filesys \<Rightarrow> (fileKind \<times> nat \<times> bytes) option" where
  "look p fs = map_option (\<lambda>i. let d = fs_inodes fs i in (i_kind d, i_perm d, i_data d)) (inode_number p fs)"

definition fs_ok :: "filesys \<Rightarrow> bool" where
  "fs_ok fs \<longleftrightarrow> (\<forall>p i. inode_number p fs = Some i \<longrightarrow> i < fs_next fs)"

definition is_temp :: "path \<Rightarrow> bool" where
  "is_temp p \<longleftrightarrow> p \<noteq> [] \<and> (\<exists>s. last p = CHR ''.'' # s)"

text \<open>
  \<open>after D fs t\<close>: from \<open>fs\<close> to \<open>t\<close> at most the names in \<open>D\<close> and temporary names changed, and every inode of \<open>fs\<close> is as it was.
\<close>

definition after :: "path set \<Rightarrow> filesys \<Rightarrow> filesys \<Rightarrow> bool" where
  "after D fs t \<longleftrightarrow> fs_ok t \<and> fs_next fs \<le> fs_next t \<and> (\<forall>i<fs_next fs. fs_inodes t i = fs_inodes fs i) \<and>
     (\<forall>p. \<not> is_temp p \<and> p \<notin> D \<longrightarrow> inode_number p t = inode_number p fs)"

lemma calls_simps [simp]:
  "look p (fs\<lparr>fs_calls := k\<rparr>) = look p fs" "fs_ok (fs\<lparr>fs_calls := k\<rparr>) = fs_ok fs" "info_of i (fs\<lparr>fs_calls := k\<rparr>) = info_of i fs"
  "after D fs (t\<lparr>fs_calls := k\<rparr>) = after D fs t" "is_directory p (fs\<lparr>fs_calls := k\<rparr>) = is_directory p fs"
  "children p (fs\<lparr>fs_calls := k\<rparr>) = children p fs"
  by (simp_all add: look_def fs_ok_def info_of_def after_def is_directory_def children_def split: option.split)

lemma verified_simps [simp]:
  "look p (fs\<lparr>fs_verified := v\<rparr>) = look p fs" "fs_ok (fs\<lparr>fs_verified := v\<rparr>) = fs_ok fs" "info_of i (fs\<lparr>fs_verified := v\<rparr>) = info_of i fs"
  "after D fs (t\<lparr>fs_verified := v\<rparr>) = after D fs t" "is_directory p (fs\<lparr>fs_verified := v\<rparr>) = is_directory p fs"
  by (simp_all add: look_def fs_ok_def info_of_def after_def is_directory_def split: option.split)

lemma after_refl: "fs_ok fs \<Longrightarrow> after D fs fs"
  by (simp add: after_def)

lemma after_trans: "after D fs t \<Longrightarrow> after D' t u \<Longrightarrow> after (D \<union> D') fs u"
  unfolding after_def by (auto intro: order.trans)

lemma after_mono: "after D fs t \<Longrightarrow> D \<subseteq> D' \<Longrightarrow> after D' fs t"
  by (auto simp: after_def)

lemma after_ok: "after D fs t \<Longrightarrow> fs_ok t"
  by (simp add: after_def)

lemma after_number: "after D fs t \<Longrightarrow> \<not> is_temp p \<Longrightarrow> p \<notin> D \<Longrightarrow> inode_number p t = inode_number p fs"
  by (simp add: after_def)

lemma after_inode: "after D fs t \<Longrightarrow> fs_ok fs \<Longrightarrow> inode_number p fs = Some i \<Longrightarrow> fs_inodes t i = fs_inodes fs i"
  by (auto simp: after_def fs_ok_def)

lemma after_look: "after D fs t \<Longrightarrow> fs_ok fs \<Longrightarrow> \<not> is_temp p \<Longrightarrow> p \<notin> D \<Longrightarrow> look p t = look p fs"
  using after_number after_inode by (cases "inode_number p fs") (fastforce simp: look_def)+

subsection \<open>Calls that only read\<close>

text \<open>An operation that only reads leaves everything but the count of calls; a rule gives what is known of its result.\<close>

definition reads :: "'a io \<Rightarrow> bool" where
  "reads m \<longleftrightarrow> (\<forall>fs. \<exists>k. snd (m fs) = fs\<lparr>fs_calls := k\<rparr>)"

lemma reads_syscall: "(\<And>fs. snd (f fs) = fs) \<Longrightarrow> reads (syscall f)"
  unfolding reads_def syscall_def Let_def by (auto split: option.split)

lemma reads_return [simp]: "reads (io_return x)" and reads_throw [simp]: "reads (io_throw e)"
  unfolding reads_def by (auto simp: io_return_def io_throw_def) (metis filesys.surjective filesys.update_convs(8))+

lemma reads_bind:
  assumes "reads m" "\<And>x. reads (k x)"
  shows "reads (io_bind m k)"
  unfolding reads_def
proof
  fix fs
  obtain a where a: "snd (m fs) = fs\<lparr>fs_calls := a\<rparr>" using assms(1) by (auto simp: reads_def)
  show "\<exists>k'. snd (io_bind m k fs) = fs\<lparr>fs_calls := k'\<rparr>"
  proof (cases "fst (m fs)")
    case (Inl e)
    with a show ?thesis by (cases "m fs") (auto simp: io_bind_def)
  next
    case (Inr x)
    obtain b where "snd (k x (fs\<lparr>fs_calls := a\<rparr>)) = fs\<lparr>fs_calls := a\<rparr>\<lparr>fs_calls := b\<rparr>" using assms(2) unfolding reads_def by blast
    with a Inr show ?thesis by (cases "m fs") (auto simp: io_bind_def)
  qed
qed

lemma reads_wrap: "reads m \<Longrightarrow> reads (io_wrap msg m)" and reads_try: "reads m \<Longrightarrow> reads (io_try m)"
  unfolding reads_def by (auto simp: io_wrap_def io_try_def split: prod.split sum.split) (metis snd_conv)+

lemma reads_finally:
  assumes "reads m" "reads c"
  shows "reads (io_finally m c)"
  unfolding reads_def
proof
  fix fs
  obtain a where a: "snd (m fs) = fs\<lparr>fs_calls := a\<rparr>" using assms(1) by (auto simp: reads_def)
  obtain b where "snd (c (fs\<lparr>fs_calls := a\<rparr>)) = fs\<lparr>fs_calls := a\<rparr>\<lparr>fs_calls := b\<rparr>" using assms(2) unfolding reads_def by blast
  with a show "\<exists>k. snd (io_finally m c fs) = fs\<lparr>fs_calls := k\<rparr>" by (cases "m fs") (auto simp: io_finally_def)
qed

lemma reads_if: "reads m \<Longrightarrow> reads n \<Longrightarrow> reads (if b then m else n)"
  by simp

lemmas reads_intros = reads_return reads_throw reads_bind reads_wrap reads_try reads_finally reads_if

lemma reads_calls: "reads (os_Lstat p)" "reads (os_Open p)" "reads (file_Stat i)" "reads (file_Read i)" "reads (file_Sync i)"
  "reads (file_Close i)" "reads (os_ReadDir p)"
  unfolding os_Lstat_def os_Open_def file_Stat_def file_Read_def file_Sync_def file_Close_def os_ReadDir_def io_return_def
  by (rule reads_syscall; simp)+

lemma reads_routines: "reads (os_ReadFile p)" "reads (syncDirectory p)" "reads (privateRegularFileInfo p)"
  "reads (readPrivateRegularFile p limit)" "reads (hashPrivateRegularFile c p limit)"
  unfolding os_ReadFile_def syncDirectory_def privateRegularFileInfo_def readPrivateRegularFile_def hashPrivateRegularFile_def Let_def
  by (intro reads_intros reads_calls)+

text \<open>With a reading operation it is enough to know its result.\<close>

lemma wp_reads:
  assumes "reads m" "\<And>x k t. m fs = (Inr x, t) \<Longrightarrow> Q x (fs\<lparr>fs_calls := k\<rparr>)" "\<And>e k t. m fs = (Inl e, t) \<Longrightarrow> E e (fs\<lparr>fs_calls := k\<rparr>)"
  shows "io_wp m Q E fs"
proof -
  obtain k where k: "snd (m fs) = fs\<lparr>fs_calls := k\<rparr>" using assms(1) by (auto simp: reads_def)
  then show ?thesis using assms(2,3) by (cases "m fs"; cases "fst (m fs)") (auto simp: io_wp_def)
qed

text \<open>The errors of a call: a fault, or the file is missing.\<close>

definition ordinary :: "path \<Rightarrow> filesys \<Rightarrow> err \<Rightarrow> bool" where
  "ordinary p fs e \<longleftrightarrow> (errors_Is e ErrNotExist \<longrightarrow> inode_number p fs = None) \<and> \<not> errors_Is e ErrExist"

lemma wp_Lstat:
  assumes "\<And>k i. inode_number p fs = Some i \<Longrightarrow> Q (info_of i fs) (fs\<lparr>fs_calls := k\<rparr>)"
    "\<And>k e. ordinary p fs e \<Longrightarrow> \<not> errors_Is e ErrTooLarge \<Longrightarrow> E e (fs\<lparr>fs_calls := k\<rparr>)"
  shows "io_wp (os_Lstat p) Q E fs"
  using reads_calls(1)
  by (rule wp_reads) (auto simp: os_Lstat_def syscall_def Let_def ordinary_def intro!: assms split: option.splits)

lemma wp_Open:
  assumes "\<And>k i. inode_number p fs = Some i \<Longrightarrow> Q i (fs\<lparr>fs_calls := k\<rparr>)"
    "\<And>k e. ordinary p fs e \<Longrightarrow> \<not> errors_Is e ErrTooLarge \<Longrightarrow> E e (fs\<lparr>fs_calls := k\<rparr>)"
  shows "io_wp (os_Open p) Q E fs"
  using reads_calls(2)
  by (rule wp_reads) (auto simp: os_Open_def syscall_def Let_def ordinary_def intro!: assms split: option.splits)

lemma wp_Stat:
  assumes "\<And>k. Q (info_of i fs) (fs\<lparr>fs_calls := k\<rparr>)" "\<And>k m. E (Err m) (fs\<lparr>fs_calls := k\<rparr>)"
  shows "io_wp (file_Stat i) Q E fs"
  using reads_calls(3) by (rule wp_reads) (auto simp: file_Stat_def syscall_def Let_def intro!: assms split: option.splits)

lemma wp_Read:
  assumes "\<And>k. Q (i_data (fs_inodes fs i)) (fs\<lparr>fs_calls := k\<rparr>)" "\<And>k m. E (Err m) (fs\<lparr>fs_calls := k\<rparr>)"
  shows "io_wp (file_Read i) Q E fs"
  using reads_calls(4) by (rule wp_reads) (auto simp: file_Read_def syscall_def Let_def intro!: assms split: option.splits)

lemma wp_Sync:
  assumes "\<And>k. Q () (fs\<lparr>fs_calls := k\<rparr>)" "\<And>k m. E (Err m) (fs\<lparr>fs_calls := k\<rparr>)"
  shows "io_wp (file_Sync i) Q E fs"
  using reads_calls(5) by (rule wp_reads) (auto simp: file_Sync_def syscall_def Let_def io_return_def intro!: assms split: option.splits)

lemma wp_Close:
  assumes "\<And>k. Q () (fs\<lparr>fs_calls := k\<rparr>)" "\<And>k m. E (Err m) (fs\<lparr>fs_calls := k\<rparr>)"
  shows "io_wp (file_Close i) Q E fs"
  using reads_calls(6) by (rule wp_reads) (auto simp: file_Close_def syscall_def Let_def io_return_def intro!: assms split: option.splits)

lemma info_of_simps [simp]:
  "fi_ino (info_of i fs) = i" "fi_kind (info_of i fs) = i_kind (fs_inodes fs i)" "fi_perm (info_of i fs) = i_perm (fs_inodes fs i)"
  "fi_uid (info_of i fs) = i_uid (fs_inodes fs i)" "fi_size (info_of i fs) = length (i_data (fs_inodes fs i))"
  "fi_mtime (info_of i fs) = i_mtime (fs_inodes fs i)" "fi_ctime (info_of i fs) = i_ctime (fs_inodes fs i)"
  by (simp_all add: info_of_def Let_def)

text \<open>A private regular file, by inode.\<close>

definition private_inode :: "nat \<Rightarrow> filesys \<Rightarrow> bool" where
  "private_inode i fs \<longleftrightarrow> i_kind (fs_inodes fs i) = Regular \<and> i_perm (fs_inodes fs i) = 0x180"

lemma private_inode_calls [simp]: "private_inode i (fs\<lparr>fs_calls := k\<rparr>) = private_inode i fs"
  by (simp add: private_inode_def)

lemma ordinary_calls [simp]: "ordinary p (fs\<lparr>fs_calls := k\<rparr>) e = ordinary p fs e"
  by (simp add: ordinary_def)

lemma ordinary_Err [simp]: "ordinary p fs (Err m)"
  by (simp add: ordinary_def)

lemma look_private: "inode_number p fs = Some i \<Longrightarrow> private_inode i fs \<Longrightarrow> look p fs = Some (Regular, 0x180, i_data (fs_inodes fs i))"
  by (simp add: look_def private_inode_def)

lemma wp_privateInfo:
  assumes "\<And>k i. inode_number p fs = Some i \<Longrightarrow> private_inode i fs \<Longrightarrow> Q (info_of i fs) (fs\<lparr>fs_calls := k\<rparr>)"
    "\<And>k e. ordinary p fs e \<Longrightarrow> \<not> errors_Is e ErrTooLarge \<Longrightarrow> E e (fs\<lparr>fs_calls := k\<rparr>)"
  shows "io_wp (privateRegularFileInfo p) Q E fs"
  unfolding privateRegularFileInfo_def
  by (auto simp: wp intro!: wp_Lstat assms) (simp_all add: info_of_def private_inode_def Let_def)

lemma wp_hash:
  assumes "\<And>k i. inode_number p fs = Some i \<Longrightarrow> private_inode i fs \<Longrightarrow> length (i_data (fs_inodes fs i)) \<le> limit \<Longrightarrow>
      Q (sha256_Sum256 c (i_data (fs_inodes fs i)), info_of i fs) (fs\<lparr>fs_calls := k\<rparr>)"
    "\<And>k e. ordinary p fs e \<Longrightarrow> (errors_Is e ErrTooLarge \<Longrightarrow> \<exists>i. inode_number p fs = Some i \<and> limit < length (i_data (fs_inodes fs i))) \<Longrightarrow>
      E e (fs\<lparr>fs_calls := k\<rparr>)"
  shows "io_wp (hashPrivateRegularFile c p limit) Q E fs"
proof -
  have e: "io_wp (file_Close i) (\<lambda>_. E e) (\<lambda>_. E e) (fs\<lparr>fs_calls := k\<rparr>)" if "ordinary p fs e" "\<not> errors_Is e ErrTooLarge" for i k e
    using that assms(2) by (intro wp_Close) auto
  have t: "ordinary p fs tooLarge" by (simp add: ordinary_def tooLarge_def)
  show ?thesis
    unfolding hashPrivateRegularFile_def wp
    by (intro wp_privateInfo) (auto simp: wp e t Let_def intro!: wp_Open wp_Stat wp_Read wp_privateInfo wp_Close assms)
qed

subsection \<open>Temporary files\<close>

definition contents_of :: "nat \<Rightarrow> filesys \<Rightarrow> bytes option" where
  "contents_of i fs = (if private_inode i fs then Some (i_data (fs_inodes fs i)) else None)"

text \<open>A new temporary file next to the files of \<open>fs\<close>, and nothing else changed.\<close>

definition temp_of :: "filesys \<Rightarrow> tempFile \<Rightarrow> filesys \<Rightarrow> bool" where
  "temp_of fs tmp t \<longleftrightarrow> fs_ok fs \<and> is_temp (tmp_name tmp) \<and> fs_next fs \<le> tmp_ino tmp \<and> tmp_ino tmp < fs_next t \<and>
     (\<forall>i. i \<noteq> tmp_ino tmp \<longrightarrow> fs_inodes t i = fs_inodes fs i) \<and> fs_verified t = fs_verified fs \<and>
     (\<forall>p. inode_number p t = (if p = tmp_name tmp then Some (tmp_ino tmp) else inode_number p fs))"

text \<open>The temporary name stands for no file of \<open>fs\<close>.\<close>

definition new_name :: "filesys \<Rightarrow> tempFile \<Rightarrow> filesys \<Rightarrow> bool" where
  "new_name fs tmp t \<longleftrightarrow> is_temp (tmp_name tmp) \<and> (\<forall>i. inode_number (tmp_name tmp) t = Some i \<longrightarrow> fs_next fs \<le> i)"

lemma old_below: "temp_of fs tmp t \<Longrightarrow> inode_number p fs = Some i \<Longrightarrow> i < fs_next t"
  unfolding temp_of_def fs_ok_def by (meson less_le_trans less_trans)

lemma temp_after: "temp_of fs tmp t \<Longrightarrow> after D fs t \<and> new_name fs tmp t"
  unfolding after_def new_name_def
proof (intro conjI)
  assume t: "temp_of fs tmp t"
  show "fs_ok t" using t old_below [OF t] unfolding fs_ok_def by (auto simp: temp_of_def split: if_splits)
qed (auto simp: temp_of_def)

lemma temp_calls [simp]:
  "temp_of fs tmp (t\<lparr>fs_calls := k\<rparr>) = temp_of fs tmp t" "new_name fs tmp (t\<lparr>fs_calls := k\<rparr>) = new_name fs tmp t"
  "contents_of i (t\<lparr>fs_calls := k\<rparr>) = contents_of i t"
  by (simp_all add: temp_of_def new_name_def contents_of_def)

lemma try_temp_free: "try_temp n k dir pattern fs = Some p \<Longrightarrow> inode_number p fs = None \<and> (\<exists>r. p = dir @ [pattern @ r])"
  by (induction n arbitrary: k) (auto simp: Let_def split: if_splits)

lemma wp_CreateTemp:
  assumes "fs_ok fs" "\<And>tmp t. temp_of fs tmp t \<Longrightarrow> contents_of (tmp_ino tmp) t = Some [] \<Longrightarrow> Q tmp t" "\<And>k e. E e (fs\<lparr>fs_calls := k\<rparr>)"
  shows "io_wp (os_CreateTemp dir (CHR ''.'' # pattern)) Q E fs"
proof -
  let ?fs = "fs\<lparr>fs_calls := Suc (fs_calls fs)\<rparr>"
  have "Q \<lparr>tmp_name = p, tmp_ino = fs_next fs\<rparr> (new_inode p Regular 0x180 ?fs)"
    if "try_temp 10000 0 dir (CHR ''.'' # pattern) ?fs = Some p" for p
    using try_temp_free [OF that] assms(1)
    by (intro assms(2)) (auto simp: temp_of_def new_inode_def is_temp_def contents_of_def private_inode_def update_conv fs_ok_def)
  then show ?thesis
    using assms(3) by (auto simp: io_wp_def os_CreateTemp_def syscall_def Let_def split: option.splits)
qed

lemma temp_of_inode: "temp_of fs tmp t \<Longrightarrow> temp_of fs tmp (t\<lparr>fs_calls := k, fs_inodes := (fs_inodes t)(tmp_ino tmp := d)\<rparr>)"
  by (auto simp: temp_of_def)

lemma wp_fill:
  assumes t: "temp_of fs tmp t" "contents_of (tmp_ino tmp) t = Some []"
    and Q: "\<And>u. temp_of fs tmp u \<Longrightarrow> contents_of (tmp_ino tmp) u = Some contents \<Longrightarrow> Q () u"
    and E: "\<And>e u. temp_of fs tmp u \<Longrightarrow> E e u"
  shows "io_wp (fillTemporary what tmp contents) Q E t"
proof -
  let ?i = "tmp_ino tmp"
  have chmod: "io_wp (file_Chmod ?i 0x180) Q' E' t"
    if "\<And>u. temp_of fs tmp u \<Longrightarrow> contents_of ?i u = Some [] \<Longrightarrow> Q' () u" "\<And>e u. temp_of fs tmp u \<Longrightarrow> E' e u" for Q' E'
    using t by (auto simp: io_wp_def file_Chmod_def syscall_def Let_def touch_def contents_of_def private_inode_def
        intro!: that temp_of_inode split: option.splits if_splits)
  have fill: "io_wp (file_Write ?i contents) Q' E' u"
    if "temp_of fs tmp u" "contents_of ?i u = Some []" "\<And>v. temp_of fs tmp v \<Longrightarrow> contents_of ?i v = Some contents \<Longrightarrow> Q' () v"
      "\<And>e v. temp_of fs tmp v \<Longrightarrow> E' e v" for Q' E' u
    using that(1,2) by (auto simp: io_wp_def file_Write_def Let_def append_data_def contents_of_def private_inode_def
        intro!: that(3,4) temp_of_inode split: option.splits if_splits)
  show ?thesis unfolding fillTemporary_def wp
    by (intro chmod fill wp_Sync wp_Close) (auto simp: wp intro!: Q E)
qed

lemma touch_simps [simp]:
  "fs_names (touch i fs) = fs_names fs" "fs_verified (touch i fs) = fs_verified fs" "fs_next (touch i fs) = fs_next fs"
  "look p (touch i fs) = look p fs" "private_inode j (touch i fs) = private_inode j fs" "contents_of j (touch i fs) = contents_of j fs"
  "fs_ok (touch i fs) = fs_ok fs" "j \<noteq> i \<Longrightarrow> fs_inodes (touch i fs) j = fs_inodes fs j"
  by (auto simp: touch_def look_def private_inode_def contents_of_def fs_ok_def Let_def option.map_comp intro!: option.map_cong)

lemma look_contents: "inode_number p fs = Some i \<Longrightarrow> contents_of i fs = Some d \<Longrightarrow> look p fs = Some (Regular, 0x180, d)"
  by (auto simp: contents_of_def look_private split: if_splits)

lemma contents_names [simp]: "contents_of i (fs\<lparr>fs_names := n\<rparr>) = contents_of i fs"
  by (simp add: contents_of_def private_inode_def)

lemma wp_Rename_temp:
  assumes t: "temp_of fs tmp t" "contents_of (tmp_ino tmp) t = Some d" "\<not> is_temp p"
    and Q: "\<And>u. after {p} fs u \<Longrightarrow> new_name fs tmp u \<Longrightarrow> look p u = Some (Regular, 0x180, d) \<Longrightarrow> fs_verified u = fs_verified fs \<Longrightarrow> Q () u"
    and E: "\<And>e u. temp_of fs tmp u \<Longrightarrow> E e u"
  shows "io_wp (os_Rename (tmp_name tmp) p) Q E t"
proof -
  let ?t = "t\<lparr>fs_calls := Suc (fs_calls t)\<rparr>"
  let ?u = "touch (tmp_ino tmp) (?t\<lparr>fs_names := AList.update p (tmp_ino tmp) (AList.delete (tmp_name tmp) (fs_names t))\<rparr>)"
  have n: "inode_number q ?u = (if q = p then Some (tmp_ino tmp) else if q = tmp_name tmp then None else inode_number q fs)" for q
    using t by (auto simp: temp_of_def update_conv' delete_conv')
  have a: "after {p} fs ?u" using t n old_below [OF t(1)] by (auto simp: after_def temp_of_def fs_ok_def)
  have "Q () ?u"
    using t n by (intro Q a) (auto simp: new_name_def temp_of_def intro!: look_contents)
  moreover have "inode_number (tmp_name tmp) ?t = Some (tmp_ino tmp)" using t by (simp add: temp_of_def)
  ultimately show ?thesis
    using t E by (auto simp: io_wp_def os_Rename_def syscall_def Let_def split: option.splits if_splits)
qed

lemma wp_Link_temp:
  assumes t: "temp_of fs tmp t" "contents_of (tmp_ino tmp) t = Some d" "\<not> is_temp p"
    and Q: "\<And>u. after {p} fs u \<Longrightarrow> new_name fs tmp u \<Longrightarrow> look p u = Some (Regular, 0x180, d) \<Longrightarrow> fs_verified u = fs_verified fs \<Longrightarrow> Q () u"
    and E: "\<And>e u. temp_of fs tmp u \<Longrightarrow> (errors_Is e ErrExist \<Longrightarrow> inode_number p fs \<noteq> None) \<Longrightarrow> E e u"
  shows "io_wp (os_Link (tmp_name tmp) p) Q E t"
proof -
  let ?t = "t\<lparr>fs_calls := Suc (fs_calls t)\<rparr>"
  let ?u = "touch (tmp_ino tmp) (?t\<lparr>fs_names := AList.update p (tmp_ino tmp) (fs_names t)\<rparr>)"
  have n: "inode_number q ?u = (if q = p then Some (tmp_ino tmp) else if q = tmp_name tmp then Some (tmp_ino tmp) else inode_number q fs)" for q
    using t by (auto simp: temp_of_def update_conv')
  have a: "after {p} fs ?u" using t n old_below [OF t(1)] by (auto simp: after_def temp_of_def fs_ok_def)
  have "Q () ?u"
    using t n by (intro Q a) (auto simp: new_name_def temp_of_def intro!: look_contents)
  moreover have "inode_number (tmp_name tmp) ?t = Some (tmp_ino tmp)" "inode_number p ?t = inode_number p fs" using t by (auto simp: temp_of_def)
  ultimately show ?thesis
    using t by (auto simp: io_wp_def os_Link_def syscall_def Let_def intro!: E split: option.splits if_splits)
qed

lemma wp_Remove_temp:
  assumes t: "after D fs t" "new_name fs tmp t"
    and R: "\<And>u r. after D fs u \<Longrightarrow> new_name fs tmp u \<Longrightarrow> fs_verified u = fs_verified t \<Longrightarrow>
      (\<And>p. \<not> is_temp p \<Longrightarrow> look p u = look p t) \<Longrightarrow> Q () u \<and> E r u"
  shows "io_wp (os_Remove (tmp_name tmp)) Q E t"
proof -
  let ?t = "t\<lparr>fs_calls := Suc (fs_calls t)\<rparr>"
  have q: "Q () (t\<lparr>fs_calls := k\<rparr>) \<and> E r (t\<lparr>fs_calls := k\<rparr>)" for k r using t by (intro R) auto
  have "Q () (touch i (?t\<lparr>fs_names := AList.delete (tmp_name tmp) (fs_names t)\<rparr>))" if "inode_number (tmp_name tmp) t = Some i" for i
  proof -
    let ?u = "touch i (?t\<lparr>fs_names := AList.delete (tmp_name tmp) (fs_names t)\<rparr>)"
    have n: "inode_number q ?u = (if q = tmp_name tmp then None else inode_number q t)" for q by (simp add: delete_conv')
    have i: "fs_next fs \<le> i" "is_temp (tmp_name tmp)" using t(2) that by (auto simp: new_name_def)
    have l: "look p ?u = look p t" if "\<not> is_temp p" for p
    proof -
      have "p \<noteq> tmp_name tmp" using that i by auto
      then have "look p (?t\<lparr>fs_names := AList.delete (tmp_name tmp) (fs_names t)\<rparr>) = look p t" by (simp add: look_def delete_conv')
      then show ?thesis by simp
    qed
    show ?thesis using R [of ?u] t i n l by (auto simp: after_def fs_ok_def new_name_def split: if_splits)
  qed
  with q show ?thesis by (auto simp: io_wp_def os_Remove_def syscall_def Let_def split: option.splits if_splits)
qed

lemma wp_drop:
  assumes t: "after D fs t" "new_name fs tmp t"
    and R: "\<And>u. after D fs u \<Longrightarrow> fs_verified u = fs_verified t \<Longrightarrow> (\<And>p. \<not> is_temp p \<Longrightarrow> look p u = look p t) \<Longrightarrow> R u"
  shows "io_wp (dropTemporary tmp) (\<lambda>_. R) (\<lambda>_. R) t"
  unfolding dropTemporary_def wp
  using t by (intro wp_Close; intro wp_Remove_temp [where D = D and fs = fs]) (auto intro!: R)

subsection \<open>Digests as names\<close>

lemma hex_value_digit: "d < 16 \<Longrightarrow> hex_value (hex_digit d) = Some d"
  by (auto simp: hex_digit_def Let_def)

lemma nibble_less: "unat (take_bit 4 (w :: 256 word)) < 16"
  using take_bit_nat_less_exp [of 4 "unat w"] by (simp add: unsigned_take_bit_eq)

lemma nibbles_fold:
  "n \<le> 64 \<Longrightarrow>
   foldl (\<lambda>a d. push_bit 4 a OR of_nat d) 0 (map (\<lambda>i. unat (take_bit 4 (drop_bit (4 * (63 - i)) w))) [0..<n]) =
   drop_bit (4 * (64 - n)) (w :: 256 word)"
proof (induction n)
  case 0
  have "drop_bit 256 w = 0" by (rule bit_eqI) (simp add: bit_drop_bit_eq bit_imp_le_length)
  then show ?case by simp
next
  case (Suc n)
  let ?f = "\<lambda>i. unat (take_bit 4 (drop_bit (4 * (63 - i)) w))" and ?g = "\<lambda>a d. push_bit 4 a OR (of_nat d :: 256 word)"
  have n: "4 * (64 - n) = 4 * (63 - n) + 4" "4 * (64 - Suc n) = 4 * (63 - n)" using Suc.prems by simp_all
  have "foldl ?g 0 (map ?f [0..<Suc n]) = ?g (foldl ?g 0 (map ?f [0..<n])) (?f n)" by simp
  also have "\<dots> = push_bit 4 (drop_bit (4 * (64 - n)) w) OR take_bit 4 (drop_bit (4 * (63 - n)) w)"
  proof -
    have "(of_nat (unat x) :: 256 word) = x" for x by simp
    then show ?thesis using Suc.IH [OF Suc_leD [OF Suc.prems]] by (simp only:)
  qed
  also have "\<dots> = push_bit 4 (drop_bit 4 (drop_bit (4 * (63 - n)) w)) OR take_bit 4 (drop_bit (4 * (63 - n)) w)"
    by (simp only: n(1) drop_bit_drop_bit add.commute)
  also have "\<dots> = drop_bit (4 * (63 - n)) w" using bits_ident [of 4 "drop_bit (4 * (63 - n)) w"]
    by (metis disjunctive_add bit_push_bit_iff bit_take_bit_iff not_le)
  finally show ?case by (simp only: n(2))
qed

lemma hex_roundtrip: "hex_DecodeString (hex_EncodeToString w) = Some w"
proof -
  let ?f = "\<lambda>i. unat (take_bit 4 (drop_bit (4 * (63 - i)) w))"
  have "map hex_value (hex_EncodeToString w) = map (\<lambda>i. Some (?f i)) [0..<64]"
    unfolding hex_EncodeToString_def map_map comp_def by (simp only: hex_value_digit [OF nibble_less])
  moreover have "those (map (\<lambda>i. Some (?f i)) xs) = Some (map ?f xs)" for xs by (induction xs) auto
  ultimately have "those (map hex_value (hex_EncodeToString w)) = Some (map ?f [0..<64])" by (simp only:)
  then show ?thesis using nibbles_fold [of 64 w] by (simp add: hex_DecodeString_def del: upt_rec_numeral)
qed

lemma hex_inj: "hex_EncodeToString v = hex_EncodeToString w \<longleftrightarrow> v = w"
  using hex_roundtrip by (metis option.inject)

lemma sidecar_not_temp: "\<not> is_temp (sidecar dir (hex_EncodeToString w))"
proof -
  have "hex_value (CHR ''.'') = None" by simp
  then have "hex_digit (unat (take_bit 4 x)) \<noteq> CHR ''.''" for x :: "256 word" using hex_value_digit [OF nibble_less, of x] by auto
  then have "hd (hex_EncodeToString w) \<noteq> CHR ''.''" by (simp add: hex_EncodeToString_def hd_map del: upt_rec_numeral)
  moreover have "hex_EncodeToString w \<noteq> []" by (metis length_0_conv length_hex_EncodeToString zero_neq_numeral)
  ultimately show ?thesis by (auto simp: is_temp_def sidecar_def append_eq_Cons_conv)
qed

subsection \<open>Storing an image\<close>

text \<open>
  Whatever the program would trust at the place of an image is the image: the file it has verified before and finds
  unchanged, or a file with the right digest. The first holds because the change time moves with the contents, the
  second because SHA-256 has no collision between that file and the image.
\<close>

definition sound :: "codec \<Rightarrow> filesys \<Rightarrow> path \<Rightarrow> nat \<Rightarrow> bytes \<Rightarrow> bool" where
  "sound c fs p a d \<longleftrightarrow> (\<forall>i. inode_number p fs = Some i \<longrightarrow>
     sameSidecarInfo (fs_verified fs a) (info_of i fs) \<or> sha256_Sum256 c (i_data (fs_inodes fs i)) = sha256_Sum256 c d \<longrightarrow>
     i_data (fs_inodes fs i) = d)"

abbreviation holds_image :: "path \<Rightarrow> bytes \<Rightarrow> filesys \<Rightarrow> bool" where
  "holds_image p d fs \<equiv> look p fs = Some (Regular, 0x180, d)"

text \<open>What writing the image \<open>d\<close> to \<open>p\<close> may have changed, finished or not.\<close>

definition wrote :: "path \<Rightarrow> nat \<Rightarrow> bytes \<Rightarrow> filesys \<Rightarrow> filesys \<Rightarrow> bool" where
  "wrote p a d fs t \<longleftrightarrow> (\<forall>b. b \<noteq> a \<longrightarrow> fs_verified t b = fs_verified fs b) \<and>
     after (if holds_image p d fs then {} else {p}) fs t \<and>
     (holds_image p d t \<or> after {} fs t \<and> fs_verified t = fs_verified fs)"

lemma wrote_none: "fs_ok fs \<Longrightarrow> wrote p a d fs (fs\<lparr>fs_calls := k\<rparr>)"
  by (simp add: wrote_def after_refl)

lemma wp_noteSidecar:
  assumes "\<And>k info. Q () (fs\<lparr>fs_calls := k, fs_verified := (fs_verified fs)(a := Some info)\<rparr>)" "\<And>k e. E e (fs\<lparr>fs_calls := k\<rparr>)"
  shows "io_wp (noteSidecar dir p a) Q E fs"
  unfolding noteSidecar_def wp using reads_routines(2)
proof (rule wp_reads)
  show "io_wp (privateRegularFileInfo p) (\<lambda>x. io_wp (set_verified a x) Q E) E (fs\<lparr>fs_calls := k\<rparr>)" for k
    using assms by (intro wp_privateInfo) (auto simp: io_wp_def set_verified_def)
qed (use assms in auto)

text \<open>Giving the filled temporary file its name, when the place is free or the file there is to be replaced.\<close>

lemma wp_placeImage:
  assumes fs: "temp_of fs tmp t" "contents_of (tmp_ino tmp) t = Some d" "\<not> is_temp p" "replace \<or> inode_number p fs = None"
    and Q: "\<And>u. after {p} fs u \<Longrightarrow> new_name fs tmp u \<Longrightarrow> holds_image p d u \<Longrightarrow> (\<And>b. b \<noteq> a \<Longrightarrow> fs_verified u b = fs_verified fs b) \<Longrightarrow> Q () u"
    and E: "\<And>e u. after {p} fs u \<Longrightarrow> new_name fs tmp u \<Longrightarrow> holds_image p d u \<Longrightarrow> (\<And>b. b \<noteq> a \<Longrightarrow> fs_verified u b = fs_verified fs b) \<Longrightarrow> E e u"
    and E': "\<And>e u. temp_of fs tmp u \<Longrightarrow> E e u"
  shows "io_wp (placeImage again dir p a replace tmp) Q E t"
proof -
  have noted: "io_wp (noteSidecar dir p a) Q E u"
    if "after {p} fs u" "new_name fs tmp u" "holds_image p d u" "fs_verified u = fs_verified fs" for u
    using that by (intro wp_noteSidecar) (auto simp: new_name_def intro!: Q E)
  have removed: "io_wp (os_Remove (tmp_name tmp)) (\<lambda>_. io_wp (noteSidecar dir p a) Q E) (\<lambda>e. E (Wrap m e)) u"
    if "after {p} fs u" "new_name fs tmp u" "holds_image p d u" "fs_verified u = fs_verified fs" for u m
    using that fs(3) by (intro wp_Remove_temp [where fs = fs and D = "{p}"]) (auto intro!: noted E)
  show ?thesis
  proof (cases replace)
    case True
    with fs show ?thesis unfolding placeImage_def by (simp add: wp) (rule wp_Rename_temp, auto intro: noted E')
  next
    case False
    with fs(4) have "inode_number p fs = None" by simp
    with False fs show ?thesis unfolding placeImage_def
      by (simp add: wp) (rule wp_Link_temp, auto simp: wp intro: removed E')
  qed
qed

lemma wp_storeImage:
  assumes fs: "fs_ok fs" "\<not> is_temp p" "\<not> holds_image p d fs" "replace \<or> inode_number p fs = None"
    and Q: "\<And>t. wrote p a d fs t \<Longrightarrow> holds_image p d t \<Longrightarrow> Q () t" and E: "\<And>e t. wrote p a d fs t \<Longrightarrow> E e t"
  shows "io_wp (storeImage again dir p d a replace) Q E fs"
proof -
  have early: "io_wp (dropTemporary tmp) (\<lambda>_. E e) (\<lambda>_. E e) t" if "temp_of fs tmp t" for tmp t e
    using temp_after [OF that, of "{}"] that fs
    by (intro wp_drop [where D = "{}" and fs = fs]) (auto simp: temp_of_def wrote_def intro!: E dest: after_mono [of "{}" _ _ "{p}"])
  have late: "io_wp (dropTemporary tmp) (\<lambda>_. R) (\<lambda>_. R) t"
    if "after {p} fs t" "new_name fs tmp t" "holds_image p d t" "\<And>b. b \<noteq> a \<Longrightarrow> fs_verified t b = fs_verified fs b"
      "\<And>u. wrote p a d fs u \<Longrightarrow> holds_image p d u \<Longrightarrow> R u" for tmp t R
    using that(1-4) fs by (intro wp_drop [where D = "{p}" and fs = fs]) (auto simp: wrote_def intro!: that(5))
  show ?thesis
    unfolding storeImage_def wp
  proof (rule wp_CreateTemp [OF fs(1)])
    fix tmp t
    assume t: "temp_of fs tmp t" "contents_of (tmp_ino tmp) t = Some []"
    show "io_wp (fillTemporary ''image temporary file'' tmp d)
       (\<lambda>x. io_wp (placeImage again dir p a replace tmp)
         (\<lambda>x. io_wp (dropTemporary tmp) (\<lambda>_. Q x) (\<lambda>_. Q x)) (\<lambda>e. io_wp (dropTemporary tmp) (\<lambda>_. E e) (\<lambda>_. E e)))
       (\<lambda>e. io_wp (dropTemporary tmp) (\<lambda>_. E e) (\<lambda>_. E e)) t"
      using fs by (intro wp_fill [OF t] wp_placeImage late early) (auto intro: Q E)
  qed (use E wrote_none [OF fs(1)] in auto)
qed

lemma wrote_calls [simp]: "wrote p a d (fs\<lparr>fs_calls := k\<rparr>) t = wrote p a d fs t"
  by (simp add: wrote_def after_def)

lemma holds_image_unique: "holds_image p d fs \<Longrightarrow> inode_number p fs = Some i \<Longrightarrow> i_data (fs_inodes fs i) = d"
  by (simp add: look_def Let_def)

lemma wp_writeImage:
  fixes src :: Image and dir :: path and m :: imageMeta
  defines "d \<equiv> img_Data src" and "p \<equiv> sidecar dir (im_digest m)"
  assumes fs: "fs_ok fs" "im_digest m = hex_EncodeToString (sha256_Sum256 c d)" "length d \<le> MaxWireImageBytes" "sound c fs p a d"
    and Q: "\<And>t. wrote p a d fs t \<Longrightarrow> holds_image p d t \<Longrightarrow> Q () t" and E: "\<And>e t. wrote p a d fs t \<Longrightarrow> E e t"
  shows "io_wp (writeImage (Suc n) c dir (Some src) (Some m) a) Q E fs"
proof -
  let ?again = "writeImage n c dir (Some src) (Some m) a"
  have p: "\<not> is_temp p" using sidecar_not_temp by (simp add: p_def fs(2))
  have store: "io_wp (storeImage ?again dir p d a replace) Q E (fs\<lparr>fs_calls := k\<rparr>)"
    if "\<not> holds_image p d fs" "replace \<or> inode_number p fs = None" for k replace
    using fs p that by (intro wp_storeImage) (auto intro: Q E)
  have unchanged: "Q () (fs\<lparr>fs_calls := k\<rparr>)" if "holds_image p d fs" for k
    using that fs by (intro Q) (auto intro: wrote_none)
  have verified: "io_wp (set_verified a info) Q E (fs\<lparr>fs_calls := k\<rparr>)" if "holds_image p d fs" for k info
    using that fs by (auto simp: io_wp_def set_verified_def wrote_def after_refl intro!: Q)
  have same: "holds_image p d fs"
    if "inode_number p fs = Some i" "private_inode i fs"
      "sameSidecarInfo (fs_verified fs a) (info_of i fs) \<or> sha256_Sum256 c (i_data (fs_inodes fs i)) = sha256_Sum256 c d" for i
    using that fs(4) look_private [OF that(1,2)] unfolding sound_def by blast
  have other: "\<not> holds_image p d fs"
    if "inode_number p fs = Some i" "sha256_Sum256 c (i_data (fs_inodes fs i)) \<noteq> sha256_Sum256 c d \<or> MaxWireImageBytes < length (i_data (fs_inodes fs i))" for i
    using that fs(3) holds_image_unique by (auto simp: not_less [symmetric])
  have free: "\<not> holds_image p d fs" if "inode_number p fs = None" using that by (simp add: look_def)
  have fail: "E e (fs\<lparr>fs_calls := k\<rparr>)" for e k using fs by (intro E) (auto intro: wrote_none)
  have hash: "io_wp (hashPrivateRegularFile c p MaxWireImageBytes)
      (\<lambda>h. io_wp (case h of (digest, verifiedInfo) \<Rightarrow> if hex_EncodeToString digest = im_digest m then set_verified a verifiedInfo
         else storeImage ?again dir p d a True) Q E)
      (\<lambda>e. io_wp (if errors_Is e ErrTooLarge then storeImage ?again dir p d a True
         else if \<not> errors_Is e ErrNotExist then io_throw (Wrap ''history: inspect image sidecar'' e)
         else storeImage ?again dir p d a False) Q E) (fs\<lparr>fs_calls := k\<rparr>)" for k
    by (rule wp_hash) (auto simp: wp fs(2) hex_inj ordinary_def intro!: verified store same fail dest: free other)
  show ?thesis
    unfolding writeImage.simps option.case prod.case Let_def p_def [symmetric] d_def [symmetric] wp
    by (rule wp_privateInfo)
      (auto simp: wp hash ordinary_def get_verified_def io_wp_def [of "get_verified a"] intro!: unchanged same store fail dest: free)
qed

subsection \<open>Storing the images of all entries\<close>

definition image_path :: "codec \<Rightarrow> path \<Rightarrow> Image \<Rightarrow> path" where
  "image_path c dir img = sidecar dir (hex_EncodeToString (sha256_Sum256 c (img_Data img)))"

definition image_in :: "Image \<Rightarrow> retained list \<Rightarrow> bool" where
  "image_in img rs \<longleftrightarrow> (\<exists>r\<in>set rs. h_Image (rt_entry r) = Some img)"

text \<open>The image and the metadata of an entry belong together, as \<open>PrepareImage\<close> and \<open>loadImage\<close> make them.\<close>

definition genuine :: "codec \<Rightarrow> retained \<Rightarrow> bool" where
  "genuine c r =
     (case h_Image (rt_entry r) of
        None \<Rightarrow> rt_meta r = None
      | Some img \<Rightarrow> rt_meta r = Some (newImageMeta c img) \<and> Image_Validate img = None \<and>
          (case png_Decode c (img_Data img) of
             None \<Rightarrow> False
           | Some pic \<Rightarrow> pic_Dx pic = unat (img_Width img) \<and> pic_Dy pic = unat (img_Height img)))"

text \<open>
  What the program would trust among the sidecars is what it takes it for, images with the same digest are the same,
  and entries that share a metadata object have the same image.
\<close>

definition disk_sound :: "codec \<Rightarrow> (retained \<Rightarrow> nat) \<Rightarrow> path \<Rightarrow> retained list \<Rightarrow> filesys \<Rightarrow> bool" where
  "disk_sound c adr dir rs fs \<longleftrightarrow>
     (\<forall>r\<in>set rs. \<forall>img. h_Image (rt_entry r) = Some img \<longrightarrow>
        sound c fs (image_path c dir img) (adr r) (img_Data img) \<and>
        (\<forall>r'\<in>set rs. \<forall>img'. h_Image (rt_entry r') = Some img' \<and>
           (adr r' = adr r \<or> sha256_Sum256 c (img_Data img') = sha256_Sum256 c (img_Data img)) \<longrightarrow> img_Data img' = img_Data img))"

definition images_stored :: "codec \<Rightarrow> path \<Rightarrow> retained list \<Rightarrow> filesys \<Rightarrow> bool" where
  "images_stored c dir rs fs \<longleftrightarrow> (\<forall>img. image_in img rs \<longrightarrow> holds_image (image_path c dir img) (img_Data img) fs)"

definition missing :: "codec \<Rightarrow> path \<Rightarrow> retained list \<Rightarrow> filesys \<Rightarrow> path set" where
  "missing c dir rs fs = {image_path c dir img | img. image_in img rs \<and> \<not> holds_image (image_path c dir img) (img_Data img) fs}"

lemma image_path_simps [simp]:
  "\<not> is_temp (image_path c dir img)"
  "image_path c dir img = image_path c dir img' \<longleftrightarrow> sha256_Sum256 c (img_Data img) = sha256_Sum256 c (img_Data img')"
  using sidecar_not_temp by (auto simp: image_path_def sidecar_def hex_inj)

lemma wrote_holds:
  assumes "wrote p a d fs t" "fs_ok fs" "holds_image q d' fs" "\<not> is_temp q" "q = p \<longrightarrow> d' = d"
  shows "holds_image q d' t"
proof (cases "holds_image p d fs")
  case True
  with assms show ?thesis using after_look [of "{}" fs t q] by (simp add: wrote_def)
next
  case False
  with assms have "q \<noteq> p" by auto
  with assms False show ?thesis using after_look [of "{p}" fs t q] by (simp add: wrote_def)
qed

lemma wrote_sound:
  assumes w: "wrote p a d fs t" "fs_ok fs" and s: "sound c fs q b d'" "\<not> is_temp q" "q = p \<longrightarrow> d' = d" "b = a \<longrightarrow> q = p"
  shows "sound c t q b d'"
proof (cases "q = p \<and> holds_image p d t")
  case True
  then have "i_data (fs_inodes t i) = d'" if "inode_number q t = Some i" for i using holds_image_unique that s(3) by blast
  then show ?thesis by (simp add: sound_def)
next
  case False
  have "inode_number q t = inode_number q fs \<and> fs_verified t b = fs_verified fs b"
    using w False s(2,4) after_number [of "{}" fs t q] after_number [of "{p}" fs t q] by (cases "q = p") (auto simp: wrote_def split: if_splits)
  moreover have "after {p} fs t" using w(1) by (auto simp: wrote_def after_def split: if_splits)
  moreover from this have "fs_inodes t i = fs_inodes fs i \<and> info_of i t = info_of i fs" if "inode_number q fs = Some i" for i
    using after_inode [OF _ w(2) that] by (simp add: info_of_def)
  ultimately show ?thesis using s(1) by (simp add: sound_def)
qed

lemma wrote_disk_sound:
  assumes "disk_sound c adr dir rs fs" "wrote (image_path c dir img) (adr r) (img_Data img) fs t" "fs_ok fs" "r \<in> set rs" "h_Image (rt_entry r) = Some img"
  shows "disk_sound c adr dir rs t"
  unfolding disk_sound_def
proof (intro ballI allI impI conjI)
  fix r' img' assume r': "r' \<in> set rs" "h_Image (rt_entry r') = Some img'"
  have "adr r' = adr r \<or> sha256_Sum256 c (img_Data img') = sha256_Sum256 c (img_Data img) \<Longrightarrow> img_Data img' = img_Data img"
    using assms(1,4,5) r' unfolding disk_sound_def by blast
  then show "sound c t (image_path c dir img') (adr r') (img_Data img')"
    using assms(1) r' by (intro wrote_sound [OF assms(2,3)]) (auto simp: disk_sound_def)
  show "img_Data img'' = img_Data img'"
    if "r'' \<in> set rs" "h_Image (rt_entry r'') = Some img'' \<and> (adr r'' = adr r' \<or> sha256_Sum256 c (img_Data img'') = sha256_Sum256 c (img_Data img'))" for r'' img''
    using assms(1) r' that unfolding disk_sound_def by blast
qed

lemma same_digest_same_data:
  assumes "disk_sound c adr dir rs fs" "image_in img rs" "image_in img' rs" "sha256_Sum256 c (img_Data img') = sha256_Sum256 c (img_Data img)"
  shows "img_Data img' = img_Data img"
  using assms unfolding disk_sound_def image_in_def by blast

lemma wp_write_entries:
  assumes "set xs \<subseteq> set rs" "fs_ok fs" "disk_sound c adr dir rs fs" "\<forall>r\<in>set rs. genuine c r"
    and "\<And>t. fs_ok t \<Longrightarrow> disk_sound c adr dir rs t \<Longrightarrow> after (missing c dir rs fs) fs t \<Longrightarrow> missing c dir rs t \<subseteq> missing c dir rs fs \<Longrightarrow>
      images_stored c dir xs t \<Longrightarrow> Q () t"
    and "\<And>e t. fs_ok t \<Longrightarrow> disk_sound c adr dir rs t \<Longrightarrow> after (missing c dir rs fs) fs t \<Longrightarrow> E e t"
  shows "io_wp (io_each (write_entry c adr dir) xs) Q E fs"
  using assms
proof (induction xs arbitrary: fs Q E)
  case Nil
  then show ?case by (simp add: wp after_refl images_stored_def image_in_def)
next
  case (Cons r xs)
  note fs = Cons.prems(2,3)
  have r: "r \<in> set rs" "genuine c r" using Cons.prems(1,4) by auto
  show ?case
  proof (cases "h_Image (rt_entry r)")
    case None
    with r have m: "rt_meta r = None" by (simp add: genuine_def)
    have "image_in img (r # xs) = image_in img xs" for img using None by (simp add: image_in_def)
    then have "io_wp (io_each (write_entry c adr dir) xs) Q E fs"
      using Cons.prems by (intro Cons.IH) (auto simp: images_stored_def)
    with m show ?thesis by (simp add: wp write_entry_def [of _ _ _ r])
  next
    case (Some img)
    let ?p = "image_path c dir img" and ?d = "img_Data img"
    have in_rs: "image_in img rs" using r Some by (auto simp: image_in_def)
    have m: "rt_meta r = Some (newImageMeta c img)" "length ?d \<le> MaxWireImageBytes"
      using r Some by (auto simp: genuine_def Image_Validate_def fail_if_def split: if_splits)
    have step: "fs_ok t \<and> disk_sound c adr dir rs t \<and> after (missing c dir rs fs) fs t \<and> missing c dir rs t \<subseteq> missing c dir rs fs"
      if w: "wrote ?p (adr r) ?d fs t" for t
    proof -
      have "(if holds_image ?p ?d fs then {} else {?p}) \<subseteq> missing c dir rs fs" using in_rs by (auto simp: missing_def)
      then have a: "after (missing c dir rs fs) fs t" using w after_mono unfolding wrote_def by blast
      have "holds_image (image_path c dir i) (img_Data i) t" if i: "image_in i rs" "holds_image (image_path c dir i) (img_Data i) fs" for i
        using wrote_holds [OF w fs(1) i(2)] same_digest_same_data [OF fs(2) in_rs i(1)] by simp
      then have "missing c dir rs t \<subseteq> missing c dir rs fs" unfolding missing_def by blast
      with a wrote_disk_sound [OF fs(2) w fs(1) r(1) Some] show ?thesis by (simp add: after_ok)
    qed
    have rest: "io_wp (io_each (write_entry c adr dir) xs) Q E t" if w: "wrote ?p (adr r) ?d fs t" "holds_image ?p ?d t" for t
    proof (rule Cons.IH)
      note t = step [OF w(1)]
      fix u assume u: "fs_ok u" "disk_sound c adr dir rs u" "after (missing c dir rs t) t u"
      have a: "after (missing c dir rs fs) fs u" using after_trans [of _ fs t, OF _ u(3)] t by (metis sup.orderE sup_commute)
      show "E e u" for e using u a Cons.prems(6) by blast
      assume m: "missing c dir rs u \<subseteq> missing c dir rs t" "images_stored c dir xs u"
      have "?p \<notin> missing c dir rs t"
      proof
        assume "?p \<in> missing c dir rs t"
        then obtain i where i: "?p = image_path c dir i" "image_in i rs" "\<not> holds_image (image_path c dir i) (img_Data i) t"
          unfolding missing_def by blast
        then have "img_Data i = ?d" using same_digest_same_data [OF fs(2) in_rs] image_path_simps(2) by metis
        with i w(2) show False by metis
      qed
      with m(1) in_rs have "holds_image ?p ?d u" by (auto simp: missing_def)
      with m(2) Some have "images_stored c dir (r # xs) u" by (auto simp: images_stored_def image_in_def)
      then show "Q () u" using u a m t by (intro Cons.prems(5)) auto
    qed (use step [OF w(1)] Cons.prems in auto)
    have "io_wp (writeImage (Suc 1) c dir (Some img) (Some (newImageMeta c img)) (adr r)) (\<lambda>_. io_wp (io_each (write_entry c adr dir) xs) Q E)
        (\<lambda>e. E (Wrap ''history: write image'' e)) fs"
    proof (rule wp_writeImage)
      show "sound c fs (sidecar dir (im_digest (newImageMeta c img))) (adr r) ?d"
        using fs(2) r(1) Some by (auto simp: disk_sound_def newImageMeta_def image_path_def)
    qed (use fs m rest step Cons.prems(6) in \<open>auto simp: newImageMeta_def image_path_def\<close>)
    with m Some show ?thesis by (simp add: wp write_entry_def [of _ _ _ r] numeral_2_eq_2)
  qed
qed

end
