(* ===== verification/GenuineImages.thy ===== *)
theory GenuineImages
  imports HistoryMirror HistoryFilesProps
begin

text \<open>
  The images in the store belong to their metadata: \<open>PrepareImage\<close> makes them so, and no mutation of the store mixes
  them up. What is assumed of the PNG codec is that a picture it has encoded is decoded with the same bounds.
\<close>

definition codec_ok :: "codec \<Rightarrow> bool" where
  "codec_ok c \<longleftrightarrow> (\<forall>px d. png_Encode c px = Some d \<longrightarrow>
     (\<exists>pic. png_Decode c d = Some pic \<and> pic_Dy pic = length px \<and> (\<forall>row\<in>set px. pic_Dx pic = length row)))"

definition prepared_genuine :: "codec \<Rightarrow> PreparedImage \<Rightarrow> bool" where
  "prepared_genuine c p =
     (case prep_image p of
        None \<Rightarrow> prep_meta p = None
      | Some img \<Rightarrow> prep_meta p = Some (newImageMeta c img) \<and>
          (case png_Decode c (img_Data img) of
             None \<Rightarrow> False
           | Some pic \<Rightarrow> pic_Dx pic = unat (img_Width img) \<and> pic_Dy pic = unat (img_Height img)))"

lemma sample_shape: "length (sample p w h) = h" "\<forall>row\<in>set (sample p w h). length row = w"
  by (auto simp: sample_def)

lemma normalized_dims:
  assumes "codec_ok c" "normalizeHistoryImage c (Some src) = Inr (Some img)"
  shows "\<exists>pic. png_Decode c (img_Data img) = Some pic \<and> pic_Dx pic = unat (img_Width img) \<and> pic_Dy pic = unat (img_Height img)"
proof -
  have v: "Image_Validate src = None"
    using assms(2) by (cases "Image_Validate src") (simp_all add: normalizeHistoryImage_def)
  with assms(2) obtain p where p: "png_Decode c (img_Data src) = Some p"
    by (cases "png_Decode c (img_Data src)") (simp_all add: normalizeHistoryImage_def)
  obtain w h where sc: "scaled historyImageLongEdge (pic_Dx p) (pic_Dy p) = (w, h)"
    by (cases "scaled historyImageLongEdge (pic_Dx p) (pic_Dy p)")
  from v p sc assms(2) obtain d where
    dims: "pic_Dx p = unat (img_Width src)" "pic_Dy p = unat (img_Height src)" and
    d: "png_Encode c (sample p w h) = Some d" "img = \<lparr>img_MediaType = ''image/png'', img_Width = of_nat w, img_Height = of_nat h, img_Data = d\<rparr>"
    by (cases "png_Encode c (sample p w h)") (auto simp: normalizeHistoryImage_def split: if_splits)
  have "1 \<le> unat (img_Width src)" "1 \<le> unat (img_Height src)"
    using v by (auto simp: Image_Validate_def Suc_le_eq unat_gt_0)
  with scaled_le_edge [OF sc] dims have wh: "1 \<le> w" "w \<le> 96" "1 \<le> h" "h \<le> 96" by (simp_all add: historyImageLongEdge_def)
  obtain pic where pic: "png_Decode c d = Some pic" "pic_Dy pic = h" "\<forall>row\<in>set (sample p w h). pic_Dx pic = length row"
    using assms(1) d(1) sample_shape(1) unfolding codec_ok_def by metis
  have "sample p w h \<noteq> []" using sample_shape(1) [of p w h] wh by auto
  then have "pic_Dx pic = w" using pic(3) sample_shape(2) [of p w h] by (metis hd_in_set)
  with pic d wh show ?thesis by (simp add: unat_of_nat)
qed

lemma PrepareImage_genuine:
  assumes "codec_ok c" "PrepareImage c src = Inr p"
  shows "prepared_genuine c p"
proof (cases src)
  case None
  with assms show ?thesis by (auto simp: PrepareImage_def normalizeHistoryImage_def prepared_genuine_def)
next
  case (Some i)
  then obtain r where n: "normalizeHistoryImage c (Some i) = Inr r"
    using assms by (cases "normalizeHistoryImage c (Some i)") (simp_all add: PrepareImage_def)
  show ?thesis
  proof (cases r)
    case None
    with n Some assms(2) show ?thesis by (auto simp: PrepareImage_def prepared_genuine_def)
  next
    case (Some img)
    then obtain pic where "png_Decode c (img_Data img) = Some pic" "pic_Dx pic = unat (img_Width img)" "pic_Dy pic = unat (img_Height img)"
      using normalized_dims [OF assms(1)] n by blast
    with n Some \<open>src = Some i\<close> assms(2) show ?thesis by (auto simp: PrepareImage_def prepared_genuine_def)
  qed
qed

subsection \<open>Mutations\<close>

definition store_genuine :: "codec \<Rightarrow> Store \<Rightarrow> bool" where
  "store_genuine c s \<longleftrightarrow> st_codec s = c \<and> (\<forall>r\<in>set (st_entries s). genuine c r)"

fun request_genuine :: "codec \<Rightarrow> store_request \<Rightarrow> bool" where
  "request_genuine c (RAddPrepared e p now) = (prepared_ok p \<and> prepared_genuine c p)"
| "request_genuine c _ = True"

lemma trim_subset: "set (fst (trimToBudget rs)) \<subseteq> set rs" "set (fst (trimToCount rs)) \<subseteq> set rs"
  by (induction rs) (auto simp: Let_def split: prod.splits)

lemma AddPrepared_genuine:
  assumes "prepared_genuine c p" "store_genuine c s"
  shows "store_genuine c (snd (AddPrepared e p now s))"
proof -
  let ?entry = "e\<lparr>h_Image := prep_image p\<rparr>"
  have added: "genuine c added" if "newRetained ?entry (prep_meta p) = Inr added" "HistoryEntry_Validate ?entry = None" for added
  proof -
    have "rt_entry added = ?entry" "rt_meta added = prep_meta p" using that(1) by (auto simp: newRetained_def split: option.splits)
    moreover have "image_option_Validate (prep_image p) = None" using that(2) by (simp add: HistoryEntry_Validate_def)
    ultimately show ?thesis using assms(1) by (auto simp: genuine_def prepared_genuine_def image_option_Validate_def split: option.splits)
  qed
  have trims: "set (fst (trimToBudget (fst (trimToCount rs)))) \<subseteq> set rs" for rs using trim_subset by blast
  show ?thesis
  proof (cases "newRetained ?entry (prep_meta p)")
    case (Inl x)
    with assms(2) show ?thesis by (simp add: AddPrepared_def Let_def split: option.split)
  next
    case (Inr r)
    let ?kept = "filter (\<lambda>x. \<not> (rt_ID x = h_ID ?entry \<or> expired now x)) (st_entries s) @ [r]"
    have "\<forall>x\<in>set (fst (trimToBudget (fst (trimToCount ?kept)))). genuine c x" if "HistoryEntry_Validate ?entry = None"
      using trims [of ?kept] added [OF Inr that] assms(2) by (auto simp: store_genuine_def)
    then show ?thesis
      using assms(2) Inr by (simp add: AddPrepared_def store_genuine_def Let_def case_prod_beta split: option.split)
  qed
qed

lemma mark_loop_genuine: "mark_loop ids rs = Inr (next', changed) \<Longrightarrow> \<forall>r\<in>set rs. genuine c r \<Longrightarrow> \<forall>r\<in>set next'. genuine c r"
proof (induction rs arbitrary: next' changed)
  case (Cons r rs)
  have "genuine c m" if "newRetained ((rt_entry r)\<lparr>h_Seen := True\<rparr>) (rt_meta r) = Inr m" for m
    using that Cons.prems(2) by (auto simp: newRetained_def genuine_def split: option.splits)
  with Cons show ?case by (auto split: if_splits sum.splits)
qed simp

lemma store_serves_genuine:
  assumes "codec_ok c" "store_genuine c s" "request_genuine c q" "store_serves q s = Some (es, t)"
  shows "store_genuine c t"
proof (cases q)
  case (RAdd e now)
  show ?thesis
  proof (cases "PrepareImage (st_codec s) (h_Image e)")
    case (Inl x)
    with RAdd assms(2,4) show ?thesis by (simp add: Add_def)
  next
    case (Inr p)
    have "prepared_genuine c p" using PrepareImage_genuine [OF assms(1)] Inr assms(2) by (simp add: store_genuine_def)
    with RAdd assms(2,4) Inr AddPrepared_genuine [of c p s e now] show ?thesis by (auto simp: Add_def split: prod.splits)
  qed
next
  case (RAddPrepared e p now)
  with assms AddPrepared_genuine [of c p s e now] show ?thesis by (auto split: prod.splits)
next
  case (RMarkSeen ids)
  with assms mark_loop_genuine show ?thesis
    by (auto simp: MarkSeen_def store_genuine_def schedule_def split: sum.splits if_splits prod.splits)
qed (use assms in \<open>auto simp: Sweep_def Remove_def Clear_def Let_def store_genuine_def schedule_def split: if_splits prod.splits\<close>)

end
