(* ===== verification/HistoryCommit.thy ===== *)
theory HistoryCommit
  imports HistoryFilesProps
begin

text \<open>
  What the history on disk promises: a commit replaces the document as a whole and never spoils a sidecar the old or
  the new document needs, wherever it stops, and what was committed is read back as it was.
\<close>

subsection \<open>Removing orphans\<close>

lemma look_None: "look p fs = None \<longleftrightarrow> inode_number p fs = None"
  by (simp add: look_def)

lemma children_iff: "name \<in> set (children dir fs) \<longleftrightarrow> inode_number (dir @ [name]) fs \<noteq> None"
proof -
  have "name \<in> set (children dir fs) \<longleftrightarrow> dir @ [name] \<in> fst ` set (fs_names fs)"
    by (force simp: children_def image_iff snoc_eq_iff_butlast)
  then show ?thesis by (metis map_of_eq_None_iff)
qed

lemma wp_Remove:
  assumes "\<And>t. (fs_ok fs \<Longrightarrow> fs_ok t) \<Longrightarrow> (\<And>q. look q t = (if q = p then None else look q fs)) \<Longrightarrow> Q () t" "\<And>k e. E e (fs\<lparr>fs_calls := k\<rparr>)"
  shows "io_wp (os_Remove p) Q E fs"
proof -
  let ?t = "fs\<lparr>fs_calls := Suc (fs_calls fs), fs_names := AList.delete p (fs_names fs)\<rparr>"
  have "look q ?t = (if q = p then None else look q fs)" for q by (simp add: look_def delete_conv')
  then have "Q () (touch i ?t)" for i by (intro assms(1)) (auto simp: fs_ok_def delete_conv')
  then show ?thesis using assms(2) by (auto simp: io_wp_def os_Remove_def syscall_def Let_def split: option.splits)
qed

lemma wp_remove_all:
  assumes "fs_ok fs" "\<And>t. fs_ok t \<Longrightarrow> (\<And>q. look q t = (if q \<in> (\<lambda>n. dir @ [n]) ` set names then None else look q fs)) \<Longrightarrow> Q () t"
    "\<And>e t. fs_ok t \<Longrightarrow> (\<And>q. q \<notin> (\<lambda>n. dir @ [n]) ` set names \<Longrightarrow> look q t = look q fs) \<Longrightarrow> E e t"
  shows "io_wp (io_each (\<lambda>name. io_wrap m (os_Remove (dir @ [name]))) names) Q E fs"
  using assms
proof (induction names arbitrary: fs)
  case (Cons n names)
  show ?case
    unfolding io_each.simps wp
  proof (rule wp_Remove)
    fix t assume t: "fs_ok fs \<Longrightarrow> fs_ok t" and l: "\<And>q. look q t = (if q = dir @ [n] then None else look q fs)"
    show "io_wp (io_each (\<lambda>name. io_wrap m (os_Remove (dir @ [name]))) names) Q E t"
      using t l Cons.prems by (intro Cons.IH) (auto intro!: Cons.prems(2,3))
  qed (use Cons.prems in auto)
qed (simp add: wp)

definition orphans :: "path \<Rightarrow> retained list \<Rightarrow> path set" where
  "orphans dir rs = {dir @ [n] | n. filepath_Ext n = ''.png'' \<and> n \<notin> set (sidecar_names rs)}"

lemma wp_cleanup:
  assumes fs: "fs_ok fs"
    and Q: "\<And>t. fs_ok t \<Longrightarrow> (\<And>q. q \<notin> orphans dir rs \<Longrightarrow> look q t = look q fs) \<Longrightarrow> (\<And>q. q \<in> orphans dir rs \<Longrightarrow> inode_number q t = None) \<Longrightarrow> Q () t"
    and E: "\<And>e t. fs_ok t \<Longrightarrow> (\<And>q. q \<notin> orphans dir rs \<Longrightarrow> look q t = look q fs) \<Longrightarrow> E e t"
  shows "io_wp (cleanupImages dir rs) Q E fs"
proof -
  let ?orphan = "\<lambda>n. filepath_Ext n = ''.png'' \<and> n \<notin> set (sidecar_names rs)"
  show ?thesis
    unfolding cleanupImages_def wp using reads_calls(7)
  proof (rule wp_reads)
    fix items k t
    assume "os_ReadDir dir fs = (Inr items, t)"
    then have items: "items = children dir fs" by (auto simp: os_ReadDir_def syscall_def Let_def split: option.splits if_splits)
    let ?os = "filter ?orphan items"
    have os: "(\<lambda>n. dir @ [n]) ` set ?os \<subseteq> orphans dir rs" by (auto simp: orphans_def)
    have "io_wp (io_each (\<lambda>name. io_wrap ''history: remove orphan image'' (os_Remove (dir @ [name]))) ?os)
        (\<lambda>_. io_wp (if ?os = [] then io_return () else syncDirectory dir) Q E) E (fs\<lparr>fs_calls := k\<rparr>)"
    proof (rule wp_remove_all)
      fix u assume u: "fs_ok u" and l: "\<And>q. look q u = (if q \<in> (\<lambda>n. dir @ [n]) ` set ?os then None else look q (fs\<lparr>fs_calls := k\<rparr>))"
      have same: "look q u = look q fs" if "q \<notin> orphans dir rs" for q using that l os by auto
      have gone: "inode_number q u = None" if "q \<in> orphans dir rs" for q
        using that l [of q] children_iff [of _ dir fs] items by (auto simp: orphans_def look_None [symmetric] split: if_splits)
      have "Q () (u\<lparr>fs_calls := j\<rparr>) \<and> E e (u\<lparr>fs_calls := j\<rparr>)" for j e using u same gone by (auto intro!: Q E)
      moreover have "Q () u" using u same gone by (intro Q) auto
      ultimately show "io_wp (if ?os = [] then io_return () else syncDirectory dir) Q E u"
        by (auto simp: wp intro!: wp_reads [OF reads_routines(2)])
    next
      fix e u assume u: "fs_ok u" and l: "\<And>q. q \<notin> (\<lambda>n. dir @ [n]) ` set ?os \<Longrightarrow> look q u = look q (fs\<lparr>fs_calls := k\<rparr>)"
      show "E e u" using u l os by (intro E) auto
    qed (use fs in auto)
    then show "io_wp (let orphans = ?os in io_bind (io_each (\<lambda>name. io_wrap ''history: remove orphan image'' (os_Remove (dir @ [name]))) orphans)
         (\<lambda>_. if orphans = [] then io_return () else syncDirectory dir)) Q E (fs\<lparr>fs_calls := k\<rparr>)" by (simp add: Let_def wp)
  qed (use fs E in auto)
qed

subsection \<open>Committing\<close>

definition document_bytes :: "retained list \<Rightarrow> bytes option" where
  "document_bytes rs = map_option (\<lambda>enc. enc @ [CHR 0x0A]) (marshal_document (encodeDocument rs))"

text \<open>The disk holds these entries: the document and every image it names.\<close>

definition committed :: "codec \<Rightarrow> path \<Rightarrow> path \<Rightarrow> retained list \<Rightarrow> filesys \<Rightarrow> bool" where
  "committed c dir imageDir rs fs \<longleftrightarrow>
     (\<exists>d. document_bytes rs = Some d \<and> look (dir @ [historyFilename]) fs = Some (Regular, 0x180, d)) \<and> images_stored c imageDir rs fs"

text \<open>A sidecar that holds what its name says.\<close>

definition valid_sidecar :: "codec \<Rightarrow> path \<Rightarrow> path \<Rightarrow> bytes \<Rightarrow> filesys \<Rightarrow> bool" where
  "valid_sidecar c dir p d fs \<longleftrightarrow> p = sidecar dir (hex_EncodeToString (sha256_Sum256 c d)) \<and> holds_image p d fs"

text \<open>Whatever document was there is untouched, with all the images it may name.\<close>

definition untouched :: "codec \<Rightarrow> path \<Rightarrow> path \<Rightarrow> filesys \<Rightarrow> filesys \<Rightarrow> bool" where
  "untouched c dir imageDir fs t \<longleftrightarrow> look (dir @ [historyFilename]) t = look (dir @ [historyFilename]) fs \<and>
     (\<forall>p d. valid_sidecar c imageDir p d fs \<longrightarrow> valid_sidecar c imageDir p d t)"

lemma history_not_temp [simp]: "\<not> is_temp (dir @ [historyFilename])"
  by (simp add: is_temp_def)

lemma valid_not_missing:
  assumes "disk_sound c adr dir rs fs" "valid_sidecar c dir p d fs"
  shows "p \<notin> missing c dir rs fs"
proof
  assume "p \<in> missing c dir rs fs"
  then obtain img where img: "p = image_path c dir img" "image_in img rs" "\<not> holds_image p (img_Data img) fs"
    by (auto simp: missing_def)
  have p: "sha256_Sum256 c (img_Data img) = sha256_Sum256 c d" "holds_image p d fs"
    using img(1) assms(2) by (auto simp: valid_sidecar_def image_path_def sidecar_def hex_inj)
  then obtain i where i: "inode_number p fs = Some i" by (auto simp: look_def)
  with p have d: "i_data (fs_inodes fs i) = d" using holds_image_unique by blast
  obtain r where "r \<in> set rs" "h_Image (rt_entry r) = Some img" using img(2) by (auto simp: image_in_def)
  then have "sound c fs p (adr r) (img_Data img)" using assms(1) img(1) unfolding disk_sound_def by blast
  then have "d = img_Data img" using i d p(1) unfolding sound_def by metis
  with p img(3) show False by simp
qed

lemma after_untouched:
  assumes "after (missing c imageDir rs fs) fs t" "fs_ok fs" "disk_sound c adr imageDir rs fs" "imageDir = dir @ [''images'']"
  shows "untouched c dir imageDir fs t"
proof -
  have h: "dir @ [historyFilename] \<notin> missing c imageDir rs fs" using assms(4) by (auto simp: missing_def image_path_def sidecar_def)
  have "valid_sidecar c imageDir p d t" if v: "valid_sidecar c imageDir p d fs" for p d
  proof -
    have "\<not> is_temp p" using v sidecar_not_temp by (auto simp: valid_sidecar_def)
    then have "look p t = look p fs" using after_look [OF assms(1,2)] valid_not_missing [OF assms(3) v] by blast
    then show ?thesis using v unfolding valid_sidecar_def by metis
  qed
  with after_look [OF assms(1,2) history_not_temp h] show ?thesis by (simp add: untouched_def)
qed

lemma holds_sound: "holds_image p d fs \<Longrightarrow> sound c fs p a d"
  using holds_image_unique by (simp add: sound_def)

lemma stored_disk_sound: "disk_sound c adr dir rs fs \<Longrightarrow> images_stored c dir rs t \<Longrightarrow> disk_sound c adr dir rs t"
  unfolding disk_sound_def images_stored_def image_in_def using holds_sound by blast

lemma genuine_name:
  assumes "\<forall>r\<in>set rs. genuine c r" "image_in img rs"
  shows "image_path c dir img \<notin> orphans dir rs"
proof -
  obtain r where r: "r \<in> set rs" "h_Image (rt_entry r) = Some img" using assms(2) by (auto simp: image_in_def)
  with assms(1) have "rt_meta r = Some (newImageMeta c img)" by (auto simp: genuine_def)
  with r have "hex_EncodeToString (sha256_Sum256 c (img_Data img)) @ ''.png'' \<in> set (sidecar_names rs)"
    by (auto simp: sidecar_names_def map_filter_def newImageMeta_def image_iff intro!: bexI [of _ r])
  then show ?thesis by (auto simp: orphans_def image_path_def sidecar_def)
qed

lemma committed_cleanup:
  assumes "committed c dir imageDir rs fs" "\<And>q. q \<notin> orphans imageDir rs \<Longrightarrow> look q t = look q fs" "\<forall>r\<in>set rs. genuine c r"
    "imageDir = dir @ [''images'']"
  shows "committed c dir imageDir rs t"
proof -
  have "dir @ [historyFilename] \<notin> orphans imageDir rs" using assms(4) by (auto simp: orphans_def)
  with assms(1-3) genuine_name show ?thesis unfolding committed_def images_stored_def by metis
qed

text \<open>The end of a commit, once the document has its name.\<close>

lemma wp_finishCommit:
  assumes fs: "fs_ok fs" "committed c dir imageDir rs fs" "\<forall>r\<in>set rs. genuine c r" "imageDir = dir @ [''images'']"
    and Q: "\<And>t. fs_ok t \<Longrightarrow> committed c dir imageDir rs t \<Longrightarrow> (\<And>q. q \<in> orphans imageDir rs \<Longrightarrow> inode_number q t = None) \<Longrightarrow> Q () t"
    and E: "\<And>e t. fs_ok t \<Longrightarrow> committed c dir imageDir rs t \<Longrightarrow> E e t"
  shows "io_wp (finishCommit dir imageDir rs tmp) Q E fs"
proof -
  have k: "committed c dir imageDir rs t" if "\<And>q. q \<notin> orphans imageDir rs \<Longrightarrow> look q t = look q fs" for t
    by (rule committed_cleanup [OF fs(2) that fs(3,4)])
  have "E e (fs\<lparr>fs_calls := j\<rparr>)" for e j using k [of "fs\<lparr>fs_calls := j\<rparr>"] fs by (intro E) auto
  then show ?thesis
    unfolding finishCommit_def wp
    using fs k by (intro wp_reads [OF reads_routines(2)] wp_cleanup wp_Close) (auto intro!: Q E)
qed

text \<open>The document takes its place as a whole or not at all.\<close>

lemma wp_writeDocument:
  assumes fs: "fs_ok fs" "images_stored c imageDir rs fs" "document_bytes rs = Some d" "\<forall>r\<in>set rs. genuine c r" "imageDir = dir @ [''images'']"
    and Q: "\<And>t. fs_ok t \<Longrightarrow> committed c dir imageDir rs t \<Longrightarrow> (\<And>q. q \<in> orphans imageDir rs \<Longrightarrow> inode_number q t = None) \<Longrightarrow> Q () t"
    and E: "\<And>e t. fs_ok t \<Longrightarrow> committed c dir imageDir rs t \<Longrightarrow> E e t"
    and E': "\<And>e t. after {} fs t \<Longrightarrow> E e t"
  shows "io_wp (writeDocument dir imageDir rs d) Q E fs"
proof -
  let ?h = "dir @ [historyFilename]"
  have renamed: "io_wp (finishCommit dir imageDir rs tmp) Q E u" if u: "after {?h} fs u" "look ?h u = Some (Regular, 0x180, d)" for u tmp
  proof (rule wp_finishCommit)
    show "fs_ok u" using u after_ok by blast
    have "image_path c imageDir img \<noteq> ?h" for img using fs(5) by (simp add: image_path_def sidecar_def)
    then have "images_stored c imageDir rs u" using after_look [OF u(1) fs(1)] fs(2) by (simp add: images_stored_def)
    then show "committed c dir imageDir rs u" using u(2) fs(3) by (simp add: committed_def)
  qed (use fs Q E in auto)
  have drop: "io_wp (dropTemporary tmp) (\<lambda>_. E e) (\<lambda>_. E e) u" if "temp_of fs tmp u" for e tmp u
    using temp_after [OF that, of "{}"] by (intro wp_drop [where D = "{}" and fs = fs]) (auto intro!: E')
  have "E e (fs\<lparr>fs_calls := k\<rparr>)" for e k using fs(1) by (intro E') (simp add: after_refl)
  then show ?thesis
    unfolding writeDocument_def wp sum.case
    by (intro wp_CreateTemp [OF fs(1)] wp_fill wp_Rename_temp drop renamed) auto
qed

text \<open>
  A commit that fails leaves the old state or has written the new one; a commit that succeeds has written the new one
  and removed every other image.
\<close>

lemma wp_commit:
  assumes fs: "fs_ok fs" "disk_sound c adr imageDir rs fs" "\<forall>r\<in>set rs. genuine c r" "imageDir = dir @ [''images'']"
    and Q: "\<And>t. fs_ok t \<Longrightarrow> disk_sound c adr imageDir rs t \<Longrightarrow> committed c dir imageDir rs t \<Longrightarrow>
      (\<And>q. q \<in> orphans imageDir rs \<Longrightarrow> inode_number q t = None) \<Longrightarrow> Q () t"
    and E: "\<And>e t. fs_ok t \<Longrightarrow> disk_sound c adr imageDir rs t \<Longrightarrow> committed c dir imageDir rs t \<or> untouched c dir imageDir fs t \<Longrightarrow> E e t"
  shows "io_wp (commit c adr dir imageDir rs) Q E fs"
  unfolding commit_def wp
proof (rule wp_write_entries [OF subset_refl fs(1-3)])
  fix e t assume "fs_ok t" "disk_sound c adr imageDir rs t" "after (missing c imageDir rs fs) fs t"
  then show "E e t" using after_untouched [OF _ fs(1,2,4)] by (intro E) auto
next
  fix t
  assume t: "fs_ok t" "disk_sound c adr imageDir rs t" "after (missing c imageDir rs fs) fs t" "images_stored c imageDir rs t"
  have s: "disk_sound c adr imageDir rs u" if "committed c dir imageDir rs u" for u
    using that stored_disk_sound [OF t(2)] by (simp add: committed_def)
  have early: "E e u" if u: "after {} t u" for e u
  proof (rule E)
    have a: "after (missing c imageDir rs fs) fs u" using after_trans [OF t(3) u] by simp
    show "fs_ok u" using u after_ok by blast
    show "committed c dir imageDir rs u \<or> untouched c dir imageDir fs u" using after_untouched [OF a fs(1,2,4)] by simp
    show "disk_sound c adr imageDir rs u"
      using t(4) after_look [OF u t(1)] by (intro stored_disk_sound [OF t(2)]) (simp add: images_stored_def)
  qed
  show "io_wp (case marshal_document (encodeDocument rs) of
       None \<Rightarrow> io_throw (Err ''history: encode'')
     | Some contents \<Rightarrow> writeDocument dir imageDir rs (contents @ [CHR 0x0A])) Q E t"
  proof (cases "marshal_document (encodeDocument rs)")
    case None
    with t early [of t] show ?thesis by (simp add: wp after_refl)
  next
    case (Some contents)
    have "io_wp (writeDocument dir imageDir rs (contents @ [CHR 0x0A])) Q E t"
    proof (rule wp_writeDocument [OF t(1,4) _ fs(3,4)])
      show "document_bytes rs = Some (contents @ [CHR 0x0A])" using Some by (simp add: document_bytes_def)
    qed (use s Q E early in blast)+
    with Some show ?thesis by simp
  qed
qed

end
