(* ===== verification/HistoryReload.thy ===== *)
theory HistoryReload
  imports HistoryCommit
begin

text \<open>
  Reading the history back: what a commit has written is what the store holds after the next start.
\<close>

subsection \<open>A disk without faults\<close>

definition calm :: "filesys \<Rightarrow> bool" where
  "calm fs \<longleftrightarrow> fs_faults fs = (\<lambda>_. None)"

lemma calm_calls [simp]: "calm (fs\<lparr>fs_calls := k\<rparr>) = calm fs" and calm_verified [simp]: "calm (fs\<lparr>fs_verified := v\<rparr>) = calm fs"
  by (simp_all add: calm_def)

lemma faults_simps [simp]:
  "look p (fs\<lparr>fs_faults := f\<rparr>) = look p fs" "fs_ok (fs\<lparr>fs_faults := f\<rparr>) = fs_ok fs"
  "is_directory p (fs\<lparr>fs_faults := f\<rparr>) = is_directory p fs"
  by (simp_all add: look_def fs_ok_def is_directory_def split: option.split)

lemma calm_syscall: "calm fs \<Longrightarrow> io_wp (syscall f) Q E fs = io_wp f Q E (fs\<lparr>fs_calls := Suc (fs_calls fs)\<rparr>)"
  by (simp add: io_wp_def syscall_def calm_def)

lemma wp_pair: "io_wp (\<lambda>fs. (r fs, g fs)) Q E fs = (case r fs of Inr x \<Rightarrow> Q x (g fs) | Inl e \<Rightarrow> E e (g fs))"
  by (simp add: io_wp_def)

text \<open>The equations for the parts of a continuation.\<close>

lemma wp_ext:
  "io_wp (io_return x) Q E = Q x" "io_wp (io_throw e) Q E = E e" "io_wp (io_bind m k) Q E = io_wp m (\<lambda>x. io_wp (k x) Q E) E"
  "io_wp (io_wrap msg m) Q E = io_wp m Q (\<lambda>e. E (Wrap msg e))"
  by (rule ext; simp add: wp)+

lemma calm_privateInfo:
  assumes "calm fs" "look p fs = Some (Regular, 0x180, d)" "\<And>k i. inode_number p fs = Some i \<Longrightarrow> Q (info_of i fs) (fs\<lparr>fs_calls := k\<rparr>)"
  shows "io_wp (privateRegularFileInfo p) Q E fs"
proof -
  obtain i where i: "inode_number p fs = Some i" "i_kind (fs_inodes fs i) = Regular" "i_perm (fs_inodes fs i) = 0x180"
    using assms(2) by (auto simp: look_def Let_def)
  then show ?thesis using assms by (simp add: privateRegularFileInfo_def wp os_Lstat_def calm_syscall wp_pair)
qed

lemma calm_ReadFile:
  assumes "calm fs" "look p fs = Some (k, m, d)" "\<And>j. Q d (fs\<lparr>fs_calls := j\<rparr>)"
  shows "io_wp (os_ReadFile p) Q E fs"
proof -
  obtain i where "inode_number p fs = Some i" "i_data (fs_inodes fs i) = d" using assms(2) by (auto simp: look_def Let_def)
  then show ?thesis
    using assms by (simp add: os_ReadFile_def wp os_Open_def file_Read_def calm_syscall wp_pair)
qed

lemma calm_readPrivate:
  assumes "calm fs" "look p fs = Some (Regular, 0x180, d)" "length d \<le> limit" "\<And>k. Q d (fs\<lparr>fs_calls := k\<rparr>)"
  shows "io_wp (readPrivateRegularFile p limit) Q E fs"
  unfolding readPrivateRegularFile_def wp
proof (rule calm_privateInfo [OF assms(1,2)])
  fix k i assume "inode_number p fs = Some i"
  then have "length (i_data (fs_inodes fs i)) = length d" using assms(2) by (auto simp: look_def Let_def)
  moreover have "io_wp (os_ReadFile p) Q E (fs\<lparr>fs_calls := k\<rparr>)" by (rule calm_ReadFile) (use assms in auto)
  ultimately show "if limit < fi_size (info_of i fs) then E tooLarge (fs\<lparr>fs_calls := k\<rparr>) else io_wp (os_ReadFile p) Q E (fs\<lparr>fs_calls := k\<rparr>)"
    using assms(3) by simp
qed

subsection \<open>Images\<close>

lemma calm_loadImage:
  assumes fs: "calm fs" "holds_image (image_path c dir img) (img_Data img) fs"
    and g: "Image_Validate img = None" "img_MediaType img = ''image/png''" "unat (img_Width img) \<le> historyImageLongEdge" "unat (img_Height img) \<le> historyImageLongEdge"
      "png_Decode c (img_Data img) = Some pic" "pic_Dx pic = unat (img_Width img)" "pic_Dy pic = unat (img_Height img)"
    and Q: "\<And>k info. Q (Some (img, newImageMeta c img, info)) (fs\<lparr>fs_calls := k\<rparr>)"
  shows "io_wp (loadImage c dir (imageReference (Some (newImageMeta c img)))) Q E fs"
proof -
  let ?w = "sha256_Sum256 c (img_Data img)"
  have v: "img_Width img \<noteq> 0" "img_Height img \<noteq> 0" "length (img_Data img) \<le> MaxWireImageBytes"
    using g(1) by (auto simp: Image_Validate_def fail_if_def split: if_splits)
  have img: "\<lparr>img_MediaType = ''image/png'', img_Width = img_Width img, img_Height = img_Height img, img_Data = img_Data img\<rparr> = img"
    using g(2) by simp
  have p: "look (sidecar dir (hex_EncodeToString ?w)) fs = Some (Regular, 0x180, img_Data img)" using fs(2) by (simp add: image_path_def)
  show ?thesis
    unfolding loadImage_def imageReference_def
    using v g(3-7)
    by (simp add: newImageMeta_def hex_roundtrip wp)
      (rule calm_readPrivate [OF fs(1) p v(3)], use g fs p Q in \<open>auto simp: wp img Let_def newImageMeta_def intro!: calm_privateInfo\<close>)
qed

text \<open>An entry read back is the entry that was written.\<close>

lemma historyOf_diskEntryOf: "historyOf (diskEntryOf r) (h_Image (rt_entry r)) = rt_entry r"
  by (simp add: historyOf_def diskEntryOf_def Let_def)

lemma diskEntryOf_simps [simp]: "de_ID (diskEntryOf r) = rt_ID r" "de_Image (diskEntryOf r) = imageReference (rt_meta r)"
  by (simp_all add: diskEntryOf_def Let_def)

lemma newRetained_again: "retained_ok r \<Longrightarrow> newRetained (rt_entry r) (rt_meta r) = Inr r"
  by (auto simp: newRetained_def retained_ok_def diskEntryOf_def split: option.splits)

lemma calm_entry_image:
  assumes "calm fs" "genuine c r" "retained_ok r" "images_stored c dir [r] fs"
    "\<And>k info. Q (case h_Image (rt_entry r) of None \<Rightarrow> None | Some img \<Rightarrow> Some (img, newImageMeta c img, info)) (fs\<lparr>fs_calls := k\<rparr>)"
  shows "io_wp (loadImage c dir (imageReference (rt_meta r))) Q E fs"
proof (cases "h_Image (rt_entry r)")
  case None
  moreover have "Q None fs" using assms(5) [of undefined "fs_calls fs"] None by simp
  ultimately show ?thesis using assms(2) by (simp add: genuine_def imageReference_def loadImage_def wp)
next
  case (Some img)
  then obtain pic where g: "rt_meta r = Some (newImageMeta c img)" "Image_Validate img = None" "png_Decode c (img_Data img) = Some pic"
    "pic_Dx pic = unat (img_Width img)" "pic_Dy pic = unat (img_Height img)" using assms(2) by (auto simp: genuine_def split: option.splits)
  moreover have "holds_image (image_path c dir img) (img_Data img) fs" using assms(4) Some by (simp add: images_stored_def image_in_def)
  moreover have "prepared_ok \<lparr>prep_image = Some img, prep_meta = Some (newImageMeta c img)\<rparr>" using assms(3) Some g(1) by (simp add: retained_ok_def)
  ultimately show ?thesis
    unfolding g(1) using assms(1,5) Some by (intro calm_loadImage) (auto simp: prepared_ok_def)
qed

subsection \<open>The document\<close>

lemma calm_decode_entries:
  assumes "calm fs" "\<forall>r\<in>set rs. genuine c r \<and> retained_ok r" "images_stored c dir rs fs" "distinct (ids @ map rt_ID rs)"
    "\<And>k v. Q rs (fs\<lparr>fs_calls := k, fs_verified := v\<rparr>)"
  shows "io_wp (decode_entries c adr dir ids (map diskEntryOf rs)) Q E fs"
  using assms
proof (induction rs arbitrary: ids fs Q)
  case Nil
  have "Q [] fs" using Nil.prems(5) [of "fs_verified fs" "fs_calls fs"] by simp
  then show ?case by (simp add: wp)
next
  case (Cons r rs)
  have r: "genuine c r" "retained_ok r" using Cons.prems(2) by auto
  have img: "images_stored c dir [r] fs" "images_stored c dir rs fs" using Cons.prems(3) by (auto simp: images_stored_def image_in_def)
  have rest: "io_wp (decode_entries c adr dir (rt_ID r # ids) (map diskEntryOf rs)) (\<lambda>rts. Q (r # rts)) E (fs\<lparr>fs_calls := k, fs_verified := v\<rparr>)" for k v
    using Cons.prems img(2) by (intro Cons.IH) (auto simp: images_stored_def)
  have noted: "io_wp (note_loaded adr r info) (\<lambda>_. io_wp (decode_entries c adr dir (rt_ID r # ids) (map diskEntryOf rs)) (\<lambda>rts. Q (r # rts)) E) E
      (fs\<lparr>fs_calls := k\<rparr>)" for info k
    using rest [of "fs_verified fs" k] rest [of _ k] by (simp add: note_loaded_def wp io_wp_def [of "set_verified _ _"] set_verified_def split: option.split)
  have id: "rt_ID r \<notin> set ids" using Cons.prems(4) by auto
  have v: "HistoryEntry_Validate (rt_entry r) = None" using r(2) by (simp add: retained_ok_def)
  show ?case
    unfolding list.map decode_entries.simps wp diskEntryOf_simps
  proof (rule calm_entry_image [OF Cons.prems(1) r img(1)])
    fix k info
    show "io_wp (let loaded = case Inr (case h_Image (rt_entry r) of None \<Rightarrow> None | Some img \<Rightarrow> Some (img, newImageMeta c img, info)) of
            Inl _ \<Rightarrow> None | Inr x \<Rightarrow> x; history = historyOf (diskEntryOf r) (map_option fst loaded) in
        case HistoryEntry_Validate history of
          Some err \<Rightarrow> io_throw (Wrap ''history: entry'' err)
        | None \<Rightarrow>
            if rt_ID r \<in> set ids then io_throw (Err ''history: duplicate ID'')
            else
              (case newRetained history (map_option (\<lambda>(_, m, _). m) loaded) of
                 Inl err \<Rightarrow> io_throw err
               | Inr rt \<Rightarrow>
                   io_bind (note_loaded adr rt (map_option (\<lambda>(_, _, i). i) loaded)) (\<lambda>_.
                     io_bind (decode_entries c adr dir (rt_ID r # ids) (map diskEntryOf rs)) (\<lambda>rts. io_return (rt # rts))))) Q E (fs\<lparr>fs_calls := k\<rparr>)"
      using id v noted historyOf_diskEntryOf [of r] newRetained_again [OF r(2)] r(1)
      by (cases "h_Image (rt_entry r)") (simp_all add: genuine_def wp wp_ext)
  qed
qed

text \<open>
  What is assumed of \<open>encoding/json\<close>: it reads the document of these entries back from what \<open>json.Marshal\<close> has written, and
  finds nothing after it.
\<close>

definition reads_back :: "docDecoder \<Rightarrow> retained list \<Rightarrow> bool" where
  "reads_back dd rs \<longleftrightarrow> (\<forall>d. document_bytes rs = Some d \<longrightarrow>
     (\<exists>rest. dd_document dd d = Inr (encodeDocument rs, rest) \<and> dd_extra dd rest = AtEOF))"

lemma calm_readDocument:
  assumes "calm fs" "\<forall>r\<in>set rs. genuine c r" "entries_ok rs" "images_stored c dir rs fs" "reads_back dd rs" "document_bytes rs = Some d"
    "\<And>k v. Q rs (fs\<lparr>fs_calls := k, fs_verified := v\<rparr>)"
  shows "io_wp (readDocument c dd adr dir d) Q E fs"
proof -
  obtain rest where rest: "dd_document dd d = Inr (encodeDocument rs, rest)" "dd_extra dd rest = AtEOF"
    using assms(5,6) by (auto simp: reads_back_def)
  have "io_wp (decode_entries c adr dir [] (map diskEntryOf rs)) Q E fs"
    using assms(1-4,7) by (intro calm_decode_entries) (auto simp: entries_ok_def)
  then show ?thesis
    using rest assms(3) by (simp add: readDocument_def history_requireEOF_def decodeDocument_def encodeDocument_def entries_ok_def)
qed

lemma document_size:
  assumes "entries_ok rs"
  shows "\<exists>d. document_bytes rs = Some d \<and> length d \<le> maxHistoryJSONBytes"
proof -
  obtain enc where "marshal_document (encodeDocument rs) = Some enc" "documentBytes rs = length (enc @ [CHR 0x0A])"
    using documentBytes_exact [of rs] assms by (auto simp: entries_ok_def)
  then show ?thesis using assms by (auto simp: document_bytes_def entries_ok_def maxHistoryWriteBytes_def)
qed

lemma calm_cleanup:
  assumes "calm fs" "is_directory dir fs" "\<forall>q\<in>orphans dir rs. inode_number q fs = None" "\<And>k. Q () (fs\<lparr>fs_calls := k\<rparr>)"
  shows "io_wp (cleanupImages dir rs) Q E fs"
proof -
  have "filter (\<lambda>n. filepath_Ext n = ''.png'' \<and> n \<notin> set (sidecar_names rs)) (children dir fs) = []"
    using assms(3) children_iff [of _ dir fs] by (auto simp: filter_empty_conv orphans_def)
  then show ?thesis
    using assms by (simp add: cleanupImages_def os_ReadDir_def wp calm_syscall wp_pair Let_def)
qed

text \<open>Which entries the store is to have, and when it cannot fail: nothing has expired and no stray image is to be removed.\<close>

lemma calm_openStore:
  assumes fs: "calm fs" "fs_ok fs" "committed c dir imageDir rs fs" "disk_sound c adr imageDir rs fs" "imageDir = dir @ [''images'']"
      "is_directory imageDir fs"
    and rs: "\<forall>r\<in>set rs. genuine c r" "entries_ok rs" "reads_back dd rs"
  shows "io_wp (openStore c dd time_text adr dir imageDir now)
     (\<lambda>s t. s = newStore c (retain rs now) \<and> committed c dir imageDir (retain rs now) t)
     (\<lambda>e t. (\<exists>r\<in>set rs. expired now r) \<or> (\<exists>q\<in>orphans imageDir rs. inode_number q fs \<noteq> None)) fs"
proof -
  let ?Q = "\<lambda>s t. s = newStore c (retain rs now) \<and> committed c dir imageDir (retain rs now) t"
  let ?E = "\<lambda>(e :: err) (t :: filesys). (\<exists>r\<in>set rs. expired now r) \<or> (\<exists>q\<in>orphans imageDir rs. inode_number q fs \<noteq> None)"
  obtain d where d: "document_bytes rs = Some d" "length d \<le> maxHistoryJSONBytes" using document_size [OF rs(2)] by blast
  have h: "look (dir @ [historyFilename]) fs = Some (Regular, 0x180, d)" and img: "images_stored c imageDir rs fs"
    using fs(3) d by (auto simp: committed_def)
  have keep: "io_wp (cleanupImages imageDir rs) (\<lambda>_. ?Q (newStore c rs)) ?E t" if t: "t = fs\<lparr>fs_calls := k, fs_verified := v\<rparr>" "retain rs now = rs" for t k v
  proof (cases "\<exists>q\<in>orphans imageDir rs. inode_number q fs \<noteq> None")
    case True
    have ok: "fs_ok t" and l: "look q t = look q fs" for q using fs(2) t(1) by simp_all
    have "io_wp (cleanupImages imageDir rs) (\<lambda>_ u. committed c dir imageDir rs u) (\<lambda>_ _. True) t"
      by (rule wp_cleanup [OF ok]) (use committed_cleanup [OF fs(3) _ rs(1) fs(5)] l in auto)
    then show ?thesis using True t(2) by (auto elim: wp_mono)
  next
    case False
    with fs t show ?thesis by (intro calm_cleanup) (auto simp: committed_def images_stored_def)
  qed
  have sweep: "io_wp (commit c adr dir imageDir (retain rs now)) (\<lambda>_. ?Q (newStore c (retain rs now))) ?E t"
    if t: "t = fs\<lparr>fs_calls := k, fs_verified := v\<rparr>" "length (retain rs now) \<noteq> length rs" for t k v
  proof -
    have sub: "set (retain rs now) \<subseteq> set rs" by (auto simp: retain_def)
    have "disk_sound c adr imageDir rs t" using stored_disk_sound [OF fs(4)] img t(1) by (simp add: images_stored_def)
    then have "disk_sound c adr imageDir (retain rs now) t" using sub unfolding disk_sound_def by blast
    moreover have "\<exists>r\<in>set rs. expired now r" using t(2) by (auto simp: retain_def) (metis filter_True)
    ultimately show ?thesis using fs t(1) rs(1) sub by (intro wp_commit) auto
  qed
  have same: "retain rs now = rs" if "length (retain rs now) = length rs"
    using that by (simp add: retain_def) (metis filter_id_conv length_filter_less nat_neq_iff)
  show ?thesis
    unfolding openStore_def wp
  proof (rule calm_readPrivate [OF fs(1) h d(2)], unfold sum.case wp)
    fix k
    show "io_wp (readDocument c dd adr imageDir d)
        (\<lambda>x. io_wp (let kept = retain x now in
            if length kept \<noteq> length x then io_bind (commit c adr dir imageDir kept) (\<lambda>_. io_return (newStore c kept))
            else io_bind (cleanupImages imageDir x) (\<lambda>_. io_return (newStore c x))) ?Q ?E)
        (\<lambda>e. io_wp (unusable c time_text dir now e) ?Q ?E) (fs\<lparr>fs_calls := k\<rparr>)"
      using fs rs img d keep sweep same
      by (intro calm_readDocument) (auto simp: Let_def wp wp_ext images_stored_def)
  qed
qed

end
