(* ===== verification/HistoryDisk.thy ===== *)
theory HistoryDisk
  imports HistoryReload
begin

text \<open>
  The properties of the history on disk: atomic commits, a faithful restart, and that an unusable document is put aside
  and not lost.
\<close>

subsection \<open>Directories\<close>

definition dirs_ok :: "path \<Rightarrow> filesys \<Rightarrow> bool" where
  "dirs_ok p fs \<longleftrightarrow> (\<forall>n. 0 < n \<and> n \<le> length p \<longrightarrow> is_directory (take n p) fs)"

lemma dirs_prefix: "dirs_ok (p @ q) fs \<Longrightarrow> dirs_ok p fs"
  unfolding dirs_ok_def
proof (intro allI impI)
  fix n assume a: "\<forall>n. 0 < n \<and> n \<le> length (p @ q) \<longrightarrow> is_directory (take n (p @ q)) fs" "0 < n \<and> n \<le> length p"
  from a(1) [rule_format, of n] a(2) show "is_directory (take n p) fs" by simp
qed

lemma dirs_self: "dirs_ok p fs \<Longrightarrow> p \<noteq> [] \<Longrightarrow> is_directory p fs"
  unfolding dirs_ok_def by (metis length_greater_0_conv order_refl take_all)

lemma calm_makePath_from:
  assumes "calm fs" "dirs_ok (cur @ rest) fs" "\<And>k. Q () (fs\<lparr>fs_calls := k\<rparr>)"
  shows "io_wp (makePath_from cur rest) Q E fs"
  using assms
proof (induction rest arbitrary: cur fs)
  case Nil
  have "Q () fs" using Nil.prems(3) [of "fs_calls fs"] by simp
  then show ?case by (simp add: wp)
next
  case (Cons x rest)
  have d: "is_directory (cur @ [x]) fs" using dirs_self [OF dirs_prefix [of "cur @ [x]" rest fs]] Cons.prems(2) by simp
  then obtain i where i: "inode_number (cur @ [x]) fs = Some i" "i_kind (fs_inodes fs i) = Directory"
    by (auto simp: is_directory_def split: option.splits)
  have "io_wp (makePath_from (cur @ [x]) rest) Q E (fs\<lparr>fs_calls := k\<rparr>)" for k
    using Cons.prems by (intro Cons.IH) (auto simp: dirs_ok_def)
  with i Cons.prems(1) show ?case by (simp add: Let_def wp os_Lstat_def calm_syscall wp_pair)
qed

text \<open>A change of directories that leaves every file alone.\<close>

definition same_files :: "filesys \<Rightarrow> filesys \<Rightarrow> bool" where
  "same_files fs t \<longleftrightarrow> fs_names t = fs_names fs \<and> fs_next t = fs_next fs \<and> fs_faults t = fs_faults fs \<and>
     (\<forall>i. i_kind (fs_inodes t i) = i_kind (fs_inodes fs i)) \<and>
     (\<forall>i. i_kind (fs_inodes fs i) \<noteq> Directory \<longrightarrow> fs_inodes t i = fs_inodes fs i)"

lemma same_files_refl: "same_files fs (fs\<lparr>fs_calls := k\<rparr>)"
  by (simp add: same_files_def)

lemma same_files_trans: "same_files fs t \<Longrightarrow> same_files t u \<Longrightarrow> same_files fs u"
  by (auto simp: same_files_def)

lemma same_files_facts:
  assumes "same_files fs t"
  shows "calm t = calm fs" "fs_ok t = fs_ok fs" "is_directory p t = is_directory p fs" "dirs_ok p t = dirs_ok p fs"
    "inode_number p t = inode_number p fs" "look p fs = Some (Regular, m, d) \<Longrightarrow> look p t = Some (Regular, m, d)"
proof -
  show dir: "is_directory q t = is_directory q fs" for q using assms by (simp add: same_files_def is_directory_def split: option.split)
  then show "dirs_ok p t = dirs_ok p fs" by (simp add: dirs_ok_def)
  show "look p fs = Some (Regular, m, d) \<Longrightarrow> look p t = Some (Regular, m, d)"
    using assms by (auto simp: look_def same_files_def Let_def)
qed (use assms in \<open>auto simp: same_files_def calm_def fs_ok_def\<close>)

lemma same_files_committed: "same_files fs t \<Longrightarrow> committed c dir imageDir rs fs \<Longrightarrow> committed c dir imageDir rs t"
  unfolding committed_def images_stored_def using same_files_facts(6) by blast

lemma calm_Chmod_dir:
  assumes "calm fs" "is_directory p fs" "\<And>t. same_files fs t \<Longrightarrow> Q () t"
  shows "io_wp (os_Chmod p perm) Q E fs"
proof -
  obtain i where i: "inode_number p fs = Some i" "i_kind (fs_inodes fs i) = Directory" using assms(2) by (auto simp: is_directory_def split: option.splits)
  then show ?thesis
    using assms(1) by (simp add: os_Chmod_def wp os_Open_def file_Chmod_def calm_syscall wp_pair)
      (intro assms(3), auto simp: same_files_def touch_def)
qed

lemma calm_OpenAt:
  fixes stateHome :: path
  defines "dir \<equiv> stateHome @ [''sysc-notify'']"
  defines "imageDir \<equiv> dir @ [''images'']"
  assumes fs: "calm fs" "dirs_ok imageDir fs"
    and Q: "\<And>t. same_files fs t \<Longrightarrow> io_wp (openStore c dd time_text adr dir imageDir now) Q E t"
  shows "io_wp (OpenAt c dd time_text adr stateHome now) Q E fs"
proof -
  have make: "io_wp (makePath p) Q' E t" if "dirs_ok p fs" "same_files fs t" "\<And>u. same_files fs u \<Longrightarrow> Q' () u" for p Q' t
    unfolding makePath_def using that fs(1) same_files_facts [OF that(2)] same_files_trans [OF that(2) same_files_refl]
    by (intro calm_makePath_from) auto
  have chmod: "io_wp (os_Chmod p m) Q' E' t" if "is_directory p fs" "same_files fs t" "\<And>u. same_files fs u \<Longrightarrow> Q' () u" for p m Q' E' t
    using that fs(1) same_files_facts [OF that(2)] same_files_trans [OF that(2)] by (intro calm_Chmod_dir) auto
  have d: "dirs_ok dir fs" "dirs_ok stateHome fs" using fs(2) dirs_prefix unfolding imageDir_def dir_def by (blast, metis append_assoc)
  have i: "is_directory dir fs" "is_directory imageDir fs" using dirs_self d fs(2) by (auto simp: dir_def imageDir_def)
  have "same_files fs fs" using same_files_refl [of fs "fs_calls fs"] by simp
  with d i fs(2) Q show ?thesis
    unfolding OpenAt_def Let_def dir_def [symmetric] imageDir_def [symmetric] wp by (intro make chmod) auto
qed

subsection \<open>Putting a document aside\<close>

lemma wp_Rename:
  assumes "inode_number src fs \<noteq> None" "src \<noteq> dst"
    "\<And>t. (\<And>p. look p t = (if p = dst then look src fs else if p = src then None else look p fs)) \<Longrightarrow> Q () t" "\<And>k e. E e (fs\<lparr>fs_calls := k\<rparr>)"
  shows "io_wp (os_Rename src dst) Q E fs"
proof -
  obtain i where i: "inode_number src fs = Some i" using assms(1) by blast
  let ?t = "fs\<lparr>fs_calls := Suc (fs_calls fs), fs_names := AList.update dst i (AList.delete src (fs_names fs))\<rparr>"
  have "look p ?t = (if p = dst then look src fs else if p = src then None else look p fs)" for p
    using i assms(2) by (simp add: look_def update_conv' delete_conv' Let_def)
  then have "Q () (touch i ?t)" by (intro assms(3)) simp
  then show ?thesis using i assms(4) by (auto simp: io_wp_def os_Rename_def syscall_def Let_def split: option.splits)
qed

text \<open>The file is where it was, or under its new name.\<close>

definition put_aside :: "path \<Rightarrow> string \<Rightarrow> filesys \<Rightarrow> filesys \<Rightarrow> bool" where
  "put_aside dir name fs t \<longleftrightarrow> (let h = dir @ [historyFilename]; q = dir @ [''history.quarantine-'' @ name] in
     \<forall>p. look p t = (if p = q then look h fs else if p = h then None else look p fs))"

lemma put_aside_calls [simp]:
  "put_aside dir name (fs\<lparr>fs_calls := k\<rparr>) t = put_aside dir name fs t" "put_aside dir name fs (t\<lparr>fs_calls := k\<rparr>) = put_aside dir name fs t"
  by (simp_all add: put_aside_def Let_def)

lemma wp_quarantine:
  assumes "inode_number (dir @ [historyFilename]) fs \<noteq> None"
    "\<And>n name t. put_aside dir name fs t \<Longrightarrow> Q n t" "\<And>e t. (\<forall>p. look p t = look p fs) \<or> (\<exists>name. put_aside dir name fs t) \<Longrightarrow> E e t"
  shows "io_wp (quarantine time_text dir now) Q E fs"
proof -
  have e: "E e (fs\<lparr>fs_calls := k\<rparr>)" for e k by (rule assms(3)) simp
  have moved: "io_wp (syncDirectory dir) (\<lambda>_. Q n) (\<lambda>e. E (Wrap m e)) t" if "put_aside dir name fs t" for t n m name
  proof (rule wp_reads [OF reads_routines(2)])
    have "put_aside dir name fs (t\<lparr>fs_calls := k\<rparr>)" for k using that by simp
    then show "Q n (t\<lparr>fs_calls := k\<rparr>)" "E e (t\<lparr>fs_calls := k\<rparr>)" for k e using assms(2,3) by blast+
  qed
  have renamed: "io_wp (os_Rename (dir @ [historyFilename]) (dir @ [''history.quarantine-'' @ name]))
      (\<lambda>_. io_wp (syncDirectory dir) (\<lambda>_. Q n) (\<lambda>e. E (Wrap m' e))) (\<lambda>e. E (Wrap m e)) (fs\<lparr>fs_calls := k\<rparr>)" for name n k m m'
    using assms(1) e by (intro wp_Rename moved [of name]) (auto simp: put_aside_def Let_def)
  have "reads rand_Read" unfolding rand_Read_def by (rule reads_syscall) simp
  then show ?thesis
    unfolding quarantine_def wp by (rule wp_reads) (unfold Let_def wp wp_ext, (use e renamed in blast)+)
qed

definition unusable_document :: "docDecoder \<Rightarrow> bytes \<Rightarrow> bool" where
  "unusable_document dd contents \<longleftrightarrow> maxHistoryJSONBytes < length contents \<or>
     (case dd_document dd contents of
        Inl e \<Rightarrow> True
      | Inr (doc, rest) \<Rightarrow> history_requireEOF dd rest \<noteq> None \<or> doc_Version doc \<noteq> schemaVersion \<or> MaxHistoryEntries < length (doc_Entries doc))"

lemma wp_readPrivate:
  assumes "look p fs = Some (Regular, 0x180, d)" "\<And>k. length d \<le> limit \<Longrightarrow> Q d (fs\<lparr>fs_calls := k\<rparr>)"
    "\<And>k e. \<not> errors_Is e ErrNotExist \<Longrightarrow> E e (fs\<lparr>fs_calls := k\<rparr>)"
  shows "io_wp (readPrivateRegularFile p limit) Q E fs"
proof -
  obtain i where i: "inode_number p fs = Some i" "i_data (fs_inodes fs i) = d" using assms(1) by (auto simp: look_def Let_def)
  have e: "\<not> errors_Is e ErrNotExist" if "ordinary p fs e" for e using that i by (simp add: ordinary_def)
  have t: "\<not> errors_Is tooLarge ErrNotExist" by (simp add: tooLarge_def)
  show ?thesis
    unfolding readPrivateRegularFile_def os_ReadFile_def wp
    using e t by (intro wp_privateInfo) (auto simp: wp wp_ext i intro!: assms wp_Open wp_Read)
qed

subsection \<open>Properties\<close>

text \<open>
  C14: Wherever a commit stops, be it at a failing system call or because the process dies, the history is in one of two
  states: the old document and every image it may name are untouched, or the new document is in place, complete,
  together with all of its images. A commit that reports success has reached the second and has removed every other
  image. Whether it succeeds or not, the next commit finds what this one needed.
\<close>

theorem commit_is_atomic:
  assumes "fs_ok fs" "disk_sound c adr imageDir rs fs" "\<forall>r\<in>set rs. genuine c r" "imageDir = dir @ [''images'']"
    "commit c adr dir imageDir rs fs = (res, t)"
  shows "(committed c dir imageDir rs t \<or> untouched c dir imageDir fs t) \<and> fs_ok t \<and> disk_sound c adr imageDir rs t \<and>
    (res = Inr () \<longrightarrow> committed c dir imageDir rs t \<and>
       (\<forall>name. filepath_Ext name = ''.png'' \<longrightarrow> name \<notin> set (sidecar_names rs) \<longrightarrow> inode_number (imageDir @ [name]) t = None))"
proof -
  let ?R = "\<lambda>t. (committed c dir imageDir rs t \<or> untouched c dir imageDir fs t) \<and> fs_ok t \<and> disk_sound c adr imageDir rs t"
  have "io_wp (commit c adr dir imageDir rs) (\<lambda>_ t. ?R t \<and> committed c dir imageDir rs t \<and> (\<forall>q\<in>orphans imageDir rs. inode_number q t = None)) (\<lambda>_. ?R) fs"
    by (rule wp_commit [OF assms(1-4)]) auto
  then show ?thesis using assms(5) by (auto simp: io_wp_def orphans_def split: sum.splits)
qed

text \<open>
  C15: What was committed is there after a restart: the store opens with exactly the entries that were committed, images
  included. If some have meanwhile expired, a store that opens has the rest, and that is also what is then on disk.
\<close>

theorem history_survives_restart:
  fixes stateHome :: path
  defines "dir \<equiv> stateHome @ [''sysc-notify'']"
  defines "imageDir \<equiv> dir @ [''images'']"
  assumes "fs_ok fs" "disk_sound c adr imageDir rs fs" "\<forall>r\<in>set rs. genuine c r" "entries_ok rs"
    "commit c adr dir imageDir rs fs = (Inr (), t)" "dirs_ok imageDir t" "reads_back dd rs"
  shows "\<exists>res u. OpenAt c dd time_text adr stateHome now (t\<lparr>fs_faults := \<lambda>_. None, fs_calls := 0\<rparr>) = (res, u) \<and>
    ((\<forall>r\<in>set rs. \<not> expired now r) \<longrightarrow> res = Inr (newStore c rs)) \<and>
    (\<forall>s. res = Inr s \<longrightarrow> s = newStore c (retain rs now) \<and> committed c dir imageDir (retain rs now) u)"
proof -
  let ?t = "t\<lparr>fs_faults := \<lambda>_. None, fs_calls := 0\<rparr>"
  let ?Q = "\<lambda>s u. s = newStore c (retain rs now) \<and> committed c dir imageDir (retain rs now) u"
  let ?E = "\<lambda>(e :: err) (u :: filesys). (\<exists>r\<in>set rs. expired now r)"
  have "io_wp (commit c adr dir imageDir rs) (\<lambda>_ t. fs_ok t \<and> committed c dir imageDir rs t \<and> disk_sound c adr imageDir rs t \<and>
      (\<forall>q\<in>orphans imageDir rs. inode_number q t = None)) (\<lambda>_ _. True) fs"
    by (rule wp_commit [OF assms(3-5) meta_eq_to_obj_eq [OF imageDir_def]]) auto
  then have t: "fs_ok t" "committed c dir imageDir rs t" "disk_sound c adr imageDir rs t" "\<forall>q\<in>orphans imageDir rs. inode_number q t = None"
    using assms(7) by (simp_all add: io_wp_def)
  have k: "calm ?t" "fs_ok ?t" "committed c dir imageDir rs ?t" "dirs_ok imageDir ?t"
    using t assms(8) by (simp_all add: calm_def committed_def images_stored_def dirs_ok_def)
  have "io_wp (openStore c dd time_text adr dir imageDir now) ?Q ?E u" if u: "same_files ?t u" for u
  proof -
    have c: "committed c dir imageDir rs u" by (rule same_files_committed [OF u k(3)])
    then have "disk_sound c adr imageDir rs u" using stored_disk_sound [OF t(3)] by (simp add: committed_def)
    moreover have "is_directory imageDir u" using dirs_self [OF k(4)] same_files_facts(3) [OF u] by (simp add: imageDir_def)
    ultimately have "io_wp (openStore c dd time_text adr dir imageDir now) ?Q (\<lambda>e v. (\<exists>r\<in>set rs. expired now r) \<or> (\<exists>q\<in>orphans imageDir rs. inode_number q u \<noteq> None)) u"
      using k c same_files_facts(1,2) [OF u] assms(5,6,9) by (intro calm_openStore) (auto simp: imageDir_def)
    then show ?thesis using t(4) same_files_facts(5) [OF u] by (auto elim!: wp_mono)
  qed
  from calm_OpenAt [OF k(1) k(4) [unfolded imageDir_def dir_def]] this
  have "io_wp (OpenAt c dd time_text adr stateHome now) ?Q ?E ?t" unfolding dir_def imageDir_def by blast
  moreover have "retain rs now = rs" if "\<forall>r\<in>set rs. \<not> expired now r" using that by (simp add: retain_def)
  ultimately show ?thesis
    by (cases "OpenAt c dd time_text adr stateHome now ?t"; cases "fst (OpenAt c dd time_text adr stateHome now ?t)") (auto simp: io_wp_def)
qed


subsection \<open>Examples\<close>

text \<open>An empty history on a disk without faults, and an entry with an image of one pixel.\<close>

definition ex_home :: path where "ex_home = [''home'']"
definition ex_dir :: path where "ex_dir = ex_home @ [''sysc-notify'']"
definition ex_images :: path where "ex_images = ex_dir @ [''images'']"

definition ex_disk :: filesys where
  "ex_disk = \<lparr>fs_names = [(ex_home, 0), (ex_dir, 1), (ex_images, 2)],
     fs_inodes = (\<lambda>_. \<lparr>i_kind = Directory, i_perm = 0x1C0, i_uid = 0, i_data = [], i_mtime = 0, i_ctime = 0\<rparr>), fs_next = 3,
     fs_uid = 0, fs_clock = (\<lambda>_. 0), fs_random = (\<lambda>_ _. ''1''), fs_faults = (\<lambda>_. None), fs_calls = 0, fs_verified = (\<lambda>_. None),
     fs_sockets = (\<lambda>_. NoListener), fs_bindPerm = 0x1ED\<rparr>"

definition ex_pixel :: codec where
  "ex_pixel = \<lparr>png_Decode = (\<lambda>_. Some \<lparr>pic_Dx = 1, pic_Dy = 1, pic_At = (\<lambda>_ _. (0, 0, 0, 0))\<rparr>), png_Encode = (\<lambda>px. if map length px = [1] then Some ''png'' else None),
     sha256_Sum256 = (\<lambda>d. of_nat (length d))\<rparr>"

definition ex_small :: Image where
  "ex_small = \<lparr>img_MediaType = ''image/png'', img_Width = 1, img_Height = 1, img_Data = ''png''\<rparr>"

definition ex_history_entry :: HistoryEntry where
  "ex_history_entry = zero_HistoryEntry\<lparr>h_ID := 7, h_Summary := ''hi'', h_Timestamp := 1000000000, h_Image := Some ex_small\<rparr>"

definition ex_retained :: retained where
  "ex_retained = (case newRetained ex_history_entry (Some (newImageMeta ex_pixel ex_small)) of
     Inr r \<Rightarrow> r | Inl _ \<Rightarrow> \<lparr>rt_entry = ex_history_entry, rt_meta = None, rt_size = 0\<rparr>)"

lemma ex_history_entry_valid: "HistoryEntry_Validate ex_history_entry = None"
proof -
  have "utf8_ValidString ''hi''" by (rule utf8_ascii) simp
  then show ?thesis
    by (simp add: HistoryEntry_Validate_def ex_history_entry_def zero_HistoryEntry_def validateText_def limit_defs
        Urgency_valid_def image_option_Validate_def Image_Validate_def ex_small_def time_IsZero_def)
qed

lemma ex_time: "time_json 1000000000 \<noteq> None"
  by code_simp

lemma ex_retained_eq:
  "rt_entry ex_retained = ex_history_entry" "rt_meta ex_retained = Some (newImageMeta ex_pixel ex_small)" "retained_ok ex_retained"
proof -
  have p: "prepared_ok \<lparr>prep_image = h_Image ex_history_entry, prep_meta = Some (newImageMeta ex_pixel ex_small)\<rparr>"
    by (simp add: prepared_ok_def ex_history_entry_def newImageMeta_def ex_small_def historyImageLongEdge_def)
  have "\<exists>r. newRetained ex_history_entry (Some (newImageMeta ex_pixel ex_small)) = Inr r"
    using ex_time by (auto simp: newRetained_def marshal_diskEntry_def diskEntryOf_def Let_def ex_history_entry_def)
  then obtain r where r: "newRetained ex_history_entry (Some (newImageMeta ex_pixel ex_small)) = Inr r" by blast
  with newRetained_ok [OF r ex_history_entry_valid p]
  show "rt_entry ex_retained = ex_history_entry" "rt_meta ex_retained = Some (newImageMeta ex_pixel ex_small)" "retained_ok ex_retained"
    by (simp_all add: ex_retained_def)
qed

lemma ex_entries_ok: "entries_ok [ex_retained]"
  using ex_retained_eq(3) single_fits [OF ex_retained_eq(3)] by (simp add: entries_ok_def MaxHistoryEntries_def)

lemma ex_genuine: "genuine ex_pixel ex_retained"
  by (simp add: genuine_def ex_retained_eq ex_history_entry_def ex_small_def ex_pixel_def Image_Validate_def limit_defs)

lemma ex_disk_ok: "fs_ok ex_disk" "disk_sound ex_pixel adr ex_images [ex_retained] ex_disk"
proof -
  show "fs_ok ex_disk" by (auto simp: fs_ok_def ex_disk_def split: if_splits)
  have "inode_number (image_path ex_pixel ex_images img) ex_disk = None" for img
    by (auto simp: ex_disk_def image_path_def sidecar_def ex_home_def ex_dir_def ex_images_def)
  then show "disk_sound ex_pixel adr ex_images [ex_retained] ex_disk"
    by (simp add: disk_sound_def sound_def ex_retained_eq ex_history_entry_def)
qed

lemma ex_decoder_reads_back: "reads_back \<lparr>dd_document = (\<lambda>_. Inr (encodeDocument [ex_retained], [])), dd_extra = (\<lambda>_. AtEOF)\<rparr> [ex_retained]"
  by (simp add: reads_back_def)

text \<open>The first random name is free.\<close>

lemma try_temp_first: "inode_number (dir @ [pattern @ fs_random fs (fs_calls fs) 0]) fs = None \<Longrightarrow>
   try_temp 10000 0 dir pattern fs = Some (dir @ [pattern @ fs_random fs (fs_calls fs) 0])"
proof -
  have "(10000 :: nat) = Suc 9999" by simp
  then show "inode_number (dir @ [pattern @ fs_random fs (fs_calls fs) 0]) fs = None \<Longrightarrow> ?thesis" by (simp only: try_temp.simps Let_def simp_thms if_True)
qed

lemmas run_defs = io_bind_def io_wrap_def io_try_def io_finally_def io_return_def io_throw_def syscall_def Let_def

lemma ex_sidecar: "sidecar ex_images (im_digest (newImageMeta ex_pixel ex_small)) \<noteq> ex_images @ [CHR ''.'' # s]"
proof
  assume "sidecar ex_images (im_digest (newImageMeta ex_pixel ex_small)) = ex_images @ [CHR ''.'' # s]"
  then have "is_temp (sidecar ex_images (hex_EncodeToString (sha256_Sum256 ex_pixel (img_Data ex_small))))"
    by (simp add: newImageMeta_def is_temp_def)
  then show False using sidecar_not_temp by blast
qed

lemma ex_commit: "\<exists>t. commit ex_pixel (\<lambda>_. 0) ex_dir ex_images [ex_retained] ex_disk = (Inr (), t) \<and> dirs_ok ex_images t"
proof -
  obtain enc where enc: "marshal_document (encodeDocument [ex_retained]) = Some enc"
    using document_size [OF ex_entries_ok] by (auto simp: document_bytes_def)
  define p where "p = hex_EncodeToString (sha256_Sum256 ex_pixel ''png'') @ ''.png''"
  have p: "sidecar [''home'', ''sysc-notify'', ''images''] (im_digest (newImageMeta ex_pixel ex_small)) = [''home'', ''sysc-notify'', ''images'', p]"
    by (simp add: p_def sidecar_def newImageMeta_def ex_small_def)
  have np: "p \<noteq> ''.image.tmp-1''" using ex_sidecar by (auto simp: p ex_images_def ex_dir_def ex_home_def)
  have sn: "sidecar_names [ex_retained] = [p]" by (simp add: sidecar_names_def map_filter_def ex_retained_eq p_def newImageMeta_def ex_small_def)
  show ?thesis
    using enc np
    by (simp add: commit_def write_entry_def ex_retained_eq ex_history_entry_def numeral_2_eq_2 p run_defs sn
      privateRegularFileInfo_def os_Lstat_def ex_disk_def ex_images_def ex_dir_def ex_home_def
      storeImage_def os_CreateTemp_def try_temp_first new_inode_def fillTemporary_def file_Chmod_def file_Write_def file_Sync_def file_Close_def
      touch_def append_data_def stamp_def placeImage_def os_Link_def os_Remove_def noteSidecar_def syncDirectory_def os_Open_def
      set_verified_def dropTemporary_def is_directory_def children_def writeDocument_def os_Rename_def finishCommit_def cleanupImages_def
      os_ReadDir_def info_of_def dirs_ok_def) (auto simp: take_Cons split: nat.splits)
qed

theorem commit_is_atomic_witness:
  "fs_ok ex_disk \<and> (\<exists>t. commit ex_pixel (\<lambda>_. 0) ex_dir ex_images [ex_retained] ex_disk = (Inr (), t) \<and>
     committed ex_pixel ex_dir ex_images [ex_retained] t)"
proof -
  obtain t where t: "commit ex_pixel (\<lambda>_. 0) ex_dir ex_images [ex_retained] ex_disk = (Inr (), t)" using ex_commit by blast
  have "\<forall>r\<in>set [ex_retained]. genuine ex_pixel r" by (simp add: ex_genuine)
  from commit_is_atomic [OF ex_disk_ok this ex_images_def t] t ex_disk_ok(1) show ?thesis by blast
qed

theorem history_survives_restart_witness:
  "\<exists>t u. commit ex_pixel (\<lambda>_. 0) ex_dir ex_images [ex_retained] ex_disk = (Inr (), t) \<and>
     OpenAt ex_pixel \<lparr>dd_document = (\<lambda>_. Inr (encodeDocument [ex_retained], [])), dd_extra = (\<lambda>_. AtEOF)\<rparr> (\<lambda>_. []) (\<lambda>_. 0) ex_home 1000000000
       (t\<lparr>fs_faults := \<lambda>_. None, fs_calls := 0\<rparr>) = (Inr (newStore ex_pixel [ex_retained]), u)"
proof -
  let ?dd = "\<lparr>dd_document = (\<lambda>_. Inr (encodeDocument [ex_retained], [])), dd_extra = (\<lambda>_. AtEOF)\<rparr>"
  obtain t where t: "commit ex_pixel (\<lambda>_. 0) ex_dir ex_images [ex_retained] ex_disk = (Inr (), t)" "dirs_ok ex_images t" using ex_commit by blast
  have g: "\<forall>r\<in>set [ex_retained]. genuine ex_pixel r" by (simp add: ex_genuine)
  have "\<forall>r\<in>set [ex_retained]. \<not> expired 1000000000 r"
    by (simp add: expired_def ex_retained_eq ex_history_entry_def HistoryRetention_def go_time)
  with history_survives_restart [of ex_disk ex_pixel "\<lambda>_. 0" ex_home "[ex_retained]" t ?dd "\<lambda>_. []" 1000000000] t ex_disk_ok g ex_entries_ok ex_decoder_reads_back
  show ?thesis unfolding ex_dir_def ex_images_def by blast
qed

text \<open>A disk whose document is not JSON.\<close>

definition ex_broken :: filesys where
  "ex_broken = ex_disk\<lparr>fs_names := (ex_dir @ [historyFilename], 3) # fs_names ex_disk,
     fs_inodes := (fs_inodes ex_disk)(3 := \<lparr>i_kind = Regular, i_perm = 0x180, i_uid = 0, i_data = ''{'', i_mtime = 0, i_ctime = 0\<rparr>)\<rparr>"


end
