(* ===== verification/Persist.thy ===== *)
theory Persist
  imports GenuineImages HistoryDisk Contracts
begin

text \<open>
  Persisting the history (\<open>persistLoop\<close>, \<open>Flush\<close> and \<open>Close\<close> of \<open>internal/history/store.go\<close>): the worker goroutine that
  commits the latest entries, the mutations that go on meanwhile, and the shutdown. Each step of the relation is one
  critical section of the store's mutex, one commit, or one wait that ends.

  How a commit ends is a parameter of the protocol, a relation between the entries, the disk before, the error and the
  disk after; the contract \<open>atomic_writer\<close> says what the protocol needs of it, and \<open>commit\<close> satisfies it. Which requests
  mutate the store is the parameter \<open>admits\<close>.
\<close>

subsection \<open>The worker and the shutdown (store.go)\<close>

definition recordErr :: "err \<Rightarrow> Store \<Rightarrow> Store" where
  "recordErr e s = (if st_lastErr s = None then s\<lparr>st_lastErr := Some e\<rparr> else s)"

definition clearErr :: "Store \<Rightarrow> Store" where
  "clearErr s = s\<lparr>st_lastErr := None\<rparr>"

definition report :: "error \<Rightarrow> Store \<Rightarrow> Store" where
  "report r s = (case r of Some e \<Rightarrow> recordErr e s | None \<Rightarrow> clearErr s)"

text \<open>Where the worker is: \<open>gen\<close> is the generation it commits, \<open>r\<close> the error of the commit.\<close>

datatype worker =
    AtTop
  | Committing "retained list" nat
  | Reporting error nat
  | Accounting error nat
  | BackingOff
  | Asleep
  | Finished

datatype closer =
    NotClosing
  | FlagSet
  | Signalled
  | LastCommit "retained list"
  | LastReport error
  | Broadcast
  | Returned

definition worker_top :: "Store \<Rightarrow> Store \<times> worker" where
  "worker_top s =
     (if st_closed s then (s, Finished)
      else if st_dirty s then (s\<lparr>st_dirty := False\<rparr>, Committing (st_entries s) (st_writeGen s))
      else (s, Asleep))"

definition worker_account :: "error \<Rightarrow> nat \<Rightarrow> Store \<Rightarrow> Store \<times> worker" where
  "worker_account r gen s =
     (s\<lparr>st_dirty := (st_dirty s \<or> r \<noteq> None), st_workerGen := max gen (st_workerGen s)\<rparr>, if r \<noteq> None then BackingOff else AtTop)"

text \<open>\<open>Flush\<close> goes on when its generation has been tried or the store is closed; then it reports the remembered error.\<close>

definition flush_waits :: "Store \<Rightarrow> bool" where
  "flush_waits s \<longleftrightarrow> st_workerGen s < st_writeGen s \<and> \<not> st_closed s"

record 'd persist =
  pw_store :: Store
  pw_disk :: 'd
  pw_worker :: worker
  pw_closer :: closer

definition closing_signalled :: "closer \<Rightarrow> bool" where
  "closing_signalled cl \<longleftrightarrow> cl \<noteq> NotClosing \<and> cl \<noteq> FlagSet"

type_synonym 'd writer = "retained list \<Rightarrow> 'd \<Rightarrow> error \<Rightarrow> 'd \<Rightarrow> bool"

inductive persist_step :: "(store_request \<Rightarrow> bool) \<Rightarrow> 'd writer \<Rightarrow> 'd persist \<Rightarrow> 'd persist \<Rightarrow> bool" for admits writes where
  mutate: "\<not> st_closed (pw_store p) \<Longrightarrow> admits q \<Longrightarrow> store_serves q (pw_store p) = Some (es, s) \<Longrightarrow>
    persist_step admits writes p (p\<lparr>pw_store := s\<rparr>)"
| top: "pw_worker p = AtTop \<Longrightarrow> worker_top (pw_store p) = (s, w) \<Longrightarrow> persist_step admits writes p (p\<lparr>pw_store := s, pw_worker := w\<rparr>)"
| commit: "pw_worker p = Committing target gen \<Longrightarrow> writes target (pw_disk p) r d \<Longrightarrow>
    persist_step admits writes p (p\<lparr>pw_disk := d, pw_worker := Reporting r gen\<rparr>)"
| reported: "pw_worker p = Reporting r gen \<Longrightarrow>
    persist_step admits writes p (p\<lparr>pw_store := report r (pw_store p), pw_worker := Accounting r gen\<rparr>)"
| account: "pw_worker p = Accounting r gen \<Longrightarrow> worker_account r gen (pw_store p) = (s, w) \<Longrightarrow>
    persist_step admits writes p (p\<lparr>pw_store := s, pw_worker := w\<rparr>)"
| retry: "pw_worker p = BackingOff \<Longrightarrow> persist_step admits writes p (p\<lparr>pw_worker := AtTop\<rparr>)"
| woken: "pw_worker p = Asleep \<Longrightarrow> st_wake (pw_store p) \<Longrightarrow>
    persist_step admits writes p (p\<lparr>pw_store := (pw_store p)\<lparr>st_wake := False\<rparr>, pw_worker := AtTop\<rparr>)"
| told: "pw_worker p = Asleep \<Longrightarrow> closing_signalled (pw_closer p) \<Longrightarrow> persist_step admits writes p (p\<lparr>pw_worker := AtTop\<rparr>)"
| close: "pw_closer p = NotClosing \<Longrightarrow>
    persist_step admits writes p (p\<lparr>pw_store := (pw_store p)\<lparr>st_closed := True\<rparr>, pw_closer := FlagSet\<rparr>)"
| signal: "pw_closer p = FlagSet \<Longrightarrow> persist_step admits writes p (p\<lparr>pw_closer := Signalled\<rparr>)"
| last: "pw_closer p = Signalled \<Longrightarrow> pw_worker p = Finished \<Longrightarrow>
    persist_step admits writes p (p\<lparr>pw_closer := (if st_dirty (pw_store p) then LastCommit (st_entries (pw_store p)) else Broadcast)\<rparr>)"
| last_commit: "pw_closer p = LastCommit target \<Longrightarrow> writes target (pw_disk p) r d \<Longrightarrow>
    persist_step admits writes p (p\<lparr>pw_disk := d, pw_closer := LastReport r\<rparr>)"
| last_report: "pw_closer p = LastReport r \<Longrightarrow>
    persist_step admits writes p (p\<lparr>pw_store := report r (pw_store p), pw_closer := Broadcast\<rparr>)"
| returned: "pw_closer p = Broadcast \<Longrightarrow> persist_step admits writes p (p\<lparr>pw_closer := Returned\<rparr>)"

text \<open>A store that has just been opened.\<close>

definition persist_initial :: "(Store \<Rightarrow> bool) \<Rightarrow> (retained list \<Rightarrow> 'd \<Rightarrow> bool) \<Rightarrow> 'd persist \<Rightarrow> bool" where
  "persist_initial good holds p \<longleftrightarrow> (\<exists>c rs. pw_store p = newStore c rs \<and> good (newStore c rs) \<and> holds rs (pw_disk p)) \<and> pw_worker p = AtTop \<and> pw_closer p = NotClosing"

subsection \<open>Mutations\<close>

text \<open>A mutation leaves the store as it is, or changes the entries and asks for a commit.\<close>

lemma store_serves_schedules:
  assumes "store_serves q s = Some (es, t)"
  shows "t = s \<or> (\<exists>rs. t = schedule (s\<lparr>st_entries := rs\<rparr>))"
proof -
  have ap: "snd (AddPrepared e img now s) = s \<or> (\<exists>rs. snd (AddPrepared e img now s) = schedule (s\<lparr>st_entries := rs\<rparr>))" for e img now
    by (auto simp: AddPrepared_def Let_def split: option.split sum.split prod.split)
  show ?thesis
  proof (cases q)
    case (RAdd e now)
    with assms ap [of e _ now] show ?thesis
      by (auto simp: Add_def split: prod.splits sum.splits) (metis snd_conv)+
  next
    case (RAddPrepared e img now)
    with assms ap [of e img now] show ?thesis by (auto split: prod.splits)
  next
    case (RMarkSeen ids)
    with assms show ?thesis by (auto simp: MarkSeen_def split: prod.splits sum.splits if_splits)
  qed (use assms in \<open>auto simp: Sweep_def Remove_def Clear_def Let_def split: prod.splits if_splits\<close>)
qed

subsection \<open>The contract of a commit and what the protocol makes of it\<close>

text \<open>
  A commit of the entries of a good store that succeeds has written them, and one that fails has written them or left
  whatever was there. Good is a property of the entries that the admitted mutations keep.
\<close>

locale atomic_writer =
  fixes holds :: "retained list \<Rightarrow> 'd \<Rightarrow> bool" and writes :: "'d writer"
    and good :: "Store \<Rightarrow> bool" and usable :: "retained list \<Rightarrow> bool" and admits :: "store_request \<Rightarrow> bool"
  assumes write_ok: "usable rs \<Longrightarrow> writes rs d None d' \<Longrightarrow> holds rs d'"
    and write_error: "usable rs \<Longrightarrow> writes rs d (Some e) d' \<Longrightarrow> holds rs d' \<or> (\<forall>rs'. holds rs' d \<longrightarrow> holds rs' d')"
    and good_usable: "good s \<Longrightarrow> usable (st_entries s)"
    and good_entries: "good s \<Longrightarrow> st_entries t = st_entries s \<Longrightarrow> st_codec t = st_codec s \<Longrightarrow> good t"
    and good_serves: "good s \<Longrightarrow> admits q \<Longrightarrow> store_serves q s = Some (es, t) \<Longrightarrow> good t"
begin

text \<open>What is known between the critical sections, by the position of the worker.\<close>

definition worker_ok :: "Store \<Rightarrow> 'd \<Rightarrow> worker \<Rightarrow> bool" where
  "worker_ok s d w =
     (case w of
        Committing target gen \<Rightarrow> usable target \<and> st_workerGen s \<le> gen \<and> gen \<le> st_writeGen s \<and> (gen = st_writeGen s \<longrightarrow> target = st_entries s) \<and>
          (gen < st_writeGen s \<longleftrightarrow> st_dirty s) \<and> (gen = st_workerGen s \<longrightarrow> st_lastErr s \<noteq> None)
      | Reporting r gen \<Rightarrow> st_workerGen s \<le> gen \<and> gen \<le> st_writeGen s \<and> (gen < st_writeGen s \<longleftrightarrow> st_dirty s) \<and>
          (r = None \<and> gen = st_writeGen s \<longrightarrow> holds (st_entries s) d) \<and> (gen = st_workerGen s \<longrightarrow> st_lastErr s \<noteq> None)
      | Accounting r gen \<Rightarrow> st_workerGen s \<le> gen \<and> gen \<le> st_writeGen s \<and> (gen < st_writeGen s \<longleftrightarrow> st_dirty s) \<and>
          (r = None \<and> gen = st_writeGen s \<longrightarrow> holds (st_entries s) d) \<and> (st_lastErr s = None \<longleftrightarrow> r = None)
      | _ \<Rightarrow> st_workerGen s \<le> st_writeGen s \<and> (st_dirty s \<and> st_workerGen s = st_writeGen s \<longrightarrow> st_lastErr s \<noteq> None) \<and>
          (\<not> st_dirty s \<longrightarrow> st_workerGen s = st_writeGen s \<and> holds (st_entries s) d) \<and>
          (w = Asleep \<and> st_dirty s \<longrightarrow> st_wake s) \<and> (w = Finished \<longrightarrow> st_closed s))"

definition closer_ok :: "Store \<Rightarrow> 'd \<Rightarrow> worker \<Rightarrow> closer \<Rightarrow> bool" where
  "closer_ok s d w cl =
     ((cl = NotClosing \<longleftrightarrow> \<not> st_closed s) \<and>
      (case cl of
         LastCommit target \<Rightarrow> w = Finished \<and> target = st_entries s
       | LastReport r \<Rightarrow> w = Finished \<and> (r = None \<longrightarrow> holds (st_entries s) d)
       | Broadcast \<Rightarrow> w = Finished \<and> (st_lastErr s = None \<longrightarrow> holds (st_entries s) d)
       | Returned \<Rightarrow> w = Finished \<and> (st_lastErr s = None \<longrightarrow> holds (st_entries s) d)
       | _ \<Rightarrow> True))"

text \<open>The worker is done once the last commit has begun, and then only the closer changes store and disk.\<close>

definition persist_ok :: "'d persist \<Rightarrow> bool" where
  "persist_ok p \<longleftrightarrow> closer_ok (pw_store p) (pw_disk p) (pw_worker p) (pw_closer p) \<and>
     (pw_closer p \<in> {NotClosing, FlagSet, Signalled} \<longrightarrow> worker_ok (pw_store p) (pw_disk p) (pw_worker p)) \<and>
     (\<exists>rs. holds rs (pw_disk p)) \<and> good (pw_store p)"

lemma initial_ok: "persist_initial good holds p \<Longrightarrow> persist_ok p"
  by (auto simp: persist_initial_def persist_ok_def closer_ok_def worker_ok_def newStore_def)

lemma write_holds: "usable rs \<Longrightarrow> writes rs d r d' \<Longrightarrow> \<exists>rs. holds rs d \<Longrightarrow> \<exists>rs. holds rs d'"
  using write_ok write_error by (cases r) blast+

lemma mutate_ok:
  assumes "worker_ok s d w" "\<not> st_closed s" "t = s \<or> (\<exists>rs. t = schedule (s\<lparr>st_entries := rs\<rparr>))"
  shows "worker_ok t d w"
  using assms by (cases w) (auto simp: worker_ok_def schedule_def)

lemma worker_commit_ok:
  assumes "worker_ok s d (Committing target gen)" "writes target d r d'"
  shows "worker_ok s d' (Reporting r gen)"
  using assms write_ok [of target d d'] by (auto simp: worker_ok_def)

lemma report_simps [simp]:
  "st_closed (report r s) = st_closed s" "st_entries (report r s) = st_entries s" "st_lastErr (report r s) = None \<longleftrightarrow> r = None"
  by (auto simp: report_def recordErr_def clearErr_def split: option.split)

lemma good_changes [simp]:
  assumes "good s"
  shows "good (s\<lparr>st_dirty := b\<rparr>)" "good (s\<lparr>st_workerGen := n\<rparr>)" "good (s\<lparr>st_dirty := b, st_workerGen := n\<rparr>)" "good (s\<lparr>st_wake := b\<rparr>)" "good (s\<lparr>st_closed := b\<rparr>)" "good (report r s)"
  by (rule good_entries [OF assms]; simp add: report_def recordErr_def clearErr_def split: option.split)+

lemma worker_report_ok:
  assumes "worker_ok s d (Reporting r gen)"
  shows "worker_ok (report r s) d (Accounting r gen)"
  using assms by (auto simp: worker_ok_def report_def recordErr_def clearErr_def split: option.splits)

lemma worker_account_ok:
  assumes "worker_ok s d (Accounting r gen)" "worker_account r gen s = (t, w)"
  shows "worker_ok t d w"
  using assms by (auto simp: worker_ok_def worker_account_def split: if_splits)

lemma worker_top_ok:
  assumes "good s" "worker_ok s d AtTop" "worker_top s = (t, w)"
  shows "worker_ok t d w"
  using assms good_usable by (auto simp: worker_ok_def worker_top_def split: if_splits)

lemma worker_runs: "persist_ok p \<Longrightarrow> pw_worker p \<noteq> Finished \<Longrightarrow> pw_closer p \<in> {NotClosing, FlagSet, Signalled}"
  by (cases "pw_closer p") (auto simp: persist_ok_def closer_ok_def)

lemma persist_step_ok:
  assumes ok: "persist_ok p" and step: "persist_step admits writes p q"
  shows "persist_ok q"
  using step
proof cases
  case (mutate r es s)
  note sched = store_serves_schedules [OF mutate(4)]
  have cl: "pw_closer p = NotClosing" using ok mutate(2) by (simp add: persist_ok_def closer_ok_def)
  with ok mutate_ok [OF _ mutate(2) sched] have "worker_ok s (pw_disk p) (pw_worker p)" by (simp add: persist_ok_def)
  moreover have "\<not> st_closed s" using sched mutate(2) by (auto simp: schedule_def)
  moreover have "good s" using ok good_serves mutate(3,4) by (auto simp: persist_ok_def)
  ultimately show ?thesis using ok mutate(1) cl by (simp add: persist_ok_def closer_ok_def)
next
  case (top s w)
  have cl: "pw_closer p \<in> {NotClosing, FlagSet, Signalled}" using worker_runs [OF ok] top by simp
  then have "worker_ok s (pw_disk p) w" using ok top worker_top_ok by (auto simp: persist_ok_def)
  then show ?thesis using ok top cl by (auto simp: persist_ok_def closer_ok_def worker_top_def split: if_splits)
next
  case (commit target gen r d)
  have cl: "pw_closer p \<in> {NotClosing, FlagSet, Signalled}" using worker_runs [OF ok] commit by simp
  then have "usable target" using ok commit(2) by (auto simp: persist_ok_def worker_ok_def)
  then have "\<exists>rs. holds rs d" using write_holds [OF _ commit(3)] ok by (simp add: persist_ok_def)
  moreover have "worker_ok (pw_store p) d (Reporting r gen)" using cl ok commit worker_commit_ok by (auto simp: persist_ok_def)
  ultimately show ?thesis using ok commit cl by (auto simp: persist_ok_def closer_ok_def)
next
  case (reported r gen)
  have cl: "pw_closer p \<in> {NotClosing, FlagSet, Signalled}" using worker_runs [OF ok] reported by simp
  then have "worker_ok (report r (pw_store p)) (pw_disk p) (Accounting r gen)" using ok reported worker_report_ok by (auto simp: persist_ok_def)
  then show ?thesis using ok reported cl by (auto simp: persist_ok_def closer_ok_def)
next
  case (account r gen s w)
  have cl: "pw_closer p \<in> {NotClosing, FlagSet, Signalled}" using worker_runs [OF ok] account by simp
  then have "worker_ok s (pw_disk p) w" using ok account worker_account_ok by (auto simp: persist_ok_def)
  then show ?thesis using ok account cl by (auto simp: persist_ok_def closer_ok_def worker_account_def split: if_splits)
next
  case (last_commit target r d)
  then have "usable target" using ok good_usable by (auto simp: persist_ok_def closer_ok_def)
  then show ?thesis using last_commit ok write_ok [of target "pw_disk p" d] write_holds [OF _ last_commit(3)] by (auto simp: persist_ok_def closer_ok_def)
next
  case last
  then show ?thesis using ok by (auto simp: persist_ok_def closer_ok_def worker_ok_def)
next
  case (last_report r)
  then show ?thesis using ok by (auto simp: persist_ok_def closer_ok_def)
qed (use ok in \<open>auto simp: persist_ok_def closer_ok_def worker_ok_def closing_signalled_def split: worker.splits closer.splits\<close>)

lemma flush_durable:
  assumes "persist_ok p" "\<not> st_closed (pw_store p)" "\<not> flush_waits (pw_store p)" "st_lastErr (pw_store p) = None"
  shows "holds (st_entries (pw_store p)) (pw_disk p)"
proof -
  have "pw_closer p = NotClosing" using assms(1,2) by (simp add: persist_ok_def closer_ok_def)
  then have "worker_ok (pw_store p) (pw_disk p) (pw_worker p)" using assms(1) by (simp add: persist_ok_def)
  with assms(2-4) show ?thesis by (cases "pw_worker p") (auto simp: worker_ok_def flush_waits_def)
qed

lemma close_durable:
  assumes "persist_ok p" "pw_closer p = Returned" "st_lastErr (pw_store p) = None"
  shows "holds (st_entries (pw_store p)) (pw_disk p)"
  using assms by (auto simp: persist_ok_def closer_ok_def)

lemma wake_pending:
  assumes "persist_ok p" "pw_worker p = Asleep" "st_dirty (pw_store p)"
  shows "st_wake (pw_store p)"
proof -
  have "pw_closer p \<in> {NotClosing, FlagSet, Signalled}" using assms(1,2) by (cases "pw_closer p") (auto simp: persist_ok_def closer_ok_def)
  then show ?thesis using assms by (auto simp: persist_ok_def worker_ok_def)
qed

end

sublocale atomic_writer \<subseteq> machine: guarded_machine "persist_initial good holds" "persist_step admits writes" persist_ok
  by unfold_locales (use initial_ok persist_step_ok in blast)+

subsection \<open>The shutdown comes to its end\<close>

fun worker_rank :: "worker \<Rightarrow> nat" where
  "worker_rank Finished = 0"
| "worker_rank AtTop = 1"
| "worker_rank Asleep = 2"
| "worker_rank BackingOff = 2"
| "worker_rank (Accounting r gen) = 3"
| "worker_rank (Reporting r gen) = 4"
| "worker_rank (Committing target gen) = 5"

fun closer_rank :: "closer \<Rightarrow> nat" where
  "closer_rank Returned = 0"
| "closer_rank Broadcast = 1"
| "closer_rank (LastReport r) = 2"
| "closer_rank (LastCommit target) = 3"
| "closer_rank Signalled = 4"
| "closer_rank FlagSet = 5"
| "closer_rank NotClosing = 6"

definition shutdown_rank :: "'d persist \<Rightarrow> nat" where
  "shutdown_rank p = worker_rank (pw_worker p) + closer_rank (pw_closer p)"

lemma shutdown_step:
  assumes "st_closed (pw_store p)" "persist_step admits writes p q"
  shows "shutdown_rank q < shutdown_rank p \<and> st_closed (pw_store q)"
  using assms(2,1)
  by cases (auto simp: shutdown_rank_def worker_top_def worker_account_def report_def recordErr_def clearErr_def split: option.splits)

text \<open>A commit is about to begin, or the protocol can go on.\<close>

definition about_to_commit :: "'d persist \<Rightarrow> bool" where
  "about_to_commit p \<longleftrightarrow> (\<exists>target gen. pw_worker p = Committing target gen) \<or> (\<exists>target. pw_closer p = LastCommit target)"

lemma shutdown_enabled:
  assumes "pw_closer p \<noteq> NotClosing" "pw_closer p \<noteq> Returned"
  shows "about_to_commit p \<or> (\<exists>q. persist_step admits writes p q)"
proof (cases "pw_closer p")
  case Signalled
  then have sig: "closing_signalled (pw_closer p)" by (simp add: closing_signalled_def)
  show ?thesis
  proof (cases "pw_worker p")
    case AtTop
    obtain s w where "worker_top (pw_store p) = (s, w)" by fastforce
    with AtTop show ?thesis using persist_step.top by blast
  next
    case (Accounting r gen)
    obtain s w where "worker_account r gen (pw_store p) = (s, w)" by fastforce
    with Accounting show ?thesis using persist_step.account by blast
  next
    case (Reporting r gen)
    then show ?thesis using persist_step.reported by blast
  next
    case BackingOff
    then show ?thesis using persist_step.retry by blast
  next
    case Asleep
    then show ?thesis using sig persist_step.told by blast
  next
    case Finished
    then show ?thesis using Signalled persist_step.last by blast
  qed (simp add: about_to_commit_def)
next
  case FlagSet
  then show ?thesis using persist_step.signal by blast
next
  case (LastReport r)
  then show ?thesis using persist_step.last_report by blast
next
  case Broadcast
  then show ?thesis using persist_step.returned by blast
qed (use assms in \<open>simp_all add: about_to_commit_def\<close>)

subsection \<open>The commits of the history satisfy the contract\<close>

text \<open>The disk a restart would read these entries from; a store that was never written has no document.\<close>

definition recorded :: "codec \<Rightarrow> path \<Rightarrow> retained list \<Rightarrow> filesys \<Rightarrow> bool" where
  "recorded c dir rs fs \<longleftrightarrow> committed c dir (dir @ [''images'']) rs fs \<or> rs = [] \<and> look (dir @ [historyFilename]) fs = None"

text \<open>
  How a commit may end. The runs considered are those in which what the program would trust on disk is what it takes it
  for, whenever a commit begins.
\<close>

definition commit_writes :: "codec \<Rightarrow> (retained \<Rightarrow> nat) \<Rightarrow> path \<Rightarrow> filesys writer" where
  "commit_writes c adr dir rs fs r t \<longleftrightarrow> fs_ok fs \<and> disk_sound c adr (dir @ [''images'']) rs fs \<and>
     (case commit c adr dir (dir @ [''images'']) rs fs of (Inr _, u) \<Rightarrow> r = None \<and> t = u | (Inl e, u) \<Rightarrow> r = Some e \<and> t = u)"

lemma untouched_committed: "untouched c dir imageDir fs t \<Longrightarrow> committed c dir imageDir rs fs \<Longrightarrow> committed c dir imageDir rs t"
  unfolding untouched_def committed_def images_stored_def valid_sidecar_def image_path_def by metis

lemma commit_writes_outcome:
  assumes "\<forall>x\<in>set rs. genuine c x" "commit_writes c adr dir rs fs r t"
  shows "committed c dir (dir @ [''images'']) rs t \<or> r \<noteq> None \<and> untouched c dir (dir @ [''images'']) fs t"
proof -
  let ?i = "dir @ [''images'']"
  have "io_wp (commit c adr dir ?i rs) (\<lambda>_ t. committed c dir ?i rs t) (\<lambda>_ t. committed c dir ?i rs t \<or> untouched c dir ?i fs t) fs"
    by (rule wp_commit) (use assms in \<open>auto simp: commit_writes_def\<close>)
  with assms show ?thesis
    by (cases "commit c adr dir ?i rs fs"; cases "fst (commit c adr dir ?i rs fs)") (auto simp: commit_writes_def io_wp_def)
qed

definition entries_genuine :: "codec \<Rightarrow> retained list \<Rightarrow> bool" where
  "entries_genuine c rs \<longleftrightarrow> (\<forall>r\<in>set rs. genuine c r)"

text \<open>A store with genuine images and a codec that keeps bounds.\<close>

definition good_store :: "codec \<Rightarrow> Store \<Rightarrow> bool" where
  "good_store c s \<longleftrightarrow> codec_ok c \<and> store_genuine c s"

interpretation history_disk: atomic_writer "recorded c dir" "commit_writes c adr dir" "good_store c" "entries_genuine c" "request_genuine c"
proof
  show "recorded c dir rs t" if "entries_genuine c rs" "commit_writes c adr dir rs fs None t" for rs fs t
    using commit_writes_outcome [OF _ that(2)] that(1) by (simp add: recorded_def entries_genuine_def)
  show "recorded c dir rs t \<or> (\<forall>rs'. recorded c dir rs' fs \<longrightarrow> recorded c dir rs' t)"
    if "entries_genuine c rs" "commit_writes c adr dir rs fs (Some e) t" for rs fs e t
    using commit_writes_outcome [OF _ that(2)] that(1) untouched_committed by (auto simp: recorded_def untouched_def entries_genuine_def)
  show "good_store c s \<Longrightarrow> request_genuine c q \<Longrightarrow> store_serves q s = Some (es, t) \<Longrightarrow> good_store c t" for s q es t
    using store_serves_genuine unfolding good_store_def by blast
qed (auto simp: good_store_def store_genuine_def entries_genuine_def)

subsection \<open>Properties\<close>

text \<open>
  What \<open>Flush\<close> and \<open>Close\<close> promise, whatever mutations, commits and failures interleave: when \<open>Flush\<close> returns no error
  before the store is closed, and when \<open>Close\<close> returns none, the disk holds exactly the entries of the store, so that a
  restart finds them. At every moment in between the disk holds the entries of some state of the store, complete.
\<close>

theorem flush_and_close_are_durable:
  assumes "persist_initial (good_store c) (recorded c dir) p" "(persist_step (request_genuine c) (commit_writes c adr dir))\<^sup>*\<^sup>* p q"
  shows "(\<not> st_closed (pw_store q) \<and> \<not> flush_waits (pw_store q) \<and> st_lastErr (pw_store q) = None \<longrightarrow>
      recorded c dir (st_entries (pw_store q)) (pw_disk q)) \<and>
    (pw_closer q = Returned \<and> st_lastErr (pw_store q) = None \<longrightarrow> recorded c dir (st_entries (pw_store q)) (pw_disk q)) \<and>
    (\<exists>rs. recorded c dir rs (pw_disk q))"
proof -
  have ok: "history_disk.persist_ok c dir q" by (rule history_disk.machine.reachable_inv [OF assms])
  then have "\<exists>rs. recorded c dir rs (pw_disk q)" unfolding history_disk.persist_ok_def by blast
  with history_disk.flush_durable [OF ok] history_disk.close_durable [OF ok] show ?thesis by blast
qed

text \<open>
  C17: Nothing gets stuck: a sleeping worker with work to do has its wake-up waiting, and once \<open>Close\<close> has begun it comes to
  its end. Every further step brings the shutdown closer to it, and there is a further step, be it a commit, until
  \<open>Close\<close> has returned and the worker has stopped.
\<close>

theorem shutdown_terminates:
  assumes "persist_initial (good_store c) (recorded c dir) p" "(persist_step (request_genuine c) (commit_writes c adr dir))\<^sup>*\<^sup>* p q"
  shows "(pw_worker q = Asleep \<and> st_dirty (pw_store q) \<longrightarrow> st_wake (pw_store q)) \<and>
    (pw_closer q \<noteq> NotClosing \<longrightarrow>
       (\<forall>q'. persist_step (request_genuine c) (commit_writes c adr dir) q q' \<longrightarrow> shutdown_rank q' < shutdown_rank q) \<and>
       (pw_closer q \<noteq> Returned \<longrightarrow> about_to_commit q \<or> (\<exists>q'. persist_step (request_genuine c) (commit_writes c adr dir) q q')) \<and>
       (pw_closer q = Returned \<longrightarrow> pw_worker q = Finished))"
proof -
  have ok: "history_disk.persist_ok c dir q" by (rule history_disk.machine.reachable_inv [OF assms])
  then have cl: "pw_closer q \<noteq> NotClosing \<Longrightarrow> st_closed (pw_store q)" "pw_closer q = Returned \<Longrightarrow> pw_worker q = Finished"
    by (simp_all add: history_disk.persist_ok_def history_disk.closer_ok_def)
  have "pw_closer q \<noteq> NotClosing \<Longrightarrow> persist_step (request_genuine c) (commit_writes c adr dir) q q' \<Longrightarrow> shutdown_rank q' < shutdown_rank q" for q'
    using shutdown_step [OF cl(1)] by blast
  with cl(2) history_disk.wake_pending [OF ok] shutdown_enabled [of q] show ?thesis by blast
qed

text \<open>A store that has just been opened on an empty disk, and its first step.\<close>

lemma ex_pixel_codec_ok: "codec_ok ex_pixel"
  by (auto simp: codec_ok_def ex_pixel_def split: if_splits)

definition ex_persist :: "filesys persist" where
  "ex_persist = \<lparr>pw_store = newStore ex_pixel [], pw_disk = ex_disk, pw_worker = AtTop, pw_closer = NotClosing\<rparr>"

lemma ex_persist_initial: "persist_initial (good_store ex_pixel) (recorded ex_pixel ex_dir) ex_persist"
proof -
  have "look (ex_dir @ [historyFilename]) ex_disk = None" by (simp add: look_def ex_disk_def ex_dir_def ex_home_def ex_images_def)
  then have "recorded ex_pixel ex_dir [] ex_disk" by (simp add: recorded_def)
  moreover have "good_store ex_pixel (newStore ex_pixel [])" by (simp add: good_store_def store_genuine_def newStore_def ex_pixel_codec_ok)
  ultimately show ?thesis unfolding persist_initial_def ex_persist_def by auto
qed

definition ex_closing :: "filesys persist" where
  "ex_closing = ex_persist\<lparr>pw_store := (pw_store ex_persist)\<lparr>st_closed := True\<rparr>, pw_closer := FlagSet\<rparr>"

lemma ex_closing_step: "persist_step admits writes ex_persist ex_closing"
  unfolding ex_closing_def by (rule persist_step.close) (simp add: ex_persist_def)

theorem flush_and_close_are_durable_witness:
  "persist_initial (good_store ex_pixel) (recorded ex_pixel ex_dir) ex_persist \<and> \<not> flush_waits (pw_store ex_persist) \<and> recorded ex_pixel ex_dir [] (pw_disk ex_persist)"
proof -
  have "\<not> st_closed (pw_store ex_persist) \<and> \<not> flush_waits (pw_store ex_persist) \<and> st_lastErr (pw_store ex_persist) = None \<and> st_entries (pw_store ex_persist) = []"
    by (simp add: ex_persist_def newStore_def flush_waits_def)
  with flush_and_close_are_durable [OF ex_persist_initial, of "\<lambda>_. 0" ex_persist] ex_persist_initial show ?thesis by auto
qed

theorem shutdown_terminates_witness:
  "persist_initial (good_store ex_pixel) (recorded ex_pixel ex_dir) ex_persist \<and> pw_closer ex_closing = FlagSet \<and>
   (about_to_commit ex_closing \<or> (\<exists>q. persist_step (request_genuine ex_pixel) (commit_writes ex_pixel (\<lambda>_. 0) ex_dir) ex_closing q))"
proof -
  have "(persist_step (request_genuine ex_pixel) (commit_writes ex_pixel (\<lambda>_. 0) ex_dir))\<^sup>*\<^sup>* ex_persist ex_closing" using ex_closing_step by blast
  from shutdown_terminates [OF ex_persist_initial this] ex_persist_initial show ?thesis by (auto simp: ex_closing_def)
qed

end
