(* ===== verification/OwnerHistory.thy ===== *)
theory OwnerHistory
  imports GenuineImages OwnerGenerations
begin

text \<open>
  What the owner does to the history store: every turn changes it by operations of the store only, each with images that
  belong to their metadata, provided the commands bring such images. The worker that writes the store to disk may run between any two of them.
\<close>

subsection \<open>Operations on the store\<close>

definition history_step :: "codec \<Rightarrow> Store option \<Rightarrow> Store option \<Rightarrow> bool" where
  "history_step c o1 o2 \<longleftrightarrow> (\<exists>q es h h'. o1 = Some h \<and> o2 = Some h' \<and> request_genuine c q \<and> store_serves q h = Some (es, h'))"

text \<open>The prepared images that records carry.\<close>

definition images_ok :: "codec \<Rightarrow> ownerState \<Rightarrow> bool" where
  "images_ok c s \<longleftrightarrow> (\<forall>i r p. os_records s i = Some r \<longrightarrow> rec_historyImage r = Some p \<longrightarrow> prepared_ok p \<and> prepared_genuine c p)"

definition mutates :: "codec \<Rightarrow> ownerState \<Rightarrow> ownerState \<Rightarrow> bool" where
  "mutates c s t \<longleftrightarrow> (images_ok c s \<longrightarrow> images_ok c t \<and> (history_step c)\<^sup>*\<^sup>* (os_history s) (os_history t))"

lemma mutates_refl [simp]: "mutates c s s"
  by (simp add: mutates_def)

lemma mutates_trans: "mutates c s t \<Longrightarrow> mutates c t u \<Longrightarrow> mutates c s u"
  unfolding mutates_def by (metis rtranclp_trans)

lemma mutates_same:
  assumes "os_history t = os_history s"
    "\<And>i r p. os_records t i = Some r \<Longrightarrow> rec_historyImage r = Some p \<Longrightarrow> \<exists>j r'. os_records s j = Some r' \<and> rec_historyImage r' = Some p"
  shows "mutates c s t"
  unfolding mutates_def images_ok_def using assms by (metis rtranclp.rtrancl_refl)

lemma mutates_op:
  assumes "os_history s = Some h" "os_history t = Some h'" "images_ok c s \<Longrightarrow> request_genuine c q" "store_serves q h = Some (es, h')" "os_records t = os_records s"
  shows "mutates c s t"
  unfolding mutates_def
proof
  assume i: "images_ok c s"
  have "history_step c (os_history s) (os_history t)" unfolding history_step_def using assms i by metis
  then show "images_ok c t \<and> (history_step c)\<^sup>*\<^sup>* (os_history s) (os_history t)"
    using i assms(5) by (auto simp: images_ok_def)
qed

lemmas emits = publishDelta_emit publishRemoved_emit

lemma mutates_emit: "mutates c s t \<Longrightarrow> mutates c s (emit ds t)"
  by (rule mutates_trans, assumption, rule mutates_same) auto

lemma mutates_publish: "mutates c s (snd (publish ev s))"
  by (rule mutates_same) (auto simp: publish_def)

lemma mutates_read: "mutates c s (s\<lparr>os_reads := n\<rparr>)"
  by (rule mutates_same) auto

subsection \<open>Closing\<close>

lemma mutates_remember:
  assumes "os_history s = Some h" "images_ok c s \<Longrightarrow> \<forall>p. rec_historyImage r = Some p \<longrightarrow> prepared_ok p \<and> prepared_genuine c p"
  shows "mutates c s (remember r h s)"
proof -
  let ?now = "os_clock s (os_reads s)"
  let ?e = "historyEntry (rec_notification r) ?now (if rec_historyImage r \<noteq> None then None else n_Image (rec_notification r))"
  define q where "q = (case rec_historyImage r of Some p \<Rightarrow> RAddPrepared ?e p ?now | None \<Rightarrow> RAdd ?e ?now)"
  obtain res h' where rh: "(case rec_historyImage r of Some p \<Rightarrow> AddPrepared ?e p ?now h | None \<Rightarrow> Add ?e ?now h) = (res, h')" by fastforce
  have "mutates c s (s\<lparr>os_reads := Suc (os_reads s), os_history := Some h'\<rparr>)"
  proof (rule mutates_op [where q = q and es = "added_notices res"])
    show "store_serves q h = Some (added_notices res, h')" using rh by (auto simp: q_def split: option.splits)
    show "images_ok c s \<Longrightarrow> request_genuine c q" using assms(2) by (auto simp: q_def split: option.splits)
  qed (use assms in simp_all)
  then show ?thesis
    using rh by (auto simp: remember_def clock_Now_def Let_def emits split: sum.splits intro!: mutates_emit)
qed

lemma mutates_close: "mutates c s (snd (close nid reason s))"
proof (cases "os_records s nid")
  case None
  then show ?thesis by (simp add: close_def)
next
  case (Some r)
  let ?s = "emit [zero_Delta\<lparr>d_Kind := DeltaClosed, d_ID := nid, d_CloseReason := reason\<rparr>] (forget nid r s)"
  have f: "mutates c s ?s" by (rule mutates_emit, rule mutates_same) (auto simp: forget_def split: if_splits)
  have "mutates c ?s (remember r h ?s)" if "os_history ?s = Some h" "images_ok c s" for h
    by (rule mutates_remember [OF that(1)]) (use that(2) Some in \<open>auto simp: images_ok_def\<close>)
  then have "mutates c s (remember r h ?s)" if "os_history ?s = Some h" for h
    using f that mutates_trans unfolding mutates_def by blast
  with Some f show ?thesis by (auto simp: close_def Let_def emits split: option.split)
qed

lemma mutates_close': "close nid reason s = (e, t) \<Longrightarrow> mutates c s t"
  using mutates_close [of c s nid reason] by simp

lemma mutates_dismissLoop: "mutates c s (snd (dismissLoop ids e s))"
proof (induction ids arbitrary: e s)
  case (Cons nid ids)
  then show ?case by (auto split: prod.split intro: mutates_trans mutates_close')
qed simp

lemma mutates_expireLoop: "mutates c s (expireLoop now ids s)"
proof (induction ids arbitrary: s)
  case (Cons nid ids)
  have "mutates c s (case os_records s nid of
      Some r \<Rightarrow> if rec_hasDeadline r \<and> \<not> time_After (rec_deadline r) now then snd (close nid CloseExpired s) else s | None \<Rightarrow> s)"
    by (auto intro: mutates_close split: option.split)
  from mutates_trans [OF this Cons] show ?case by simp
qed simp

subsection \<open>Adding\<close>

definition prepared_option_ok :: "codec \<Rightarrow> PreparedImage option \<Rightarrow> bool" where
  "prepared_option_ok c prepared \<longleftrightarrow> (\<forall>p. prepared = Some p \<longrightarrow> prepared_ok p \<and> prepared_genuine c p)"

lemma mutates_fresh:
  assumes "os_history t = os_history s" "prepared_option_ok c prepared"
    "\<And>i r p. os_records t i = Some r \<Longrightarrow> rec_historyImage r = Some p \<Longrightarrow> os_records s i = Some r \<or> prepared = Some p"
  shows "mutates c s t"
  using assms unfolding mutates_def images_ok_def prepared_option_ok_def by (metis rtranclp.rtrancl_refl)

lemma mutates_add:
  assumes "prepared_option_ok c prepared" "addWithProducerKey cand key prepared now s = Some (res, t)"
  shows "mutates c s t"
proof (cases "validateCandidate cand now")
  case (Some e)
  with assms show ?thesis by (simp add: addWithProducerKey_def)
next
  case valid: None
  show ?thesis
  proof (cases "os_records s (cand_ReplacesID cand)")
    case (Some existing)
    with assms valid show ?thesis
      by (auto simp: addWithProducerKey_def replaceRecord_def Let_def emits newRecord_def startDeadline_def
          intro!: mutates_emit mutates_fresh split: if_splits)
  next
    case None
    then obtain s1 nid n where s1: "(if card (dom (os_records s)) = MaxActiveNotifications then evictCapacityVictim s else Some s) = Some s1"
      and t: "t = insertRecord nid (newRecord cand key prepared now nid) now (s1\<lparr>os_nextID := n\<rparr>)"
      using assms(2) valid by (auto simp: addWithProducerKey_def bind_eq_Some_conv)
    have "mutates c s s1" using s1 by (auto simp: evictCapacityVictim_def intro: mutates_close split: if_splits)
    moreover have "mutates c s1 t"
      using assms(1) by (auto simp: t insertRecord_def Let_def emits newRecord_def startDeadline_def
          intro!: mutates_emit mutates_fresh split: if_splits)
    ultimately show ?thesis by (rule mutates_trans)
  qed
qed

lemma mutates_producerIDs: "mutates c s (s\<lparr>os_producerIDs := m\<rparr>)"
  by (rule mutates_same) auto

lemma mutates_publishProducer:
  assumes "publishProducer request now s = Some (res, t)"
  shows "mutates c s t"
proof (cases request)
  case None
  with assms show ?thesis by (simp add: publishProducer_def)
next
  case (Some p)
  show ?thesis
  proof (cases "ProducerRequest_Validate p")
    case None
    let ?gone = "producerID s (pr_Key p) \<noteq> 0 \<and> os_records s (producerID s (pr_Key p)) = None"
    define s1 where "s1 = (if ?gone then s\<lparr>os_producerIDs := (os_producerIDs s)(pr_Key p := None)\<rparr> else s)"
    have "\<exists>cand. publishProducer request now s = do {
        (r, u) \<leftarrow> addWithProducerKey cand (pr_Key p) None now s1;
        Some (case r of Inl e \<Rightarrow> (Inl e, u) | Inr x \<Rightarrow> (Inr x, u\<lparr>os_producerIDs := (os_producerIDs u)(pr_Key p \<mapsto> res_ID x)\<rparr>)) }"
      unfolding publishProducer_def Some None option.case Let_def s1_def by (rule exI, rule refl)
    then obtain cand where "do {
        (r, u) \<leftarrow> addWithProducerKey cand (pr_Key p) None now s1;
        Some (case r of Inl e \<Rightarrow> (Inl e, u) | Inr x \<Rightarrow> (Inr x, u\<lparr>os_producerIDs := (os_producerIDs u)(pr_Key p \<mapsto> res_ID x)\<rparr>)) } = Some (res, t)"
      using assms by auto
    then obtain r u where u: "addWithProducerKey cand (pr_Key p) None now s1 = Some (r, u)"
      and t': "(res, t) = (case r of Inl e \<Rightarrow> (Inl e, u) | Inr x \<Rightarrow> (Inr x, u\<lparr>os_producerIDs := (os_producerIDs u)(pr_Key p \<mapsto> res_ID x)\<rparr>))"
      by (auto simp: bind_eq_Some_conv)
    have s1: "s1 = s \<or> (\<exists>m. s1 = s\<lparr>os_producerIDs := m\<rparr>)" by (auto simp: s1_def)
    have t: "t = u \<or> (\<exists>m. t = u\<lparr>os_producerIDs := m\<rparr>)" using t' by (cases r) auto
    have "mutates c s s1" "mutates c u t" using s1 t mutates_producerIDs by auto
    with mutates_add [OF _ u, of c] show ?thesis by (auto simp: prepared_option_ok_def intro: mutates_trans)
  qed (use assms Some in \<open>simp add: publishProducer_def\<close>)
qed

lemma mutates_closeProducer: "mutates c s (snd (closeProducer request s))"
  by (auto simp: closeProducer_def Let_def split: option.splits prod.splits intro: mutates_close' mutates_producerIDs)

subsection \<open>Commands on the history\<close>

lemma mutates_clearHistory: "mutates c s (snd (clearHistory s))"
proof (cases "os_history s")
  case (Some h)
  obtain removed h' where r: "Clear h = (removed, h')" by fastforce
  have "mutates c s (s\<lparr>os_history := Some h'\<rparr>)" by (rule mutates_op [where q = RClear, OF Some]) (simp_all add: r)
  with Some r show ?thesis by (auto simp: clearHistory_def Let_def emits intro: mutates_emit)
qed (simp add: clearHistory_def)

lemma mutates_removeHistory: "mutates c s (snd (removeHistory ids s))"
proof (cases "os_history s")
  case (Some h)
  obtain removed h' where r: "Remove ids h = (removed, h')" by fastforce
  have "mutates c s (s\<lparr>os_history := Some h'\<rparr>)" by (rule mutates_op [where q = "RRemove ids", OF Some]) (simp_all add: r)
  with Some r show ?thesis by (auto simp: removeHistory_def emits intro: mutates_emit)
qed (simp add: removeHistory_def)

lemma mutates_markHistorySeen: "mutates c s (snd (markHistorySeen ids s))"
proof (cases "os_history s")
  case (Some h)
  obtain res h' where r: "MarkSeen ids h = (res, h')" by fastforce
  have "mutates c s (s\<lparr>os_history := Some h'\<rparr>)" 
    by (rule mutates_op [where q = "RMarkSeen ids" and es = "case res of Inl _ \<Rightarrow> [] | Inr changed \<Rightarrow> if changed = [] then [] else [Seen changed]", OF Some])
      (auto simp: r split: sum.splits)
  with Some r show ?thesis by (auto simp: markHistorySeen_def Let_def emits split: sum.splits intro: mutates_emit)
qed (simp add: markHistorySeen_def)

lemma mutates_sweepHistory: "sweepHistory now s = Some t \<Longrightarrow> mutates c s t"
proof (cases "os_history s")
  case (Some h)
  assume a: "sweepHistory now s = Some t"
  obtain removed h' where r: "Sweep now h = (removed, h')" by fastforce
  have h: "mutates c s (s\<lparr>os_history := Some h'\<rparr>)" by (rule mutates_op [where q = "RSweep now", OF Some]) (simp_all add: r)
  have n: "mutates c u (u\<lparr>os_nextHistorySweep := n\<rparr>)" for u n by (rule mutates_same) auto
  from a Some r show ?thesis
    by (auto simp: sweepHistory_def Let_def emits split: if_splits intro!: mutates_trans [OF mutates_emit [OF h] n])
qed (auto simp: sweepHistory_def split: if_splits)

subsection \<open>Presentation\<close>

lemma setPresentation_image [simp]: "rec_historyImage (setPresentation st now r) = rec_historyImage r"
  by (simp add: setPresentation_def Let_def split: PresentationState.split)

lemma setAll_image:
  "setAll f now ids m = Some m' \<Longrightarrow> m' i = Some r \<Longrightarrow> \<exists>r'. m i = Some r' \<and> rec_historyImage r' = rec_historyImage r"
proof (induction ids arbitrary: m)
  case (Cons nid ids)
  then show ?case by (fastforce split: option.splits if_splits)
qed auto

lemma mutates_setAll: "setAll f now ids (os_records s) = Some (os_records t) \<Longrightarrow> os_history t = os_history s \<Longrightarrow> mutates c s t"
  by (rule mutates_same) (metis setAll_image)+

lemma mutates_clearPresentation: "clearPresentation now s = Some t \<Longrightarrow> mutates c s t"
  by (auto simp: clearPresentation_def intro!: mutates_setAll)

lemma mutates_renew: "renew generation ps now s = Some (e, t) \<Longrightarrow> mutates c s t"
proof -
  assume a: "renew generation ps now s = Some (e, t)"
  have last: "mutates c u (u\<lparr>os_acceptedGeneration := g, os_presenterRetired := b, os_presenterGeneration := g', os_leaseDeadline := d, os_records := m\<rparr>)"
    if "setAll f n (os_order u) (os_records u) = Some m" for u f n m g b g' d
    by (rule mutates_setAll) (use that in auto)
  from a show ?thesis
    by (auto simp: renew_def bind_eq_Some_conv split: if_splits option.splits intro: last mutates_trans [OF mutates_clearPresentation last])
qed

lemma mutates_presenterLost: "presenterLost cmd now s = Some t \<Longrightarrow> mutates c s t"
proof -
  assume a: "presenterLost cmd now s = Some t"
  have "mutates c u (u\<lparr>os_acceptedGeneration := g, os_presenterRetired := b\<rparr>)" "mutates c u (u\<lparr>os_presenterRetired := b\<rparr>)" for u g b
    by (rule mutates_same; auto)+
  with a show ?thesis
    by (auto simp: presenterLost_def bind_eq_Some_conv split: if_splits intro: mutates_clearPresentation mutates_trans [OF mutates_clearPresentation])
qed

lemma mutates_snapshot: "snapshot s = Some (snap, t) \<Longrightarrow> mutates c s t"
  by (auto simp: snapshot_def clock_Now_def bind_eq_Some_conv intro: mutates_read)

lemma mutates_resetTimer: "resetTimer s = Some t \<Longrightarrow> mutates c s t"
proof -
  assume "resetTimer s = Some t"
  then have "os_history t = os_history s" "os_records t = os_records s"
    by (auto simp: resetTimer_def Let_def clock_Now_def bind_eq_Some_conv split: if_splits)
  then show ?thesis by (intro mutates_same) auto
qed

subsection \<open>A whole turn\<close>

lemma mutates_actions: "mutates c s (snd (invokeAction nid key s))" "mutates c s (snd (submitReply nid text s))"
  by (auto simp: invokeAction_def submitReply_def Let_def split: option.split
      intro: mutates_publish mutates_trans [OF mutates_publish mutates_close])

definition command_genuine :: "codec \<Rightarrow> StateCommand \<Rightarrow> bool" where
  "command_genuine c cmd \<longleftrightarrow> prepared_option_ok c (sc_PreparedHistoryImage cmd)"

lemma mutates_result: "mutates c s (snd p) \<Longrightarrow> Some (result_of p) = Some (res, t) \<Longrightarrow> mutates c s t"
  by (auto simp: result_of_def)

lemma mutates_renewCommand: "renewCommand cmd now s = Some (res, t) \<Longrightarrow> mutates c s t"
  by (auto simp: renewCommand_def bind_eq_Some_conv split: option.splits intro: mutates_renew)

lemma mutates_presenterResync:
  assumes "presenterResync cmd s = Some (res, t)"
  shows "mutates c s t"
proof -
  obtain snap s1 where s1: "snapshot s = Some (snap, s1)" using assms by (auto simp: presenterResync_def bind_eq_Some_conv)
  with assms have "t = snd (publish (zero_Event\<lparr>ev_Generation := sc_Generation cmd, ev_Sequence := snap_Sequence snap, ev_Snapshot := Some snap\<rparr>) s1)"
    by (simp add: presenterResync_def Let_def case_prod_beta)
  with mutates_trans [OF mutates_snapshot [OF s1] mutates_publish] show ?thesis by simp
qed

lemma mutates_dispatch:
  assumes "command_genuine c cmd" "dispatch cmd now s = Some (res, t)"
  shows "mutates c s t"
proof (cases "sc_Kind cmd")
  case KAdd
  with assms show ?thesis by (auto simp: dispatch_def add_def command_genuine_def intro: mutates_add)
next
  case KProducerClose
  with assms mutates_closeProducer [of c s "sc_Producer cmd"] show ?thesis by (simp add: dispatch_def)
next
  case KPresenterLost
  with assms show ?thesis by (auto simp: dispatch_def intro: mutates_presenterLost)
next
  case KCloseRequested
  show ?thesis by (rule mutates_result [OF mutates_close]) (use assms(2) KCloseRequested in \<open>simp add: dispatch_def\<close>)
next
  case KDismiss
  show ?thesis by (rule mutates_result [OF mutates_close]) (use assms(2) KDismiss in \<open>simp add: dispatch_def\<close>)
next
  case KInvokeAction
  show ?thesis by (rule mutates_result [OF mutates_actions(1)]) (use assms(2) KInvokeAction in \<open>simp add: dispatch_def\<close>)
next
  case KSubmitReply
  show ?thesis by (rule mutates_result [OF mutates_actions(2)]) (use assms(2) KSubmitReply in \<open>simp add: dispatch_def\<close>)
next
  case KDismissAll
  show ?thesis by (rule mutates_result [OF mutates_dismissLoop]) (use assms(2) KDismissAll in \<open>simp add: dispatch_def\<close>)
next
  case KHistoryClear
  show ?thesis by (rule mutates_result [OF mutates_clearHistory]) (use assms(2) KHistoryClear in \<open>simp add: dispatch_def\<close>)
next
  case KHistoryRemove
  show ?thesis by (rule mutates_result [OF mutates_removeHistory]) (use assms(2) KHistoryRemove in \<open>simp add: dispatch_def\<close>)
next
  case KHistoryMarkSeen
  show ?thesis by (rule mutates_result [OF mutates_markHistorySeen]) (use assms(2) KHistoryMarkSeen in \<open>simp add: dispatch_def\<close>)
next
  case KProducerPublish
  show ?thesis by (rule mutates_publishProducer) (use assms(2) KProducerPublish in \<open>simp add: dispatch_def\<close>)
next
  case KPresentationRenew
  show ?thesis by (rule mutates_renewCommand) (use assms(2) KPresentationRenew in \<open>simp add: dispatch_def\<close>)
next
  case KPresenterResync
  show ?thesis by (rule mutates_presenterResync) (use assms(2) KPresenterResync in \<open>simp add: dispatch_def\<close>)
qed (use assms in \<open>simp add: dispatch_def\<close>)

text \<open>
  A turn of the owner changes the store by operations of the store, one after the other.
\<close>

definition request_genuine_images :: "codec \<Rightarrow> request \<Rightarrow> bool" where
  "request_genuine_images c q \<longleftrightarrow> (case q of CommandRequest cmd \<Rightarrow> command_genuine c cmd | _ \<Rightarrow> True)"

lemma mutates_serve:
  assumes "request_genuine_images c q" "serve q s = Some t"
  shows "mutates c s t"
proof (cases q)
  case SnapshotRequest
  with assms show ?thesis by (auto simp: serve_def intro: mutates_snapshot)
next
  case (CommandRequest cmd)
  then obtain res s1 where d: "do_command cmd s = Some (res, s1)" "resetTimer s1 = Some t"
    using assms(2) by (auto simp: serve_def bind_eq_Some_conv)
  have "mutates c s s1"
  proof (cases "gatePresenter cmd s")
    case None
    then have "dispatch cmd (os_clock s (os_reads s)) (s\<lparr>os_reads := Suc (os_reads s)\<rparr>) = Some (res, s1)"
      using d(1) by (simp add: do_command_def clock_Now_def)
    from mutates_dispatch [OF _ this, of c] assms(1) CommandRequest
    have "mutates c (s\<lparr>os_reads := Suc (os_reads s)\<rparr>) s1" by (simp add: request_genuine_images_def)
    from mutates_trans [OF mutates_read this] show ?thesis .
  qed (use d(1) in \<open>simp add: do_command_def\<close>)
  with mutates_resetTimer [OF d(2)] show ?thesis using mutates_trans by blast
next
  case TimerFired
  then obtain s1 s2 s3 where h: "sweepHistory (os_clock s (os_reads s)) (s\<lparr>os_reads := Suc (os_reads s)\<rparr>) = Some s1"
    "expireLease (os_clock s (os_reads s)) s1 = Some s2" "s3 = expireLoop (os_clock s (os_reads s)) (os_order s2) s2" "resetTimer s3 = Some t"
    using assms(2) by (auto simp: serve_def handleTimer_def clock_Now_def bind_eq_Some_conv)
  have "mutates c s s1" using mutates_trans [OF mutates_read mutates_sweepHistory [OF h(1)]] .
  moreover have "mutates c s1 s2" using h(2) by (auto simp: expireLease_def intro: mutates_clearPresentation split: if_splits)
  moreover have "mutates c s2 s3" unfolding h(3) by (rule mutates_expireLoop)
  ultimately show ?thesis using mutates_trans mutates_resetTimer [OF h(4)] by metis
qed

end
