(* ===== verification/Durable.thy ===== *)
theory Durable
  imports Persist OwnerHistory Commands
begin

text \<open>
  The owner and the persistence of its history together: the owner goroutine changes the store by one locked operation at a
  time, the worker of theory Persist commits what it finds in between, and the shutdown of \<open>internal/app/run.go\<close> stops the owner before it closes
  the store. What is shown is that nothing the owner has put into its history is missing on disk when the shutdown has ended without an error.
\<close>

subsection \<open>Requests to the store, one after the other\<close>

fun serves_all :: "store_request list \<Rightarrow> Store \<Rightarrow> Store option" where
  "serves_all [] h = Some h"
| "serves_all (q # qs) h = (case store_serves q h of None \<Rightarrow> None | Some (es, h') \<Rightarrow> serves_all qs h')"

text \<open>
  \<open>sy_todo\<close> are the operations on the store of the turn that the owner is in; the owner's copy of the store (\<open>os_history\<close>) has their
  effect from the start of the turn, and its entries are all the owner looks at.
\<close>

record system =
  sy_owner :: ownerState
  sy_persist :: "filesys persist"
  sy_todo :: "store_request list"
  sy_stopped :: bool

text \<open>
  The steps: the owner takes a request and works off its operations on the store, the worker and the closer of the store move,
  and the owner stops between two turns. The store is closed only after that (\<open>shutdown\<close> in \<open>run.go\<close>).
\<close>

inductive system_step :: "codec \<Rightarrow> (retained \<Rightarrow> nat) \<Rightarrow> path \<Rightarrow> system \<Rightarrow> system \<Rightarrow> bool" for c adr dir where
  turn: "sy_todo y = [] \<Longrightarrow> \<not> sy_stopped y \<Longrightarrow> request_ok q \<Longrightarrow> request_genuine_images c q \<Longrightarrow> ready q (sy_owner y) \<Longrightarrow>
    serve q (sy_owner y) = Some t \<Longrightarrow> os_history (sy_owner y) = Some h \<Longrightarrow> os_history t = Some h' \<Longrightarrow>
    serves_all qs h = Some h' \<Longrightarrow> list_all (request_genuine c) qs \<Longrightarrow>
    system_step c adr dir y (y\<lparr>sy_owner := t, sy_todo := qs\<rparr>)"
| mutate: "sy_todo y = q # qs \<Longrightarrow> store_serves q (pw_store (sy_persist y)) = Some (es, h) \<Longrightarrow>
    system_step c adr dir y (y\<lparr>sy_persist := (sy_persist y)\<lparr>pw_store := h\<rparr>, sy_todo := qs\<rparr>)"
| worker: "persist_step (\<lambda>_. False) (commit_writes c adr dir) (sy_persist y) p \<Longrightarrow> pw_closer p = NotClosing \<or> sy_stopped y \<Longrightarrow>
    system_step c adr dir y (y\<lparr>sy_persist := p\<rparr>)"
| stop: "sy_todo y = [] \<Longrightarrow> system_step c adr dir y (y\<lparr>sy_stopped := True\<rparr>)"

definition system_initial :: "codec \<Rightarrow> path \<Rightarrow> system \<Rightarrow> bool" where
  "system_initial c dir y \<longleftrightarrow> persist_initial (good_store c) (recorded c dir) (sy_persist y) \<and> store_ok (pw_store (sy_persist y)) \<and>
     (\<exists>clk sink. clock_ok clk \<and> owner_start clk sink (Some (pw_store (sy_persist y))) = Some (sy_owner y)) \<and>
     sy_todo y = [] \<and> \<not> sy_stopped y"

subsection \<open>Operations look at the entries only\<close>

definition same_entries :: "Store \<Rightarrow> Store \<Rightarrow> bool" where
  "same_entries s t \<longleftrightarrow> st_entries s = st_entries t \<and> st_codec s = st_codec t"

lemma AddPrepared_same:
  assumes "same_entries s t"
  shows "fst (AddPrepared e p now s) = fst (AddPrepared e p now t) \<and> same_entries (snd (AddPrepared e p now s)) (snd (AddPrepared e p now t))"
  using assms by (auto simp: AddPrepared_def same_entries_def Let_def split: option.split sum.split prod.split)

lemma store_serves_same:
  assumes "same_entries s t" "store_serves q s = Some (es, s')"
  shows "\<exists>t'. store_serves q t = Some (es, t') \<and> same_entries s' t'"
proof (cases q)
  case (RAdd e now)
  have codec: "st_codec s = st_codec t" using assms(1) by (simp add: same_entries_def)
  show ?thesis
  proof (cases "PrepareImage (st_codec t) (h_Image e)")
    case (Inl x)
    with RAdd assms codec show ?thesis by (auto simp: Add_def)
  next
    case (Inr p)
    with RAdd assms codec AddPrepared_same [OF assms(1), of e p now] show ?thesis by (auto simp: Add_def split: prod.splits)
  qed
next
  case (RAddPrepared e p now)
  with assms AddPrepared_same [OF assms(1), of e p now] show ?thesis by (auto split: prod.splits)
next
  case (RMarkSeen ids)
  with assms show ?thesis by (auto simp: MarkSeen_def same_entries_def split: prod.splits sum.splits if_splits)
qed (use assms in \<open>auto simp: Sweep_def Remove_def Clear_def Let_def same_entries_def split: prod.splits if_splits\<close>)

lemma serves_all_same: "serves_all qs s = Some s' \<Longrightarrow> same_entries s t \<Longrightarrow> \<exists>t'. serves_all qs t = Some t' \<and> same_entries s' t'"
proof (induction qs arbitrary: s t)
  case (Cons q qs)
  then obtain es s1 where s1: "store_serves q s = Some (es, s1)" "serves_all qs s1 = Some s'" by (auto split: option.splits)
  obtain t1 where "store_serves q t = Some (es, t1)" "same_entries s1 t1" using store_serves_same [OF Cons.prems(2) s1(1)] by blast
  with Cons.IH [OF s1(2)] show ?case by auto
qed auto

lemma serves_all_append: "serves_all (qs @ rs) h = (case serves_all qs h of None \<Rightarrow> None | Some h' \<Rightarrow> serves_all rs h')"
  by (induction qs arbitrary: h) (auto split: option.split)

text \<open>The operations of a turn as a list.\<close>

lemma steps_as_list:
  "(history_step c)\<^sup>*\<^sup>* (Some h) o' \<Longrightarrow> \<exists>qs h'. o' = Some h' \<and> serves_all qs h = Some h' \<and> list_all (request_genuine c) qs"
proof (induction rule: rtranclp_induct)
  case base
  show ?case by (intro exI [of _ "[]"]) auto
next
  case (step o1 o2)
  then obtain qs h1 where 1: "o1 = Some h1" "serves_all qs h = Some h1" "list_all (request_genuine c) qs" by blast
  obtain q es h2 where "o2 = Some h2" "request_genuine c q" "store_serves q h1 = Some (es, h2)"
    using step.hyps(2) 1(1) by (auto simp: history_step_def)
  with 1 show ?case by (intro exI [of _ "qs @ [q]"] exI [of _ h2]) (simp add: serves_all_append)
qed

lemma turn_exists:
  assumes "owner_ok s" "images_ok c s" "os_history s = Some h" "request_ok q" "request_genuine_images c q"
  shows "\<exists>t h' qs. serve q s = Some t \<and> os_history t = Some h' \<and> serves_all qs h = Some h' \<and> list_all (request_genuine c) qs"
proof -
  obtain t where t: "serve q s = Some t" using serve_advances [OF assms(1,4)] by blast
  then have "(history_step c)\<^sup>*\<^sup>* (Some h) (os_history t)" using mutates_serve [OF assms(5) t] assms(2,3) by (simp add: mutates_def)
  with t steps_as_list show ?thesis by blast
qed

subsection \<open>The invariant of the composition\<close>

definition system_ok :: "codec \<Rightarrow> path \<Rightarrow> system \<Rightarrow> bool" where
  "system_ok c dir y \<longleftrightarrow> owner_ok (sy_owner y) \<and> images_ok c (sy_owner y) \<and> history_disk.persist_ok c dir (sy_persist y) \<and>
     list_all (request_genuine c) (sy_todo y) \<and>
     (\<exists>h h'. os_history (sy_owner y) = Some h \<and> serves_all (sy_todo y) (pw_store (sy_persist y)) = Some h' \<and> same_entries h' h) \<and>
     (sy_stopped y \<longrightarrow> sy_todo y = []) \<and> (pw_closer (sy_persist y) = NotClosing \<or> sy_stopped y)"

lemma persist_step_admits: "persist_step (\<lambda>_. False) w p p' \<Longrightarrow> persist_step admits w p p'"
  by (induction rule: persist_step.induct) (fast intro: persist_step.intros)+

lemma persist_step_entries: "persist_step (\<lambda>_. False) w p p' \<Longrightarrow> same_entries (pw_store p) (pw_store p')"
  by (induction rule: persist_step.induct)
    (auto simp: same_entries_def worker_top_def worker_account_def report_def recordErr_def clearErr_def split: if_splits option.splits)

lemma same_entries_sym: "same_entries s t \<Longrightarrow> same_entries t s"
  by (simp add: same_entries_def)

lemma same_entries_trans: "same_entries s t \<Longrightarrow> same_entries t u \<Longrightarrow> same_entries s u"
  by (simp add: same_entries_def)

text \<open>The store of the composition moves as the store of the persistence protocol.\<close>

lemma system_persist:
  assumes "system_ok c dir y" "system_step c adr dir y y'"
  shows "(persist_step (request_genuine c) (commit_writes c adr dir))\<^sup>*\<^sup>* (sy_persist y) (sy_persist y')"
  using assms(2)
proof cases
  case (mutate q qs es h)
  have "sy_todo y \<noteq> []" using mutate by simp
  then have "pw_closer (sy_persist y) = NotClosing" using assms(1) by (auto simp: system_ok_def)
  then have "\<not> st_closed (pw_store (sy_persist y))" using assms(1) by (simp add: system_ok_def history_disk.persist_ok_def history_disk.closer_ok_def)
  moreover have "request_genuine c q" using assms(1) mutate by (simp add: system_ok_def)
  ultimately have "persist_step (request_genuine c) (commit_writes c adr dir) (sy_persist y) ((sy_persist y)\<lparr>pw_store := h\<rparr>)"
    using mutate by (intro persist_step.mutate)
  then show ?thesis using mutate by simp
next
  case (worker p)
  have "persist_step (request_genuine c) (commit_writes c adr dir) (sy_persist y) p" by (rule persist_step_admits [OF worker(2)])
  with worker(1) show ?thesis by simp
qed simp_all

lemma system_okI:
  assumes "owner_ok (sy_owner y)" "images_ok c (sy_owner y)" "history_disk.persist_ok c dir (sy_persist y)" "list_all (request_genuine c) (sy_todo y)"
    "os_history (sy_owner y) = Some h" "serves_all (sy_todo y) (pw_store (sy_persist y)) = Some h'" "same_entries h' h"
    "sy_stopped y \<Longrightarrow> sy_todo y = []" "pw_closer (sy_persist y) = NotClosing \<or> sy_stopped y"
  shows "system_ok c dir y"
  using assms unfolding system_ok_def by blast

lemma system_step_ok:
  assumes ok: "system_ok c dir y" and step: "system_step c adr dir y y'"
  shows "system_ok c dir y'"
proof -
  have p: "history_disk.persist_ok c dir (sy_persist y')"
    using history_disk.machine.steps_inv [OF system_persist [OF assms]] ok by (simp add: system_ok_def)
  obtain h h' where link: "os_history (sy_owner y) = Some h" "serves_all (sy_todo y) (pw_store (sy_persist y)) = Some h'" "same_entries h' h"
    using ok unfolding system_ok_def by blast
  have o: "owner_ok (sy_owner y)" "images_ok c (sy_owner y)" "list_all (request_genuine c) (sy_todo y)" "sy_stopped y \<longrightarrow> sy_todo y = []"
    "pw_closer (sy_persist y) = NotClosing \<or> sy_stopped y" using ok by (simp_all add: system_ok_def)
  from step show ?thesis
  proof cases
    case (turn q t h1 h2 qs)
    have "owner_ok t" using serve_advances [OF o(1) turn(4)] turn(7) advances_ok by auto
    moreover have "images_ok c t" using mutates_serve [OF turn(5,7)] o(2) by (simp add: mutates_def)
    moreover have "same_entries h1 (pw_store (sy_persist y))" using link turn(2,8) same_entries_sym by simp
    from serves_all_same [OF turn(10) this] obtain u where "serves_all qs (pw_store (sy_persist y)) = Some u" "same_entries u h2"
      using same_entries_sym by blast
    ultimately show ?thesis using p o(5) turn(1,3,9,11) by (intro system_okI [where h = h2 and h' = u]) simp_all
  next
    case (mutate q qs es s)
    then show ?thesis using p o link by (intro system_okI [where h = h and h' = h']) simp_all
  next
    case (worker p')
    obtain u where "serves_all (sy_todo y) (pw_store p') = Some u" "same_entries h' u"
      using serves_all_same [OF link(2) persist_step_entries [OF worker(2)]] by blast
    moreover have "same_entries u h" using same_entries_trans [OF same_entries_sym] calculation(2) link(3) by blast
    ultimately show ?thesis using p o link worker(1,3) by (intro system_okI [where h = h and h' = u]) simp_all
  next
    case stop
    then show ?thesis using p o link by (intro system_okI [where h = h and h' = h']) simp_all
  qed
qed

lemma owner_start_fields:
  assumes "owner_start clk sink store = Some s"
  shows "os_history s = store \<and> os_records s = Map.empty"
  using assms by (auto simp: owner_start_def resetTimer_def initial_state_def ordered_records_def clock_Now_def Let_def split: option.splits if_splits)

lemma system_initial_ok:
  assumes "system_initial c dir y"
  shows "system_ok c dir y"
proof -
  obtain clk sink where o: "clock_ok clk" "owner_start clk sink (Some (pw_store (sy_persist y))) = Some (sy_owner y)"
    and i: "persist_initial (good_store c) (recorded c dir) (sy_persist y)" "store_ok (pw_store (sy_persist y))" "sy_todo y = []" "\<not> sy_stopped y"
    using assms by (auto simp: system_initial_def)
  have "owner_initial (sy_owner y)" unfolding owner_initial_def using o i(2) by blast
  then have "owner_ok (sy_owner y)" by (rule owner_machine.initial_inv)
  moreover have "history_disk.persist_ok c dir (sy_persist y)" by (rule history_disk.machine.initial_inv [OF i(1)])
  moreover have "pw_closer (sy_persist y) = NotClosing" using i(1) by (simp add: persist_initial_def)
  ultimately show ?thesis using owner_start_fields [OF o(2)] i by (simp add: system_ok_def images_ok_def same_entries_def)
qed

interpretation durable_system: composed_machine "system_initial c dir" "system_step c adr dir" "system_ok c dir"
  "persist_initial (good_store c) (recorded c dir)" "persist_step (request_genuine c) (commit_writes c adr dir)" sy_persist
  by unfold_locales (use system_initial_ok system_step_ok system_persist in \<open>auto simp: system_initial_def\<close>)

subsection \<open>The commands of the two servers\<close>

text \<open>What the D-Bus server and the presenter connections ask of the owner carries genuine images.\<close>

lemma notify_command_genuine:
  assumes "codec_ok c" "prepareCall c b n = Some (Inr (cand, prepared))"
  shows "command_genuine c (zero_StateCommand\<lparr>sc_Kind := KAdd, sc_Candidate := cand, sc_PreparedHistoryImage := prepared\<rparr>)"
proof -
  have "\<forall>p. prepared = Some p \<longrightarrow> PrepareImage c (cand_Image cand) = Inr p"
    using assms(2) by (auto simp: prepareCall_def split: sum.splits option.splits if_splits)
  moreover have "\<forall>p. prepared = Some p \<longrightarrow> prepared_ok p" using prepareCall_total [of c b n] assms(2) by auto
  ultimately show ?thesis using PrepareImage_genuine [OF assms(1)] by (auto simp: command_genuine_def prepared_option_ok_def)
qed

lemma presenter_command_genuine: "command_genuine c (stateCommand_of generation command)"
  by (simp add: command_genuine_def prepared_option_ok_def stateCommand_of_def zero_StateCommand_def Let_def split: CommandKind.split)

subsection \<open>Nothing is lost\<close>

text \<open>
  C16: The owner and the persistence of its history run side by side, interleaved in any way. Whenever the owner is between two
  turns and \<open>Flush\<close> would return without an error, and when \<open>Close\<close> has returned without one, the disk holds exactly the
  entries of the owner's history, so that the next start finds every notification the owner has retained. Meanwhile the owner is never held up:
  between two turns it can take any request it is offered.
\<close>

theorem shutdown_loses_nothing:
  assumes "system_initial c dir y" "(system_step c adr dir)\<^sup>*\<^sup>* y z"
  shows "\<exists>h. os_history (sy_owner z) = Some h \<and>
    (sy_todo z = [] \<and> \<not> st_closed (pw_store (sy_persist z)) \<and> \<not> flush_waits (pw_store (sy_persist z)) \<and> st_lastErr (pw_store (sy_persist z)) = None \<longrightarrow>
       recorded c dir (st_entries h) (pw_disk (sy_persist z))) \<and>
    (pw_closer (sy_persist z) = Returned \<and> st_lastErr (pw_store (sy_persist z)) = None \<longrightarrow> recorded c dir (st_entries h) (pw_disk (sy_persist z))) \<and>
    (sy_todo z = [] \<and> \<not> sy_stopped z \<and> request_ok q \<and> request_genuine_images c q \<and> ready q (sy_owner z) \<longrightarrow>
       (\<exists>t qs. serve q (sy_owner z) = Some t \<and> system_step c adr dir z (z\<lparr>sy_owner := t, sy_todo := qs\<rparr>)))"
proof -
  have ok: "system_ok c dir z" by (rule durable_system.reachable_inv [OF assms])
  then obtain h h' where h: "os_history (sy_owner z) = Some h" "serves_all (sy_todo z) (pw_store (sy_persist z)) = Some h'" "same_entries h' h"
    unfolding system_ok_def by blast
  have p: "history_disk.persist_ok c dir (sy_persist z)" and o: "owner_ok (sy_owner z)" "images_ok c (sy_owner z)" using ok by (simp_all add: system_ok_def)
  have e: "st_entries (pw_store (sy_persist z)) = st_entries h" if "sy_todo z = []" using that h by (simp add: same_entries_def)
  have closed: "sy_todo z = []" if "pw_closer (sy_persist z) = Returned" using that ok by (auto simp: system_ok_def)
  have "\<exists>t qs. serve q (sy_owner z) = Some t \<and> system_step c adr dir z (z\<lparr>sy_owner := t, sy_todo := qs\<rparr>)"
    if "sy_todo z = []" "\<not> sy_stopped z" "request_ok q" "request_genuine_images c q" "ready q (sy_owner z)"
    using turn_exists [OF o h(1) that(3,4)] system_step.turn [OF that _ h(1)] by blast
  with h(1) e closed history_disk.flush_durable [OF p] history_disk.close_durable [OF p] show ?thesis by metis
qed

text \<open>A daemon that has just been started on an empty disk.\<close>

definition ex_system :: system where
  "ex_system = \<lparr>sy_owner = the (owner_start (\<lambda>_. 1) None (Some (pw_store ex_persist))), sy_persist = ex_persist, sy_todo = [], sy_stopped = False\<rparr>"

lemma ex_system_initial: "system_initial ex_pixel ex_dir ex_system"
proof -
  have c: "clock_ok (\<lambda>_. 1)" by (simp add: clock_ok_def mono_def)
  have s: "store_ok (pw_store ex_persist)" by (simp add: store_ok_def entries_ok_def ex_persist_def newStore_def documentBytes_def documentOverhead_eq maxHistoryWriteBytes_def maxHistoryJSONBytes_def)
  have "owner_start (\<lambda>_. 1) None (Some (pw_store ex_persist)) = Some (the (owner_start (\<lambda>_. 1) None (Some (pw_store ex_persist))))"
    using owner_start_advances [OF c, of "Some (pw_store ex_persist)" None] s by auto
  with c s ex_persist_initial show ?thesis unfolding system_initial_def ex_system_def by auto
qed

theorem shutdown_loses_nothing_witness:
  "system_initial ex_pixel ex_dir ex_system \<and> \<not> flush_waits (pw_store ex_persist) \<and>
     (\<exists>h. os_history (sy_owner ex_system) = Some h \<and> recorded ex_pixel ex_dir (st_entries h) (pw_disk ex_persist)) \<and>
     (\<exists>t qs. serve SnapshotRequest (sy_owner ex_system) = Some t \<and> system_step ex_pixel (\<lambda>_. 0) ex_dir ex_system (ex_system\<lparr>sy_owner := t, sy_todo := qs\<rparr>))"
proof -
  have "\<not> st_closed (pw_store ex_persist) \<and> \<not> flush_waits (pw_store ex_persist) \<and> st_lastErr (pw_store ex_persist) = None"
    by (simp add: ex_persist_def newStore_def flush_waits_def)
  moreover have "request_ok SnapshotRequest \<and> request_genuine_images ex_pixel SnapshotRequest \<and> ready SnapshotRequest (sy_owner ex_system)"
    by (simp add: request_ok_def request_genuine_images_def ready_def)
  moreover have "sy_todo ex_system = []" "\<not> sy_stopped ex_system" "sy_persist ex_system = ex_persist" by (simp_all add: ex_system_def)
  ultimately show ?thesis
    using shutdown_loses_nothing [OF ex_system_initial rtranclp.rtrancl_refl, where adr = "\<lambda>_. 0" and q = SnapshotRequest] ex_system_initial by metis
qed

end
