(* ===== verification/Runtime.thy ===== *)
theory Runtime
  imports HistoryFilesProps
begin

text \<open>
  The socket of the presenter server (\<open>internal/presenter/server.go\<close>): checking the runtime directory, taking the
  place of a socket a dead daemon left behind, binding and securing the new one.

  Sockets are files of the file system; \<open>fs_sockets\<close> says whether a process listens on one, and whether its backlog has room.
  The runtime directory is given as a clean absolute path, or \<open>None\<close> for the empty string.
\<close>

subsection \<open>Calls of package net\<close>

record listener =
  ln_path :: path
  ln_ino :: nat

text \<open>A connection to a socket nobody listens on is refused; when the backlog is full the call fails, too.\<close>

definition net_Dial :: "path \<Rightarrow> unit io" where
  "net_Dial p = syscall (\<lambda>fs.
     (case inode_number p fs of
        None \<Rightarrow> Inl ErrNotExist
      | Some i \<Rightarrow>
          (case fs_sockets fs i of
             NoListener \<Rightarrow> Inl (Err ''connection refused'')
           | Crowded \<Rightarrow> Inl (Err ''resource temporarily unavailable'')
           | Listening \<Rightarrow> Inr ()), fs))"

definition conn_Close :: "unit io" where
  "conn_Close = syscall (io_return ())"

definition net_bind :: "path \<Rightarrow> nat io" where
  "net_bind p = syscall (\<lambda>fs.
     if inode_number p fs \<noteq> None then (Inl (Err ''address already in use''), fs)
     else if \<not> is_directory (butlast p) fs then (Inl ErrNotExist, fs)
     else (Inr (fs_next fs), new_inode p SocketFile (fs_bindPerm fs) fs))"

definition net_listen :: "nat \<Rightarrow> unit io" where
  "net_listen i = syscall (\<lambda>fs. (Inr (), fs\<lparr>fs_sockets := (fs_sockets fs)(i := Listening)\<rparr>))"

definition net_ListenUnix :: "path \<Rightarrow> listener io" where
  "net_ListenUnix p = io_bind (net_bind p) (\<lambda>i. io_bind (net_listen i) (\<lambda>_. io_return \<lparr>ln_path = p, ln_ino = i\<rparr>))"

definition sys_Unlink :: "path \<Rightarrow> unit io" where
  "sys_Unlink p = syscall (\<lambda>fs.
     case inode_number p fs of
       None \<Rightarrow> (Inl ErrNotExist, fs)
     | Some i \<Rightarrow>
         if is_directory p fs then (Inl (Err ''is a directory''), fs)
         else (Inr (), touch i (fs\<lparr>fs_names := AList.delete p (fs_names fs)\<rparr>)))"

text \<open>A descriptor is closed even when \<open>close\<close> reports an error.\<close>

definition sys_Close :: "nat \<Rightarrow> unit io" where
  "sys_Close i fs =
     (let t = fs\<lparr>fs_calls := Suc (fs_calls fs), fs_sockets := (fs_sockets fs)(i := NoListener)\<rparr> in
      (case fs_faults fs (fs_calls fs) of Some (m, n) \<Rightarrow> Inl (Err m) | None \<Rightarrow> Inr (), t))"

text \<open>\<open>UnixListener.Close\<close> unlinks the name the listener was created with, whatever has it by now.\<close>

definition listener_Close :: "listener \<Rightarrow> unit io" where
  "listener_Close l = io_bind (io_try (sys_Unlink (ln_path l))) (\<lambda>_. sys_Close (ln_ino l))"

subsection \<open>The runtime directory (server.go)\<close>

definition socketName :: string where
  "socketName = ''presenter.v1.sock''"

definition fileUID :: "fileInfo \<Rightarrow> u32" where
  "fileUID info = fi_uid info"

fun reject_from :: "path \<Rightarrow> path \<Rightarrow> unit io" where
  "reject_from current [] = io_return ()"
| "reject_from current (part # parts) =
     (let here = current @ [part] in
      io_bind (os_Lstat here) (\<lambda>info.
        if fi_kind info = Symlink then io_throw (Err ''presenter: symlink path component'')
        else reject_from here parts))"

definition rejectSymlinkComponents :: "path \<Rightarrow> unit io" where
  "rejectSymlinkComponents p = reject_from [] p"

definition validateDirectory :: "path \<Rightarrow> u32 \<Rightarrow> nat \<Rightarrow> unit io" where
  "validateDirectory p uid mode =
     io_bind (io_wrap ''presenter: inspect directory'' (os_Lstat p)) (\<lambda>info.
       if fi_kind info = Symlink \<or> fi_kind info \<noteq> Directory \<or> fi_perm info \<noteq> mode \<or> fileUID info \<noteq> uid
       then io_throw (Err ''presenter: unsafe runtime directory'') else io_return ())"

definition unsafe_socket :: "fileInfo \<Rightarrow> u32 \<Rightarrow> bool" where
  "unsafe_socket info uid \<longleftrightarrow>
     fi_kind info \<noteq> SocketFile \<or> fi_kind info = Symlink \<or> fi_perm info \<noteq> 0x180 \<or> fileUID info \<noteq> uid"

definition validateSocket :: "path \<Rightarrow> u32 \<Rightarrow> unit io" where
  "validateSocket p uid =
     io_bind (os_Lstat p) (\<lambda>info. if unsafe_socket info uid then io_throw (Err ''presenter: unsafe socket'') else io_return ())"

definition removeStaleSocket :: "path \<Rightarrow> u32 \<Rightarrow> unit io" where
  "removeStaleSocket p uid =
     io_bind (io_try (os_Lstat p)) (\<lambda>r.
       case r of
         Inl e \<Rightarrow> if errors_Is e ErrNotExist then io_return () else io_throw e
       | Inr info \<Rightarrow>
           if unsafe_socket info uid then io_throw (Err ''presenter: unsafe existing socket'')
           else io_bind (io_try (net_Dial p)) (\<lambda>dial.
             case dial of
               Inr _ \<Rightarrow> io_bind (io_try conn_Close) (\<lambda>_. io_throw (Err ''presenter: socket already active''))
             | Inl _ \<Rightarrow> io_wrap ''presenter: remove stale socket'' (os_Remove p)))"

definition makeRuntimeDir :: "path \<Rightarrow> unit io" where
  "makeRuntimeDir dir =
     io_bind (io_try (os_Mkdir dir 0x1C0)) (\<lambda>made.
       case made of
         Inl e \<Rightarrow> if \<not> errors_Is e ErrExist then io_throw (Wrap ''presenter: create runtime directory'' e) else io_return ()
       | Inr _ \<Rightarrow> io_return ())"

definition giveUp :: "listener \<Rightarrow> err \<Rightarrow> (listener \<times> path) io" where
  "giveUp l e = io_bind (io_try (listener_Close l)) (\<lambda>_. io_bind (io_try (os_Remove (ln_path l))) (\<lambda>_. io_throw e))"

definition bindSocket :: "path \<Rightarrow> u32 \<Rightarrow> (listener \<times> path) io" where
  "bindSocket p uid =
     io_bind (io_wrap ''presenter: listen'' (net_ListenUnix p)) (\<lambda>l.
     io_bind (io_try (os_Chmod p 0x180)) (\<lambda>secured.
       case secured of
         Inl e \<Rightarrow> giveUp l (Wrap ''presenter: secure socket'' e)
       | Inr _ \<Rightarrow>
           io_bind (io_try (validateSocket p uid)) (\<lambda>valid.
             case valid of Inl e \<Rightarrow> giveUp l e | Inr _ \<Rightarrow> io_return (l, p))))"

definition listenRuntime :: "path option \<Rightarrow> u32 \<Rightarrow> (listener \<times> path) io" where
  "listenRuntime runtimeDir uid =
     (case runtimeDir of
        None \<Rightarrow> io_throw (Err ''presenter: XDG_RUNTIME_DIR is empty'')
      | Some base \<Rightarrow>
          (let dir = base @ [''sysc-notify'']; p = dir @ [socketName] in
           io_bind (rejectSymlinkComponents base) (\<lambda>_.
           io_bind (validateDirectory base uid 0x1C0) (\<lambda>_.
           io_bind (makeRuntimeDir dir) (\<lambda>_.
           io_bind (validateDirectory dir uid 0x1C0) (\<lambda>_.
           io_bind (removeStaleSocket p uid) (\<lambda>_.
           bindSocket p uid)))))))"

end
