(* ===== verification/RuntimeProps.thy ===== *)
theory RuntimeProps
  imports Runtime
begin

text \<open>
  What \<open>listenRuntime\<close> promises, wherever one of its calls fails: a daemon listens only on a private socket of its own in a
  private directory, and nothing of anybody else's is touched.
\<close>

subsection \<open>What belongs to others\<close>

abbreviation runtime_dir :: "path \<Rightarrow> path" where
  "runtime_dir d \<equiv> d @ [''sysc-notify'']"

abbreviation socket_path :: "path \<Rightarrow> path" where
  "socket_path d \<equiv> d @ [''sysc-notify'', socketName]"

definition same_file :: "inode \<Rightarrow> inode \<Rightarrow> bool" where
  "same_file a b \<longleftrightarrow> i_kind a = i_kind b \<and> i_perm a = i_perm b \<and> i_uid a = i_uid b \<and> i_data a = i_data b"

text \<open>Up to time stamps every file is as it was, and at most the names of the directory and the socket changed; the directory is only made.\<close>

definition apart :: "path \<Rightarrow> filesys \<Rightarrow> filesys \<Rightarrow> bool" where
  "apart d fs t \<longleftrightarrow> fs_ok t \<and> fs_next fs \<le> fs_next t \<and> (\<forall>i<fs_next fs. same_file (fs_inodes t i) (fs_inodes fs i)) \<and>
     (\<forall>p. p \<noteq> socket_path d \<and> (p \<noteq> runtime_dir d \<or> inode_number p fs \<noteq> None) \<longrightarrow> inode_number p t = inode_number p fs)"

definition private_file :: "fileKind \<Rightarrow> nat \<Rightarrow> u32 \<Rightarrow> path \<Rightarrow> filesys \<Rightarrow> bool" where
  "private_file k perm uid p fs \<longleftrightarrow> (\<exists>i. inode_number p fs = Some i \<and> i_kind (fs_inodes fs i) = k \<and>
     i_perm (fs_inodes fs i) = perm \<and> i_uid (fs_inodes fs i) = uid)"

abbreviation private_dir :: "u32 \<Rightarrow> path \<Rightarrow> filesys \<Rightarrow> bool" where
  "private_dir \<equiv> private_file Directory 0x1C0"

abbreviation private_socket :: "u32 \<Rightarrow> path \<Rightarrow> filesys \<Rightarrow> bool" where
  "private_socket \<equiv> private_file SocketFile 0x180"

lemma same_file_refl [simp]: "same_file a a"
  by (simp add: same_file_def)

lemma apart_calls [simp]: "apart d fs (t\<lparr>fs_calls := k\<rparr>) = apart d fs t" "apart d (fs\<lparr>fs_calls := k\<rparr>) t = apart d fs t"
  "private_file kd perm uid p (t\<lparr>fs_calls := k\<rparr>) = private_file kd perm uid p t"
  by (simp_all add: apart_def private_file_def)

lemma apart_sockets [simp]: "apart d fs (t\<lparr>fs_sockets := k\<rparr>) = apart d fs t" "private_file kd perm uid p (t\<lparr>fs_sockets := k\<rparr>) = private_file kd perm uid p t"
  by (simp_all add: apart_def private_file_def fs_ok_def)

lemma apart_refl: "fs_ok fs \<Longrightarrow> apart d fs fs"
  by (simp add: apart_def)

subsection \<open>Checks\<close>

lemma reads_checks: "reads (rejectSymlinkComponents p)" "reads (validateDirectory p uid mode)" "reads (validateSocket p uid)" "reads (net_Dial p)" "reads conn_Close"
proof -
  have "reads (reject_from current parts)" for current parts
    by (induction parts arbitrary: current) (auto simp: Let_def intro!: reads_intros reads_calls)
  then show "reads (rejectSymlinkComponents p)" by (simp add: rejectSymlinkComponents_def)
  show "reads (validateDirectory p uid mode)" "reads (validateSocket p uid)"
    unfolding validateDirectory_def validateSocket_def by (intro reads_intros reads_calls)+
  show "reads (net_Dial p)" "reads conn_Close"
    unfolding net_Dial_def conn_Close_def by (rule reads_syscall; simp add: io_return_def)+
qed

text \<open>No component of the path is a symbolic link, and every one exists.\<close>

definition no_symlinks :: "path \<Rightarrow> filesys \<Rightarrow> bool" where
  "no_symlinks p fs \<longleftrightarrow> (\<forall>n<length p. \<exists>i. inode_number (take (Suc n) p) fs = Some i \<and> i_kind (fs_inodes fs i) \<noteq> Symlink)"

lemma no_symlinks_calls [simp]: "no_symlinks p (fs\<lparr>fs_calls := k\<rparr>) = no_symlinks p fs"
  by (simp add: no_symlinks_def)

lemma reject_from_ok:
  "reject_from current parts fs = (Inr x, t) \<Longrightarrow> n < length parts \<Longrightarrow>
     \<exists>i. inode_number (current @ take (Suc n) parts) fs = Some i \<and> i_kind (fs_inodes fs i) \<noteq> Symlink"
proof (induction parts arbitrary: current fs n)
  case (Cons part parts)
  then obtain i where i: "inode_number (current @ [part]) fs = Some i" "i_kind (fs_inodes fs i) \<noteq> Symlink"
    and rest: "reject_from (current @ [part]) parts (fs\<lparr>fs_calls := Suc (fs_calls fs)\<rparr>) = (Inr x, t)"
    by (auto simp: Let_def io_bind_def os_Lstat_def syscall_def io_throw_def split: option.splits prod.splits sum.splits if_splits)
  show ?case
  proof (cases n)
    case 0
    with i show ?thesis by simp
  next
    case (Suc m)
    with Cons.IH [OF rest, of m] Cons.prems(2) show ?thesis by simp
  qed
qed simp

lemma wp_reject:
  assumes "\<And>k. no_symlinks p fs \<Longrightarrow> Q () (fs\<lparr>fs_calls := k\<rparr>)" "\<And>k e. E e (fs\<lparr>fs_calls := k\<rparr>)"
  shows "io_wp (rejectSymlinkComponents p) Q E fs"
  using reads_checks(1)
  by (rule wp_reads) (auto simp: rejectSymlinkComponents_def no_symlinks_def dest: reject_from_ok [where current = "[]", simplified] intro!: assms)

lemma wp_validateDirectory:
  assumes "\<And>k. private_file Directory mode uid p fs \<Longrightarrow> Q () (fs\<lparr>fs_calls := k\<rparr>)" "\<And>k e. E e (fs\<lparr>fs_calls := k\<rparr>)"
  shows "io_wp (validateDirectory p uid mode) Q E fs"
  unfolding validateDirectory_def wp
  by (intro wp_Lstat) (auto simp: private_file_def fileUID_def wp intro!: assms)

lemma safe_socket: "inode_number p fs = Some i \<Longrightarrow> \<not> unsafe_socket (info_of i fs) uid \<longleftrightarrow> private_socket uid p fs"
  by (auto simp: unsafe_socket_def private_file_def fileUID_def)

lemma wp_validateSocket:
  assumes "\<And>k. private_socket uid p fs \<Longrightarrow> Q () (fs\<lparr>fs_calls := k\<rparr>)" "\<And>k e. E e (fs\<lparr>fs_calls := k\<rparr>)"
  shows "io_wp (validateSocket p uid) Q E fs"
  unfolding validateSocket_def wp
  by (intro wp_Lstat) (auto simp: safe_socket wp intro!: assms)

subsection \<open>Calls that change something\<close>

lemma apart_trans: "apart d fs t \<Longrightarrow> apart d t u \<Longrightarrow> apart d fs u"
  unfolding apart_def same_file_def by (auto intro: order.trans)

lemma apart_ok: "apart d fs t \<Longrightarrow> fs_ok t"
  by (simp add: apart_def)

lemma apart_private:
  assumes "apart d fs t" "fs_ok fs" "p \<noteq> socket_path d" "private_file k perm uid p fs"
  shows "private_file k perm uid p t"
proof -
  from assms(4) obtain i where i: "inode_number p fs = Some i" "i_kind (fs_inodes fs i) = k" "i_perm (fs_inodes fs i) = perm" "i_uid (fs_inodes fs i) = uid"
    by (auto simp: private_file_def)
  then have "i < fs_next fs" "inode_number p t = Some i" using assms(1-3) by (auto simp: fs_ok_def apart_def)
  with assms(1) i show ?thesis by (auto simp: apart_def private_file_def same_file_def)
qed

lemma apart_no_symlinks:
  assumes "apart d fs t" "fs_ok fs" "no_symlinks d fs"
  shows "no_symlinks d t"
  unfolding no_symlinks_def
proof (intro allI impI)
  fix n assume n: "n < length d"
  then obtain i where i: "inode_number (take (Suc n) d) fs = Some i" "i_kind (fs_inodes fs i) \<noteq> Symlink"
    using assms(3) by (auto simp: no_symlinks_def)
  have "length (take (Suc n) d) < length (socket_path d)" using n by simp
  then have "take (Suc n) d \<noteq> socket_path d" by fastforce
  then have "private_file (i_kind (fs_inodes fs i)) (i_perm (fs_inodes fs i)) (i_uid (fs_inodes fs i)) (take (Suc n) d) t"
    using i by (intro apart_private [OF assms(1,2)]) (auto simp: private_file_def)
  with i(2) show "\<exists>i. inode_number (take (Suc n) d) t = Some i \<and> i_kind (fs_inodes t i) \<noteq> Symlink"
    by (auto simp: private_file_def)
qed

text \<open>Taking the socket's name away.\<close>

lemma unlinked_apart:
  assumes "apart d fs t"
  shows "apart d fs (touch i (t\<lparr>fs_calls := k, fs_names := AList.delete (socket_path d) (fs_names t)\<rparr>))"
  using assms by (auto simp: apart_def touch_def fs_ok_def delete_conv' same_file_def)

lemma touch_sockets [simp]: "fs_sockets (touch i fs) = fs_sockets fs"
  by (simp add: touch_def)

lemma wp_Remove_socket:
  assumes "apart d fs t"
    and "\<And>u. apart d fs u \<Longrightarrow> inode_number (socket_path d) u = None \<Longrightarrow> fs_sockets u = fs_sockets t \<Longrightarrow> Q () u"
    and "\<And>e k. (errors_Is e ErrNotExist \<Longrightarrow> inode_number (socket_path d) t = None) \<Longrightarrow> E e (t\<lparr>fs_calls := k\<rparr>)"
  shows "io_wp (os_Remove (socket_path d)) Q E t"
  using unlinked_apart [OF assms(1)]
  by (auto simp: io_wp_def os_Remove_def syscall_def Let_def delete_conv' intro!: assms(2,3) split: option.splits)

lemma wp_Unlink_socket:
  assumes "apart d fs t" and "\<And>u. apart d fs u \<Longrightarrow> fs_sockets u = fs_sockets t \<Longrightarrow> Q () u" and "\<And>e k. E e (t\<lparr>fs_calls := k\<rparr>)"
  shows "io_wp (sys_Unlink (socket_path d)) Q E t"
  using unlinked_apart [OF assms(1)]
  by (auto simp: io_wp_def sys_Unlink_def syscall_def Let_def intro!: assms(2,3) split: option.splits)

lemma wp_listener_Close:
  assumes "apart d fs t" "ln_path l = socket_path d"
    and "\<And>r u. apart d fs u \<Longrightarrow> fs_sockets u = (fs_sockets t)(ln_ino l := NoListener) \<Longrightarrow> Q r u"
  shows "io_wp (io_try (listener_Close l)) Q E t"
proof -
  have c: "io_wp (sys_Close (ln_ino l)) (\<lambda>x. Q (Inr ())) (\<lambda>e. Q (Inl e)) u" if "apart d fs u" "fs_sockets u = fs_sockets t" for u
    using assms(3) that by (auto simp: io_wp_def sys_Close_def Let_def split: option.splits)
  show ?thesis unfolding listener_Close_def wp assms(2)
    by (rule wp_Unlink_socket [OF assms(1)]) (auto intro!: c assms(1))
qed

lemma wp_giveUp:
  assumes "apart d fs t" "ln_path l = socket_path d"
    and "\<And>u. apart d fs u \<Longrightarrow> fs_sockets u = (fs_sockets t)(ln_ino l := NoListener) \<Longrightarrow> E e u"
  shows "io_wp (giveUp l e) Q E t"
  unfolding giveUp_def wp assms(2)
  by (rule wp_listener_Close [OF assms(1,2), unfolded wp]) (auto simp: wp intro!: wp_Remove_socket assms(3))

subsection \<open>Stages of listenRuntime\<close>

lemma new_inode_simps [simp]:
  "fs_sockets (new_inode p k perm fs) = fs_sockets fs" "fs_next (new_inode p k perm fs) = Suc (fs_next fs)"
  "inode_number q (new_inode p k perm fs) = (if q = p then Some (fs_next fs) else inode_number q fs)"
  "i \<noteq> fs_next fs \<Longrightarrow> fs_inodes (new_inode p k perm fs) i = fs_inodes fs i"
  "fs_faults (new_inode p k perm fs) = fs_faults fs" "fs_uid (new_inode p k perm fs) = fs_uid fs" "fs_calls (new_inode p k perm fs) = fs_calls fs"
  by (simp_all add: new_inode_def update_conv')

lemma new_dir_apart:
  assumes "fs_ok fs" "inode_number (runtime_dir d) fs = None"
  shows "apart d fs (new_inode (runtime_dir d) Directory perm (fs\<lparr>fs_calls := k\<rparr>))"
  using assms by (auto simp: apart_def fs_ok_def less_Suc_eq)

lemma wp_makeRuntimeDir:
  assumes "fs_ok fs"
    and "\<And>t. apart d fs t \<Longrightarrow> fs_sockets t = fs_sockets fs \<Longrightarrow> inode_number (socket_path d) t = inode_number (socket_path d) fs \<Longrightarrow> Q () t"
    and "\<And>e k. E e (fs\<lparr>fs_calls := k\<rparr>)"
  shows "io_wp (makeRuntimeDir (runtime_dir d)) Q E fs"
  using new_dir_apart [OF assms(1), of d]
  by (auto simp: io_wp_def makeRuntimeDir_def io_bind_def io_try_def io_throw_def io_return_def os_Mkdir_def syscall_def Let_def
      intro!: assms(2,3) apart_refl assms(1) split: option.splits)

text \<open>Nothing is at the socket's name, or a private socket of the same user.\<close>

definition vacant :: "u32 \<Rightarrow> path \<Rightarrow> filesys \<Rightarrow> bool" where
  "vacant uid p fs \<longleftrightarrow> inode_number p fs = None \<or> private_socket uid p fs"

lemma vacant_calls [simp]: "vacant uid p (fs\<lparr>fs_calls := k\<rparr>) = vacant uid p fs"
  by (simp add: vacant_def)

lemma wp_removeStale:
  assumes ok: "fs_ok fs"
    and Q: "\<And>t. apart d fs t \<Longrightarrow> vacant uid (socket_path d) fs \<Longrightarrow> inode_number (socket_path d) t = None \<Longrightarrow> fs_sockets t = fs_sockets fs \<Longrightarrow> Q () t"
    and E: "\<And>e k. E e (fs\<lparr>fs_calls := k\<rparr>)"
  shows "io_wp (removeStaleSocket (socket_path d) uid) Q E fs"
proof -
  have remove: "io_wp (os_Remove (socket_path d)) Q (\<lambda>e. E (Wrap m e)) (fs\<lparr>fs_calls := k\<rparr>)" if "private_socket uid (socket_path d) fs" for k m
    using that E by (intro wp_Remove_socket [of d fs]) (auto simp: apart_refl ok vacant_def intro!: Q)
  have dial: "io_wp (net_Dial (socket_path d)) (\<lambda>x. io_wp (io_bind (io_try conn_Close) (\<lambda>_. io_throw a)) Q E)
      (\<lambda>e. io_wp (io_wrap m (os_Remove (socket_path d))) Q E) (fs\<lparr>fs_calls := k\<rparr>)" if "private_socket uid (socket_path d) fs" for k m a
    using reads_checks(4)
    by (rule wp_reads) (auto simp: wp remove [OF that] intro!: wp_reads [OF reads_checks(5)] E)
  show ?thesis
    unfolding removeStaleSocket_def wp
    by (intro wp_Lstat) (auto simp: wp_if wp_return wp_throw wp_bind [of "io_try (net_Dial _)"] wp_try [of "net_Dial _"] safe_socket
        ordinary_def apart_refl ok vacant_def intro!: dial Q E)
qed

text \<open>The daemon's own new socket.\<close>

definition bound :: "path \<Rightarrow> filesys \<Rightarrow> nat \<Rightarrow> filesys \<Rightarrow> bool" where
  "bound d fs i t \<longleftrightarrow> apart d fs t \<and> fs_next fs \<le> i \<and> i < fs_next t \<and> inode_number (socket_path d) t = Some i \<and>
     fs_sockets t = (fs_sockets fs)(i := Listening)"

lemma bound_calls [simp]: "bound d fs i (t\<lparr>fs_calls := k\<rparr>) = bound d fs i t"
  by (simp add: bound_def)

lemma wp_net_bind:
  assumes "inode_number p t = None" "\<And>k perm. Q (fs_next t) (new_inode p SocketFile perm (t\<lparr>fs_calls := k\<rparr>))" "\<And>e k. E e (t\<lparr>fs_calls := k\<rparr>)"
  shows "io_wp (net_bind p) Q E t"
  using assms(1) by (auto simp: io_wp_def net_bind_def syscall_def Let_def intro!: assms(2,3) split: option.splits)

lemma wp_ListenUnix:
  assumes t: "apart d fs t" "inode_number (socket_path d) t = None" "fs_sockets t = fs_sockets fs"
    and Q: "\<And>l u. bound d fs (ln_ino l) u \<Longrightarrow> ln_path l = socket_path d \<Longrightarrow> Q l u"
    and E: "\<And>e u. apart d fs u \<Longrightarrow> fs_sockets u = fs_sockets fs \<Longrightarrow> E e u"
  shows "io_wp (net_ListenUnix (socket_path d)) Q E t"
proof -
  have apart: "apart d fs (new_inode (socket_path d) SocketFile perm (t\<lparr>fs_calls := k\<rparr>))" for k perm
    using t(1) by (auto simp: apart_def fs_ok_def less_Suc_eq)
  then have listen: "io_wp (net_listen (fs_next t)) (\<lambda>_. Q \<lparr>ln_path = socket_path d, ln_ino = fs_next t\<rparr>) E
      (new_inode (socket_path d) SocketFile perm (t\<lparr>fs_calls := k\<rparr>))" for k perm
    using t by (auto simp: io_wp_def net_listen_def syscall_def Let_def bound_def apart_def [of d fs t] intro!: Q E split: option.splits)
  show ?thesis
    unfolding net_ListenUnix_def wp by (rule wp_net_bind [OF t(2)]) (auto intro!: listen E t)
qed

lemma wp_Chmod_socket:
  assumes t: "bound d fs i t"
    and Q: "\<And>u. bound d fs i u \<Longrightarrow> Q () u" and E: "\<And>e u. bound d fs i u \<Longrightarrow> E e u"
  shows "io_wp (os_Chmod (socket_path d) perm) Q E t"
proof -
  have "bound d fs i (touch i (t\<lparr>fs_calls := k, fs_inodes := (fs_inodes t)(i := x)\<rparr>))" for k x
    using t by (auto simp: bound_def apart_def touch_def fs_ok_def)
  with t show ?thesis
    unfolding os_Chmod_def wp
    by (intro wp_Open) (auto simp: io_wp_def file_Chmod_def syscall_def Let_def bound_def [of d fs i t] intro!: Q E split: option.splits)
qed

text \<open>No socket is listened on that was not before.\<close>

definition quiet :: "filesys \<Rightarrow> filesys \<Rightarrow> bool" where
  "quiet fs t \<longleftrightarrow> (\<forall>i. fs_sockets t i = fs_sockets fs i \<or> fs_next fs \<le> i \<and> fs_sockets t i = NoListener)"

lemma wp_bindSocket:
  assumes t: "apart d fs t" "inode_number (socket_path d) t = None" "fs_sockets t = fs_sockets fs"
    and Q: "\<And>l u. bound d fs (ln_ino l) u \<Longrightarrow> private_socket uid (socket_path d) u \<Longrightarrow> ln_path l = socket_path d \<Longrightarrow> Q (l, socket_path d) u"
    and E: "\<And>e u. apart d fs u \<Longrightarrow> quiet fs u \<Longrightarrow> E e u"
  shows "io_wp (bindSocket (socket_path d) uid) Q E t"
proof -
  have give_up: "io_wp (giveUp l e) Q E u" if "bound d fs (ln_ino l) u" "ln_path l = socket_path d" for l e u
    using that by (intro wp_giveUp [of d fs]) (auto simp: bound_def quiet_def intro!: E)
  have check: "io_wp (validateSocket (socket_path d) uid) (\<lambda>x. io_wp (io_return (l, socket_path d)) Q E) (\<lambda>e. io_wp (giveUp l e) Q E) u"
    if "bound d fs (ln_ino l) u" "ln_path l = socket_path d" for l u
    using that by (intro wp_validateSocket) (auto simp: wp intro!: Q give_up)
  show ?thesis
    unfolding bindSocket_def wp
    by (rule wp_ListenUnix [OF t]) (auto simp: wp quiet_def intro!: wp_Chmod_socket check give_up E)
qed

lemma wp_listenRuntime:
  assumes ok: "fs_ok fs"
    and Q: "\<And>l t. apart d fs t \<Longrightarrow> no_symlinks d t \<Longrightarrow> private_dir uid d t \<Longrightarrow> private_dir uid (runtime_dir d) t \<Longrightarrow>
      private_socket uid (socket_path d) t \<Longrightarrow> inode_number (socket_path d) t = Some (ln_ino l) \<Longrightarrow> fs_next fs \<le> ln_ino l \<Longrightarrow>
      ln_path l = socket_path d \<Longrightarrow> fs_sockets t = (fs_sockets fs)(ln_ino l := Listening) \<Longrightarrow> vacant uid (socket_path d) fs \<Longrightarrow> Q (l, socket_path d) t"
    and E: "\<And>e t. apart d fs t \<Longrightarrow> quiet fs t \<Longrightarrow> (\<not> vacant uid (socket_path d) fs \<Longrightarrow> inode_number (socket_path d) t = inode_number (socket_path d) fs) \<Longrightarrow> E e t"
  shows "io_wp (listenRuntime (Some d) uid) Q E fs"
proof -
  let ?p = "socket_path d"
  have tail: "io_wp (io_bind (removeStaleSocket ?p uid) (\<lambda>_. bindSocket ?p uid)) Q E t"
    if t: "apart d fs t" "fs_sockets t = fs_sockets fs" "inode_number ?p t = inode_number ?p fs" "private_dir uid (runtime_dir d) t"
      "private_dir uid d fs" "no_symlinks d fs" for t
  proof -
    have next_le: "fs_next fs \<le> fs_next t" using t(1) by (simp add: apart_def)
    have vac: "vacant uid ?p t = vacant uid ?p fs"
      using t(1,3) ok by (auto simp: vacant_def private_file_def apart_def same_file_def fs_ok_def)
    have good: "Q (l, ?p) u" if "bound d t (ln_ino l) u" "private_socket uid ?p u" "ln_path l = ?p" "vacant uid ?p t" for l u
    proof -
      have u: "apart d t u" "inode_number ?p u = Some (ln_ino l)" "fs_next t \<le> ln_ino l" "fs_sockets u = (fs_sockets t)(ln_ino l := Listening)"
        using that(1) by (auto simp: bound_def)
      have a: "apart d fs u" using apart_trans t(1) u(1) by blast
      show ?thesis
        using that u t next_le vac apart_private [OF u(1) apart_ok [OF t(1)] _ t(4)] apart_private [OF a ok _ t(5)] apart_no_symlinks [OF a ok t(6)]
        by (intro Q a) auto
    qed
    have bad: "E e u" if "apart d t u" "quiet t u" "\<not> vacant uid ?p t \<Longrightarrow> inode_number ?p u = inode_number ?p t" for e u
    proof (rule E)
      show "apart d fs u" using apart_trans t(1) that(1) by blast
      show "quiet fs u" using that(2) next_le t(2) unfolding quiet_def by (metis order.trans)
    qed (use that(3) t(3) vac in simp)
    have same: "apart d t (t\<lparr>fs_calls := k\<rparr>)" "quiet t (t\<lparr>fs_calls := k\<rparr>)" for k
      using apart_refl [OF apart_ok [OF t(1)]] by (simp_all add: quiet_def)
    show ?thesis
      unfolding wp
    proof (rule wp_removeStale [OF apart_ok [OF t(1)]])
      show "E e (t\<lparr>fs_calls := k\<rparr>)" for e k by (rule bad [OF same]) simp
      show "io_wp (bindSocket ?p uid) Q E u"
        if "apart d t u" "vacant uid ?p t" "inode_number ?p u = None" "fs_sockets u = fs_sockets t" for u
        using that by (intro wp_bindSocket [of d t]) (auto intro!: good bad)
    qed
  qed
  have early: "E e (t\<lparr>fs_calls := k\<rparr>)" if "apart d fs t" "fs_sockets t = fs_sockets fs" "inode_number ?p t = inode_number ?p fs" for e t k
    using that by (intro E) (auto simp: quiet_def)
  show ?thesis
    unfolding listenRuntime_def option.case Let_def wp_bind [of "rejectSymlinkComponents _"] wp_bind [of "validateDirectory _ _ _"]
      wp_bind [of "makeRuntimeDir _"]
    by (intro wp_reject wp_validateDirectory wp_makeRuntimeDir)
      (auto intro!: tail [simplified] early [of fs] early apart_refl ok)
qed

subsection \<open>Starting without faults\<close>

text \<open>The private directories of a user, and no call that fails.\<close>

definition runtime_ready :: "path \<Rightarrow> u32 \<Rightarrow> filesys \<Rightarrow> bool" where
  "runtime_ready d uid fs \<longleftrightarrow> fs_faults fs = (\<lambda>_. None) \<and> fs_uid fs = uid \<and> no_symlinks d fs \<and> private_dir uid d fs \<and> private_dir uid (runtime_dir d) fs"

lemma ready_calls [simp]: "runtime_ready d uid (fs\<lparr>fs_calls := k\<rparr>) = runtime_ready d uid fs"
  by (simp add: runtime_ready_def)

lemma faultless: "fs_faults fs = (\<lambda>_. None) \<Longrightarrow> syscall f fs = f (fs\<lparr>fs_calls := Suc (fs_calls fs)\<rparr>)"
  by (simp add: syscall_def Let_def)

lemma reject_from_passes:
  assumes "fs_faults fs = (\<lambda>_. None)" "\<forall>n<length parts. \<exists>i. inode_number (current @ take (Suc n) parts) fs = Some i \<and> i_kind (fs_inodes fs i) \<noteq> Symlink"
  shows "\<exists>k. reject_from current parts fs = (Inr (), fs\<lparr>fs_calls := k\<rparr>)"
  using assms
proof (induction parts arbitrary: current fs)
  case Nil
  then show ?case by (auto simp: io_return_def intro!: exI [of _ "fs_calls fs"])
next
  case (Cons part parts)
  let ?fs = "fs\<lparr>fs_calls := Suc (fs_calls fs)\<rparr>"
  have "\<exists>k. reject_from (current @ [part]) parts ?fs = (Inr (), ?fs\<lparr>fs_calls := k\<rparr>)"
    by (rule Cons.IH) (use Cons.prems in \<open>auto dest: spec [of _ "Suc _"]\<close>)
  moreover have "\<exists>i. inode_number (current @ [part]) fs = Some i \<and> i_kind (fs_inodes fs i) \<noteq> Symlink"
    using Cons.prems(2) by (auto dest: spec [of _ 0])
  ultimately show ?case using Cons.prems(1) by (auto simp: Let_def io_bind_def os_Lstat_def faultless)
qed

lemma validateDirectory_passes:
  "fs_faults fs = (\<lambda>_. None) \<Longrightarrow> private_file Directory mode uid p fs \<Longrightarrow> validateDirectory p uid mode fs = (Inr (), fs\<lparr>fs_calls := Suc (fs_calls fs)\<rparr>)"
  by (auto simp: validateDirectory_def io_bind_def io_wrap_def io_return_def os_Lstat_def faultless private_file_def fileUID_def)

lemma listenRuntime_ready:
  assumes "runtime_ready d uid fs"
  shows "\<exists>k. listenRuntime (Some d) uid fs = io_bind (removeStaleSocket (socket_path d) uid) (\<lambda>_. bindSocket (socket_path d) uid) (fs\<lparr>fs_calls := k\<rparr>)"
proof -
  have f: "fs_faults fs = (\<lambda>_. None)" "private_dir uid d fs" "private_dir uid (runtime_dir d) fs" using assms by (simp_all add: runtime_ready_def)
  obtain k where k: "rejectSymlinkComponents d fs = (Inr (), fs\<lparr>fs_calls := k\<rparr>)"
    using reject_from_passes [of fs d "[]"] assms by (auto simp: rejectSymlinkComponents_def runtime_ready_def no_symlinks_def)
  have "\<exists>i. inode_number (runtime_dir d) fs = Some i" using f(3) by (auto simp: private_file_def)
  then have m: "makeRuntimeDir (runtime_dir d) (fs\<lparr>fs_calls := n\<rparr>) = (Inr (), fs\<lparr>fs_calls := Suc n\<rparr>)" for n
    using f(1) by (auto simp: makeRuntimeDir_def io_bind_def io_try_def io_return_def os_Mkdir_def faultless)
  show ?thesis
    using f k m by (auto simp: listenRuntime_def Let_def io_bind_def [of "rejectSymlinkComponents _"] io_bind_def [of "validateDirectory _ _ _"]
        io_bind_def [of "makeRuntimeDir _"] validateDirectory_passes)
qed

lemma bindSocket_ready:
  assumes "runtime_ready d uid fs" "inode_number (socket_path d) fs = None"
  shows "\<exists>l t. bindSocket (socket_path d) uid fs = (Inr (l, socket_path d), t)"
proof -
  have "is_directory (runtime_dir d) fs" using assms(1) by (auto simp: runtime_ready_def private_file_def is_directory_def)
  then show ?thesis
    using assms
    by (simp add: bindSocket_def net_ListenUnix_def net_bind_def net_listen_def io_bind_def io_wrap_def io_try_def io_return_def faultless
        runtime_ready_def os_Chmod_def os_Open_def file_Chmod_def validateSocket_def os_Lstat_def new_inode_def update_conv' touch_def
        unsafe_socket_def fileUID_def butlast_append)
qed

lemma start_on_free_name:
  assumes "runtime_ready d uid fs" "inode_number (socket_path d) fs = None"
  shows "\<exists>l t. listenRuntime (Some d) uid fs = (Inr (l, socket_path d), t)"
proof -
  obtain k where k: "listenRuntime (Some d) uid fs = io_bind (removeStaleSocket (socket_path d) uid) (\<lambda>_. bindSocket (socket_path d) uid) (fs\<lparr>fs_calls := k\<rparr>)"
    using listenRuntime_ready [OF assms(1)] by blast
  have "removeStaleSocket (socket_path d) uid (fs\<lparr>fs_calls := k\<rparr>) = (Inr (), fs\<lparr>fs_calls := Suc k\<rparr>)"
    using assms by (simp add: removeStaleSocket_def io_bind_def io_try_def io_return_def os_Lstat_def faultless runtime_ready_def)
  with k bindSocket_ready [of d uid "fs\<lparr>fs_calls := Suc k\<rparr>"] assms show ?thesis by (simp add: io_bind_def)
qed

lemma touch_inode [simp]: "i_kind (fs_inodes (touch i fs) j) = i_kind (fs_inodes fs j)" "i_perm (fs_inodes (touch i fs) j) = i_perm (fs_inodes fs j)"
  "i_uid (fs_inodes (touch i fs) j) = i_uid (fs_inodes fs j)"
  by (simp_all add: touch_def)

lemma removeStale_ready:
  assumes "runtime_ready d uid fs" "private_socket uid (socket_path d) fs" "inode_number (socket_path d) fs = Some i" "fs_sockets fs i \<noteq> Listening"
  shows "\<exists>t. removeStaleSocket (socket_path d) uid fs = (Inr (), t) \<and> runtime_ready d uid t \<and> inode_number (socket_path d) t = None"
proof -
  let ?t = "touch i (fs\<lparr>fs_calls := Suc (Suc (Suc (fs_calls fs))), fs_names := AList.delete (socket_path d) (fs_names fs)\<rparr>)"
  have p: "private_file Directory perm uid q ?t = private_file Directory perm uid q fs" if "q \<noteq> socket_path d" for q perm
    using that by (simp add: private_file_def delete_conv')
  have "take (Suc n) d \<noteq> socket_path d" if "n < length d" for n
  proof
    assume "take (Suc n) d = socket_path d"
    then have "length (take (Suc n) d) = length (socket_path d)" by simp
    with that show False by simp
  qed
  then have n: "no_symlinks d ?t = no_symlinks d fs" by (simp add: no_symlinks_def delete_conv')
  have dir: "\<not> is_directory (socket_path d) (fs\<lparr>fs_calls := k\<rparr>)" for k using assms(2,3) by (auto simp: is_directory_def private_file_def)
  have "fs_faults ?t = fs_faults fs" "fs_uid ?t = fs_uid fs" by (simp_all add: touch_def)
  with p n have r: "runtime_ready d uid ?t" using assms(1) by (simp add: runtime_ready_def)
  have "removeStaleSocket (socket_path d) uid fs = (Inr (), ?t)"
    using assms dir safe_socket [OF assms(3), of uid]
    by (cases "fs_sockets fs i")
      (auto simp: removeStaleSocket_def runtime_ready_def io_bind_def io_try_def io_wrap_def os_Lstat_def net_Dial_def os_Remove_def faultless)
  with r show ?thesis by (auto simp: delete_conv')
qed

text \<open>Whatever else is at the socket's name stops the start.\<close>

lemma start_refused:
  assumes "runtime_ready d uid fs" "inode_number (socket_path d) fs = Some i" "\<not> private_socket uid (socket_path d) fs"
  shows "\<exists>k. listenRuntime (Some d) uid fs = (Inl (Err ''presenter: unsafe existing socket''), fs\<lparr>fs_calls := k\<rparr>)"
proof -
  obtain k where k: "listenRuntime (Some d) uid fs = io_bind (removeStaleSocket (socket_path d) uid) (\<lambda>_. bindSocket (socket_path d) uid) (fs\<lparr>fs_calls := k\<rparr>)"
    using listenRuntime_ready [OF assms(1)] by blast
  have "unsafe_socket (info_of i fs) uid" using safe_socket [OF assms(2)] assms(3) by blast
  with assms k show ?thesis
    by (auto simp: removeStaleSocket_def io_bind_def io_try_def io_throw_def os_Lstat_def faultless runtime_ready_def)
qed

text \<open>
  C27: Wherever one of its calls fails, \<open>listenRuntime\<close> touches nothing of others: at most the directory and the socket get
  new names, and every file keeps its kind, permissions, owner and contents. When it succeeds, no component of the runtime
  directory is a symbolic link, both directories are private to the user, and the daemon alone listens on a new
  socket with mode 0600, whose name was free or stood for a private socket of the user. When it fails, nobody
  listens who did not before, and what was at the socket's name is still there unless it was a private socket of the user.
\<close>

theorem runtime_socket_is_private:
  assumes "fs_ok fs"
  shows "case listenRuntime (Some d) uid fs of
      (Inr (l, p), t) \<Rightarrow> p = socket_path d \<and> apart d fs t \<and> no_symlinks d t \<and> private_dir uid d t \<and> private_dir uid (runtime_dir d) t \<and>
        private_socket uid p t \<and> inode_number p t = Some (ln_ino l) \<and> fs_next fs \<le> ln_ino l \<and> fs_sockets t = (fs_sockets fs)(ln_ino l := Listening) \<and>
        vacant uid p fs
    | (Inl e, t) \<Rightarrow> apart d fs t \<and> quiet fs t \<and> (vacant uid (socket_path d) fs \<or> inode_number (socket_path d) t = inode_number (socket_path d) fs)"
proof -
  have "io_wp (listenRuntime (Some d) uid)
    (\<lambda>(l, p) t. p = socket_path d \<and> apart d fs t \<and> no_symlinks d t \<and> private_dir uid d t \<and> private_dir uid (runtime_dir d) t \<and>
        private_socket uid p t \<and> inode_number p t = Some (ln_ino l) \<and> fs_next fs \<le> ln_ino l \<and> fs_sockets t = (fs_sockets fs)(ln_ino l := Listening) \<and>
        vacant uid p fs)
    (\<lambda>e t. apart d fs t \<and> quiet fs t \<and> (vacant uid (socket_path d) fs \<or> inode_number (socket_path d) t = inode_number (socket_path d) fs)) fs"
    by (rule wp_listenRuntime [OF assms]) auto
  then show ?thesis by (auto simp: io_wp_def split: prod.splits sum.splits)
qed

text \<open>
  C28: With private directories and without failing calls, what is at the socket's name decides. A free name is taken; so
  is that of a private socket of the user that does not answer, be it a dead daemon's or that of a live one with a full
  backlog. A socket that answers, and anything else that is there, stops the start and stays as it is.
\<close>

theorem start_depends_on_the_socket:
  assumes "runtime_ready d uid fs"
  shows "case inode_number (socket_path d) fs of
      None \<Rightarrow> \<exists>l t. listenRuntime (Some d) uid fs = (Inr (l, socket_path d), t)
    | Some i \<Rightarrow>
        if \<not> private_socket uid (socket_path d) fs
        then \<exists>k. listenRuntime (Some d) uid fs = (Inl (Err ''presenter: unsafe existing socket''), fs\<lparr>fs_calls := k\<rparr>)
        else if fs_sockets fs i = Listening
        then \<exists>k. listenRuntime (Some d) uid fs = (Inl (Err ''presenter: socket already active''), fs\<lparr>fs_calls := k\<rparr>)
        else \<exists>l t. listenRuntime (Some d) uid fs = (Inr (l, socket_path d), t)"
proof -
  obtain k where k: "listenRuntime (Some d) uid fs = io_bind (removeStaleSocket (socket_path d) uid) (\<lambda>_. bindSocket (socket_path d) uid) (fs\<lparr>fs_calls := k\<rparr>)"
    using listenRuntime_ready [OF assms] by blast
  have f: "fs_faults fs = (\<lambda>_. None)" using assms by (simp add: runtime_ready_def)
  note run = removeStaleSocket_def io_bind_def io_try_def io_throw_def os_Lstat_def net_Dial_def conn_Close_def io_return_def faultless
  show ?thesis
  proof (cases "inode_number (socket_path d) fs")
    case None
    with start_on_free_name [OF assms] show ?thesis by simp
  next
    case (Some i)
    consider "\<not> private_socket uid (socket_path d) fs" | "private_socket uid (socket_path d) fs" "fs_sockets fs i = Listening"
      | "private_socket uid (socket_path d) fs" "fs_sockets fs i \<noteq> Listening" by blast
    then show ?thesis
    proof cases
      case 1
      with Some start_refused [OF assms Some] show ?thesis by simp
    next
      case 2
      with Some k f safe_socket [OF Some] show ?thesis by (auto simp: run)
    next
      case 3
      then obtain t where "removeStaleSocket (socket_path d) uid (fs\<lparr>fs_calls := k\<rparr>) = (Inr (), t)" "runtime_ready d uid t" "inode_number (socket_path d) t = None"
        using removeStale_ready [of d uid "fs\<lparr>fs_calls := k\<rparr>" i] assms Some by auto
      with 3 Some k bindSocket_ready [of d uid t] show ?thesis by (simp add: io_bind_def)
    qed
  qed
qed

text \<open>
  C29: A daemon that dies between binding its socket and securing it leaves a socket with the permissions of the umask and
  no listener. Unless these happen to be 0600, no later start gets past it.
\<close>

theorem interrupted_start_blocks_later_ones:
  assumes "runtime_ready d uid fs" "fs_ok fs" "net_ListenUnix (socket_path d) fs = (Inr l, t)" "fs_bindPerm fs \<noteq> 0x180"
  shows "\<exists>k. listenRuntime (Some d) uid (t\<lparr>fs_sockets := (fs_sockets t)(ln_ino l := NoListener)\<rparr>) =
    (Inl (Err ''presenter: unsafe existing socket''), t\<lparr>fs_sockets := (fs_sockets t)(ln_ino l := NoListener), fs_calls := k\<rparr>)"
proof -
  let ?t = "t\<lparr>fs_sockets := (fs_sockets t)(ln_ino l := NoListener)\<rparr>"
  have f: "fs_faults fs = (\<lambda>_. None)" using assms(1) by (simp add: runtime_ready_def)
  have none: "inode_number (socket_path d) fs = None" and
    t: "t = (new_inode (socket_path d) SocketFile (fs_bindPerm fs) (fs\<lparr>fs_calls := Suc (fs_calls fs)\<rparr>))
          \<lparr>fs_calls := Suc (Suc (fs_calls fs)), fs_sockets := (fs_sockets fs)(fs_next fs := Listening)\<rparr>"
    using assms(3) f by (auto simp: net_ListenUnix_def net_bind_def net_listen_def io_bind_def io_return_def faultless split: if_splits)
  have a: "apart d fs ?t" using assms(2) none unfolding t by (auto simp: apart_def fs_ok_def less_Suc_eq)
  have "fs_faults t = (\<lambda>_. None)" "fs_uid t = uid" using assms(1) by (simp_all add: t runtime_ready_def new_inode_def)
  then have r: "runtime_ready d uid ?t"
    using assms(1) apart_no_symlinks [OF a assms(2)] apart_private [OF a assms(2)] by (simp add: runtime_ready_def)
  have "\<not> private_socket uid (socket_path d) ?t" "inode_number (socket_path d) ?t = Some (fs_next fs)"
    using assms(4) by (simp_all add: t private_file_def) (simp add: new_inode_def)
  from start_refused [OF r this(2,1)] show ?thesis by simp
qed

text \<open>A runtime directory of root, with the directory of the daemon and no socket yet.\<close>

definition ex_run :: path where "ex_run = [''run'']"

definition ex_runtime :: filesys where
  "ex_runtime = \<lparr>fs_names = [(ex_run, 0), (runtime_dir ex_run, 1)],
     fs_inodes = (\<lambda>_. \<lparr>i_kind = Directory, i_perm = 0x1C0, i_uid = 0, i_data = [], i_mtime = 0, i_ctime = 0\<rparr>), fs_next = 2,
     fs_uid = 0, fs_clock = (\<lambda>_. 0), fs_random = (\<lambda>_ _. ''1''), fs_faults = (\<lambda>_. None), fs_calls = 0, fs_verified = (\<lambda>_. None),
     fs_sockets = (\<lambda>_. NoListener), fs_bindPerm = 0x1ED\<rparr>"

lemma ex_runtime_ok: "fs_ok ex_runtime" "runtime_ready ex_run 0 ex_runtime" "inode_number (socket_path ex_run) ex_runtime = None"
  by (auto simp: fs_ok_def runtime_ready_def no_symlinks_def private_file_def ex_runtime_def ex_run_def split: if_splits)

theorem runtime_socket_is_private_witness:
  "\<exists>l t. listenRuntime (Some ex_run) 0 ex_runtime = (Inr (l, socket_path ex_run), t) \<and> private_socket 0 (socket_path ex_run) t \<and> fs_sockets t (ln_ino l) = Listening"
proof -
  obtain l t where t: "listenRuntime (Some ex_run) 0 ex_runtime = (Inr (l, socket_path ex_run), t)"
    using start_on_free_name [OF ex_runtime_ok(2,3)] by blast
  with runtime_socket_is_private [OF ex_runtime_ok(1), of ex_run 0] show ?thesis by auto
qed

theorem start_depends_on_the_socket_witness:
  "runtime_ready ex_run 0 ex_runtime \<and> (\<exists>l t. listenRuntime (Some ex_run) 0 ex_runtime = (Inr (l, socket_path ex_run), t))"
  using start_depends_on_the_socket [OF ex_runtime_ok(2)] ex_runtime_ok(2,3) by simp

theorem interrupted_start_blocks_later_ones_witness:
  "\<exists>l t k. net_ListenUnix (socket_path ex_run) ex_runtime = (Inr l, t) \<and>
     listenRuntime (Some ex_run) 0 (t\<lparr>fs_sockets := (fs_sockets t)(ln_ino l := NoListener)\<rparr>) =
       (Inl (Err ''presenter: unsafe existing socket''), t\<lparr>fs_sockets := (fs_sockets t)(ln_ino l := NoListener), fs_calls := k\<rparr>)"
proof -
  have "\<exists>l t. net_ListenUnix (socket_path ex_run) ex_runtime = (Inr l, t)"
    by (simp add: net_ListenUnix_def net_bind_def net_listen_def io_bind_def io_return_def syscall_def Let_def ex_runtime_def ex_run_def
        is_directory_def butlast_append new_inode_def)
  then obtain l t where t: "net_ListenUnix (socket_path ex_run) ex_runtime = (Inr l, t)" by blast
  moreover have "fs_bindPerm ex_runtime \<noteq> 0x180" by (simp add: ex_runtime_def)
  ultimately show ?thesis using interrupted_start_blocks_later_ones [OF ex_runtime_ok(2,1) t] by blast
qed

end
