(* ===== verification/PresenterLife.thy ===== *)
theory PresenterLife
  imports RuntimeProps PresenterServer
begin

text \<open>
  The life of the presenter server (\<open>internal/presenter/server.go\<close>): \<open>NewAt\<close>, \<open>Serve\<close>, the loop that accepts connections
  and \<open>Close\<close>. The connections themselves are the subject of \<open>PresenterServer\<close>.
\<close>

subsection \<open>Starting and stopping (server.go)\<close>

record presenterLife =
  pl_runtimeDir :: "path option"
  pl_uid :: u32
  pl_started :: bool
  pl_listener :: "listener option"
  pl_socketPath :: "path option"
  pl_stopped :: bool
  pl_done :: bool

definition presenter_NewAt :: "path option \<Rightarrow> filesys \<Rightarrow> presenterLife" where
  "presenter_NewAt runtimeDir fs = \<lparr>pl_runtimeDir = runtimeDir, pl_uid = fs_uid fs, pl_started = False, pl_listener = None, pl_socketPath = None,
     pl_stopped = False, pl_done = False\<rparr>"

text \<open>The first argument says whether there is an owner. A server can be started once, even if that fails.\<close>

definition presenter_Serve :: "bool \<Rightarrow> presenterLife \<Rightarrow> filesys \<Rightarrow> error \<times> presenterLife \<times> filesys" where
  "presenter_Serve owner s fs =
     (if \<not> owner then (Some (Err ''presenter: missing server dependency''), s, fs)
      else if pl_started s then (Some (Err ''presenter: server already started''), s, fs)
      else
        (let s1 = s\<lparr>pl_started := True\<rparr> in
         case listenRuntime (pl_runtimeDir s) (pl_uid s) fs of
           (Inl e, t) \<Rightarrow> (Some e, s1, t)
         | (Inr (l, p), t) \<Rightarrow> (None, s1\<lparr>pl_listener := Some l, pl_socketPath := Some p\<rparr>, t)))"

text \<open>
  \<open>Close\<close> up to the point where it waits for the handlers, and from there on. The body runs once (\<open>closeOnce\<close>). \<open>PresenterServer\<close>
  has what the handlers do in between.
\<close>

definition closeListener :: "presenterLife \<Rightarrow> presenterServer \<Rightarrow> filesys \<Rightarrow> error \<times> presenterLife \<times> presenterServer \<times> filesys" where
  "closeListener s r fs =
     (case pl_listener s of
        None \<Rightarrow> (None, s\<lparr>pl_stopped := True\<rparr>, presenter_Close r, fs)
      | Some l \<Rightarrow>
          (case listener_Close l fs of
             (Inl e, t) \<Rightarrow> (errors_Join None (Some e), s\<lparr>pl_stopped := True\<rparr>, presenter_Close r, t)
           | (Inr _, t) \<Rightarrow> (None, s\<lparr>pl_stopped := True\<rparr>, presenter_Close r, t)))"

definition removeSocket :: "error \<Rightarrow> presenterLife \<Rightarrow> filesys \<Rightarrow> error \<times> presenterLife \<times> filesys" where
  "removeSocket result s fs =
     (case pl_socketPath s of
        None \<Rightarrow> (result, s\<lparr>pl_done := True\<rparr>, fs)
      | Some p \<Rightarrow>
          (case os_Remove p fs of
             (Inl e, t) \<Rightarrow> (if \<not> errors_Is e ErrNotExist then errors_Join result (Some e) else result, s\<lparr>pl_done := True\<rparr>, t)
           | (Inr _, t) \<Rightarrow> (result, s\<lparr>pl_done := True\<rparr>, t)))"

definition presenter_CloseServer :: "presenterLife \<Rightarrow> presenterServer \<Rightarrow> filesys \<Rightarrow> error \<times> presenterLife \<times> presenterServer \<times> filesys" where
  "presenter_CloseServer s r fs =
     (if pl_stopped s then (None, s, r, fs)
      else
        (let (result, s1, r1, fs1) = closeListener s r fs; (result2, s2, fs2) = removeSocket result s1 fs1
         in (result2, s2, r1, fs2)))"

subsection \<open>Accepting (server.go)\<close>

text \<open>
  What \<open>acceptConn\<close> gives at each turn: a connection, or an error; then whether the server is stopping when the loop looks,
  and whether it stops before the timer fires. The results are the connections handed to a handler, the waits, and whether
  the loop has ended.
\<close>

datatype accepted = Accepted nat | AcceptError bool bool

fun acceptLoop :: "duration \<Rightarrow> accepted list \<Rightarrow> nat list \<times> duration list \<times> bool" where
  "acceptLoop backoff [] = ([], [], False)"
| "acceptLoop backoff (Accepted conn # as) =
     (let (conns, waits, ended) = acceptLoop Millisecond as in (conn # conns, waits, ended))"
| "acceptLoop backoff (AcceptError stopping stopped # as) =
     (if stopping then ([], [], True)
      else if stopped then ([], [backoff], True)
      else let (conns, waits, ended) = acceptLoop (if backoff < Second then backoff * 2 else backoff) as
           in (conns, backoff # waits, ended))"

definition backoff_ok :: "duration \<Rightarrow> bool" where
  "backoff_ok b \<longleftrightarrow> (\<exists>n\<le>10. b = 2 ^ n * Millisecond)"

lemma backoff_doubles: "backoff_ok b \<Longrightarrow> backoff_ok (if b < Second then b * 2 else b)"
proof -
  assume "backoff_ok b"
  then obtain n where n: "n \<le> 10" "b = 2 ^ n * Millisecond" by (auto simp: backoff_ok_def)
  show ?thesis
  proof (cases "n = 10")
    case True
    with n show ?thesis by (auto simp: backoff_ok_def go_time)
  next
    case False
    with n have "Suc n \<le> 10" "b * 2 = 2 ^ Suc n * Millisecond" by auto
    with n show ?thesis unfolding backoff_ok_def by (metis (full_types))
  qed
qed

text \<open>The loop never waits longer than 1.024 seconds and never spins, and it hands on every connection until it is told to stop.\<close>

lemma acceptLoop_waits: "backoff_ok b \<Longrightarrow> acceptLoop b as = (conns, waits, ended) \<Longrightarrow> \<forall>w\<in>set waits. backoff_ok w"
proof (induction as arbitrary: b conns waits ended)
  case (Cons a as)
  have "backoff_ok Millisecond" unfolding backoff_ok_def by (intro exI [of _ 0]) simp
  with Cons backoff_doubles [OF Cons.prems(1)] show ?case
    by (cases a) (fastforce simp del: if_split split: prod.splits if_splits)+
qed simp

lemma backoff_bounds: "backoff_ok b \<Longrightarrow> Millisecond \<le> b \<and> b \<le> 1024 * Millisecond"
proof -
  assume "backoff_ok b"
  then obtain n where n: "n \<le> 10" "b = 2 ^ n * Millisecond" by (auto simp: backoff_ok_def)
  then have "(2::int) ^ n \<le> 2 ^ 10" by (intro power_increasing) auto
  with n show ?thesis by (simp add: go_time)
qed

lemma acceptLoop_conns:
  "acceptLoop b as = (conns, waits, ended) \<Longrightarrow> (\<forall>x y. AcceptError x y \<in> set as \<longrightarrow> \<not> x \<and> \<not> y) \<Longrightarrow>
     conns = List.map_filter (\<lambda>a. case a of Accepted c \<Rightarrow> Some c | _ \<Rightarrow> None) as \<and> \<not> ended"
proof (induction as arbitrary: b conns waits ended)
  case (Cons a as)
  have rest: "\<forall>x y. AcceptError x y \<in> set as \<longrightarrow> \<not> x \<and> \<not> y" using Cons.prems(2) by (meson list.set_intros(2))
  show ?case
  proof (cases a)
    case (Accepted c)
    with Cons.prems(1) Cons.IH [OF _ rest] show ?thesis by (auto simp: map_filter_simps split: prod.splits)
  next
    case (AcceptError x y)
    with Cons.prems have "\<not> x" "\<not> y" by auto
    with AcceptError Cons.prems(1) Cons.IH [OF _ rest] show ?thesis by (auto simp: map_filter_simps split: prod.splits)
  qed
qed (simp add: map_filter_simps)

subsection \<open>After Close\<close>

lemma sys_Close_sockets: "fs_sockets (snd (sys_Close i fs)) = (fs_sockets fs)(i := NoListener)"
  by (simp add: sys_Close_def Let_def)

lemma listener_Close_sockets: "fs_sockets (snd (listener_Close l fs)) (ln_ino l) = NoListener"
  by (auto simp: listener_Close_def io_bind_def io_try_def sys_Close_sockets split: prod.splits)

lemma os_Remove_sockets: "fs_sockets (snd (os_Remove p fs)) = fs_sockets fs"
  by (auto simp: os_Remove_def syscall_def Let_def split: option.splits)

lemma os_Remove_gone: "os_Remove p fs = (Inr x, t) \<or> os_Remove p fs = (Inl e, t) \<and> errors_Is e ErrNotExist \<Longrightarrow> inode_number p t = None"
  by (auto simp: os_Remove_def syscall_def Let_def delete_conv' split: option.splits if_splits)

declare errors_Join_eq_None_iff [simp]

text \<open>Closing ends the listening, whatever fails; without an error the socket's name is gone.\<close>

lemma presenter_CloseServer_spec:
  assumes "presenter_CloseServer s r fs = (e, s', r', t)" "\<not> pl_stopped s"
  shows "pl_stopped s' \<and> pl_done s' \<and> pl_listener s' = pl_listener s \<and> pl_socketPath s' = pl_socketPath s \<and> ps_closing r' \<and>
    (\<forall>l. pl_listener s = Some l \<longrightarrow> fs_sockets t (ln_ino l) = NoListener) \<and>
    (\<forall>p. pl_socketPath s = Some p \<and> e = None \<longrightarrow> inode_number p t = None)"
proof -
  obtain result s1 r1 fs1 where c: "closeListener s r fs = (result, s1, r1, fs1)" by (cases "closeListener s r fs") auto
  obtain result2 s2 fs2 where d: "removeSocket result s1 fs1 = (result2, s2, fs2)" by (cases "removeSocket result s1 fs1") auto
  have eq: "e = result2" "s' = s2" "r' = r1" "t = fs2" using assms c d by (auto simp: presenter_CloseServer_def)
  have 1: "s1 = s\<lparr>pl_stopped := True\<rparr>" "r1 = presenter_Close r" "\<forall>l. pl_listener s = Some l \<longrightarrow> fs_sockets fs1 (ln_ino l) = NoListener"
    using c listener_Close_sockets by (auto simp: closeListener_def split: option.splits prod.splits sum.splits) (metis snd_conv)+
  have 2: "s2 = s1\<lparr>pl_done := True\<rparr>" "fs_sockets fs2 = fs_sockets fs1" "\<forall>p. pl_socketPath s1 = Some p \<and> result2 = None \<longrightarrow> inode_number p fs2 = None"
    using d os_Remove_sockets os_Remove_gone
    by (auto simp: removeSocket_def split: option.splits prod.splits sum.splits if_splits) (metis snd_conv)+
  show ?thesis using 1 2 eq by (simp add: presenter_Close_def)
qed

end
