(* ===== verification/App.thy ===== *)
theory App
  imports PresenterLife FdoProps HistoryFiles
begin

text \<open>
  The daemon as a whole (\<open>internal/app/run.go\<close>): opening the history, starting the owner, the presenter server and the
  D-Bus service, waiting for the end, and shutting everything down; and the sink through which the owner publishes to both servers.

  What the goroutines do while \<open>Run\<close> waits is a parameter (\<open>pf_meanwhile\<close>): the end \<open>Run\<close> sees, and the states of the owner, the
  connections and the files then. So are the results of the calls into the persistence worker, which theory Persist
  explains, and of the bus.
\<close>

subsection \<open>Publishing to several sinks (run.go, eventSink)\<close>

datatype sink = PresenterSink | ServiceSink

type_synonym outlets = "presenterServer \<times> queuedSignal list"

definition sink_Publish :: "time_encoder \<Rightarrow> Event \<Rightarrow> sink \<Rightarrow> outlets \<Rightarrow> bool \<times> outlets" where
  "sink_Publish tj ev k w =
     (case k of
        PresenterSink \<Rightarrow> (let (ok, s) = presenter_Publish tj ev (fst w) in (ok, s, snd w))
      | ServiceSink \<Rightarrow> (let (ok, q) = fdo_Publish ev (snd w) in (ok, fst w, q)))"

definition eventSink_add :: "sink \<Rightarrow> sink list \<Rightarrow> sink list" where
  "eventSink_add k sinks = sinks @ [k]"

definition eventSink_Publish :: "time_encoder \<Rightarrow> Event \<Rightarrow> sink list \<Rightarrow> outlets \<Rightarrow> bool \<times> outlets" where
  "eventSink_Publish tj ev sinks w =
     fold (\<lambda>k (ok, v). let (delivered, v') = sink_Publish tj ev k v in (ok \<and> delivered, v')) sinks (True, w)"

subsection \<open>The daemon (run.go)\<close>

record config =
  cf_RuntimeDir :: "path option"
  cf_StateHome :: "path option"
  cf_ProcRoot :: string
  cf_Ready :: bool

text \<open>A pointer that is still nil is \<open>None\<close>.\<close>

record daemon =
  dm_files :: filesys
  dm_store :: "Store option"
  dm_owner :: "ownerState option"
  dm_presenter :: presenterLife
  dm_registry :: presenterServer
  dm_service :: "fdoServer option"
  dm_sinks :: "sink list"
  dm_procRoot :: string
  dm_connected :: bool
  dm_ready :: bool
  dm_ownerClosed :: bool
  dm_storeClosed :: bool

text \<open>What ended the wait: the context, or one of the servers, with what it sent on its channel if it did not close it.\<close>

datatype ending = Cancelled | PresenterDone "err option" | ServiceDone "err option"

record platform =
  pf_codec :: codec
  pf_decoder :: docDecoder
  pf_timeText :: "time \<Rightarrow> string"
  pf_address :: "retained \<Rightarrow> nat"
  pf_clock :: "nat \<Rightarrow> time"
  pf_delivered :: "Event list \<Rightarrow> Event \<Rightarrow> bool"
  pf_now :: time
  pf_XDG_RUNTIME_DIR :: "path option"
  pf_XDG_STATE_HOME :: "path option"
  pf_UserHomeDir :: "err + path"
  pf_ConnectSessionBus :: error
  pf_bus :: busAnswers
  pf_flush :: error
  pf_storeClose :: error
  pf_connClose :: error
  pf_meanwhile :: "daemon \<Rightarrow> ending \<times> ownerState \<times> presenterServer \<times> filesys"

definition history_Open :: "platform \<Rightarrow> Store io" where
  "history_Open pf =
     (let openAt = (\<lambda>home. OpenAt (pf_codec pf) (pf_decoder pf) (pf_timeText pf) (pf_address pf) home (pf_now pf)) in
      case pf_XDG_STATE_HOME pf of
        Some stateHome \<Rightarrow> openAt stateHome
      | None \<Rightarrow>
          (case pf_UserHomeDir pf of
             Inl e \<Rightarrow> io_throw (Wrap ''history: resolve home'' e)
           | Inr home \<Rightarrow> openAt (home @ [''.local'', ''state''])))"

definition shutdown_presenter :: "error \<Rightarrow> daemon \<Rightarrow> error \<times> daemon" where
  "shutdown_presenter err d =
     (let (e, life, registry, fs) = presenter_CloseServer (dm_presenter d) (dm_registry d) (dm_files d)
      in (errors_Join err e, d\<lparr>dm_presenter := life, dm_registry := registry, dm_files := fs\<rparr>))"

definition joined :: "err list \<Rightarrow> error" where
  "joined es = foldl errors_Join None (map Some es)"

definition shutdown_service :: "platform \<Rightarrow> error \<Rightarrow> daemon \<Rightarrow> error \<times> daemon" where
  "shutdown_service pf err d =
     (case dm_service d of
        None \<Rightarrow> (err, d)
      | Some s \<Rightarrow> (let (es, s') = fdo_Close (pf_bus pf) s in (errors_Join err (joined es), d\<lparr>dm_service := Some s'\<rparr>)))"

definition shutdown_owner :: "platform \<Rightarrow> error \<Rightarrow> daemon \<Rightarrow> error \<times> daemon" where
  "shutdown_owner pf err d =
     (if dm_owner d = None then (err, d) else (errors_Join err (pf_flush pf), d\<lparr>dm_ownerClosed := True\<rparr>))"

definition shutdown_store :: "platform \<Rightarrow> error \<Rightarrow> daemon \<Rightarrow> error \<times> daemon" where
  "shutdown_store pf err d =
     (if dm_store d = None then (err, d) else (errors_Join err (pf_storeClose pf), d\<lparr>dm_storeClosed := True\<rparr>))"

definition shutdown_conn :: "platform \<Rightarrow> error \<Rightarrow> daemon \<Rightarrow> error \<times> daemon" where
  "shutdown_conn pf err d =
     (if \<not> dm_connected d then (err, d) else (errors_Join err (pf_connClose pf), d\<lparr>dm_connected := False\<rparr>))"

definition shutdown :: "platform \<Rightarrow> daemon \<Rightarrow> error \<times> daemon" where
  "shutdown pf d =
     (let (e1, d1) = shutdown_presenter None d;
          (e2, d2) = shutdown_service pf e1 d1;
          (e3, d3) = shutdown_owner pf e2 d2;
          (e4, d4) = shutdown_store pf e3 d3
      in shutdown_conn pf e4 d4)"

definition failed :: "platform \<Rightarrow> error \<Rightarrow> daemon \<Rightarrow> error \<times> daemon" where
  "failed pf e d = (let (e', d') = shutdown pf d in (errors_Join e e', d'))"

definition ending_error :: "ending \<Rightarrow> error" where
  "ending_error en =
     (case en of
        Cancelled \<Rightarrow> None
      | PresenterDone (Some e) \<Rightarrow> Some e
      | PresenterDone None \<Rightarrow> Some (Err ''app: presenter stopped'')
      | ServiceDone (Some e) \<Rightarrow> Some e
      | ServiceDone None \<Rightarrow> Some (Err ''app: D-Bus service stopped''))"

definition serve_service :: "platform \<Rightarrow> config \<Rightarrow> daemon \<Rightarrow> error \<times> daemon" where
  "serve_service pf cf d =
     (case pf_ConnectSessionBus pf of
        Some e \<Rightarrow> failed pf (Some e) d
      | None \<Rightarrow>
          (let (e, service) = fdo_Serve (pf_bus pf) (dm_owner d) NewServer;
               d1 = d\<lparr>dm_connected := True, dm_sinks := eventSink_add ServiceSink (dm_sinks d), dm_service := Some service\<rparr>
           in case e of
                Some e \<Rightarrow> failed pf (Some e) d1
              | None \<Rightarrow>
                  (let d2 = d1\<lparr>dm_ready := cf_Ready cf\<rparr>; (en, owner, registry, fs) = pf_meanwhile pf d2
                   in failed pf (ending_error en) (d2\<lparr>dm_owner := Some owner, dm_registry := registry, dm_files := fs\<rparr>))))"

text \<open>The context is \<open>None\<close> if it is missing, else what its \<open>Err\<close> returns at the start. \<open>None\<close> as result is a panic.\<close>

definition Run :: "platform \<Rightarrow> error option \<Rightarrow> config \<Rightarrow> filesys \<Rightarrow> (error \<times> daemon) option" where
  "Run pf ctx config fs =
     (let runtimeDir = (if cf_RuntimeDir config = None then pf_XDG_RUNTIME_DIR pf else cf_RuntimeDir config);
          procRoot = (if cf_ProcRoot config = [] then ''/proc'' else cf_ProcRoot config);
          d = \<lparr>dm_files = fs, dm_store = None, dm_owner = None, dm_presenter = presenter_NewAt runtimeDir fs, dm_registry = NewPresenter,
               dm_service = None, dm_sinks = [PresenterSink], dm_procRoot = procRoot, dm_connected = False, dm_ready = False,
               dm_ownerClosed = False, dm_storeClosed = False\<rparr>
      in case ctx of
           None \<Rightarrow> Some (Some (Err ''app: missing context''), d)
         | Some (Some e) \<Rightarrow> Some (Some e, d)
         | Some None \<Rightarrow>
             (case (case cf_StateHome config of
                      None \<Rightarrow> history_Open pf
                    | Some home \<Rightarrow> OpenAt (pf_codec pf) (pf_decoder pf) (pf_timeText pf) (pf_address pf) home (pf_now pf)) fs of
                (Inl e, t) \<Rightarrow> Some (Some e, d\<lparr>dm_files := t\<rparr>)
              | (Inr store, t) \<Rightarrow>
                  (case owner_start (pf_clock pf) (Some (pf_delivered pf)) (Some store) of
                     None \<Rightarrow> None
                   | Some owner \<Rightarrow>
                       (let (e, life, u) = presenter_Serve True (dm_presenter d) t;
                            d1 = d\<lparr>dm_files := u, dm_store := Some store, dm_owner := Some owner, dm_presenter := life\<rparr>
                        in Some (if e \<noteq> None then failed pf e d1 else serve_service pf config d1)))))"

subsection \<open>Every sink gets every event\<close>

text \<open>
  The two servers get the same events in the same order, whatever either of them refuses; the sink reports whether both took all of them.
\<close>

lemma eventSink_both:
  "eventSink_Publish tj ev [PresenterSink, ServiceSink] (s, q) =
     (fst (presenter_Publish tj ev s) \<and> fst (fdo_Publish ev q), snd (presenter_Publish tj ev s), snd (fdo_Publish ev q))"
  by (simp add: eventSink_Publish_def sink_Publish_def split: prod.splits)

fun publish_all :: "(Event \<Rightarrow> 's \<Rightarrow> bool \<times> 's) \<Rightarrow> Event list \<Rightarrow> 's \<Rightarrow> bool \<times> 's" where
  "publish_all f [] s = (True, s)"
| "publish_all f (ev # evs) s = (let (ok, s1) = f ev s; (oks, s2) = publish_all f evs s1 in (ok \<and> oks, s2))"

lemma sinks_are_independent:
  "publish_all (\<lambda>ev. eventSink_Publish tj ev (eventSink_add ServiceSink [PresenterSink])) evs (s, q) =
     (fst (publish_all (presenter_Publish tj) evs s) \<and> fst (publish_all fdo_Publish evs q),
      snd (publish_all (presenter_Publish tj) evs s), snd (publish_all fdo_Publish evs q))"
  by (induction evs arbitrary: s q) (auto simp: eventSink_add_def eventSink_both split: prod.splits)

subsection \<open>After Run\<close>

text \<open>Nothing runs any more: the listening is over, no connection is served, the bus, the owner and the store are closed.\<close>

definition all_closed :: "daemon \<Rightarrow> bool" where
  "all_closed d \<longleftrightarrow> pl_stopped (dm_presenter d) \<and> pl_done (dm_presenter d) \<and> ps_closing (dm_registry d) \<and>
     (\<forall>l. pl_listener (dm_presenter d) = Some l \<longrightarrow> fs_sockets (dm_files d) (ln_ino l) = NoListener) \<and>
     (\<forall>s. dm_service d = Some s \<longrightarrow> fs_closed s \<and> fs_orderClosed s) \<and>
     dm_ownerClosed d \<and> dm_storeClosed d \<and> \<not> dm_connected d"

text \<open>Nothing is left behind: neither the name of the socket nor anything on the bus.\<close>

definition nothing_left :: "daemon \<Rightarrow> bool" where
  "nothing_left d \<longleftrightarrow> (\<forall>p. pl_socketPath (dm_presenter d) = Some p \<longrightarrow> inode_number p (dm_files d) = None) \<and>
     (\<forall>s. dm_service d = Some s \<longrightarrow> \<not> fs_named s \<and> \<not> fs_exported s \<and> \<not> fs_matched s \<and> \<not> fs_signalled s)"

lemma joined_None [simp]: "joined es = None \<longleftrightarrow> es = []"
proof -
  have "foldl errors_Join e (map Some es) = None \<longleftrightarrow> e = None \<and> es = []" for e by (induction es arbitrary: e) auto
  then show ?thesis by (simp add: joined_def)
qed

lemma fdo_Close_spec:
  assumes "fdo_Close a s = (es, t)" "\<not> fs_closed s"
  shows "fs_closed t \<and> fs_orderClosed t \<and> (es = [] \<and> fs_served s \<longrightarrow> \<not> fs_named t \<and> \<not> fs_exported t \<and> \<not> fs_matched t \<and> \<not> fs_signalled t)"
  using assms
  by (auto simp: fdo_Close_def Let_def unexport_def unmatch_def map_filter_simps split: if_splits option.splits sum.splits bool.splits)

lemma fdo_Serve_spec:
  assumes "fdo_Serve a (Some owner) NewServer = (e, s)"
  shows "\<not> fs_closed s \<and> (e = None \<longrightarrow> fs_served s)"
  using assms
  by (auto simp: fdo_Serve_def NewServer_def Let_def unexport_def unmatch_def split: if_splits option.splits sum.splits bool.splits)

text \<open>What \<open>shutdown\<close> finds, and what it makes of it.\<close>

definition running :: "daemon \<Rightarrow> bool" where
  "running d \<longleftrightarrow> dm_store d \<noteq> None \<and> dm_owner d \<noteq> None \<and> \<not> pl_stopped (dm_presenter d) \<and> (\<forall>s. dm_service d = Some s \<longrightarrow> \<not> fs_closed s)"

lemma shutdown_spec:
  assumes "shutdown pf d = (e, t)" "running d"
  shows "all_closed t \<and> dm_owner t = dm_owner d \<and> dm_ready t = dm_ready d \<and>
    (e = None \<longrightarrow> pf_flush pf = None \<and> pf_storeClose pf = None \<and> ((\<forall>s. dm_service d = Some s \<longrightarrow> fs_served s) \<longrightarrow> nothing_left t))"
proof -
  obtain e1 life registry fs where c: "presenter_CloseServer (dm_presenter d) (dm_registry d) (dm_files d) = (e1, life, registry, fs)"
    by (cases "presenter_CloseServer (dm_presenter d) (dm_registry d) (dm_files d)") auto
  have p: "pl_stopped life \<and> pl_done life \<and> pl_listener life = pl_listener (dm_presenter d) \<and> pl_socketPath life = pl_socketPath (dm_presenter d) \<and>
      ps_closing registry \<and> (\<forall>l. pl_listener (dm_presenter d) = Some l \<longrightarrow> fs_sockets fs (ln_ino l) = NoListener) \<and>
      (\<forall>p. pl_socketPath (dm_presenter d) = Some p \<and> e1 = None \<longrightarrow> inode_number p fs = None)"
    by (rule presenter_CloseServer_spec [OF c]) (use assms(2) in \<open>simp add: running_def\<close>)
  show ?thesis
  proof (cases "dm_service d")
    case None
    with assms c p show ?thesis
      by (auto simp: shutdown_def shutdown_presenter_def shutdown_service_def shutdown_owner_def shutdown_store_def shutdown_conn_def
          running_def all_closed_def nothing_left_def split: if_splits)
  next
    case (Some s)
    obtain es s' where f: "fdo_Close (pf_bus pf) s = (es, s')" by (cases "fdo_Close (pf_bus pf) s")
    have "fs_closed s' \<and> fs_orderClosed s' \<and> (es = [] \<and> fs_served s \<longrightarrow> \<not> fs_named s' \<and> \<not> fs_exported s' \<and> \<not> fs_matched s' \<and> \<not> fs_signalled s')"
      by (rule fdo_Close_spec [OF f]) (use assms(2) Some in \<open>simp add: running_def\<close>)
    with assms c p f Some show ?thesis
      by (auto simp: shutdown_def shutdown_presenter_def shutdown_service_def shutdown_owner_def shutdown_store_def shutdown_conn_def
          running_def all_closed_def nothing_left_def split: if_splits)
  qed
qed

lemma failed_spec:
  assumes "failed pf e d = (e', t)" "running d"
  shows "all_closed t \<and> dm_owner t = dm_owner d \<and> dm_ready t = dm_ready d \<and>
    (e' = None \<longrightarrow> e = None \<and> pf_flush pf = None \<and> pf_storeClose pf = None \<and> ((\<forall>s. dm_service d = Some s \<longrightarrow> fs_served s) \<longrightarrow> nothing_left t))"
  using shutdown_spec [OF _ assms(2), of pf] assms(1) by (auto simp: failed_def split: prod.splits)

lemma ending_error_None [simp]: "ending_error en = None \<longleftrightarrow> en = Cancelled"
  by (auto simp: ending_error_def split: ending.splits option.splits)

lemma serve_service_spec:
  assumes "serve_service pf cf d = (e, t)" "running d" "dm_service d = None"
  shows "all_closed t \<and> dm_owner t \<noteq> None \<and>
    (e = None \<longrightarrow> pf_flush pf = None \<and> pf_storeClose pf = None \<and> nothing_left t \<and> dm_ready t = cf_Ready cf \<and> (\<exists>d'. fst (pf_meanwhile pf d') = Cancelled))"
proof (cases "pf_ConnectSessionBus pf")
  case (Some x)
  then have "failed pf (Some x) d = (e, t)" using assms(1) by (simp add: serve_service_def)
  from failed_spec [OF this assms(2)] assms(2) show ?thesis by (auto simp: running_def)
next
  case None
  obtain owner where o: "dm_owner d = Some owner" using assms(2) by (auto simp: running_def)
  obtain e1 s where s: "fdo_Serve (pf_bus pf) (Some owner) NewServer = (e1, s)" by (cases "fdo_Serve (pf_bus pf) (Some owner) NewServer")
  let ?d = "d\<lparr>dm_connected := True, dm_sinks := eventSink_add ServiceSink (dm_sinks d), dm_service := Some s\<rparr>"
  have r: "running (?d\<lparr>dm_ready := b, dm_owner := Some ow, dm_registry := rg, dm_files := fs\<rparr>)" "running ?d" for b ow rg fs
    using assms(2) fdo_Serve_spec [OF s] by (auto simp: running_def)
  show ?thesis
  proof (cases e1)
    case (Some x)
    then have "failed pf (Some x) ?d = (e, t)" using assms(1) None o s by (simp add: serve_service_def)
    from failed_spec [OF this r(2)] o show ?thesis by auto
  next
    case [simp]: None
    obtain en ow rg fs where m: "pf_meanwhile pf (?d\<lparr>dm_ready := cf_Ready cf\<rparr>) = (en, ow, rg, fs)" by (metis prod_cases4)
    then have "failed pf (ending_error en) (?d\<lparr>dm_ready := cf_Ready cf, dm_owner := Some ow, dm_registry := rg, dm_files := fs\<rparr>) = (e, t)"
      using assms(1) \<open>pf_ConnectSessionBus pf = None\<close> o s by (simp add: serve_service_def)
    from failed_spec [OF this r(1)] fdo_Serve_spec [OF s] m show ?thesis by (auto intro: exI [of _ "?d\<lparr>dm_ready := cf_Ready cf\<rparr>"])
  qed
qed

lemma presenter_Serve_stopped: "presenter_Serve b s fs = (e, t, u) \<Longrightarrow> pl_stopped t = pl_stopped s"
  by (auto simp: presenter_Serve_def Let_def split: if_splits prod.splits sum.splits)

lemma owner_start_total: "\<exists>s. owner_start clk sink store = Some s"
  by (auto simp: owner_start_def resetTimer_def initial_state_def ordered_records_def clock_Now_def Let_def split: option.splits)


text \<open>A start on an empty disk with an obliging bus, ended by the context.\<close>

definition ex_platform :: platform where
  "ex_platform = \<lparr>pf_codec = \<lparr>png_Decode = (\<lambda>_. None), png_Encode = (\<lambda>_. None), sha256_Sum256 = (\<lambda>_. 0)\<rparr>,
     pf_decoder = \<lparr>dd_document = (\<lambda>_. Inl (Err [])), dd_extra = (\<lambda>_. AtEOF)\<rparr>, pf_timeText = (\<lambda>_. []), pf_address = (\<lambda>_. 0),
     pf_clock = (\<lambda>_. 1), pf_delivered = (\<lambda>_ _. True), pf_now = 1, pf_XDG_RUNTIME_DIR = Some ex_run, pf_XDG_STATE_HOME = Some [''run''],
     pf_UserHomeDir = Inr [], pf_ConnectSessionBus = None,
     pf_bus = \<lparr>ba_Export = None, ba_AddMatchSignal = None, ba_RequestName = Inr True, ba_Unexport = None, ba_RemoveMatchSignal = None, ba_ReleaseName = Inr True\<rparr>,
     pf_flush = None, pf_storeClose = None, pf_connClose = None,
     pf_meanwhile = (\<lambda>d. (Cancelled, the (dm_owner d), dm_registry d, dm_files d))\<rparr>"

definition ex_config :: config where
  "ex_config = \<lparr>cf_RuntimeDir = None, cf_StateHome = None, cf_ProcRoot = [], cf_Ready = True\<rparr>"

definition ex_opened :: filesys where
  "ex_opened = ex_runtime\<lparr>fs_names := [(ex_run, 0), (runtime_dir ex_run, 1), (ex_run @ [''sysc-notify'', ''images''], 2)], fs_next := 3, fs_calls := 13\<rparr>"

lemma ex_open: "history_Open ex_platform ex_runtime = (Inr (newStore (pf_codec ex_platform) []), ex_opened)"
  by (simp add: history_Open_def ex_platform_def ex_runtime_def ex_run_def OpenAt_def makePath_def io_bind_def io_try_def io_return_def io_throw_def
    os_Lstat_def syscall_def Let_def info_of_def os_Mkdir_def new_inode_def is_directory_def os_Chmod_def os_Open_def file_Chmod_def touch_def
    io_wrap_def openStore_def readPrivateRegularFile_def privateRegularFileInfo_def stamp_def ex_opened_def fun_eq_iff)

lemma ex_serve_close:
  "(case presenter_Serve True (presenter_NewAt (Some ex_run) ex_runtime) ex_opened of
      (e, life, t) \<Rightarrow> e = None \<and> fst (presenter_CloseServer life NewPresenter t) = None) = True"
  by code_simp

lemma ex_run_succeeds: "map_option fst (Run ex_platform (Some None) ex_config ex_runtime) = Some None"
proof -
  obtain owner where ow: "owner_start (pf_clock ex_platform) (Some (pf_delivered ex_platform)) (Some (newStore (pf_codec ex_platform) [])) = Some owner"
    using owner_start_total by blast
  obtain life u where v: "presenter_Serve True (presenter_NewAt (Some ex_run) ex_runtime) ex_opened = (None, life, u)"
    "fst (presenter_CloseServer life NewPresenter u) = None"
    using ex_serve_close by (auto split: prod.splits)
  obtain e l r t where c: "presenter_CloseServer life NewPresenter u = (e, l, r, t)" by (metis prod_cases4)
  have cf: "cf_StateHome ex_config = None" "cf_RuntimeDir ex_config = None" "pf_XDG_RUNTIME_DIR ex_platform = Some ex_run"
    by (simp_all add: ex_config_def ex_platform_def)
  have pf: "pf_ConnectSessionBus ex_platform = None" "pf_flush ex_platform = None" "pf_storeClose ex_platform = None" "pf_connClose ex_platform = None"
    "pf_meanwhile ex_platform = (\<lambda>d. (Cancelled, the (dm_owner d), dm_registry d, dm_files d))"
    "ba_Export (pf_bus ex_platform) = None" "ba_AddMatchSignal (pf_bus ex_platform) = None" "ba_RequestName (pf_bus ex_platform) = Inr True"
    "ba_Unexport (pf_bus ex_platform) = None" "ba_RemoveMatchSignal (pf_bus ex_platform) = None" "ba_ReleaseName (pf_bus ex_platform) = Inr True"
    by (simp_all add: ex_platform_def)
  show ?thesis
    using v(2) c by (simp add: Run_def cf ex_open ow v(1) serve_service_def pf failed_def shutdown_def shutdown_presenter_def shutdown_service_def
        shutdown_owner_def shutdown_store_def shutdown_conn_def fdo_Serve_def fdo_Close_def NewServer_def Let_def map_filter_simps ending_error_def)
qed


end
