(* ===== verification/Spec2Isabelle.thy ===== *)
theory Spec2Isabelle
  imports OwnerOps OwnerClients HistoryProps CallOrder ConnectionProps FdoProps Frame CommandsProps WireProps PresenterResync Durable App
begin

text \<open>
  Verification of the notification daemon sysc-notify.

  \<^bold>\<open>The program.\<close> The daemon implements the desktop notification service on D-Bus. One goroutine, the state owner
  (\<open>src/internal/state\<close>), holds every active notification; all other parts send it commands. The D-Bus server
  (\<open>src/internal/fdo\<close>) turns method calls into commands and the owner's events into signals. A presenter, the program that shows the
  notifications, connects over a Unix socket (\<open>src/internal/presenter\<close>), gets a snapshot and then numbered deltas, and sends
  commands back, in the frames and JSON messages of \<open>src/protocol\<close>. Closed notifications go to the history
  (\<open>src/internal/history\<close>), which a worker goroutine writes to disk. \<open>src/internal/notify\<close> and \<open>src/internal/sender\<close> normalize what the bus delivers,
  and \<open>src/internal/app\<close> starts and stops all of it.

  \<^bold>\<open>Theories and sources.\<close>

  \<^item> \<open>Prelude\<close>: integers at their width, byte strings, time, errors as values (\<open>err\<close>, \<open>errors_Is\<close>), UTF-8. \<open>Contracts\<close>: the locales.
  \<^item> \<open>Protocol\<close>: \<open>protocol/types.go\<close>, \<open>validate.go\<close>. \<open>Frame\<close>: \<open>protocol/frame.go\<close>. \<open>Json\<close>: what the program uses of \<open>encoding/json\<close> to write.
  \<^item> \<open>Notify\<close>, \<open>Normalize\<close>, \<open>NormalizeProps\<close>: \<open>internal/notify\<close>. \<open>Lineage\<close>: \<open>internal/sender/lineage.go\<close>.
  \<^item> \<open>Owner\<close>: \<open>internal/state/owner.go\<close> and \<open>expiry.go\<close>. The fields of \<open>ownerState\<close> are those of the Go struct \<open>ownerState\<close>, with the
    readings of the clock and the published events beside them; \<open>serve\<close> is one turn of the loop in \<open>run\<close>. \<open>OwnerInv\<close>, \<open>OwnerSteps\<close>, \<open>OwnerServe\<close>, \<open>OwnerLoop\<close>,
    \<open>OwnerGenerations\<close>: its invariant, operation by operation. \<open>OwnerProps\<close>, \<open>OwnerOps\<close>: its properties. \<open>OwnerClients\<close>: the callers
    of \<open>Do\<close>, \<open>Snapshot\<close> and \<open>Close\<close> and their channels.
  \<^item> \<open>HistoryImage\<close>, \<open>History\<close>, \<open>HistoryMirror\<close>, \<open>HistoryProps\<close>, \<open>GenuineImages\<close>: the store in memory, \<open>internal/history/store.go\<close>, \<open>schema.go\<close>, \<open>image.go\<close>.
  \<^item> \<open>Files\<close>: the file system. \<open>HistoryFiles\<close>: every file operation of the history. \<open>HistoryFilesProps\<close>, \<open>HistoryCommit\<close>, \<open>HistoryReload\<close>,
    \<open>HistoryDisk\<close>: commits, reloading, quarantine. \<open>Persist\<close>: \<open>persistLoop\<close>, \<open>Flush\<close> and \<open>Close\<close> of \<open>store.go\<close>.
  \<^item> \<open>OwnerHistory\<close>: a turn of the owner as operations on its store. \<open>Durable\<close>: the owner, the store and its worker side by side, up to the
    end of \<open>shutdown\<close> in \<open>internal/app/run.go\<close>.
  \<^item> \<open>CallOrder\<close>: \<open>internal/fdo/order.go\<close>. \<open>Fdo\<close>, \<open>FdoProps\<close>: \<open>internal/fdo/convert.go\<close>, \<open>server.go\<close>, and \<open>Owner.Do\<close>.
  \<^item> \<open>Connection\<close>, \<open>ConnectionProps\<close>: the queues and the writer of \<open>internal/presenter/connection.go\<close>. \<open>Commands\<close>, \<open>CommandsProps\<close>: its reader.
  \<^item> \<open>Wire\<close>, \<open>WireProps\<close>: the messages and the snapshot frame of \<open>internal/presenter/server.go\<close>. \<open>PresenterServer\<close>, \<open>PresenterProps\<close>: publishing and the stages
    of a handler. \<open>PresenterView\<close>, \<open>PresenterStream\<close>: from the owner to the frames on every wire. \<open>PresenterResync\<close>: the way from an overflow to a new snapshot. \<open>Runtime\<close>, \<open>RuntimeProps\<close>: the runtime directory and the socket. \<open>PresenterLife\<close>: \<open>Serve\<close>, the accept loop and \<open>Close\<close>.
  \<^item> \<open>App\<close>: \<open>internal/app/run.go\<close>, and \<open>Open\<close> of the history.

  \<^bold>\<open>How code is modelled.\<close> A function keeps the name of the source, prefixed where two packages share it (\<open>fdo_Close\<close>,
  \<open>presenter_Close\<close>) or where HOL has the name. Structs are records, enums datatypes, errors values; \<open>None\<close> as the result of a function that
  returns an option stands for a panic, a nil dereference or an endless loop of the source, and the theorems exclude it.
  Copies that only guard against aliasing (the \<open>clone\<close> functions) are values. Goroutines that share state are step relations: \<open>conn_step\<close>,
  \<open>presenter_step\<close>, \<open>call_step\<close>, \<open>call_owner\<close>, \<open>persist_step\<close> and \<open>system_step\<close> take one critical section or one channel operation at a time, in any order.

  \<^bold>\<open>Parameters.\<close> The clock, the answers of the bus, the sink's answers to the owner, the PNG codec and SHA-256 (\<open>codec\<close>), reading
  \<open>/proc\<close>, the JSON decoders (\<open>decoder\<close>, \<open>docDecoder\<close>), the text of times and errors, the addresses of metadata objects, and the faults of
  system calls (\<open>fs_faults\<close>). Theorems about the disk ask that a file whose metadata the program trusts holds what it trusts it
  to hold (\<open>disk_sound\<close>), that is, that no two images collide in their digests and nobody forges time stamps.

  \<^bold>\<open>Fuel and bounds.\<close> The duplicate-key scan has fuel for twice the number of tokens, which is proved to be enough. \<open>writeImage\<close>
  may call itself once; its facts hold for every positive fuel. Temporary names are tried 10000 times, as in \<open>os.CreateTemp\<close>. All other
  recursion is structural or has a termination proof. Sequence numbers, IDs and generations are words and wrap around.

  \<^bold>\<open>Contracts.\<close> \<open>guarded_machine\<close>, a machine whose invariant every step keeps, is interpreted on the call order, the connection, the
  connection fed by the owner, the presenter server, that server with the contents of its connections and with its resyncs and, through the sublocale of \<open>atomic_writer\<close>, on the persistence protocol;
  \<open>monotone_machine\<close> extends it for the owner's generations;
  \<open>composed_machine\<close>, a machine one part of which is another one, on the callers around the owner, on the presenter server around the owner and on the daemon
  around its persistence; \<open>mirrored\<close>, a machine whose clients rebuild its state from its notices, on
  the owner and on the history store; \<open>atomic_writer\<close>, what the persistence protocol asks of a commit, on the commits of \<open>HistoryFiles\<close>.

  \<^bold>\<open>What is shown.\<close> The owner never gets stuck, its tables agree, its snapshots and deltas are valid, numbered without a gap and sufficient to
  rebuild its state, its timer is exact, stale presenters are refused for good, and concurrent calls of it are
  linearizable. The history stays within its limits, its size is
  computed exactly, commits are atomic under every failure, what was flushed survives a restart, no wake-up of the
  worker is lost, and nothing the owner has retained is missing on disk after a clean shutdown. A presenter's stream has no gap whatever overflows, its buffers are bounded, the handshake hands over exactly, and a presenter that has read everything
  it was sent shows exactly what the owner holds; one that has fallen behind gets its snapshot or is disconnected. Calls of
  one sender run in the order of their arrival. Requests are normalized within bounds, and framing and the strict reader agree with
  their specifications. The daemon listens only on a private socket and shuts down completely. Where the code does not do what it
  means to, a theorem says so: an escaped image path that fails a call, a snapshot without a frame, a start that an interrupted one blocks.

  \<^bold>\<open>Not modelled.\<close> \<open>src/cmd/sysc-notify/main.go\<close> and \<open>src/internal/dbustest\<close> (process glue and test support), \<open>fileinfo_other.go\<close> (other systems), the D-Bus library
  and its wire format, sockets below the level of frames and their deadlines, the peer's credentials, logging, and \<open>filepath.Abs\<close> and \<open>Clean\<close>: paths are given as clean absolute ones. What other processes do to the
  files while an operation of the daemon runs is not modelled either. A history file edited by hand may exceed the write budget after it was
  read; the bounds are stated for stores that the daemon's own operations produce.
\<close>

end
